(* ===== verification/Prelude.thy ===== *)
theory Prelude
  imports Main "HOL-Library.Word"
begin

text \<open>
  Shared vocabulary of the development: the machine integers and characters of the Pawn
  compiler's C code, C strings, the result type of operations that can stop the compiler,
  and sequencing of such operations.

  \<^item> \<open>cell\<close> is the 32-bit abstract-machine cell (\<open>PAWN_CELL_SIZE == 32\<close>, the
    value \<open>compiler/libpc300/AMBuilder\<close> builds \<open>amxxpc32\<close> with); \<open>cell\<close> and
    \<open>ucell\<close> of the source are the same bits.
  \<^item> A C string is the list of its bytes up to, not including, the terminating zero;
    \<open>deref\<close> is the byte a \<open>char *\<close> points to, the zero at the end of the string.
  \<^item> An operation that can end the compilation returns \<open>fault + 'a\<close>: a call of
    \<open>error()\<close> with a fatal number is \<open>Fatal n\<close>, a failing \<open>assert\<close> is
    \<open>AssertFail\<close> (the build keeps asserts unless it is optimised) and an access outside
    the block a pointer points into, undefined in C, is \<open>OutOfBounds\<close>.
    \<open>NoFuel\<close> marks a loop of the model that ran out of its bound; the theories that
    use a bound prove that it is never reached.
  \<^item> \<open>malloc\<close> is a parameter: \<open>heap\<close> says which requests it grants and what the
    bytes of a fresh block are.
\<close>

named_theorems cchar_simps \<open>definitions of the ctype classifications\<close>

subsection \<open>Machine integers and bytes\<close>

type_synonym cell = "32 word"
type_synonym byte = "8 word"

unbundle bit_operations_syntax

abbreviation ord :: "char \<Rightarrow> nat" where
  "ord c \<equiv> of_char c"

definition TAB :: char where "TAB = CHR 0x09"
definition NL :: char where "NL = CHR 0x0A"
definition NUL :: char where "NUL = CHR 0x00"

lemma char_consts [simp]: "TAB \<noteq> NL" "NL \<noteq> TAB" "TAB \<noteq> NUL" "NUL \<noteq> TAB" "NL \<noteq> NUL" "NUL \<noteq> NL"
  by (simp_all add: TAB_def NL_def NUL_def)

lemma sint_of_int_cell: "- (2 ^ 31) \<le> x \<Longrightarrow> x < 2 ^ 31 \<Longrightarrow> sint (of_int x :: cell) = x"
  by (subst int_word_sint) (simp add: mod_pos_pos_trivial)

subsection \<open>The ctype classifications in the C locale\<close>

definition isspace :: "char \<Rightarrow> bool" where [cchar_simps]:
  "isspace c \<longleftrightarrow> ord c = 32 \<or> (9 \<le> ord c \<and> ord c \<le> 13)"

definition isdigit :: "char \<Rightarrow> bool" where [cchar_simps]:
  "isdigit c \<longleftrightarrow> 48 \<le> ord c \<and> ord c \<le> 57"

definition isupper :: "char \<Rightarrow> bool" where [cchar_simps]:
  "isupper c \<longleftrightarrow> 65 \<le> ord c \<and> ord c \<le> 90"

definition islower :: "char \<Rightarrow> bool" where [cchar_simps]:
  "islower c \<longleftrightarrow> 97 \<le> ord c \<and> ord c \<le> 122"

definition isalpha :: "char \<Rightarrow> bool" where [cchar_simps]:
  "isalpha c \<longleftrightarrow> isupper c \<or> islower c"

definition tolower :: "char \<Rightarrow> char" where [cchar_simps]:
  "tolower c = (if isupper c then char_of (ord c + 32) else c)"

lemma isspace_consts [simp]: "isspace TAB" "isspace NL" "isspace CHR '' ''" "\<not> isspace NUL"
  by (simp_all add: isspace_def TAB_def NL_def NUL_def)

subsection \<open>C strings\<close>

fun deref :: "string \<Rightarrow> char" where
  "deref [] = NUL"
| "deref (c # s) = c"

lemma deref_append [simp]: "s \<noteq> [] \<Longrightarrow> deref (s @ t) = deref s"
  by (cases s) auto

text \<open>\<open>strcmp\<close> as the difference of the first bytes that differ.\<close>

fun strcmp :: "string \<Rightarrow> string \<Rightarrow> int" where
  "strcmp [] [] = 0"
| "strcmp [] (y # ys) = - int (ord y)"
| "strcmp (x # xs) [] = int (ord x)"
| "strcmp (x # xs) (y # ys) = (if x = y then strcmp xs ys else int (ord x) - int (ord y))"

definition stricmp :: "string \<Rightarrow> string \<Rightarrow> int" where
  "stricmp s t = strcmp (map tolower s) (map tolower t)"

text \<open>A string the C code can hold: no zero byte inside.\<close>

definition cstring :: "string \<Rightarrow> bool" where
  "cstring s \<longleftrightarrow> NUL \<notin> set s"

lemma cstring_simps [simp]:
  "cstring []" "cstring (c # s) \<longleftrightarrow> c \<noteq> NUL \<and> cstring s" "cstring (s @ t) \<longleftrightarrow> cstring s \<and> cstring t"
  by (auto simp: cstring_def)

lemma ord_NUL_iff: "ord c = 0 \<longleftrightarrow> c = NUL"
proof -
  have "ord NUL = 0" by (simp add: NUL_def)
  then show ?thesis using of_char_eq_iff [of c NUL, where 'a = nat] by simp
qed

lemma ord_pos: "c \<noteq> NUL \<Longrightarrow> 0 < ord c"
  by (simp add: ord_NUL_iff [symmetric])

lemma strcmp_same [simp]: "strcmp s s = 0"
  by (induction s) auto

lemma strcmp_eq_0: "cstring s \<Longrightarrow> cstring t \<Longrightarrow> strcmp s t = 0 \<longleftrightarrow> s = t"
proof (induction s t rule: strcmp.induct)
  case (4 x xs y ys)
  then show ?case by (simp add: of_char_eq_iff)
qed (simp_all add: ord_NUL_iff)

lemma strcmp_antisym: "strcmp t s = - strcmp s t"
  by (induction s t rule: strcmp.induct) auto

lemma strcmp_trans:
  "cstring s \<Longrightarrow> cstring t \<Longrightarrow> cstring u \<Longrightarrow> strcmp s t \<le> 0 \<Longrightarrow> strcmp t u \<le> 0 \<Longrightarrow> strcmp s u \<le> 0"
proof (induction s t arbitrary: u rule: strcmp.induct)
  case 1
  then show ?case by simp
next
  case (2 y ys)
  then show ?case by (cases u) auto
next
  case (3 x xs)
  then show ?case by (auto dest: ord_pos)
next
  case (4 x xs y ys)
  then show ?case by (cases u) (auto split: if_splits dest: ord_pos)
qed

lemma strcmp_less_trans:
  assumes "cstring s" "cstring t" "cstring u" "strcmp s t < 0" "strcmp t u \<le> 0"
  shows "strcmp s u < 0"
proof -
  have "strcmp s u \<le> 0" using assms by (intro strcmp_trans [of s t u]) auto
  moreover have "strcmp s u \<noteq> 0"
  proof
    assume "strcmp s u = 0"
    with assms have "s = u" by (simp add: strcmp_eq_0)
    with assms show False using strcmp_antisym [of t s] by simp
  qed
  ultimately show ?thesis by simp
qed

subsection \<open>Operations that can stop the compiler\<close>

datatype fault = Fatal nat | AssertFail | OutOfBounds | NoFuel | LongJump "byte list"

fun bind_res :: "fault + 'a \<Rightarrow> ('a \<Rightarrow> fault + 'b) \<Rightarrow> fault + 'b" where
  "bind_res (Inl e) f = Inl e"
| "bind_res (Inr x) f = f x"

record heap =
  granted :: "nat \<Rightarrow> bool"
  junk :: "nat \<Rightarrow> char"

definition fresh :: "heap \<Rightarrow> nat \<Rightarrow> nat \<Rightarrow> string" where
  "fresh h from n = map (junk h) [from..<from + n]"

lemma length_fresh [simp]: "length (fresh h i n) = n"
  by (simp add: fresh_def)

text \<open>\<open>memcpy(base + off, src, n)\<close> on a block of bytes.\<close>

definition memcpy :: "'a list \<Rightarrow> int \<Rightarrow> 'a list \<Rightarrow> fault + 'a list" where
  "memcpy base off src =
     (if 0 \<le> off \<and> off + int (length src) \<le> int (length base)
      then Inr (take (nat off) base @ src @ drop (nat off + length src) base)
      else Inl OutOfBounds)"

lemma memcpy_length: "memcpy base off src = Inr b \<Longrightarrow> length b = length base"
  by (auto simp: memcpy_def split: if_splits)

text \<open>The C string that starts at an offset of a block: it has to end inside the block.\<close>

definition cstr_at :: "string \<Rightarrow> nat \<Rightarrow> fault + string" where
  "cstr_at buf i =
     (if NUL \<in> set (drop i buf) then Inr (takeWhile (\<lambda>c. c \<noteq> NUL) (drop i buf)) else Inl OutOfBounds)"

lemma takeWhile_cstring: "cstring s \<Longrightarrow> takeWhile (\<lambda>c. c \<noteq> NUL) (s @ NUL # t) = s"
  by (induction s) auto

lemma cstr_at_0: "cstring s \<Longrightarrow> cstr_at (s @ NUL # t) 0 = Inr s"
  by (simp add: cstr_at_def takeWhile_cstring)

text \<open>A sequence of C statements, each of which maps the state to a state or a fault.\<close>

fun seq :: "('s \<Rightarrow> fault + 's) list \<Rightarrow> 's \<Rightarrow> fault + 's" where
  "seq [] s = Inr s"
| "seq (f # fs) s = bind_res (f s) (seq fs)"

definition skip :: "'s \<Rightarrow> fault + 's" where
  "skip s = Inr s"

definition c_assert :: "bool \<Rightarrow> 's \<Rightarrow> fault + 's" where
  "c_assert b s = (if b then Inr s else Inl AssertFail)"

lemma bind_res_Inr [simp]: "bind_res r f = Inr y \<longleftrightarrow> (\<exists>x. r = Inr x \<and> f x = Inr y)"
  by (cases r) auto

lemma bind_res_assoc: "bind_res (bind_res r f) g = bind_res r (\<lambda>x. bind_res (f x) g)"
  by (cases r) auto

lemma seq_append: "seq (fs @ gs) s = bind_res (seq fs s) (seq gs)"
proof (induction fs arbitrary: s)
  case (Cons f fs)
  then show ?case by (cases "f s") simp_all
qed simp

lemma seq_single [simp]: "seq [f] s = f s"
  by (cases "f s") auto

lemma seq_invariant:
  assumes "seq fs s = Inr t" "P s"
    and "\<And>f s t. f \<in> set fs \<Longrightarrow> P s \<Longrightarrow> f s = Inr t \<Longrightarrow> P t"
  shows "P t"
  using assms
proof (induction fs arbitrary: s)
  case (Cons f fs)
  from Cons.prems(1) obtain u where "f s = Inr u" "seq fs u = Inr t" by auto
  then show ?case using Cons by (metis list.set_intros(1) list.set_intros(2))
qed simp

end
