(* ===== verification/Hex.thy ===== *)
theory Hex
  imports Prelude
begin

text \<open>
  Numbers in the intermediate assembler text: \<open>itoh\<close> of \<open>sc2.c\<close> prints a cell in
  hexadecimal, \<open>hex2long\<close> and \<open>getparam\<close> of \<open>sc6.c\<close> read it back. The
  locale \<open>cell_codec\<close> is the contract between the code generator, which prints
  parameters, and the assembler, which reads them; it is interpreted on the two functions.
\<close>

subsection \<open>Printing: itoh\<close>

fun nibbles :: "nat \<Rightarrow> cell \<Rightarrow> nat list" where
  "nibbles 0 val = []"
| "nibbles (Suc n) val = unat (val AND 0x0f) # nibbles n (drop_bit 4 val)"

fun highest :: "nat list \<Rightarrow> nat \<Rightarrow> nat" where
  "highest ns 0 = 0"
| "highest ns (Suc i) = (if ns ! Suc i = 0 then highest ns i else Suc i)"

definition hexchar :: "nat \<Rightarrow> char" where
  "hexchar d = (if d \<ge> 10 then char_of (97 + (d - 10)) else char_of (48 + d))"

definition itoh :: "cell \<Rightarrow> string" where
  "itoh val =
     (let ns = nibbles 8 val; i = highest ns 7 in map hexchar (rev (take (Suc i) ns)))"

subsection \<open>Reading: hex2long and getparam\<close>

definition hexdigit :: "char \<Rightarrow> nat option" where
  "hexdigit c =
     (if isdigit c then Some (ord c - 48)
      else if 97 \<le> ord c \<and> ord c \<le> 102 then Some (ord c - 97 + 10)
      else if 65 \<le> ord c \<and> ord c \<le> 70 then Some (ord c - 65 + 10)
      else None)"

fun hexdigits :: "cell \<Rightarrow> string \<Rightarrow> cell \<times> string" where
  "hexdigits result [] = (result, [])"
| "hexdigits result (c # s) =
     (case hexdigit c of
        Some digit \<Rightarrow> hexdigits (push_bit 4 result OR of_nat digit) s
      | None \<Rightarrow> (result, c # s))"

definition skipblank :: "string \<Rightarrow> string" where
  "skipblank s = dropWhile (\<lambda>c. c = CHR '' '' \<or> c = TAB) s"

definition hex2long :: "string \<Rightarrow> fault + (cell \<times> string)" where
  "hex2long str =
     (let s = skipblank str;
          negate = (deref s = CHR ''-'');
          s = (if negate then tl s else s)
      in if hexdigit (deref s) = None then Inl AssertFail
         else let (result, n) = hexdigits 0 s
              in Inr (if negate then NOT result + 1 else result, n))"

lemma hexdigits_length: "length (snd (hexdigits r s)) \<le> length s"
  by (induction r s rule: hexdigits.induct) (auto split: option.splits)

lemma hexdigits_length': "(v, rest) = hexdigits r s \<Longrightarrow> length rest \<le> length s"
  by (metis hexdigits_length snd_conv)

lemma hexdigit_NUL [simp]: "hexdigit NUL = None"
  by (simp add: hexdigit_def NUL_def isdigit_def)

lemma hex2long_consumes: "hex2long s = Inr (v, n) \<Longrightarrow> length n < length s"
proof -
  assume h: "hex2long s = Inr (v, n)"
  define u where "u = skipblank s"
  define w where "w = (if deref u = CHR ''-'' then tl u else u)"
  have lu: "length u \<le> length s" by (simp add: u_def skipblank_def length_dropWhile_le)
  have lw: "length w \<le> length u" by (simp add: w_def)
  from h have d: "hexdigit (deref w) \<noteq> None" and n: "n = snd (hexdigits 0 w)"
    by (auto simp: hex2long_def u_def w_def Let_def split: if_splits prod.splits)
  from d obtain c w' where w: "w = c # w'" by (cases w) auto
  with d n have "length n \<le> length w'" by (auto simp: hexdigits_length)
  with w lw lu show ?thesis by simp
qed

function getparam_from :: "cell \<Rightarrow> string \<Rightarrow> fault + (cell \<times> string)" where
  "getparam_from result s =
     (case hex2long s of
        Inl e \<Rightarrow> Inl e
      | Inr (v, s') \<Rightarrow>
          if deref s' \<noteq> CHR ''+'' then Inr (result + v, s')
          else getparam_from (result + v) (tl s'))"
  by pat_completeness auto
termination
  by (relation "measure (\<lambda>(r, s). length s)") (auto dest!: hex2long_consumes)

declare getparam_from.simps [simp del]

definition getparam :: "string \<Rightarrow> fault + (cell \<times> string)" where
  "getparam s = getparam_from 0 s"

subsection \<open>Round trip\<close>

lemma hexdigit_hexchar: "d < 16 \<Longrightarrow> hexdigit (hexchar d) = Some d"
  by (auto simp: hexdigit_def hexchar_def isdigit_def)

lemma length_nibbles [simp]: "length (nibbles n v) = n"
  by (induction n arbitrary: v) auto

lemma nibble_less: "unat (v AND 0x0f :: cell) < 16"
proof -
  have "v AND 0x0f \<le> (0x0f :: cell)" by (rule word_and_le1)
  then show ?thesis by (simp add: word_le_nat_alt)
qed

lemma nibbles_less: "d \<in> set (nibbles n v) \<Longrightarrow> d < 16"
  by (induction n arbitrary: v) (auto simp: nibble_less)

definition horner :: "cell \<Rightarrow> nat list \<Rightarrow> cell" where
  "horner r ds = foldl (\<lambda>r d. push_bit 4 r OR of_nat d) r ds"

lemma horner_simps [simp]:
  "horner r [] = r" "horner r (d # ds) = horner (push_bit 4 r OR of_nat d) ds"
  "horner r (ds @ [d]) = push_bit 4 (horner r ds) OR of_nat d"
  by (simp_all add: horner_def)

lemma hexdigits_printed:
  assumes "\<forall>d \<in> set ds. d < 16" "hexdigit (deref rest) = None"
  shows "hexdigits r (map hexchar ds @ rest) = (horner r ds, rest)"
  using assms
proof (induction ds arbitrary: r)
  case Nil
  then show ?case by (cases rest) auto
qed (simp add: hexdigit_hexchar)

lemma split_nibble: "push_bit 4 (drop_bit 4 v) OR (v AND 0x0f) = (v :: cell)"
proof -
  have "(0x0f :: cell) = mask 4" by (simp add: mask_eq_exp_minus_1)
  then have "v AND 0x0f = take_bit 4 v" by (simp add: take_bit_eq_mask)
  then show ?thesis by (auto intro!: bit_eqI simp: bit_simps)
qed

lemma horner_nibbles: "unat v < 16 ^ n \<Longrightarrow> horner 0 (rev (nibbles n v)) = v"
proof (induction n arbitrary: v)
  case 0
  then show ?case by (simp add: unat_eq_zero)
next
  case (Suc n)
  have "unat v div 16 < 16 ^ n"
    using Suc.prems by (intro less_mult_imp_div_less) simp
  then have "unat (drop_bit 4 v) < 16 ^ n"
    by (simp add: unat_drop_bit_eq drop_bit_eq_div [of _ "unat v"])
  from Suc.IH [OF this] show ?case by (simp add: split_nibble)
qed

lemma horner_zeros: "horner 0 (replicate k 0 @ ds) = horner 0 ds"
  by (induction k) auto

lemma highest_le: "highest ns i \<le> i"
  by (induction i) auto

lemma above_highest: "highest ns i < k \<Longrightarrow> k \<le> i \<Longrightarrow> ns ! k = 0"
  by (induction i) (auto split: if_splits simp: le_Suc_eq)

lemma horner_trim:
  assumes "length ns = Suc n"
  shows "horner 0 (rev (take (Suc (highest ns n)) ns)) = horner 0 (rev ns)"
proof -
  let ?h = "Suc (highest ns n)"
  have "drop ?h ns = replicate (length ns - ?h) 0"
    using assms above_highest [of ns n]
    by (intro nth_equalityI) auto
  then have "rev ns = replicate (length ns - ?h) 0 @ rev (take ?h ns)"
    by (metis append_take_drop_id rev_append rev_replicate)
  then show ?thesis by (metis horner_zeros)
qed

lemma itoh_horner: "horner 0 (rev (take (Suc (highest (nibbles 8 v) 7)) (nibbles 8 v))) = v"
proof -
  have "unat v < 16 ^ 8" using unsigned_less [of v, where 'a = nat] by simp
  then show ?thesis using horner_trim [of "nibbles 8 v" 7] by (simp add: horner_nibbles)
qed

lemma itoh_nonempty [simp]: "itoh v \<noteq> []"
  by (simp add: itoh_def Let_def numeral_eq_Suc)

lemma hexchar_range: "d < 16 \<Longrightarrow> isdigit (hexchar d) \<or> (97 \<le> ord (hexchar d) \<and> ord (hexchar d) \<le> 102)"
  by (auto simp: hexchar_def isdigit_def)

lemma itoh_chars: "c \<in> set (itoh v) \<Longrightarrow> isdigit c \<or> (97 \<le> ord c \<and> ord c \<le> 102)"
  by (auto simp: itoh_def Let_def dest!: in_set_takeD nibbles_less hexchar_range)

lemma itoh_deref: "isdigit (deref (itoh v)) \<or> (97 \<le> ord (deref (itoh v)) \<and> ord (deref (itoh v)) \<le> 102)"
  by (metis deref.simps(2) itoh_chars itoh_nonempty list.set_intros(1) neq_Nil_conv)

lemma itoh_cstring [simp]: "cstring (itoh v)"
  unfolding cstring_def
proof
  assume "NUL \<in> set (itoh v)"
  from itoh_chars [OF this] show False by (simp add: NUL_def isdigit_def)
qed

lemma itoh_no_blank: "c \<in> set (itoh v) \<Longrightarrow> \<not> isspace c \<and> c \<noteq> CHR '';''"
  by (auto simp: isspace_def isdigit_def dest!: itoh_chars)

lemma itoh_no_nl [simp]: "NL \<notin> set (itoh v)" "CHR '';'' \<notin> set (itoh v)"
  using itoh_no_blank [of NL] itoh_no_blank [of "CHR '';''"] by auto

lemma length_itoh: "length (itoh v) \<le> 8"
  using highest_le [of "nibbles 8 v" 7] by (simp add: itoh_def Let_def)

text \<open>The minus sign of \<open>-%1\<close> in the peephole patterns is read as two's complement.\<close>

lemma hexdigits_itoh:
  assumes "hexdigit (deref rest) = None"
  shows "hexdigits 0 (itoh v @ rest) = (v, rest)"
proof -
  let ?ds = "rev (take (Suc (highest (nibbles 8 v) 7)) (nibbles 8 v))"
  have "itoh v = map hexchar ?ds" by (simp add: itoh_def Let_def)
  moreover have "\<forall>d \<in> set ?ds. d < 16" by (auto dest!: in_set_takeD nibbles_less)
  ultimately show ?thesis using hexdigits_printed [of ?ds rest 0] assms by (simp only: itoh_horner)
qed

lemma itoh_first: "\<exists>c s. itoh v = c # s \<and> hexdigit c \<noteq> None \<and> c \<noteq> CHR ''-'' \<and> c \<noteq> CHR '' '' \<and> c \<noteq> TAB"
  using itoh_deref [of v]
  by (cases "itoh v") (auto simp: hexdigit_def isdigit_def TAB_def)

lemma hex2long_itoh:
  assumes "hexdigit (deref rest) = None"
  shows "hex2long (itoh v @ rest) = Inr (v, rest)"
proof -
  obtain c s where it: "itoh v = c # s" "hexdigit c \<noteq> None" "c \<noteq> CHR ''-''" "c \<noteq> CHR '' ''" "c \<noteq> TAB"
    using itoh_first by blast
  with hexdigits_itoh [OF assms, of v] show ?thesis
    by (simp add: hex2long_def skipblank_def del: hexdigits.simps)
qed

lemma hex2long_neg_itoh:
  assumes "hexdigit (deref rest) = None"
  shows "hex2long (CHR ''-'' # itoh v @ rest) = Inr (- v, rest)"
proof -
  obtain c s where it: "itoh v = c # s" "hexdigit c \<noteq> None"
    using itoh_first by blast
  with hexdigits_itoh [OF assms, of v] show ?thesis
    by (simp add: hex2long_def skipblank_def TAB_def minus_eq_not_plus_1 del: hexdigits.simps)
qed

lemma getparam_itoh:
  assumes "hexdigit (deref rest) = None" "deref rest \<noteq> CHR ''+''"
  shows "getparam (itoh v @ rest) = Inr (v, rest)"
  using assms by (simp add: getparam_def getparam_from.simps hex2long_itoh)

lemma getparam_sum_itoh:
  assumes "hexdigit (deref rest) = None" "deref rest \<noteq> CHR ''+''"
  shows "getparam (itoh a @ CHR ''+'' # itoh b @ rest) = Inr (a + b, rest)"
proof -
  have plus: "hexdigit (deref (CHR ''+'' # itoh b @ rest)) = None"
    by (simp add: hexdigit_def isdigit_def)
  show ?thesis
    unfolding getparam_def
    by (subst getparam_from.simps, simp add: hex2long_itoh [OF plus],
        subst getparam_from.simps, simp add: hex2long_itoh [OF assms(1)] assms(2))
qed

subsection \<open>Printing and parsing as an interface\<close>

text \<open>
  What the code generator and the assembler agree on: a printed cell is read back, whatever
  follows it as long as that stops the parser.
\<close>

locale cell_codec =
  fixes print :: "cell \<Rightarrow> string"
    and parse :: "string \<Rightarrow> fault + (cell \<times> string)"
    and stops :: "string \<Rightarrow> bool"
  assumes parse_print: "stops rest \<Longrightarrow> parse (print v @ rest) = Inr (v, rest)"
    and stops_Nil: "stops []"
begin

lemma print_inj: "print v = print w \<Longrightarrow> v = w"
  using parse_print [OF stops_Nil, of v] parse_print [OF stops_Nil, of w] by simp

lemma parse_two:
  assumes "stops (c # print w @ rest)" "stops rest"
  shows "bind_res (parse (print v @ c # print w @ rest)) (\<lambda>(a, r). bind_res (parse (tl r)) (\<lambda>(b, r). Inr (a, b, r))) =
    Inr (v, w, rest)"
  by (simp add: parse_print [OF assms(1)] parse_print [OF assms(2)])

end

interpretation operand: cell_codec itoh getparam "\<lambda>rest. hexdigit (deref rest) = None \<and> deref rest \<noteq> CHR ''+''"
  by unfold_locales (auto simp: getparam_itoh, simp add: NUL_def)

lemma getparam_neg_itoh:
  assumes "hexdigit (deref rest) = None" "deref rest \<noteq> CHR ''+''"
  shows "getparam (CHR ''-'' # itoh v @ rest) = Inr (- v, rest)"
  using assms by (simp add: getparam_def getparam_from.simps hex2long_neg_itoh)

subsection \<open>The properties of the hexadecimal operands\<close>

text \<open>C21: The assembler reads back the operands the code generator and the optimiser print:
  a cell, a negated cell (\<open>-%1\<close> of the optimiser's patterns) and a sum, with wrap-around, and
  leaves the text behind them, for any text that does not continue the operand: its first
  character is neither a hexadecimal digit nor a plus sign.\<close>

theorem operand_roundtrip:
  assumes "hexdigit (deref rest) = None" "deref rest \<noteq> CHR ''+''"
  shows "getparam (itoh v @ rest) = Inr (v, rest) \<and>
    getparam (CHR ''-'' # itoh v @ rest) = Inr (- v, rest) \<and>
    getparam (itoh a @ CHR ''+'' # itoh b @ rest) = Inr (a + b, rest)"
  using assms by (simp add: getparam_itoh getparam_neg_itoh getparam_sum_itoh)

theorem operand_roundtrip_witness:
  "getparam (itoh 255 @ [NL]) = Inr (255, [NL]) \<and> getparam (CHR ''-'' # itoh 255 @ [NL]) = Inr (- 255, [NL]) \<and>
   getparam (itoh 0xFFFFFFFF @ CHR ''+'' # itoh 2 @ [NL]) = Inr (0xFFFFFFFF + 2, [NL])"
  by (rule operand_roundtrip) (simp_all add: hexdigit_def isdigit_def NL_def)

text \<open>Printed numbers are C strings of one to eight characters, none of them a blank, a newline
  or the semicolon that starts a comment, and different numbers print differently.\<close>

theorem itoh_text:
  "cstring (itoh v) \<and> 1 \<le> length (itoh v) \<and> length (itoh v) \<le> 8 \<and>
   list_all (\<lambda>c. \<not> isspace c \<and> c \<noteq> CHR '';'') (itoh v) \<and> (itoh v = itoh w \<longleftrightarrow> v = w)"
  using itoh_no_blank [of _ v] operand.print_inj [of v w]
  by (auto simp: list_all_iff length_itoh Suc_le_eq)

end
