(* ===== verification/MemFile.thy ===== *)
theory MemFile
  imports Prelude
begin

text \<open>
  The memory file that holds the intermediate assembler text: \<open>memfile.c\<close> (the growing
  byte block with a file position), \<open>scmemfil.c\<close> (seek, line reading and writing on it)
  and the \<open>pc_*asm\<close> functions of \<open>libpawnc.c\<close> built on them.

  The locale \<open>asm_text\<close> is what the assembler relies on: a reset position, appended text,
  and line reads that deliver the text in pieces. It is interpreted on the memory file.
\<close>

subsection \<open>memfile.c\<close>

record memfile =
  mf_name :: string
  mf_base :: "char list"
  mf_offs :: int
  mf_usedoffs :: int
  mf_size :: nat
  mf_static :: bool

definition memfile_creat :: "heap \<Rightarrow> string \<Rightarrow> nat \<Rightarrow> memfile option" where
  "memfile_creat h name init =
     (if \<not> granted h init then None
      else Some \<lparr>mf_name = name, mf_base = fresh h 0 init, mf_offs = 0, mf_usedoffs = 0,
                 mf_size = init, mf_static = False\<rparr>)"

definition memfile_seek :: "memfile \<Rightarrow> int \<Rightarrow> memfile" where
  "memfile_seek mf seek = mf\<lparr>mf_offs := seek\<rparr>"

definition memfile_tell :: "memfile \<Rightarrow> int" where
  "memfile_tell mf = mf_offs mf"

text \<open>The bytes read (their number is the C result) and the file after the read.\<close>

definition memfile_read :: "memfile \<Rightarrow> nat \<Rightarrow> fault + (string \<times> memfile)" where
  "memfile_read mf maxsize =
     (if maxsize = 0 \<or> mf_offs mf \<ge> mf_usedoffs mf then Inr ([], mf)
      else let maxsize = (if mf_usedoffs mf - mf_offs mf < int maxsize
                          then nat (mf_usedoffs mf - mf_offs mf) else maxsize)
           in if maxsize = 0 then Inr ([], mf)
              else if mf_offs mf < 0 \<or> mf_offs mf + int maxsize > int (length (mf_base mf))
              then Inl OutOfBounds
              else Inr (take maxsize (drop (nat (mf_offs mf)) (mf_base mf)),
                        mf\<lparr>mf_offs := mf_offs mf + int maxsize\<rparr>))"

definition memfile_grow :: "heap \<Rightarrow> memfile \<Rightarrow> nat \<Rightarrow> memfile option" where
  "memfile_grow h mf n =
     (let newsize = (mf_size mf + n) * 2
      in if \<not> granted h newsize then None
         else Some (mf\<lparr>mf_base := mf_base mf @ fresh h (mf_size mf) (newsize - mf_size mf),
                       mf_static := False, mf_size := newsize\<rparr>))"

text \<open>
  \<open>offs + size > mf->size\<close> compares unsigned numbers, so a negative sum is larger than
  any size. The C result is whether the write succeeded. When the file cannot grow its \<open>base\<close>
  is \<open>NULL\<close> afterwards, while the other fields are as before: a block of no bytes here, in which
  every later access is out of bounds.
\<close>

definition memfile_write :: "heap \<Rightarrow> memfile \<Rightarrow> string \<Rightarrow> fault + (bool \<times> memfile)" where
  "memfile_write h mf buffer =
     (let size = length buffer;
          needed = mf_offs mf + int size;
          grown = (if needed > int (mf_size mf) \<or> needed < 0 then memfile_grow h mf size
                   else Some mf)
      in case grown of
           None \<Rightarrow> Inr (False, mf\<lparr>mf_base := []\<rparr>)
         | Some mf \<Rightarrow>
             bind_res (memcpy (mf_base mf) (mf_offs mf) buffer) (\<lambda>base.
               let mf = mf\<lparr>mf_base := base, mf_offs := mf_offs mf + int size\<rparr>
               in Inr (True, if mf_offs mf > mf_usedoffs mf
                             then mf\<lparr>mf_usedoffs := mf_offs mf\<rparr> else mf)))"

subsection \<open>scmemfil.c\<close>

datatype whence = SEEK_SET | SEEK_CUR | SEEK_END

definition mfcreate :: "heap \<Rightarrow> string \<Rightarrow> memfile option" where
  "mfcreate h filename = memfile_creat h filename 4096"

definition mflength :: "memfile \<Rightarrow> int" where
  "mflength mf = mf_usedoffs mf"

definition mfseek :: "memfile \<Rightarrow> int \<Rightarrow> whence \<Rightarrow> fault + (int \<times> memfile)" where
  "mfseek mf offset whence =
     (if mf_usedoffs mf = 0 then Inr (0, mf)
      else if whence = SEEK_END \<and> \<not> offset \<le> 0 then Inl AssertFail
      else let len = mflength mf;
               offset = (case whence of SEEK_SET \<Rightarrow> offset
                                      | SEEK_CUR \<Rightarrow> offset + mf_offs mf
                                      | SEEK_END \<Rightarrow> offset + len);
               offset = (if offset < 0 then 0 else if offset > len then len else offset)
           in Inr (offset, memfile_seek mf offset))"

definition mfwrite :: "heap \<Rightarrow> memfile \<Rightarrow> string \<Rightarrow> fault + (nat \<times> memfile)" where
  "mfwrite h mf buffer =
     bind_res (memfile_write h mf buffer) (\<lambda>(ok, mf). Inr (if ok then length buffer else 0, mf))"

definition mfread :: "memfile \<Rightarrow> nat \<Rightarrow> fault + (string \<times> memfile)" where
  "mfread mf sz = memfile_read mf sz"

text \<open>
  \<open>mfgets\<close>: the line as a C string, \<open>None\<close> for \<open>NULL\<close>. The buffer holds
  \<open>size\<close> bytes; when all of them are read the last is overwritten by the terminating
  zero and reading is undone by one.
\<close>

definition mfgets :: "memfile \<Rightarrow> nat \<Rightarrow> fault + (string option \<times> memfile)" where
  "mfgets mf sz =
     bind_res (mfread mf sz) (\<lambda>(bytes, mf).
       let read = length bytes
       in if read = 0 then Inr (None, mf)
          else let buffer = takeWhile (\<lambda>c. c \<noteq> NUL) (if read < sz then bytes else take (sz - 1) bytes);
                   seek = (if read < sz then 0 else - 1);
                   upto = takeWhile (\<lambda>c. c \<noteq> NL) buffer;
                   found = (length upto < length buffer);
                   line = (if found then upto @ [NL] else buffer);
                   seek = (if found then int (length upto) + 1 - int read else seek)
               in if \<not> seek \<le> 0 then Inl AssertFail
                  else if seek \<noteq> 0
                  then bind_res (mfseek mf seek SEEK_CUR) (\<lambda>(_, mf). Inr (Some line, mf))
                  else Inr (Some line, mf))"

definition mfputs :: "heap \<Rightarrow> memfile \<Rightarrow> string \<Rightarrow> fault + (bool \<times> memfile)" where
  "mfputs h mf str =
     bind_res (mfwrite h mf str) (\<lambda>(written, mf). Inr (written = length str, mf))"

text \<open>
  \<open>mfdump\<close> writes the used bytes with one \<open>fwrite(base, usedoffs, 1, fp)\<close>. C's
  \<open>fwrite\<close> returns the number of complete items, here \<open>1\<close> when everything was
  written (\<open>0\<close> for an item size of 0). \<open>fwrite_ok\<close> says whether the device
  accepted the bytes; the result is the C result and the bytes in the file.
\<close>

definition fwrite_items :: "bool \<Rightarrow> nat \<Rightarrow> nat" where
  "fwrite_items fwrite_ok itemsize = (if fwrite_ok \<and> itemsize \<noteq> 0 then 1 else 0)"

definition mfdump :: "bool \<Rightarrow> bool \<Rightarrow> memfile \<Rightarrow> bool" where
  "mfdump fopen_ok fwrite_ok mf =
     (if \<not> fopen_ok then False
      else fwrite_items fwrite_ok (nat (mf_usedoffs mf)) = nat (mf_usedoffs mf))"

subsection \<open>The asm file of libpawnc.c\<close>

definition pc_openasm :: "heap \<Rightarrow> string \<Rightarrow> memfile option" where
  "pc_openasm h filename = mfcreate h filename"

definition pc_resetasm :: "memfile \<Rightarrow> fault + memfile" where
  "pc_resetasm mf = bind_res (mfseek mf 0 SEEK_SET) (\<lambda>(_, mf). Inr mf)"

definition pc_writeasm :: "heap \<Rightarrow> memfile \<Rightarrow> string \<Rightarrow> fault + (bool \<times> memfile)" where
  "pc_writeasm h mf str = mfputs h mf str"

definition pc_readasm :: "memfile \<Rightarrow> nat \<Rightarrow> fault + (string option \<times> memfile)" where
  "pc_readasm mf maxchars = mfgets mf maxchars"

subsection \<open>Well-formed files and their contents\<close>

definition mf_wf :: "memfile \<Rightarrow> bool" where
  "mf_wf mf \<longleftrightarrow> length (mf_base mf) = mf_size mf \<and> 0 \<le> mf_offs mf \<and>
     mf_offs mf \<le> mf_usedoffs mf \<and> mf_usedoffs mf \<le> int (mf_size mf)"

definition contents :: "memfile \<Rightarrow> string" where
  "contents mf = take (nat (mf_usedoffs mf)) (mf_base mf)"

definition position :: "memfile \<Rightarrow> nat" where
  "position mf = nat (mf_offs mf)"

lemma mf_wf_bounds: "mf_wf mf \<Longrightarrow> position mf \<le> length (contents mf)"
  by (auto simp: mf_wf_def position_def contents_def)

lemma mf_wf_creat: "memfile_creat h name init = Some mf \<Longrightarrow> mf_wf mf \<and> contents mf = [] \<and> position mf = 0"
  by (auto simp: memfile_creat_def mf_wf_def contents_def position_def split: if_splits)

lemma memfile_grow_wf:
  assumes "mf_wf mf" "memfile_grow h mf n = Some mf'"
  shows "mf_wf mf' \<and> contents mf' = contents mf \<and> mf_offs mf' = mf_offs mf
    \<and> mf_usedoffs mf' = mf_usedoffs mf \<and> mf_offs mf + int n \<le> int (mf_size mf')"
  using assms by (auto simp: memfile_grow_def mf_wf_def contents_def Let_def split: if_splits)

lemma take_overwrite:
  assumes "p \<le> u" "u \<le> length b" "n = length s"
  shows "take (max u (p + n)) (take p b @ s @ drop (p + n) b) = take p (take u b) @ s @ drop (p + n) (take u b)"
proof (cases "u \<le> p + n")
  case True
  with assms show ?thesis by (cases "length b \<le> p") (simp_all add: max_def min_def)
next
  case False
  with assms show ?thesis by (simp add: max_def min_def drop_take)
qed

text \<open>The effect of a write: overwrite at the position, extending the contents.\<close>

lemma memfile_write_spec:
  assumes wf: "mf_wf mf" and w: "memfile_write h mf s = Inr (True, mf')"
  shows "mf_wf mf' \<and> position mf' = position mf + length s \<and>
    contents mf' = take (position mf) (contents mf) @ s @ drop (position mf + length s) (contents mf)"
proof -
  define grown where "grown = (if mf_offs mf + int (length s) > int (mf_size mf) \<or> mf_offs mf + int (length s) < 0
    then memfile_grow h mf (length s) else Some mf)"
  from w obtain g where g: "grown = Some g"
    by (auto simp: memfile_write_def grown_def Let_def split: option.splits)
  have gw: "mf_wf g" "contents g = contents mf" "mf_offs g = mf_offs mf" "mf_usedoffs g = mf_usedoffs mf"
    "mf_offs mf + int (length s) \<le> int (mf_size g)"
    using g wf memfile_grow_wf [OF wf, of h "length s" g] by (auto simp: grown_def split: if_splits)
  from w g obtain b where b: "memcpy (mf_base g) (mf_offs g) s = Inr b"
    and mf': "mf' = (let m = g\<lparr>mf_base := b, mf_offs := mf_offs g + int (length s)\<rparr>
              in if mf_offs m > mf_usedoffs m then m\<lparr>mf_usedoffs := mf_offs m\<rparr> else m)"
    by (auto simp: memfile_write_def grown_def Let_def split: option.splits if_splits)
  from gw(1) have bnd: "length (mf_base g) = mf_size g" "0 \<le> mf_offs g" "mf_offs g \<le> mf_usedoffs g"
    "mf_usedoffs g \<le> int (mf_size g)" by (auto simp: mf_wf_def)
  have bb: "b = take (nat (mf_offs g)) (mf_base g) @ s @ drop (nat (mf_offs g) + length s) (mf_base g)"
    using b by (auto simp: memcpy_def split: if_splits)
  have used: "mf_usedoffs mf' = max (mf_usedoffs g) (mf_offs g + int (length s))"
    and off: "mf_offs mf' = mf_offs g + int (length s)" and base: "mf_base mf' = b"
    and sz: "mf_size mf' = mf_size g"
    using mf' by (auto simp: Let_def max_def)
  have len: "length b = mf_size g" using b bnd(1) by (simp add: memcpy_length)
  have "mf_wf mf'" using bnd gw(3,5) len by (auto simp: mf_wf_def used off base sz)
  moreover have "position mf' = position mf + length s"
    using gw(3) bnd(2) by (simp add: position_def off nat_add_distrib)
  moreover have "contents mf' = take (position mf) (contents g) @ s @ drop (position mf + length s) (contents g)"
  proof -
    let ?p = "nat (mf_offs g)" and ?u = "nat (mf_usedoffs g)"
    have pu: "?p \<le> ?u" "?u \<le> length (mf_base g)" using bnd by auto
    have "nat (mf_usedoffs mf') = max ?u (?p + length s)" using bnd by (auto simp: used max_def nat_add_distrib)
    then have "contents mf' = take (max ?u (?p + length s)) b" by (simp add: contents_def base)
    also have "\<dots> = take ?p (take ?u (mf_base g)) @ s @ drop (?p + length s) (take ?u (mf_base g))"
      unfolding bb by (rule take_overwrite [OF pu refl])
    finally show ?thesis by (simp add: contents_def position_def gw(3))
  qed
  ultimately show ?thesis by (simp add: gw(2))
qed

lemma memfile_write_total:
  assumes "mf_wf mf"
  shows "\<exists>ok mf'. memfile_write h mf s = Inr (ok, mf') \<and> (ok \<longrightarrow> mf_wf mf') \<and> (s = [] \<longrightarrow> ok)"
proof -
  define grown where "grown = (if mf_offs mf + int (length s) > int (mf_size mf) \<or> mf_offs mf + int (length s) < 0
    then memfile_grow h mf (length s) else Some mf)"
  show ?thesis
  proof (cases grown)
    case None
    then have "memfile_write h mf s = Inr (False, mf\<lparr>mf_base := []\<rparr>)"
      unfolding memfile_write_def Let_def grown_def by simp
    moreover have "s \<noteq> []" using None assms by (auto simp: grown_def mf_wf_def)
    ultimately show ?thesis by blast
  next
    case (Some g)
    have "mf_wf g \<and> mf_offs g = mf_offs mf \<and> mf_offs mf + int (length s) \<le> int (mf_size g)"
      using Some assms memfile_grow_wf [OF assms, of h "length s" g] by (auto simp: grown_def split: if_splits)
    then have "\<exists>b. memcpy (mf_base g) (mf_offs g) s = Inr b"
      by (auto simp: memcpy_def mf_wf_def)
    then obtain mf' where "memfile_write h mf s = Inr (True, mf')"
      using Some by (auto simp: memfile_write_def grown_def Let_def)
    with memfile_write_spec [OF assms this] show ?thesis by blast
  qed
qed

lemma memfile_read_spec:
  fixes n :: nat
  assumes wf: "mf_wf mf"
  defines "piece \<equiv> take n (drop (position mf) (contents mf))"
  shows "\<exists>mf'. memfile_read mf n = Inr (piece, mf') \<and> mf_wf mf' \<and> contents mf' = contents mf
    \<and> position mf' = position mf + length piece \<and> mf_usedoffs mf' = mf_usedoffs mf"
proof -
  let ?p = "nat (mf_offs mf)" and ?u = "nat (mf_usedoffs mf)"
  have b: "?p \<le> ?u" "?u \<le> length (mf_base mf)" "int ?p = mf_offs mf" "int ?u = mf_usedoffs mf"
    using wf by (auto simp: mf_wf_def)
  have piece: "piece = take (min n (?u - ?p)) (drop ?p (mf_base mf))"
    by (simp add: piece_def contents_def position_def drop_take min.commute)
  have len: "length piece = min n (?u - ?p)" using b by (simp add: piece)
  show ?thesis
  proof (cases "n = 0 \<or> ?u \<le> ?p")
    case True
    then have "n = 0 \<or> mf_offs mf \<ge> mf_usedoffs mf" using b by linarith
    moreover have "piece = []" using True len by auto
    ultimately have "memfile_read mf n = Inr (piece, mf)" by (simp only: memfile_read_def if_True)
    then show ?thesis using wf \<open>piece = []\<close> by simp
  next
    case False
    define m where "m = (if mf_usedoffs mf - mf_offs mf < int n then nat (mf_usedoffs mf - mf_offs mf) else n)"
    obtain p u where pu: "mf_offs mf = int p" "mf_usedoffs mf = int u" using b(3,4) by metis
    have m: "m = min n (?u - ?p)" "m \<noteq> 0" using False by (auto simp: m_def min_def pu)
    have mle: "p + m \<le> u" using m False by (auto simp: pu)
    have "memfile_read mf n = Inr (piece, mf\<lparr>mf_offs := mf_offs mf + int m\<rparr>)"
      using False b(1,2) m mle unfolding memfile_read_def m_def [symmetric] Let_def piece m(1) [symmetric]
      by (auto simp: pu)
    moreover have "mf_wf (mf\<lparr>mf_offs := mf_offs mf + int m\<rparr>)"
      using wf m b(1,2) by (auto simp: mf_wf_def pu)
    moreover have "position (mf\<lparr>mf_offs := mf_offs mf + int m\<rparr>) = position mf + length piece"
      using m len by (simp add: position_def pu flip: of_nat_add)
    ultimately show ?thesis by (simp add: contents_def)
  qed
qed

subsection \<open>Seeking and line reading\<close>

lemma mfseek_spec:
  assumes "mf_wf mf" "whence = SEEK_END \<longrightarrow> offset \<le> 0"
  shows "\<exists>r mf'. mfseek mf offset whence = Inr (r, mf') \<and> mf_wf mf' \<and> contents mf' = contents mf"
  using assms by (auto simp: mfseek_def mf_wf_def memfile_seek_def mflength_def contents_def Let_def split: whence.splits)

text \<open>The piece of text one line read delivers.\<close>

definition next_line :: "nat \<Rightarrow> string \<Rightarrow> string" where
  "next_line n s =
     (let w = take (n - 1) s; upto = takeWhile (\<lambda>c. c \<noteq> NL) w
      in if length upto < length w then upto @ [NL] else w)"

lemma next_line_prefix: "take (length (next_line n s)) s = next_line n s"
proof -
  let ?w = "take (n - 1) s" and ?u = "takeWhile (\<lambda>c. c \<noteq> NL) (take (n - 1) s)"
  show ?thesis
  proof (cases "length ?u < length ?w")
    case True
    have "?u @ [NL] = take (Suc (length ?u)) ?w"
      using True nth_length_takeWhile [OF True]
      by (metis (mono_tags, lifting) take_Suc_conv_app_nth takeWhile_eq_take)
    moreover have "Suc (length ?u) \<le> n - 1" using True by simp
    ultimately have "take (Suc (length ?u)) s = ?u @ [NL]" by (simp add: min.absorb1)
    with True show ?thesis by (simp add: next_line_def Let_def)
  next
    case False
    then have "next_line n s = ?w" unfolding next_line_def Let_def by (simp only: if_False)
    then show ?thesis by (simp add: min_def)
  qed
qed

lemma next_line_nonempty: "2 \<le> n \<Longrightarrow> s \<noteq> [] \<Longrightarrow> next_line n s \<noteq> []"
  by (cases s) (auto simp: next_line_def Let_def take_Cons')

lemma mfseek_cur:
  assumes "mf_wf mf" "0 \<le> mf_offs mf + seek" "seek \<le> 0" "mf_usedoffs mf \<noteq> 0"
  shows "mfseek mf seek SEEK_CUR = Inr (mf_offs mf + seek, mf\<lparr>mf_offs := mf_offs mf + seek\<rparr>)"
  using assms by (auto simp: mfseek_def memfile_seek_def mflength_def mf_wf_def Let_def)

lemma mfgets_spec:
  assumes wf: "mf_wf mf" and n: "2 \<le> n" and cs: "cstring (contents mf)"
    and more: "position mf < length (contents mf)"
  defines "line \<equiv> next_line n (drop (position mf) (contents mf))"
  shows "\<exists>mf'. mfgets mf n = Inr (Some line, mf') \<and> mf_wf mf' \<and> contents mf' = contents mf
    \<and> position mf' = position mf + length line"
proof -
  let ?rest = "drop (position mf) (contents mf)"
  let ?bytes = "take n ?rest"
  obtain m1 where rd: "memfile_read mf n = Inr (?bytes, m1)" and m1: "mf_wf m1" "contents m1 = contents mf"
    "position m1 = position mf + length ?bytes" "mf_usedoffs m1 = mf_usedoffs mf"
    using memfile_read_spec [OF wf, of n] by blast
  define buffer where "buffer = take (n - 1) ?rest"
  define upto where "upto = takeWhile (\<lambda>c. c \<noteq> NL) buffer"
  have nonempty: "?bytes \<noteq> []" using more n by simp
  have "NUL \<notin> set ?rest" using cs by (auto simp: cstring_def dest: in_set_dropD)
  then have nul: "takeWhile (\<lambda>c. c \<noteq> NUL) buffer = buffer"
    unfolding buffer_def by (auto simp: takeWhile_eq_all_conv dest: in_set_takeD)
  have buf: "(if length ?bytes < n then ?bytes else take (n - 1) ?bytes) = buffer"
    by (auto simp: buffer_def min_def)
  define seek where "seek = (if length upto < length buffer then int (length upto) + 1 - int (length ?bytes)
      else (if length ?bytes < n then 0 else - 1))"
  have lb: "length buffer \<le> length ?bytes" "length upto \<le> length buffer"
    using length_takeWhile_le [of _ buffer] by (auto simp: buffer_def upto_def)
  have line: "line = (if length upto < length buffer then upto @ [NL] else buffer)"
    by (simp add: line_def next_line_def upto_def buffer_def Let_def)
  have sk: "seek \<le> 0" "int (length line) = int (length ?bytes) + seek"
    using lb n nonempty by (auto simp: seek_def line buffer_def min_def)
  have run: "mfgets mf n = (if seek \<noteq> 0 then bind_res (mfseek m1 seek SEEK_CUR) (\<lambda>(_, mf). Inr (Some line, mf))
       else Inr (Some line, m1))"
    using nonempty sk(1) unfolding mfgets_def mfread_def rd bind_res.simps Let_def prod.case buf nul
    by (auto simp: upto_def [symmetric] seek_def line)
  show ?thesis
  proof (cases "seek = 0")
    case True
    then show ?thesis using run m1 sk by auto
  next
    case False
    have "mf_offs m1 = int (position mf) + int (length ?bytes)" using m1 by (auto simp: position_def mf_wf_def)
    then have off: "mf_offs m1 + seek = int (position mf + length line)" using sk(2) by simp
    have "mf_usedoffs m1 \<noteq> 0" using more m1(4) by (auto simp: contents_def)
    then have "mfseek m1 seek SEEK_CUR = Inr (mf_offs m1 + seek, m1\<lparr>mf_offs := mf_offs m1 + seek\<rparr>)"
      using mfseek_cur [OF m1(1)] off sk(1) by simp
    moreover have "mf_wf (m1\<lparr>mf_offs := mf_offs m1 + seek\<rparr>)"
      using m1(1) off sk(1) by (auto simp: mf_wf_def)
    ultimately show ?thesis using run False off m1(2) by (auto simp: position_def contents_def)
  qed
qed

lemma mfgets_eof:
  assumes "mf_wf mf" "length (contents mf) \<le> position mf"
  shows "mfgets mf n = Inr (None, mf)"
proof -
  have "mf_offs mf \<ge> mf_usedoffs mf" using assms by (auto simp: mf_wf_def contents_def position_def)
  then show ?thesis by (simp add: mfgets_def mfread_def memfile_read_def)
qed

subsection \<open>The interface the assembler relies on\<close>

text \<open>
  The lines one pass of the assembler sees: \<open>while (pc_readasm(fin,line,n)!=NULL)\<close>.
  \<open>None\<close> is a loop that does not end.
\<close>

partial_function (option) read_lines ::
  "('f \<Rightarrow> nat \<Rightarrow> fault + (string option \<times> 'f)) \<Rightarrow> nat \<Rightarrow> 'f \<Rightarrow> (fault + (string list \<times> 'f)) option" where
  "read_lines readl n f =
     (case readl f n of
        Inl e \<Rightarrow> Some (Inl e)
      | Inr (None, f') \<Rightarrow> Some (Inr ([], f'))
      | Inr (Some l, f') \<Rightarrow>
          Option.bind (read_lines readl n f') (\<lambda>r.
            Some (case r of Inl e \<Rightarrow> Inl e | Inr (ls, f'') \<Rightarrow> Inr (l # ls, f''))))"

function text_lines :: "nat \<Rightarrow> string \<Rightarrow> string list" where
  "text_lines n s =
     (if s = [] \<or> n < 2 then []
      else next_line n s # text_lines n (drop (length (next_line n s)) s))"
  by pat_completeness auto
termination
  by (relation "measure (\<lambda>(n, s). length s)") (auto simp: next_line_nonempty)

declare text_lines.simps [simp del]

locale asm_text =
  fixes reset :: "'f \<Rightarrow> fault + 'f"
    and writes :: "'f \<Rightarrow> string \<Rightarrow> fault + (bool \<times> 'f)"
    and readl :: "'f \<Rightarrow> nat \<Rightarrow> fault + (string option \<times> 'f)"
    and text_of :: "'f \<Rightarrow> string"
    and pos :: "'f \<Rightarrow> nat"
    and ok :: "'f \<Rightarrow> bool"
  assumes reset_ok: "ok f \<Longrightarrow> \<exists>f'. reset f = Inr f' \<and> ok f' \<and> text_of f' = text_of f \<and> pos f' = 0"
    and write_ok: "ok f \<Longrightarrow> pos f = length (text_of f) \<Longrightarrow> writes f s = Inr (True, f') \<Longrightarrow>
          ok f' \<and> text_of f' = text_of f @ s \<and> pos f' = length (text_of f')"
    and read_more: "ok f \<Longrightarrow> 2 \<le> n \<Longrightarrow> cstring (text_of f) \<Longrightarrow> pos f < length (text_of f) \<Longrightarrow>
          \<exists>f'. readl f n = Inr (Some (next_line n (drop (pos f) (text_of f))), f') \<and> ok f' \<and> text_of f' = text_of f
            \<and> pos f' = pos f + length (next_line n (drop (pos f) (text_of f)))"
    and read_eof: "ok f \<Longrightarrow> length (text_of f) \<le> pos f \<Longrightarrow> readl f n = Inr (None, f)"
begin

lemma read_lines_text:
  assumes "ok f" "2 \<le> n" "cstring (text_of f)"
  shows "\<exists>f'. read_lines readl n f = Some (Inr (text_lines n (drop (pos f) (text_of f)), f')) \<and> ok f' \<and> text_of f' = text_of f"
  using assms
proof (induction "length (text_of f) - pos f" arbitrary: f rule: less_induct)
  case less
  show ?case
  proof (cases "pos f < length (text_of f)")
    case False
    then have "readl f n = Inr (None, f)" using less.prems read_eof by simp
    with False less.prems show ?thesis by (subst read_lines.simps) (simp add: text_lines.simps)
  next
    case True
    define l where "l = next_line n (drop (pos f) (text_of f))"
    obtain f' where f': "readl f n = Inr (Some l, f')" "ok f'" "text_of f' = text_of f" "pos f' = pos f + length l"
      using read_more [OF less.prems True] unfolding l_def by blast
    have "l \<noteq> []" unfolding l_def using True less.prems by (intro next_line_nonempty) auto
    then have "0 < length l" by simp
    with True have "length (text_of f') - pos f' < length (text_of f) - pos f"
      unfolding f'(3,4) by linarith
    with less.hyps [of f'] less.prems f' obtain f'' where f'': "read_lines readl n f' = Some (Inr (text_lines n (drop (pos f') (text_of f')), f''))"
      "ok f''" "text_of f'' = text_of f'" by auto
    have "read_lines readl n f = Some (Inr (l # text_lines n (drop (pos f') (text_of f')), f''))"
      by (subst read_lines.simps) (simp add: f' f'')
    moreover have "text_lines n (drop (pos f) (text_of f)) = l # text_lines n (drop (pos f') (text_of f'))"
      using True less.prems(2) by (subst text_lines.simps) (simp add: l_def [symmetric] f' add.commute)
    ultimately show ?thesis using f'' f' by auto
  qed
qed

lemma pass_lines:
  assumes "ok f" "2 \<le> n" "cstring (text_of f)" "reset f = Inr f0"
  shows "\<exists>f'. read_lines readl n f0 = Some (Inr (text_lines n (text_of f), f')) \<and> ok f' \<and> text_of f' = text_of f"
proof -
  obtain f1 where "reset f = Inr f1" "ok f1" "text_of f1 = text_of f" "pos f1 = 0"
    using reset_ok [OF assms(1)] by blast
  with assms have "f0 = f1" "ok f0" "cstring (text_of f0)" by auto
  with read_lines_text [of f0 n] assms show ?thesis
    using \<open>text_of f1 = text_of f\<close> \<open>pos f1 = 0\<close> by simp
qed

end

lemma pc_resetasm_spec: "mf_wf mf \<Longrightarrow> \<exists>mf'. pc_resetasm mf = Inr mf' \<and> mf_wf mf' \<and> contents mf' = contents mf \<and> position mf' = 0"
  by (auto simp: pc_resetasm_def mfseek_def mf_wf_def memfile_seek_def mflength_def contents_def position_def Let_def)

lemma pc_writeasm_spec:
  assumes "mf_wf mf" "position mf = length (contents mf)" "pc_writeasm h mf s = Inr (True, mf')"
  shows "mf_wf mf' \<and> contents mf' = contents mf @ s \<and> position mf' = length (contents mf')"
proof -
  have "memfile_write h mf s = Inr (True, mf')"
    using assms(3) memfile_write_total [OF assms(1), of h s] by (auto simp: pc_writeasm_def mfputs_def mfwrite_def split: if_splits)
  with memfile_write_spec [OF assms(1), of h s mf'] assms(2) show ?thesis by simp
qed

interpretation asmfile: asm_text pc_resetasm "pc_writeasm h" pc_readasm contents position mf_wf for h
proof
  show "\<exists>f'. pc_resetasm f = Inr f' \<and> mf_wf f' \<and> contents f' = contents f \<and> position f' = 0"
    if "mf_wf f" for f using that by (rule pc_resetasm_spec)
  show "mf_wf f' \<and> contents f' = contents f @ s \<and> position f' = length (contents f')"
    if "mf_wf f" "position f = length (contents f)" "pc_writeasm h f s = Inr (True, f')" for f s f'
    using that by (rule pc_writeasm_spec)
  show "\<exists>f'. pc_readasm f n = Inr (Some (next_line n (drop (position f) (contents f))), f') \<and> mf_wf f'
      \<and> contents f' = contents f \<and> position f' = position f + length (next_line n (drop (position f) (contents f)))"
    if "mf_wf f" "2 \<le> n" "cstring (contents f)" "position f < length (contents f)" for f n
    unfolding pc_readasm_def using that by (rule mfgets_spec)
  show "pc_readasm f n = Inr (None, f)" if "mf_wf f" "length (contents f) \<le> position f" for f n
    unfolding pc_readasm_def using that by (rule mfgets_eof)
qed

text \<open>Text made of complete lines that fit the line buffer is read back line by line.\<close>

definition asm_line :: "nat \<Rightarrow> string \<Rightarrow> bool" where
  "asm_line n l \<longleftrightarrow> l \<noteq> [] \<and> last l = NL \<and> NL \<notin> set (butlast l) \<and> length l < n"

lemma next_line_complete:
  assumes "asm_line n l"
  shows "next_line n (l @ s) = l"
proof -
  from assms obtain b where l: "l = b @ [NL]" "NL \<notin> set b" "length b + 1 < n"
    by (metis asm_line_def append_butlast_last_id length_append_singleton Suc_eq_plus1)
  have "take (n - 1) (l @ s) = b @ NL # take (n - 2 - length b) s"
    using l(3) by (simp add: l(1) take_Cons')
  moreover have "takeWhile (\<lambda>c. c \<noteq> NL) (b @ NL # t) = b" for t
    using l(2) by (simp add: takeWhile_append2 [of b] takeWhile_tail) (metis takeWhile_append2 takeWhile.simps(2) append_Nil2)
  ultimately show ?thesis by (simp add: next_line_def Let_def l(1))
qed

lemma text_lines_complete:
  "2 \<le> n \<Longrightarrow> \<forall>l \<in> set ls. asm_line n l \<Longrightarrow> text_lines n (concat ls) = ls"
proof (induction ls)
  case Nil
  then show ?case by (simp add: text_lines.simps)
next
  case (Cons l ls)
  then have "l \<noteq> []" by (auto simp: asm_line_def)
  with Cons show ?case by (subst text_lines.simps) (simp add: next_line_complete)
qed

lemma pc_writeasm_granted:
  assumes "mf_wf mf" "\<forall>n. granted h n"
  shows "\<exists>mf'. pc_writeasm h mf s = Inr (True, mf')"
proof -
  obtain ok mf' where w: "memfile_write h mf s = Inr (ok, mf')" using memfile_write_total [OF assms(1)] by blast
  moreover have ok if "memfile_write h mf s = Inr (ok, mf')"
    using that assms(2) by (auto simp: memfile_write_def memfile_grow_def Let_def split: if_splits)
  ultimately show ?thesis by (auto simp: pc_writeasm_def mfputs_def mfwrite_def)
qed

subsection \<open>The properties of the assembler file\<close>

text \<open>Writing a list of strings, as the code generator does line by line.\<close>

definition write_all :: "heap \<Rightarrow> string list \<Rightarrow> memfile \<Rightarrow> fault + memfile" where
  "write_all h ls = seq (map (\<lambda>l mf. bind_res (pc_writeasm h mf l) (\<lambda>(ok, mf). Inr mf)) ls)"

lemma write_all_contents:
  "mf_wf mf \<Longrightarrow> position mf = length (contents mf) \<Longrightarrow> \<forall>n. granted h n \<Longrightarrow>
   \<exists>mf'. write_all h ls mf = Inr mf' \<and> mf_wf mf' \<and> contents mf' = contents mf @ concat ls \<and> position mf' = length (contents mf')"
proof (induction ls arbitrary: mf)
  case (Cons l ls)
  from pc_writeasm_granted [OF Cons.prems(1,3)] obtain m where m: "pc_writeasm h mf l = Inr (True, m)" by blast
  from asmfile.write_ok [OF Cons.prems(1,2) m] have "mf_wf m" "contents m = contents mf @ l" "position m = length (contents m)" by auto
  from Cons.IH [OF this(1,3) Cons.prems(3)] this(2) m show ?case by (auto simp: write_all_def)
qed (simp add: write_all_def)

text \<open>C20: Complete lines written to the memory file that holds the assembler text are read back line
  by line after a reset, and the reading ends; the file grows as needed.\<close>

theorem asm_lines_roundtrip:
  assumes "pc_openasm h name = Some mf" "\<forall>n. granted h n" "2 \<le> n" "\<forall>l \<in> set ls. asm_line n l \<and> cstring l"
  shows "\<exists>mf1 mf2 mf3. write_all h ls mf = Inr mf1 \<and> pc_resetasm mf1 = Inr mf2 \<and>
    read_lines pc_readasm n mf2 = Some (Inr (ls, mf3))"
proof -
  have "mf_wf mf \<and> contents mf = [] \<and> position mf = 0"
    using assms(1) mf_wf_creat unfolding pc_openasm_def mfcreate_def by blast
  with write_all_contents [of mf h ls] assms(2) obtain mf1 where mf1: "write_all h ls mf = Inr mf1" "mf_wf mf1"
    "contents mf1 = concat ls" by auto
  obtain mf2 where mf2: "pc_resetasm mf1 = Inr mf2" using asmfile.reset_ok [OF mf1(2)] by blast
  have "cstring (concat ls)" using assms(4) by (auto simp: cstring_def)
  with asmfile.pass_lines [OF mf1(2) assms(3) _ mf2] mf1(3) text_lines_complete [of n ls] assms(3,4)
  show ?thesis using mf1(1) mf2 by auto
qed

theorem asm_lines_roundtrip_witness:
  "\<exists>mf1 mf2 mf3. write_all \<lparr>granted = (\<lambda>_. True), junk = (\<lambda>_. NUL)\<rparr> [TAB # ''nop'' @ [NL], TAB # ''retn'' @ [NL]]
      (the (pc_openasm \<lparr>granted = (\<lambda>_. True), junk = (\<lambda>_. NUL)\<rparr> ''out'')) = Inr mf1 \<and>
    pc_resetasm mf1 = Inr mf2 \<and>
    read_lines pc_readasm 80 mf2 = Some (Inr ([TAB # ''nop'' @ [NL], TAB # ''retn'' @ [NL]], mf3))"
  by (rule asm_lines_roundtrip [of _ "''out''"])
    (auto simp: pc_openasm_def mfcreate_def memfile_creat_def asm_line_def TAB_def NL_def NUL_def)

text \<open>A write overwrites the contents at the position and extends them; the position moves behind what was
  written, and the file stays well-formed, whether or not the block had to grow.\<close>

theorem memfile_write_contents:
  assumes "mf_wf mf" "memfile_write h mf s = Inr (True, mf')"
  shows "mf_wf mf' \<and> position mf' = position mf + length s \<and>
    contents mf' = take (position mf) (contents mf) @ s @ drop (position mf + length s) (contents mf)"
  using assms by (rule memfile_write_spec)

definition small_file :: memfile where
  "small_file = \<lparr>mf_name = ''f'', mf_base = ''abcd'', mf_offs = 3, mf_usedoffs = 4, mf_size = 4, mf_static = False\<rparr>"

lemma small_write: "memfile_write \<lparr>granted = (\<lambda>_. True), junk = (\<lambda>_. NUL)\<rparr> small_file ''xyz'' =
  Inr (True, \<lparr>mf_name = ''f'', mf_base = ''abcxyz'' @ replicate 8 NUL, mf_offs = 6, mf_usedoffs = 6, mf_size = 14, mf_static = False\<rparr>)"
  by code_simp

theorem memfile_write_contents_witness:
  "contents \<lparr>mf_name = ''f'', mf_base = ''abcxyz'' @ replicate 8 NUL, mf_offs = 6, mf_usedoffs = 6, mf_size = 14, mf_static = False\<rparr> =
   take (position small_file) (contents small_file) @ ''xyz'' @ drop (position small_file + length ''xyz'') (contents small_file)"
  using memfile_write_contents [OF _ small_write] by (simp add: mf_wf_def small_file_def)

text \<open>Dumping a file of more than one byte is reported as a failure even when the device
  took every byte: the item count that \<open>fwrite\<close> returns is compared with the byte count.\<close>

theorem mfdump_misreports:
  assumes "1 < mf_usedoffs mf"
  shows "mfdump True True mf = False"
  using assms by (simp add: mfdump_def fwrite_items_def)

theorem mfdump_misreports_witness: "mfdump True True small_file = False"
  by (rule mfdump_misreports) (simp add: small_file_def)

end
