(* ===== verification/Globals.thy ===== *)
theory Globals
  imports Hex MemFile
begin

text \<open>
  The types of \<open>sc.h\<close> and the global variables of \<open>scvars.c\<close> that the modelled parts
  of the compiler share. A symbol is reached through its address: \<open>syms\<close> is the store of
  allocated symbols, and the linked lists \<open>glbtab\<close> and \<open>loctab\<close> are the lists of
  their nodes' addresses in list order. A table of \<open>constvalue\<close> nodes is the list of its
  nodes. Calls of \<open>error()\<close> with a number that does not stop the compiler are logged in \<open>reported\<close>.
\<close>

subsection \<open>Constants of sc.h\<close>

definition sNAMEMAX :: nat where "sNAMEMAX = 63"
definition uDEFINE :: "16 word" where "uDEFINE = 0x01"
definition uREAD :: "16 word" where "uREAD = 0x02"
definition uWRITTEN :: "16 word" where "uWRITTEN = 0x04"
definition uPROTOTYPED :: "16 word" where "uPROTOTYPED = 0x08"
definition uPREDEF :: "16 word" where "uPREDEF = 0x08"
definition uPUBLIC :: "16 word" where "uPUBLIC = 0x10"
definition uNATIVE :: "16 word" where "uNATIVE = 0x20"
definition uMISSING :: "16 word" where "uMISSING = 0x80"
definition uVISITED :: "16 word" where "uVISITED = 0x100"

definition sCHKBOUNDS :: cell where "sCHKBOUNDS = 1"
definition sSYMBOLIC :: cell where "sSYMBOLIC = 2"
definition sNOOPTIMIZE :: cell where "sNOOPTIMIZE = 4"

definition sIN_CSEG :: nat where "sIN_CSEG = 1"
definition sIN_DSEG :: nat where "sIN_DSEG = 2"

text \<open>\<open>opcodes(n)\<close> and \<open>opargs(n)\<close> are both \<open>n*sizeof(cell)\<close>.\<close>

definition opcodes :: "nat \<Rightarrow> cell" where "opcodes n = of_nat (n * 4)"
definition opargs :: "nat \<Rightarrow> cell" where "opargs n = of_nat (n * 4)"

datatype ident =
  iLABEL | iVARIABLE | iREFERENCE | iARRAY | iREFARRAY | iARRAYCELL | iARRAYCHAR
| iEXPRESSION | iCONSTEXPR | iFUNCTN | iREFFUNC | iVARARGS

datatype vclass = sGLOBAL | sLOCAL | sSTATIC

datatype status = statIDLE | statFIRST | statWRITE | statSKIP

datatype regid = sPRI | sALT

datatype optmark = sEXPR | sPARM | sLDECL

definition has_flag :: "16 word \<Rightarrow> 16 word \<Rightarrow> bool" where
  "has_flag usage flag \<longleftrightarrow> usage AND flag \<noteq> 0"

subsection \<open>Structures\<close>

record constvalue =
  cv_name :: string
  cv_value :: cell
  cv_index :: int

record symbol =
  sym_name :: string
  sym_hash :: "32 word"
  sym_addr :: cell
  sym_codeaddr :: cell
  sym_vclass :: vclass
  sym_ident :: ident
  sym_usage :: "16 word"
  sym_compound :: int
  sym_tag :: int
  sym_parent :: "nat option"
  sym_length :: cell
  sym_level :: nat
  sym_idxtag :: int
  sym_states :: "constvalue list option"
  sym_fnumber :: int
  sym_lnumber :: int
  sym_refer :: "nat option list"

record val =
  v_sym :: "nat option"
  v_ident :: ident

record statelist =
  sl_states :: "int list"
  sl_fsa :: int
  sl_listid :: int

text \<open>\<open>HashTable\<close> of \<open>sp_symhash.h\<close>: each bucket is the list of its entries' symbols.\<close>

record hashtable =
  nbuckets :: nat
  nused :: nat
  bucketmask :: "32 word"
  buckets :: "nat list list"

text \<open>
  \<open>stringpair\<close> of \<open>sc.h\<close>, and the tables of \<open>sclist.c\<close>, each the list of its nodes. The
  nodes of a table of pairs have addresses, which \<open>substindex\<close> holds. A pointer that was
  never set is \<open>Garbage\<close>.
\<close>

datatype docptr = Null | Doc string | Garbage

record stringpair =
  sp_first :: string
  sp_second :: string
  sp_matchlength :: nat
  sp_flags :: nat
  sp_documentation :: docptr

type_synonym pairs = "(nat \<times> stringpair) list"

record listtabs =
  alias_tab :: pairs
  substpair :: pairs
  substindex :: "char \<Rightarrow> nat option"
  next_pair :: nat
  includepaths :: "string list"
  sourcefiles :: "string list"
  inputfiles :: "string list"
  docstrings :: "string list"
  autolist :: "string list"
  heaplist :: "(int \<times> int) list"
  dbgstrings :: "string list"

subsection \<open>Global variables\<close>

record cstate =
  mem :: heap
  sc_status :: status
  sc_debug :: cell
  sc_asmfile :: bool
  sc_listing :: bool
  staging :: bool
  stgidx :: nat
  stgbuf :: string
  outf :: "memfile option"
  code_idx :: cell
  glb_declared :: cell
  litidx :: nat
  litq :: "cell list"
  curseg :: nat
  sc_labnum :: nat
  ntv_funcid :: nat
  sc_dataalign :: nat
  sc_stksize :: cell
  sc_ctrlchar :: char
  syms :: "nat \<Rightarrow> symbol option"
  next_sym :: nat
  sp_Globals :: hashtable
  glbtab :: "nat list"
  loctab :: "nat list"
  curfunc :: "nat option"
  fline :: int
  fcurrent :: int
  sc_automaton_tab :: "constvalue list"
  sc_state_tab :: "constvalue list"
  statelist_tab :: "statelist list"
  tagname_tab :: "constvalue list"
  libname_tab :: "constvalue list"
  pc_addlibtable :: bool
  sc_compress :: bool
  pc_deprecate :: "string option"
  lists :: listtabs
  reported :: "(nat \<times> string list) list"

text \<open>
  The values of \<open>scvars.c\<close> at the start of the program; the memory is a parameter.
\<close>

definition CTRL_CHAR :: char where "CTRL_CHAR = CHR ''^''"

definition initial_state :: "heap \<Rightarrow> cstate" where
  "initial_state h =
     \<lparr>mem = h, sc_status = statIDLE, sc_debug = sCHKBOUNDS, sc_asmfile = False, sc_listing = False,
      staging = False, stgidx = 0, stgbuf = [], outf = None, code_idx = 0, glb_declared = 0, litidx = 0, litq = [],
      curseg = 0, sc_labnum = 0, ntv_funcid = 0, sc_dataalign = 4, sc_stksize = 4096,
      sc_ctrlchar = CTRL_CHAR, syms = (\<lambda>_. None), next_sym = 0,
      sp_Globals = \<lparr>nbuckets = 0, nused = 0, bucketmask = 0, buckets = []\<rparr>,
      glbtab = [], loctab = [], curfunc = None, fline = 0, fcurrent = 0,
      sc_automaton_tab = [], sc_state_tab = [], statelist_tab = [],
      tagname_tab = [], libname_tab = [], pc_addlibtable = True, sc_compress = True, pc_deprecate = None,
      lists = \<lparr>alias_tab = [], substpair = [], substindex = (\<lambda>_. None), next_pair = 0, includepaths = [], sourcefiles = [],
        inputfiles = [], docstrings = [], autolist = [], heaplist = [], dbgstrings = []\<rparr>, reported = []\<rparr>"

text \<open>A memory that never runs out, for concrete runs.\<close>

definition ample_heap :: heap where
  "ample_heap = \<lparr>granted = (\<lambda>_. True), junk = (\<lambda>_. NUL)\<rparr>"

text \<open>Following a symbol pointer; a \<open>NULL\<close> or dangling pointer is undefined behaviour.\<close>

definition get_sym :: "cstate \<Rightarrow> nat option \<Rightarrow> fault + symbol" where
  "get_sym s p = (case p of None \<Rightarrow> Inl OutOfBounds
     | Some a \<Rightarrow> (case syms s a of None \<Rightarrow> Inl OutOfBounds | Some sy \<Rightarrow> Inr sy))"

definition report :: "nat \<Rightarrow> string list \<Rightarrow> cstate \<Rightarrow> cstate" where
  "report n args s = s\<lparr>reported := reported s @ [(n, args)]\<rparr>"

end
