(* ===== verification/Peephole.thy ===== *)
theory Peephole
  imports Globals
begin

text \<open>
  The peephole optimiser of \<open>sc7.c\<close> with its table \<open>sc7-in.scp\<close>: matching a pattern
  against staged assembler lines, writing the replacement, and the loop \<open>stgopt\<close> that
  applies the table until nothing matches. A region of the staging buffer is the list of its
  bytes; in it every line ends with a line feed and a zero byte.
\<close>

subsection \<open>The table of sequences\<close>

datatype SEQUENCE = SEQ (find_pat: string) (replace_pat: string) (savesize: cell)

definition seqsize :: "nat \<Rightarrow> nat \<Rightarrow> cell" where
  "seqsize ops args = opcodes ops + opargs args"

definition sequences_a :: "SEQUENCE list" where
  "sequences_a = [
    SEQ ''load.s.pri %1!push.pri!load.s.pri %2!pop.alt!''
      ''load.s.pri %2!load.s.alt %1!'' (seqsize 4 2 - seqsize 2 2),
    SEQ ''load.pri %1!push.pri!load.s.pri %2!pop.alt!''
      ''load.s.pri %2!load.alt %1!'' (seqsize 4 2 - seqsize 2 2),
    SEQ ''load.s.pri %1!push.pri!load.pri %2!pop.alt!''
      ''load.pri %2!load.s.alt %1!'' (seqsize 4 2 - seqsize 2 2),
    SEQ ''load.pri %1!push.pri!load.pri %2!pop.alt!''
      ''load.pri %2!load.alt %1!'' (seqsize 4 2 - seqsize 2 2),
    SEQ ''addr.pri %1!push.pri!load.s.pri %2!pop.alt!''
      ''addr.alt %1!load.s.pri %2!'' (seqsize 4 2 - seqsize 2 2),
    SEQ ''addr.pri %1!push.pri!load.pri %2!pop.alt!''
      ''addr.alt %1!load.pri %2!'' (seqsize 4 2 - seqsize 2 2),
    SEQ ''const.pri %1!push.pri!load.s.pri %2!pop.alt!''
      ''load.s.pri %2!const.alt %1!'' (seqsize 4 2 - seqsize 2 2),
    SEQ ''const.pri %1!push.pri!load.pri %2!pop.alt!''
      ''load.pri %2!const.alt %1!'' (seqsize 4 2 - seqsize 2 2),
    SEQ ''load.s.pri %1!push.pri!const.pri %2!pop.alt!''
      ''const.pri %2!load.s.alt %1!'' (seqsize 4 2 - seqsize 2 2),
    SEQ ''load.pri %1!push.pri!const.pri %2!pop.alt!''
      ''const.pri %2!load.alt %1!'' (seqsize 4 2 - seqsize 2 2),
    SEQ ''addr.pri %1!push.pri!const.pri %2!pop.alt!''
      ''addr.alt %1!const.pri %2!'' (seqsize 4 2 - seqsize 2 2),
    SEQ ''addr.pri %1!push.pri!zero.pri!pop.alt!''
      ''addr.alt %1!zero.pri!'' (seqsize 4 1 - seqsize 2 1),
    SEQ ''move.pri!push.pri!load.s.pri %1!pop.alt!''
      ''load.s.pri %1!'' (seqsize 4 1 - seqsize 1 1),
    SEQ ''move.pri!push.pri!load.pri %1!pop.alt!''
      ''load.pri %1!'' (seqsize 4 1 - seqsize 1 1),
    SEQ ''move.pri!push.pri!const.pri %1!pop.alt!''
      ''const.pri %1!'' (seqsize 4 1 - seqsize 1 1),
    SEQ ''xchg!sgrtr!swap.alt!and!pop.alt!;$exp!''
      ''sless!pop.alt!and!;$exp!'' (seqsize 5 0 - seqsize 3 0),
    SEQ ''xchg!sless!swap.alt!and!pop.alt!;$exp!''
      ''sgrtr!pop.alt!and!;$exp!'' (seqsize 5 0 - seqsize 3 0),
    SEQ ''xchg!sgeq!swap.alt!and!pop.alt!;$exp!''
      ''sleq!pop.alt!and!;$exp!'' (seqsize 5 0 - seqsize 3 0),
    SEQ ''xchg!sleq!swap.alt!and!pop.alt!;$exp!''
      ''sgeq!pop.alt!and!;$exp!'' (seqsize 5 0 - seqsize 3 0),
    SEQ ''xchg!sgrtr!swap.alt!and!pop.alt!jzer %1!''
      ''sless!pop.alt!and!jzer %1!'' (seqsize 5 0 - seqsize 3 0)]"

definition sequences_b :: "SEQUENCE list" where
  "sequences_b = [
    SEQ ''xchg!sless!swap.alt!and!pop.alt!jzer %1!''
      ''sgrtr!pop.alt!and!jzer %1!'' (seqsize 5 0 - seqsize 3 0),
    SEQ ''xchg!sgeq!swap.alt!and!pop.alt!jzer %1!''
      ''sleq!pop.alt!and!jzer %1!'' (seqsize 5 0 - seqsize 3 0),
    SEQ ''xchg!sleq!swap.alt!and!pop.alt!jzer %1!''
      ''sgeq!pop.alt!and!jzer %1!'' (seqsize 5 0 - seqsize 3 0),
    SEQ ''xchg!sgrtr!jzer %1!;$exp!''
      ''jsgeq %1!;$exp!'' (seqsize 3 1 - seqsize 1 1),
    SEQ ''xchg!sless!jzer %1!;$exp!''
      ''jsleq %1!;$exp!'' (seqsize 3 1 - seqsize 1 1),
    SEQ ''xchg!sgeq!jzer %1!;$exp!''
      ''jsgrtr %1!;$exp!'' (seqsize 3 1 - seqsize 1 1),
    SEQ ''xchg!sleq!jzer %1!;$exp!''
      ''jsless %1!;$exp!'' (seqsize 3 1 - seqsize 1 1),
    SEQ ''xchg!sgrtr!;$exp!''
      ''sless!;$exp!'' (seqsize 2 0 - seqsize 1 0),
    SEQ ''xchg!sless!;$exp!''
      ''sgrtr!;$exp!'' (seqsize 2 0 - seqsize 1 0),
    SEQ ''xchg!sgeq!;$exp!''
      ''sleq!;$exp!'' (seqsize 2 0 - seqsize 1 0),
    SEQ ''xchg!sleq!;$exp!''
      ''sgeq!;$exp!'' (seqsize 2 0 - seqsize 1 0),
    SEQ ''load.s.pri %1!load.s.alt %2!xchg!''
      ''load.s.pri %2!load.s.alt %1!'' (seqsize 3 2 - seqsize 2 2),
    SEQ ''load.s.pri %1!load.alt %2!xchg!''
      ''load.pri %2!load.s.alt %1!'' (seqsize 3 2 - seqsize 2 2),
    SEQ ''load.s.pri %1!const.alt %2!xchg!''
      ''const.pri %2!load.s.alt %1!'' (seqsize 3 2 - seqsize 2 2),
    SEQ ''load.pri %1!load.s.alt %2!xchg!''
      ''load.s.pri %2!load.alt %1!'' (seqsize 3 2 - seqsize 2 2),
    SEQ ''load.pri %1!load.alt %2!xchg!''
      ''load.pri %2!load.alt %1!'' (seqsize 3 2 - seqsize 2 2),
    SEQ ''load.pri %1!const.alt %2!xchg!''
      ''const.pri %2!load.alt %1!'' (seqsize 3 2 - seqsize 2 2),
    SEQ ''const.pri %1!load.s.alt %2!xchg!''
      ''load.s.pri %2!const.alt %1!'' (seqsize 3 2 - seqsize 2 2),
    SEQ ''const.pri %1!load.alt %2!xchg!''
      ''load.pri %2!const.alt %1!'' (seqsize 3 2 - seqsize 2 2)]"

definition sequences_c :: "SEQUENCE list" where
  "sequences_c = [
    SEQ ''addr.pri %1!push.pri!load.s.pri %2!bounds %3!shl.c.pri 2!pop.alt!add!load.i!''
      ''addr.alt %1!load.s.pri %2!bounds %3!lidx!'' (seqsize 8 4 - seqsize 4 3),
    SEQ ''const.pri %1!push.pri!load.s.pri %2!bounds %3!shl.c.pri 2!pop.alt!add!load.i!''
      ''const.alt %1!load.s.pri %2!bounds %3!lidx!'' (seqsize 8 4 - seqsize 4 3),
    SEQ ''addr.pri %1!push.pri!load.s.pri %2!shl.c.pri 2!pop.alt!add!load.i!''
      ''addr.alt %1!load.s.pri %2!lidx!'' (seqsize 7 3 - seqsize 3 2),
    SEQ ''const.pri %1!push.pri!load.s.pri %2!shl.c.pri 2!pop.alt!add!load.i!''
      ''const.alt %1!load.s.pri %2!lidx!'' (seqsize 7 3 - seqsize 3 2),
    SEQ ''addr.pri %1!push.pri!load.s.pri %2!bounds %3!shl.c.pri %4!pop.alt!add!load.i!''
      ''addr.alt %1!load.s.pri %2!bounds %3!lidx.b %4!'' (seqsize 8 4 - seqsize 4 4),
    SEQ ''const.pri %1!push.pri!load.s.pri %2!bounds %3!shl.c.pri %4!pop.alt!add!load.i!''
      ''const.alt %1!load.s.pri %2!bounds %3!lidx.b %4!'' (seqsize 8 4 - seqsize 4 4),
    SEQ ''addr.pri %1!push.pri!load.s.pri %2!shl.c.pri %3!pop.alt!add!load.i!''
      ''addr.alt %1!load.s.pri %2!lidx.b %3!'' (seqsize 7 3 - seqsize 3 3),
    SEQ ''const.pri %1!push.pri!load.s.pri %2!shl.c.pri %3!pop.alt!add!load.i!''
      ''const.alt %1!load.s.pri %2!lidx.b %3!'' (seqsize 7 3 - seqsize 3 3),
    SEQ ''addr.pri %1!push.pri!load.s.pri %2!bounds %3!shl.c.pri 2!pop.alt!add!''
      ''addr.alt %1!load.s.pri %2!bounds %3!idxaddr!'' (seqsize 7 4 - seqsize 4 3),
    SEQ ''const.pri %1!push.pri!load.s.pri %2!bounds %3!shl.c.pri 2!pop.alt!add!''
      ''const.alt %1!load.s.pri %2!bounds %3!idxaddr!'' (seqsize 7 4 - seqsize 4 3),
    SEQ ''addr.pri %1!push.pri!load.s.pri %2!shl.c.pri 2!pop.alt!add!''
      ''addr.alt %1!load.s.pri %2!idxaddr!'' (seqsize 6 3 - seqsize 3 2),
    SEQ ''const.pri %1!push.pri!load.s.pri %2!shl.c.pri 2!pop.alt!add!''
      ''const.alt %1!load.s.pri %2!idxaddr!'' (seqsize 6 3 - seqsize 3 2),
    SEQ ''addr.pri %1!push.pri!load.s.pri %2!bounds %3!shl.c.pri %4!pop.alt!add!''
      ''addr.alt %1!load.s.pri %2!bounds %3!idxaddr.b %4!'' (seqsize 7 4 - seqsize 4 4),
    SEQ ''const.pri %1!push.pri!load.s.pri %2!bounds %3!shl.c.pri %4!pop.alt!add!''
      ''const.alt %1!load.s.pri %2!bounds %3!idxaddr.b %4!'' (seqsize 7 4 - seqsize 4 4),
    SEQ ''addr.pri %1!push.pri!load.s.pri %2!shl.c.pri %3!pop.alt!add!''
      ''addr.alt %1!load.s.pri %2!idxaddr.b %3!'' (seqsize 6 3 - seqsize 3 3),
    SEQ ''const.pri %1!push.pri!load.s.pri %2!shl.c.pri %3!pop.alt!add!''
      ''const.alt %1!load.s.pri %2!idxaddr.b %3!'' (seqsize 6 3 - seqsize 3 3),
    SEQ ''shl.c.pri 2!pop.alt!add!loadi!''
      ''pop.alt!lidx!'' (seqsize 4 1 - seqsize 2 0),
    SEQ ''shl.c.pri 2!pop.alt!add!''
      ''pop.alt!idxaddr!'' (seqsize 3 1 - seqsize 2 0),
    SEQ ''shl.c.pri %1!pop.alt!add!loadi!''
      ''pop.alt!lidx.b %1!'' (seqsize 4 1 - seqsize 2 1),
    SEQ ''shl.c.pri %1!pop.alt!add!''
      ''pop.alt!idxaddr.b %1!'' (seqsize 3 1 - seqsize 2 1),
    SEQ ''addr.pri %1!push.pri!load.s.pri %2!bounds %3!pop.alt!''
      ''addr.alt %1!load.s.pri %2!bounds %3!'' (seqsize 5 3 - seqsize 3 3),
    SEQ ''const.pri %1!push.pri!load.s.pri %2!bounds %3!pop.alt!''
      ''const.alt %1!load.s.pri %2!bounds %3!'' (seqsize 5 3 - seqsize 3 3),
    SEQ '';$lcl %1 %2!stack -4!const.pri %3!stor.s.pri %2!;$exp!''
      '';$lcl %1 %2!push.c %3!;$exp!'' (seqsize 3 3 - seqsize 1 1)]"

definition sequences_d :: "SEQUENCE list" where
  "sequences_d = [
    SEQ '';$lcl %1 %2!stack -4!zero.pri!stor.s.pri %2!;$exp!''
      '';$lcl %1 %2!push.c 0!;$exp!'' (seqsize 3 2 - seqsize 1 1),
    SEQ ''push.pri!load.s.pri %1!pop.alt!''
      ''move.alt!load.s.pri %1!'' (seqsize 3 1 - seqsize 2 1),
    SEQ ''push.pri!load.pri %1!pop.alt!''
      ''move.alt!load.pri %1!'' (seqsize 3 1 - seqsize 2 1),
    SEQ ''push.pri!const.pri %1!pop.alt!''
      ''move.alt!const.pri %1!'' (seqsize 3 1 - seqsize 2 1),
    SEQ ''push.pri!zero.pri!pop.alt!''
      ''move.alt!zero.pri!'' (seqsize 3 0 - seqsize 2 0),
    SEQ ''push.pri!load.i!pop.alt!''
      ''move.alt!load.i!'' (seqsize 3 0 - seqsize 2 0),
    SEQ ''push.pri!pop.alt!''
      ''move.alt!'' (seqsize 2 0 - seqsize 1 0),
    SEQ ''const.pri %1!const.alt %2!push.pri!push.alt!''
      ''push.c %1!push.c %2!'' (seqsize 4 2 - seqsize 2 2),
    SEQ ''const.pri %1!const.alt %2!push.alt!push.pri!''
      ''push.c %2!push.c %1!'' (seqsize 4 2 - seqsize 2 2),
    SEQ ''const.pri %1!load.alt %2!push.pri!push.alt!''
      ''push.c %1!push %2!'' (seqsize 4 2 - seqsize 2 2),
    SEQ ''const.pri %1!load.alt %2!push.alt!push.pri!''
      ''push %2!push.c %1!'' (seqsize 4 2 - seqsize 2 2),
    SEQ ''load.pri %1!const.alt %2!push.pri!push.alt!''
      ''push %1!push.c %2!'' (seqsize 4 2 - seqsize 2 2),
    SEQ ''load.pri %1!const.alt %2!push.alt!push.pri!''
      ''push.c %2!push %1!'' (seqsize 4 2 - seqsize 2 2),
    SEQ ''load.pri %1!load.alt %2!push.pri!push.alt!''
      ''push %1!push %2!'' (seqsize 4 2 - seqsize 2 2),
    SEQ ''load.pri %1!load.alt %2!push.alt!push.pri!''
      ''push %2!push %1!'' (seqsize 4 2 - seqsize 2 2)]"

definition sequences_e :: "SEQUENCE list" where
  "sequences_e = [
    SEQ ''load.s.pri %1!push.pri!;$par!''
      ''push.s %1!;$par!'' (seqsize 2 1 - seqsize 1 1),
    SEQ ''load.pri %1!push.pri!;$par!''
      ''push %1!;$par!'' (seqsize 2 1 - seqsize 1 1),
    SEQ ''const.pri %1!push.pri!;$par!''
      ''push.c %1!;$par!'' (seqsize 2 1 - seqsize 1 1),
    SEQ ''zero.pri!push.pri!;$par!''
      ''push.c 0!;$par!'' (seqsize 2 0 - seqsize 1 1),
    SEQ ''addr.pri %1!push.pri!;$par!''
      ''pushaddr %1!;$par!'' (seqsize 2 1 - seqsize 1 1),
    SEQ ''move.pri!push.pri!''
      ''push.alt!'' (seqsize 2 0 - seqsize 1 0),
    SEQ ''const.alt %1!add!''
      ''add.c %1!'' (seqsize 2 1 - seqsize 1 1),
    SEQ ''const.alt %1!sub!''
      ''add.c -%1!'' (seqsize 2 1 - seqsize 1 1),
    SEQ ''const.alt %1!smul!''
      ''smul.c %1!'' (seqsize 2 1 - seqsize 1 1),
    SEQ ''const.alt %1!eq!''
      ''eq.c.pri %1!'' (seqsize 2 1 - seqsize 1 1),
    SEQ ''const.pri %1!load.s.alt %2!sub.alt!''
      ''load.s.pri %2!add.c -%1!'' (seqsize 3 2 - seqsize 2 2),
    SEQ ''const.pri %1!load.alt %2!sub.alt!''
      ''load.pri %2!add.c -%1!'' (seqsize 3 2 - seqsize 2 2),
    SEQ ''add.c %1!add.c %2!''
      ''add.c %1+%2!'' (seqsize 2 2 - seqsize 1 1),
    SEQ ''eq!jzer %1!''
      ''jneq %1!'' (seqsize 2 1 - seqsize 1 1),
    SEQ ''eq!jnz %1!''
      ''jeq %1!'' (seqsize 2 1 - seqsize 1 1)]"

definition sequences_f :: "SEQUENCE list" where
  "sequences_f = [
    SEQ ''neq!jzer %1!''
      ''jeq %1!'' (seqsize 2 1 - seqsize 1 1),
    SEQ ''neq!jnz %1!''
      ''jneq %1!'' (seqsize 2 1 - seqsize 1 1),
    SEQ ''less!jzer %1!''
      ''jgeq %1!'' (seqsize 2 1 - seqsize 1 1),
    SEQ ''leq!jzer %1!''
      ''jgrtr %1!'' (seqsize 2 1 - seqsize 1 1),
    SEQ ''grtr!jzer %1!''
      ''jleq %1!'' (seqsize 2 1 - seqsize 1 1),
    SEQ ''geq!jzer %1!''
      ''jless %1!'' (seqsize 2 1 - seqsize 1 1),
    SEQ ''sless!jzer %1!''
      ''jsgeq %1!'' (seqsize 2 1 - seqsize 1 1),
    SEQ ''sleq!jzer %1!''
      ''jsgrtr %1!'' (seqsize 2 1 - seqsize 1 1),
    SEQ ''sgrtr!jzer %1!''
      ''jsleq %1!'' (seqsize 2 1 - seqsize 1 1),
    SEQ ''sgeq!jzer %1!''
      ''jsless %1!'' (seqsize 2 1 - seqsize 1 1),
    SEQ ''zero.alt!jeq %1!''
      ''jzer %1!'' (seqsize 2 1 - seqsize 1 1),
    SEQ ''zero.alt!jneq %1!''
      ''jnz %1!'' (seqsize 2 1 - seqsize 1 1),
    SEQ ''inc %1!load.pri %1!;$exp!''
      ''inc %1!;$exp!'' (seqsize 2 2 - seqsize 1 1),
    SEQ ''load.pri %1!inc %1!;$exp!''
      ''inc %1!;$exp!'' (seqsize 2 2 - seqsize 1 1),
    SEQ ''inc.s %1!load.s.pri %1!;$exp!''
      ''inc.s %1!;$exp!'' (seqsize 2 2 - seqsize 1 1),
    SEQ ''load.s.pri %1!inc.s %1!;$exp!''
      ''inc.s %1!;$exp!'' (seqsize 2 2 - seqsize 1 1),
    SEQ ''dec %1!load.pri %1!;$exp!''
      ''dec %1!;$exp!'' (seqsize 2 2 - seqsize 1 1),
    SEQ ''load.pri %1!dec %1!;$exp!''
      ''dec %1!;$exp!'' (seqsize 2 2 - seqsize 1 1),
    SEQ ''dec.s %1!load.s.pri %1!;$exp!''
      ''dec.s %1!;$exp!'' (seqsize 2 2 - seqsize 1 1),
    SEQ ''load.s.pri %1!dec.s %1!;$exp!''
      ''dec.s %1!;$exp!'' (seqsize 2 2 - seqsize 1 1)]"

definition sequences_g :: "SEQUENCE list" where
  "sequences_g = [
    SEQ ''const.pri 0!stor.pri %1!;$exp!''
      ''zero %1!;$exp!'' (seqsize 2 2 - seqsize 1 1),
    SEQ ''const.pri 0!stor.s.pri %1!;$exp!''
      ''zero.s %1!;$exp!'' (seqsize 2 2 - seqsize 1 1),
    SEQ ''zero.pri!stor.pri %1!;$exp!''
      ''zero %1!;$exp!'' (seqsize 2 1 - seqsize 1 1),
    SEQ ''zero.pri!stor.s.pri %1!;$exp!''
      ''zero.s %1!;$exp!'' (seqsize 2 1 - seqsize 1 1),
    SEQ ''const.pri 0!''
      ''zero.pri!'' (seqsize 1 1 - seqsize 1 0),
    SEQ ''const.alt 0!''
      ''zero.alt!'' (seqsize 1 1 - seqsize 1 0)]"

definition sequences_cmp :: "SEQUENCE list" where
  "sequences_cmp = sequences_a @ sequences_b @ sequences_c @ sequences_d @ sequences_e @ sequences_f @ sequences_g"

lemmas sequence_tables = sequences_cmp_def sequences_a_def sequences_b_def sequences_c_def sequences_d_def sequences_e_def sequences_f_def sequences_g_def

subsection \<open>Characters of symbols\<close>

definition PUBLIC_CHAR :: char where "PUBLIC_CHAR = CHR ''@''"

definition alpha :: "char \<Rightarrow> bool" where
  "alpha c \<longleftrightarrow> isalpha c \<or> c = CHR ''_'' \<or> c = PUBLIC_CHAR"

definition alphanum :: "char \<Rightarrow> bool" where
  "alphanum c \<longleftrightarrow> alpha c \<or> isdigit c"

definition symchar :: "char \<Rightarrow> bool" where
  "symchar c \<longleftrightarrow> c = CHR ''-'' \<or> c = CHR ''+'' \<or> alphanum c"

definition blank :: "char \<Rightarrow> bool" where
  "blank c \<longleftrightarrow> c = TAB \<or> c = CHR '' ''"

subsection \<open>Matching\<close>

definition MAX_OPT_VARS :: nat where "MAX_OPT_VARS = 4"
definition MAX_ALIAS :: nat where "MAX_ALIAS = 63"

definition atoi_digit :: "string \<Rightarrow> nat" where
  "atoi_digit s = foldl (\<lambda>a c. 10 * a + (ord c - 48)) 0 (takeWhile isdigit s)"

text \<open>
  One call of \<open>matchsequence\<close>. The text is what is left of the region, so the test
  \<open>start>=end\<close> is \<open>t = []\<close>. The result is the text behind the match and the symbols,
  or \<open>None\<close> for no match. A symbol longer than the buffer \<open>str\<close> fails its assert, one
  that fills it writes its zero behind it.
\<close>

definition take_symbol :: "string \<Rightarrow> fault + (string \<times> string)" where
  "take_symbol t =
     (let w = takeWhile symchar t
      in if \<not> (deref t = CHR ''-'' \<or> alphanum (deref t)) then Inl AssertFail
         else if length w > MAX_ALIAS + 1 then Inl AssertFail
         else if length w = MAX_ALIAS + 1 then Inl OutOfBounds
         else Inr (w, drop (length w) t))"

definition match_number :: "string \<Rightarrow> string \<Rightarrow> string option" where
  "match_number num t =
     (if length num \<le> length t \<and> map tolower (take (length num) t) = map tolower num
      then Some (drop (length num) t) else None)"

function match_from :: "string \<Rightarrow> string \<Rightarrow> string list \<Rightarrow> fault + (string \<times> string list) option" where
  "match_from t [] symbols = Inr (Some (t, symbols))"
| "match_from t (p # pattern) symbols =
     (if t = [] then Inr None
      else if p = CHR ''%'' then
        (let var = atoi_digit pattern - 1
         in if \<not> isdigit (deref pattern) \<or> atoi_digit pattern = 0 \<or> \<not> var < MAX_OPT_VARS then Inl AssertFail
            else case take_symbol t of
                   Inl e \<Rightarrow> Inl e
                 | Inr (str, t') \<Rightarrow>
                     if symbols ! var \<noteq> [] then
                       (if symbols ! var \<noteq> str then Inr None
                        else match_from t' (tl pattern) symbols)
                     else match_from t' (tl pattern) (symbols[var := str]))
      else if p = CHR ''-'' then
        (let (value, rest) = hexdigits 0 pattern
         in case match_number (itoh (- value)) t of
              None \<Rightarrow> Inr None
            | Some t' \<Rightarrow> match_from t' rest symbols)
      else if p = CHR '' '' then
        (if \<not> blank (deref t) then Inr None
         else match_from (dropWhile blank t) pattern symbols)
      else if p = CHR ''!'' then
        (let t' = dropWhile blank t
         in if deref t' \<noteq> NL then Inr None
            else if tl t' = [] then Inl OutOfBounds
            else if deref (tl t') \<noteq> NUL then Inl AssertFail
            else let t'' = drop 2 t'
                 in match_from (if pattern \<noteq> [] then dropWhile blank t'' else t'') pattern symbols)
      else if tolower (deref t) \<noteq> tolower p then Inr None
      else match_from (tl t) pattern symbols)"
  by pat_completeness auto
termination
  by (relation "measure (\<lambda>(t, p, s). length p)")
    (auto simp: less_Suc_eq_le dest: hexdigits_length')

declare match_from.simps [simp del]

definition matchsequence :: "string \<Rightarrow> string \<Rightarrow> fault + (string \<times> string list) option" where
  "matchsequence t pattern = match_from (dropWhile blank t) pattern (replicate MAX_OPT_VARS [])"

subsection \<open>Replacing\<close>

fun repl_size :: "string \<Rightarrow> string list \<Rightarrow> fault + nat" where
  "repl_size [] symbols = Inr 0"
| "repl_size (p # pattern) symbols =
     (if p = CHR ''%'' then
        (case pattern of
           [] \<Rightarrow> Inl AssertFail
         | d # pattern' \<Rightarrow>
             (let var = atoi_digit pattern - 1
              in if \<not> isdigit d \<or> atoi_digit pattern = 0 \<or> \<not> var < MAX_OPT_VARS \<or> symbols ! var = [] then Inl AssertFail
                 else bind_res (repl_size pattern' symbols) (\<lambda>n. Inr (length (symbols ! var) + n))))
      else if p = CHR ''!'' then bind_res (repl_size pattern symbols) (\<lambda>n. Inr (3 + n))
      else bind_res (repl_size pattern symbols) (\<lambda>n. Inr (1 + n)))"

fun repl_text :: "string \<Rightarrow> string list \<Rightarrow> string" where
  "repl_text [] symbols = []"
| "repl_text (p # pattern) symbols =
     (if p = CHR ''%'' then
        (case pattern of
           [] \<Rightarrow> []
         | d # pattern' \<Rightarrow> symbols ! (atoi_digit pattern - 1) @ repl_text pattern' symbols)
      else if p = CHR ''!'' then
        NL # NUL # (if pattern \<noteq> [] then [TAB] else []) @ repl_text pattern symbols
      else p # repl_text pattern symbols)"

text \<open>
  The buffer is allocated with the computed size; writing more than that is out of bounds
  and the final assert asks for exactly that size.
\<close>

definition replacesequence :: "heap \<Rightarrow> string \<Rightarrow> string list \<Rightarrow> fault + string" where
  "replacesequence h pattern symbols =
     bind_res (repl_size pattern symbols) (\<lambda>repl_length.
       if \<not> granted h repl_length then Inl (Fatal 103)
       else let buffer = TAB # repl_text pattern symbols
            in if length buffer > repl_length then Inl OutOfBounds
               else if length buffer \<noteq> repl_length then Inl AssertFail
               else Inr buffer)"

definition strreplace :: "string \<Rightarrow> string \<Rightarrow> nat \<Rightarrow> nat \<Rightarrow> string" where
  "strreplace dest repl sub_length repl_length =
     (if sub_length > repl_length then
        (let offset = sub_length - repl_length;
             moved = drop offset dest @ replicate offset (CHR 0xcc)
         in repl @ drop repl_length moved)
      else repl @ drop sub_length dest)"

subsection \<open>The optimiser loop\<close>

text \<open>
  \<open>opt_at\<close> is the inner loop at one line: it tries the sequences in order and starts
  again with the first after a replacement. Each replacement uses one unit of fuel. The
  result is the changed rest of the region, the bytes saved and the number of matches.
\<close>

fun opt_at :: "heap \<Rightarrow> SEQUENCE list \<Rightarrow> nat \<Rightarrow> SEQUENCE list \<Rightarrow> string \<Rightarrow> cell \<Rightarrow> nat \<Rightarrow> fault + (string \<times> cell \<times> nat)" where
  "opt_at h sequences fuel [] t saved matches = Inr (t, saved, matches)"
| "opt_at h sequences fuel (q # qs) t saved matches =
     (case matchsequence t (find_pat q) of
        Inl e \<Rightarrow> Inl e
      | Inr None \<Rightarrow> opt_at h sequences fuel qs t saved matches
      | Inr (Some (rest, symbols)) \<Rightarrow>
          (let match_length = length t - length rest
           in case replacesequence h (replace_pat q) symbols of
                Inl e \<Rightarrow> Inl e
              | Inr repl \<Rightarrow>
                  if \<not> length repl \<le> match_length then Inl AssertFail
                  else (case fuel of
                          0 \<Rightarrow> Inl NoFuel
                        | Suc fuel' \<Rightarrow>
                            opt_at h sequences fuel' sequences
                              (take (length t - (match_length - length repl))
                                 (strreplace t repl match_length (length repl)))
                              (saved + savesize q) (Suc matches))))"

text \<open>\<open>opt_pass\<close> is one run over the lines of the region.\<close>

fun opt_pass :: "heap \<Rightarrow> SEQUENCE list \<Rightarrow> nat \<Rightarrow> string \<Rightarrow> cell \<Rightarrow> nat \<Rightarrow> fault + (string \<times> cell \<times> nat)" where
  "opt_pass h sequences 0 t saved matches = (if t = [] then Inr ([], saved, matches) else Inl NoFuel)"
| "opt_pass h sequences (Suc fuel) t saved matches =
     (if t = [] then Inr ([], saved, matches)
      else case opt_at h sequences (length t) sequences t saved matches of
             Inl e \<Rightarrow> Inl e
           | Inr (t', saved', matches') \<Rightarrow>
               (case cstr_at t' 0 of
                  Inl e \<Rightarrow> Inl e
                | Inr line \<Rightarrow>
                    (case opt_pass h sequences fuel (drop (length line + 1) t') saved' matches' of
                       Inl e \<Rightarrow> Inl e
                     | Inr (t'', saved'', matches'') \<Rightarrow> Inr (line @ NUL # t'', saved'', matches''))))"

fun opt_loop :: "heap \<Rightarrow> SEQUENCE list \<Rightarrow> nat \<Rightarrow> string \<Rightarrow> cell \<Rightarrow> fault + (string \<times> cell)" where
  "opt_loop h sequences 0 t saved = Inl NoFuel"
| "opt_loop h sequences (Suc fuel) t saved =
     (case opt_pass h sequences (length t) t saved 0 of
        Inl e \<Rightarrow> Inl e
      | Inr (t', saved', matches) \<Rightarrow>
          if matches > 0 then opt_loop h sequences fuel t' saved' else Inr (t', saved'))"

end
