(* ===== verification/PeepholeFacts.thy ===== *)
theory PeepholeFacts
  imports Peephole
begin

text \<open>
  What the peephole optimiser of \<open>sc7.c\<close> guarantees with the table of \<open>sc7-in.scp\<close>. The
  length of what a pattern matches and of what its replacement produces are linear in the
  lengths of the variables; \<open>find_cost\<close> and \<open>repl_cost\<close> compute the coefficients and
  \<open>shrink_ok\<close> compares them, for each of the table's entries by evaluation. From it follow
  that a matched sequence is replaced without a failing assertion by a strictly shorter text
  (\<open>sequence_step\<close>), that the loop of \<open>stgopt\<close> ends (\<open>opt_loop_ok\<close>) and that its result
  holds no further match (\<open>opt_loop_no_match\<close>).
\<close>

subsection \<open>Every replacement is shorter than what it replaces\<close>

text \<open>
  A lower bound of the length of the text that \<open>find_pat\<close> matches when variable \<open>i\<close>
  is \<open>L i\<close> long, and the length of what \<open>replace_pat\<close> produces.
\<close>

definition skip_hex :: "string \<Rightarrow> string" where
  "skip_hex = dropWhile (\<lambda>c. hexdigit c \<noteq> None)"

lemma length_skip_hex: "length (skip_hex s) \<le> length s"
  by (simp add: skip_hex_def length_dropWhile_le)

lemma snd_hexdigits: "snd (hexdigits r s) = skip_hex s"
  by (induction r s rule: hexdigits.induct) (auto simp: skip_hex_def split: option.splits)

function find_len :: "string \<Rightarrow> (nat \<Rightarrow> nat) \<Rightarrow> nat" where
  "find_len [] L = 0"
| "find_len (p # ps) L =
     (if p = CHR ''%'' then L (atoi_digit ps - 1) + find_len (tl ps) L
      else if p = CHR ''-'' then 1 + find_len (skip_hex ps) L
      else if p = CHR ''!'' then 2 + find_len ps L
      else 1 + find_len ps L)"
  by pat_completeness auto
termination
  by (relation "measure (\<lambda>(p, s). length p)") (auto simp: less_Suc_eq_le length_skip_hex)

fun repl_len :: "string \<Rightarrow> (nat \<Rightarrow> nat) \<Rightarrow> nat" where
  "repl_len [] L = 0"
| "repl_len (p # ps) L =
     (if p = CHR ''%'' then L (atoi_digit ps - 1) + repl_len (tl ps) L
      else if p = CHR ''!'' then 3 + repl_len ps L
      else 1 + repl_len ps L)"

declare find_len.simps [simp del]

lemma take_symbol_spec:
  "take_symbol t = Inr (w, t') \<Longrightarrow> w \<noteq> [] \<and> t = w @ t'"
proof -
  assume h: "take_symbol t = Inr (w, t')"
  then have w: "w = takeWhile symchar t" "t' = drop (length w) t" "deref t = CHR ''-'' \<or> alphanum (deref t)"
    by (auto simp: take_symbol_def Let_def split: if_splits)
  moreover have "w \<noteq> []"
    using w(1,3) by (cases t) (auto simp: symchar_def alphanum_def alpha_def isalpha_def isupper_def islower_def isdigit_def NUL_def PUBLIC_CHAR_def)
  moreover have "t = w @ drop (length w) t" unfolding w(1)
    by (metis append_take_drop_id takeWhile_eq_take)
  ultimately show ?thesis by simp
qed

lemma dropWhile_suffix: "\<exists>pre. t = pre @ dropWhile P t"
  by (metis takeWhile_dropWhile_id)

lemma match_fromE:
  assumes m: "match_from t (p # pattern) symbols = Inr (Some (rest, out))"
  obtains
    (var) var str t' where "p = CHR ''%''" "var = atoi_digit pattern - 1" "var < MAX_OPT_VARS" "str \<noteq> []"
      "t = str @ t'" "symbols ! var = [] \<or> symbols ! var = str"
      "match_from t' (tl pattern) (if symbols ! var = [] then symbols[var := str] else symbols) = Inr (Some (rest, out))"
  | (num) v rest' t' num where "p = CHR ''-''" "p \<noteq> CHR ''%''" "(v, rest') = hexdigits 0 pattern" "t = num @ t'"
      "length num = length (itoh (- v))" "match_from t' rest' symbols = Inr (Some (rest, out))"
  | (sp) c t' u where "p = CHR '' ''" "t = c # u @ t'" "match_from t' pattern symbols = Inr (Some (rest, out))"
  | (eol) u w t' where "p = CHR ''!''" "t = u @ [NL, NUL] @ w @ t'" "match_from t' pattern symbols = Inr (Some (rest, out))"
  | (lit) c t' where "p \<noteq> CHR ''%''" "p \<noteq> CHR ''-''" "p \<noteq> CHR ''!''" "t = c # t'" "match_from t' pattern symbols = Inr (Some (rest, out))"
proof -
  from m have ne: "t \<noteq> []" by (auto simp: match_from.simps(2) split: if_splits)
  consider "p = CHR ''%''" | "p = CHR ''-''" | "p = CHR '' ''" | "p = CHR ''!''"
    | "p \<noteq> CHR ''%''" "p \<noteq> CHR ''-''" "p \<noteq> CHR '' ''" "p \<noteq> CHR ''!''" by blast
  then show ?thesis
  proof cases
    case 1
    define v where "v = atoi_digit pattern - 1"
    from m ne 1 obtain str t' where ts: "take_symbol t = Inr (str, t')" and v: "v < MAX_OPT_VARS"
      by (auto simp: match_from.simps(2) v_def Let_def split: if_splits sum.splits prod.splits)
    have "symbols ! v = [] \<or> symbols ! v = str"
      "match_from t' (tl pattern) (if symbols ! v = [] then symbols[v := str] else symbols) = Inr (Some (rest, out))"
      using m ne 1 ts by (auto simp: match_from.simps(2) v_def Let_def split: if_splits)
    with var [OF 1 v_def v] take_symbol_spec [OF ts] show ?thesis by blast
  next
    case 2
    obtain v rest' where h: "hexdigits 0 pattern = (v, rest')" by fastforce
    with m ne 2 obtain t' where mn: "match_number (itoh (- v)) t = Some t'"
      and r: "match_from t' rest' symbols = Inr (Some (rest, out))"
      by (auto simp: match_from.simps(2) split: option.splits)
    have "t = take (length (itoh (- v))) t @ t'" "length (take (length (itoh (- v))) t) = length (itoh (- v))"
      using mn by (auto simp: match_number_def split: if_splits)
    with num [OF 2 _ h [symmetric]] r 2 show ?thesis by blast
  next
    case 3
    with m ne have b: "blank (deref t)" "match_from (dropWhile blank t) pattern symbols = Inr (Some (rest, out))"
      by (auto simp: match_from.simps(2) split: if_splits)
    obtain c u where t: "t = c # u" using ne by (cases t) auto
    with b have "dropWhile blank t = dropWhile blank u" by simp
    moreover obtain pre where "u = pre @ dropWhile blank u" using dropWhile_suffix by metis
    ultimately show ?thesis using sp [OF 3, of c pre "dropWhile blank u"] b t by simp
  next
    case 4
    define t1 where "t1 = dropWhile blank t"
    define t2 where "t2 = (if pattern \<noteq> [] then dropWhile blank (drop 2 t1) else drop 2 t1)"
    from m ne 4 have b: "deref t1 = NL" "tl t1 \<noteq> []" "deref (tl t1) = NUL" "match_from t2 pattern symbols = Inr (Some (rest, out))"
      by (auto simp: match_from.simps(2) t1_def t2_def Let_def split: if_splits)
    obtain w where w: "drop 2 t1 = w @ t2"
      using dropWhile_suffix [of "drop 2 t1" blank] by (cases "pattern = []") (auto simp: t2_def)
    obtain u where u: "t = u @ t1" unfolding t1_def using dropWhile_suffix by metis
    obtain z where "t1 = NL # NUL # z" using b by (cases t1; cases "tl t1") auto
    with b w u show ?thesis by (intro eol [OF 4 _ b(4), of u w]) auto
  next
    case 5
    obtain c u where t: "t = c # u" using ne by (cases t) auto
    with m 5 have "match_from u pattern symbols = Inr (Some (rest, out))"
      by (auto simp: match_from.simps(2) split: if_splits)
    with lit [OF 5(1,2,4) t] show ?thesis by blast
  qed
qed

lemma match_from_len:
  "match_from t pattern symbols = Inr (Some (rest, out)) \<Longrightarrow> length symbols = MAX_OPT_VARS \<Longrightarrow>
   length out = MAX_OPT_VARS \<and> (\<forall>i < MAX_OPT_VARS. symbols ! i \<noteq> [] \<longrightarrow> out ! i = symbols ! i) \<and>
   (\<exists>pre. t = pre @ rest \<and> find_len pattern (\<lambda>i. length (out ! i)) \<le> length pre)"
proof (induction pattern arbitrary: t symbols rule: length_induct)
  case (1 pat)
  show ?case
  proof (cases pat)
    case Nil
    with 1 show ?thesis by (simp add: match_from.simps find_len.simps)
  next
    case (Cons p pattern)
    from 1(2) [unfolded Cons] show ?thesis
    proof (cases rule: match_fromE)
      case (var v str t')
      have "length (tl pattern) < length pat" by (simp add: Cons)
      moreover have "length (if symbols ! v = [] then symbols[v := str] else symbols) = MAX_OPT_VARS"
        using 1(3) by simp
      ultimately obtain pre where ih: "length out = MAX_OPT_VARS" "t' = pre @ rest"
        "find_len (tl pattern) (\<lambda>i. length (out ! i)) \<le> length pre"
        "\<forall>i < MAX_OPT_VARS. (if symbols ! v = [] then symbols[v := str] else symbols) ! i \<noteq> [] \<longrightarrow>
           out ! i = (if symbols ! v = [] then symbols[v := str] else symbols) ! i"
        using 1(1) [rule_format, OF _ var(7)] by blast
      have "out ! v = str" using ih(4) var(3,4,6) 1(3) by (auto split: if_splits)
      moreover have "\<forall>i < MAX_OPT_VARS. symbols ! i \<noteq> [] \<longrightarrow> out ! i = symbols ! i"
        using ih(4) var(3) 1(3) by (auto split: if_splits simp: nth_list_update)
      ultimately show ?thesis using ih var(1,2,5) Cons
        by (auto simp: find_len.simps intro!: exI [of _ "str @ pre"])
    next
      case (num v rest' t' n)
      then have l: "length rest' < length pat" using hexdigits_length' Cons by (simp add: less_Suc_eq_le)
      have sk: "rest' = skip_hex pattern" using snd_hexdigits num(3) by (metis snd_conv)
      have "1 \<le> length n" using itoh_nonempty num(5) by (simp add: Suc_le_eq)
      moreover obtain pre where "length out = MAX_OPT_VARS" "t' = pre @ rest"
        "\<forall>i < MAX_OPT_VARS. symbols ! i \<noteq> [] \<longrightarrow> out ! i = symbols ! i"
        "find_len rest' (\<lambda>i. length (out ! i)) \<le> length pre"
        using 1(1) [rule_format, OF l num(6) 1(3)] by blast
      ultimately show ?thesis using num(1,2,4) Cons sk
        by (auto simp: find_len.simps intro!: exI [of _ "n @ pre"])
    next
      case (sp c t' u)
      have l: "length pattern < length pat" by (simp add: Cons)
      from 1(1) [rule_format, OF this sp(3) 1(3)] obtain pre where "length out = MAX_OPT_VARS" "t' = pre @ rest"
        "\<forall>i < MAX_OPT_VARS. symbols ! i \<noteq> [] \<longrightarrow> out ! i = symbols ! i"
        "find_len pattern (\<lambda>i. length (out ! i)) \<le> length pre" by blast
      with sp(1,2) Cons show ?thesis
        by (auto simp: find_len.simps intro!: exI [of _ "c # u @ pre"])
    next
      case (eol u w t')
      have l: "length pattern < length pat" by (simp add: Cons)
      from 1(1) [rule_format, OF this eol(3) 1(3)] obtain pre where "length out = MAX_OPT_VARS" "t' = pre @ rest"
        "\<forall>i < MAX_OPT_VARS. symbols ! i \<noteq> [] \<longrightarrow> out ! i = symbols ! i"
        "find_len pattern (\<lambda>i. length (out ! i)) \<le> length pre" by blast
      with eol(1,2) Cons show ?thesis
        by (auto simp: find_len.simps intro!: exI [of _ "u @ [NL, NUL] @ w @ pre"])
    next
      case (lit c t')
      have l: "length pattern < length pat" by (simp add: Cons)
      from 1(1) [rule_format, OF this lit(5) 1(3)] obtain pre where "length out = MAX_OPT_VARS" "t' = pre @ rest"
        "\<forall>i < MAX_OPT_VARS. symbols ! i \<noteq> [] \<longrightarrow> out ! i = symbols ! i"
        "find_len pattern (\<lambda>i. length (out ! i)) \<le> length pre" by blast
      with lit(1-4) Cons show ?thesis
        by (auto simp: find_len.simps intro!: exI [of _ "c # pre"])
    qed
  qed
qed

lemma matchsequence_len:
  assumes "matchsequence t pattern = Inr (Some (rest, out))"
  shows "length out = MAX_OPT_VARS \<and> (\<exists>pre. t = pre @ rest \<and> find_len pattern (\<lambda>i. length (out ! i)) \<le> length pre)"
proof -
  from match_from_len [OF assms [unfolded matchsequence_def]]
  obtain pre where "length out = MAX_OPT_VARS" "dropWhile blank t = pre @ rest"
    "find_len pattern (\<lambda>i. length (out ! i)) \<le> length pre" by auto
  moreover obtain u where "t = u @ dropWhile blank t" using dropWhile_suffix by metis
  ultimately show ?thesis by (auto intro!: exI [of _ "u @ pre"])
qed

lemma repl_size_len:
  "repl_size pattern symbols = Inr n \<Longrightarrow> n = repl_len pattern (\<lambda>i. length (symbols ! i))"
proof (induction pattern symbols arbitrary: n rule: repl_size.induct)
  case (2 p pattern symbols)
  consider "p = CHR ''%''" | "p = CHR ''!''" | "p \<noteq> CHR ''%''" "p \<noteq> CHR ''!''" by blast
  then show ?case
  proof cases
    case 1
    with 2(4) obtain d pat where p: "pattern = d # pat" by (auto split: list.splits)
    with 1 2(4) obtain m where "repl_size pat symbols = Inr m" "n = length (symbols ! (atoi_digit pattern - 1)) + m"
      "isdigit d" "atoi_digit pattern \<noteq> 0" "atoi_digit pattern - 1 < MAX_OPT_VARS" "symbols ! (atoi_digit pattern - 1) \<noteq> []"
      by (auto simp: Let_def split: if_splits)
    with 2(1) [OF 1 p refl] 1 p show ?thesis by auto
  qed (use 2 in auto)
qed simp

lemma replacesequence_len:
  "replacesequence h pattern symbols = Inr r \<Longrightarrow> length r = repl_len pattern (\<lambda>i. length (symbols ! i))"
  by (auto simp: replacesequence_def Let_def dest!: repl_size_len split: if_splits)

text \<open>Both lengths as a constant and the number of occurrences of each variable.\<close>

function find_cost :: "string \<Rightarrow> nat \<times> nat list" where
  "find_cost [] = (0, replicate MAX_OPT_VARS 0)"
| "find_cost (p # ps) =
     (if p = CHR ''%'' then
        (let (c, ks) = find_cost (tl ps); i = atoi_digit ps - 1 in (c, ks[i := ks ! i + 1]))
      else if p = CHR ''-'' then
        (let (c, ks) = find_cost (skip_hex ps) in (1 + c, ks))
      else let (c, ks) = find_cost ps in ((if p = CHR ''!'' then 2 else 1) + c, ks))"
  by pat_completeness auto
termination
  by (relation "measure length") (auto simp: less_Suc_eq_le length_skip_hex)

fun repl_cost :: "string \<Rightarrow> nat \<times> nat list" where
  "repl_cost [] = (0, replicate MAX_OPT_VARS 0)"
| "repl_cost (p # ps) =
     (if p = CHR ''%'' then
        (let (c, ks) = repl_cost (tl ps); i = atoi_digit ps - 1 in (c, ks[i := ks ! i + 1]))
      else let (c, ks) = repl_cost ps in ((if p = CHR ''!'' then 3 else 1) + c, ks))"

text \<open>Variables of a pattern, and the pattern is one the routines accept.\<close>

fun pattern_vars :: "string \<Rightarrow> nat list" where
  "pattern_vars [] = []"
| "pattern_vars (p # ps) =
     (if p = CHR ''%'' then (if isdigit (deref ps) then atoi_digit ps else 0) # pattern_vars (tl ps) else pattern_vars ps)"

definition vars_ok :: "string \<Rightarrow> bool" where
  "vars_ok p \<longleftrightarrow> list_all (\<lambda>v. 0 < v \<and> v \<le> MAX_OPT_VARS) (pattern_vars p)"

definition eval_cost :: "nat \<times> nat list \<Rightarrow> (nat \<Rightarrow> nat) \<Rightarrow> nat" where
  "eval_cost ck L = fst ck + (\<Sum>i < MAX_OPT_VARS. snd ck ! i * L i)"

definition shrink_ok :: "SEQUENCE \<Rightarrow> bool" where
  "shrink_ok q \<longleftrightarrow>
     (let (cf, kf) = find_cost (find_pat q); (cr, kr) = repl_cost (replace_pat q)
      in vars_ok (find_pat q) \<and> vars_ok (replace_pat q) \<and>
         list_all (\<lambda>v. v \<in> set (pattern_vars (find_pat q))) (pattern_vars (replace_pat q)) \<and> last (replace_pat q) = CHR ''!'' \<and> cr < cf \<and>
         list_all (\<lambda>i. kr ! i \<le> kf ! i) [0..<MAX_OPT_VARS])"

lemma shrink_a: "list_all shrink_ok sequences_a" by code_simp
lemma shrink_b: "list_all shrink_ok sequences_b" by code_simp
lemma shrink_c: "list_all shrink_ok sequences_c" by code_simp
lemma shrink_d: "list_all shrink_ok sequences_d" by code_simp
lemma shrink_e: "list_all shrink_ok sequences_e" by code_simp
lemma shrink_f: "list_all shrink_ok sequences_f" by code_simp
lemma shrink_g: "list_all shrink_ok sequences_g" by code_simp


lemma sequences_shrink_ok: "list_all shrink_ok sequences_cmp"
  by (simp add: sequences_cmp_def shrink_a shrink_b shrink_c shrink_d shrink_e shrink_f shrink_g)

lemma find_cost_length: "length (snd (find_cost p)) = MAX_OPT_VARS"
  by (induction p rule: find_cost.induct) (auto simp: Let_def split: prod.splits)

lemma repl_cost_length: "length (snd (repl_cost p)) = MAX_OPT_VARS"
  by (induction p rule: repl_cost.induct) (auto simp: Let_def split: prod.splits)

lemma pattern_vars_skip_hex: "pattern_vars (skip_hex p) = pattern_vars p"
proof (induction p)
  case (Cons c p)
  have "hexdigit CHR ''%'' = None" by code_simp
  with Cons show ?case by (auto simp: skip_hex_def)
qed (simp add: skip_hex_def)

lemma eval_cost_var:
  assumes "length ks = MAX_OPT_VARS" "i < MAX_OPT_VARS"
  shows "eval_cost (c, ks[i := Suc (ks ! i)]) L = L i + eval_cost (c, ks) L"
proof -
  have f: "finite {..<MAX_OPT_VARS}" "i \<in> {..<MAX_OPT_VARS}" using assms by auto
  have "(\<Sum>j < MAX_OPT_VARS. ks[i := Suc (ks ! i)] ! j * L j) =
        (ks ! i + 1) * L i + (\<Sum>j \<in> {..<MAX_OPT_VARS} - {i}. ks ! j * L j)"
    using assms by (subst sum.remove [OF f]) (auto intro!: sum.cong simp: nth_list_update)
  also have "\<dots> = L i + (\<Sum>j < MAX_OPT_VARS. ks ! j * L j)"
    using sum.remove [OF f, of "\<lambda>j. ks ! j * L j"] by simp
  finally show ?thesis by (simp add: eval_cost_def)
qed

lemma eval_cost_const: "eval_cost (a + c, ks) L = a + eval_cost (c, ks) L"
  "eval_cost (Suc c, ks) L = Suc (eval_cost (c, ks) L)"
  by (simp_all add: eval_cost_def)

lemma vars_ok_var:
  assumes "vars_ok (CHR ''%'' # ps)"
  shows "isdigit (deref ps)" "0 < atoi_digit ps" "atoi_digit ps \<le> MAX_OPT_VARS" "atoi_digit ps - 1 < MAX_OPT_VARS" "vars_ok (tl ps)"
  using assms by (auto simp: vars_ok_def split: if_splits)

lemma find_len_cost: "vars_ok p \<Longrightarrow> find_len p L = eval_cost (find_cost p) L"
proof (induction p rule: find_cost.induct)
  case 1
  then show ?case by (simp add: find_len.simps eval_cost_def)
next
  case (2 p ps)
  obtain c ks where t: "find_cost (tl ps) = (c, ks)" by fastforce
  then have "length ks = MAX_OPT_VARS" using find_cost_length [of "tl ps"] by simp
  moreover have "vars_ok ps" if "p \<noteq> CHR ''%''" using 2(4) that by (simp add: vars_ok_def)
  moreover have "vars_ok (skip_hex ps) = vars_ok ps" by (simp add: vars_ok_def pattern_vars_skip_hex)
  ultimately show ?case using 2 vars_ok_var [of ps] t
    by (auto simp: find_len.simps eval_cost_var eval_cost_const Let_def split: prod.splits)
qed

lemma repl_len_cost: "vars_ok p \<Longrightarrow> repl_len p L = eval_cost (repl_cost p) L"
proof (induction p rule: repl_cost.induct)
  case 1
  then show ?case by (simp add: eval_cost_def)
next
  case (2 p ps)
  obtain c ks where t: "repl_cost (tl ps) = (c, ks)" by fastforce
  then have "length ks = MAX_OPT_VARS" using repl_cost_length [of "tl ps"] by simp
  moreover have "vars_ok ps" if "p \<noteq> CHR ''%''" using 2(3) that by (simp add: vars_ok_def)
  ultimately show ?case using 2 vars_ok_var [of ps] t
    by (auto simp: eval_cost_var eval_cost_const Let_def split: prod.splits)
qed

lemma shrink_len:
  assumes "q \<in> set sequences_cmp"
  shows "repl_len (replace_pat q) L < find_len (find_pat q) L"
proof -
  obtain cf kf where f: "find_cost (find_pat q) = (cf, kf)" by fastforce
  obtain cr kr where r: "repl_cost (replace_pat q) = (cr, kr)" by fastforce
  from sequences_shrink_ok assms have ok: "shrink_ok q" by (simp add: list_all_iff)
  then have "cr < cf" and le: "\<And>i. i < MAX_OPT_VARS \<Longrightarrow> kr ! i \<le> kf ! i"
    and "vars_ok (find_pat q)" "vars_ok (replace_pat q)"
    by (auto simp: shrink_ok_def f r list_all_iff)
  moreover have "(\<Sum>i < MAX_OPT_VARS. kr ! i * L i) \<le> (\<Sum>i < MAX_OPT_VARS. kf ! i * L i)"
    by (rule sum_mono) (simp add: le)
  ultimately show ?thesis by (simp add: find_len_cost repl_len_cost f r eval_cost_def)
qed

text \<open>Every variable of the pattern is bound by a match.\<close>

lemma match_from_vars:
  "match_from t pattern symbols = Inr (Some (rest, out)) \<Longrightarrow> length symbols = MAX_OPT_VARS \<Longrightarrow> vars_ok pattern \<Longrightarrow>
   v \<in> set (pattern_vars pattern) \<Longrightarrow> out ! (v - 1) \<noteq> []"
proof (induction pattern arbitrary: t symbols rule: length_induct)
  case (1 pat)
  show ?case
  proof (cases pat)
    case Nil
    with 1 show ?thesis by simp
  next
    case (Cons p pattern)
    from 1(2) [unfolded Cons] show ?thesis
    proof (cases rule: match_fromE)
      case (var i str t')
      have l: "length (tl pattern) < length pat" by (simp add: Cons)
      have ln: "length (if symbols ! i = [] then symbols[i := str] else symbols) = MAX_OPT_VARS"
        using 1(3) by simp
      from match_from_len [OF var(7) ln] var(3,4,6) 1(3) have "out ! i \<noteq> []" by (auto split: if_splits)
      moreover have "vars_ok (tl pattern)" "isdigit (deref pattern)" using 1(4) var(1) Cons vars_ok_var by auto
      ultimately show ?thesis using 1(1) [rule_format, OF l var(7) ln] 1(5) var(1,2) Cons by auto
    next
      case (num w rest' t' n)
      then have l: "length rest' < length pat" using hexdigits_length' Cons by (simp add: less_Suc_eq_le)
      have "rest' = skip_hex pattern" using snd_hexdigits num(3) by (metis snd_conv)
      with 1(1) [rule_format, OF l num(6) 1(3)] 1(4,5) num(2) Cons
      show ?thesis by (auto simp: vars_ok_def pattern_vars_skip_hex)
    next
      case (sp c t' u)
      have l: "length pattern < length pat" by (simp add: Cons)
      with 1(1) [rule_format, OF l sp(3) 1(3)] 1(4,5) sp(1) Cons show ?thesis by (auto simp: vars_ok_def)
    next
      case (eol u w t')
      have l: "length pattern < length pat" by (simp add: Cons)
      with 1(1) [rule_format, OF l eol(3) 1(3)] 1(4,5) eol(1) Cons show ?thesis by (auto simp: vars_ok_def)
    next
      case (lit c t')
      have l: "length pattern < length pat" by (simp add: Cons)
      with 1(1) [rule_format, OF l lit(5) 1(3)] 1(4,5) lit(1) Cons show ?thesis by (auto simp: vars_ok_def)
    qed
  qed
qed

lemma repl_size_total:
  "vars_ok p \<Longrightarrow> \<forall>v \<in> set (pattern_vars p). symbols ! (v - 1) \<noteq> [] \<Longrightarrow>
   repl_size p symbols = Inr (repl_len p (\<lambda>i. length (symbols ! i)))"
proof (induction p symbols rule: repl_size.induct)
  case (2 p ps symbols)
  show ?case
  proof (cases "p = CHR ''%''")
    case True
    with 2(4) have v: "isdigit (deref ps)" "0 < atoi_digit ps" "atoi_digit ps - 1 < MAX_OPT_VARS" "vars_ok (tl ps)"
      using vars_ok_var by auto
    then obtain d pat where p: "ps = d # pat" by (cases ps) (auto simp: isdigit_def NUL_def)
    with 2(1) [OF True p refl] v 2(5) True show ?thesis by (auto simp: Let_def)
  next
    case False
    with 2(4,5) have "vars_ok ps" "\<forall>v \<in> set (pattern_vars ps). symbols ! (v - 1) \<noteq> []" by (auto simp: vars_ok_def)
    with 2(2,3) False show ?thesis by auto
  qed
qed simp

lemma repl_text_len:
  "vars_ok p \<Longrightarrow> p \<noteq> [] \<Longrightarrow> last p = CHR ''!'' \<Longrightarrow>
   Suc (length (repl_text p symbols)) = repl_len p (\<lambda>i. length (symbols ! i)) \<and>
   (\<exists>r. repl_text p symbols = r @ [NL, NUL])"
proof (induction p symbols rule: repl_text.induct)
  case (2 p ps symbols)
  show ?case
  proof (cases "p = CHR ''%''")
    case True
    with 2(4) have v: "isdigit (deref ps)" "0 < atoi_digit ps" "atoi_digit ps - 1 < MAX_OPT_VARS" "vars_ok (tl ps)"
      using vars_ok_var by auto
    then obtain d pat where p: "ps = d # pat" by (cases ps) (auto simp: isdigit_def NUL_def)
    have d: "d \<noteq> CHR ''!''" using v p by (auto simp: isdigit_def)
    then have "pat \<noteq> []" "last pat = CHR ''!''" using 2(6) p True by (auto split: if_splits)
    with 2(1) [OF True p] v p True show ?thesis by auto
  next
    case False
    then have "vars_ok ps" using 2(4) by (simp add: vars_ok_def)
    with 2(2,3) 2(6) False show ?thesis by (cases "ps = []") (auto split: if_splits)
  qed
qed simp

lemma shrink_okD:
  assumes "q \<in> set sequences_cmp"
  shows "vars_ok (find_pat q)" "vars_ok (replace_pat q)" "last (replace_pat q) = CHR ''!''"
    "set (pattern_vars (replace_pat q)) \<subseteq> set (pattern_vars (find_pat q))"
proof -
  have "shrink_ok q" using assms sequences_shrink_ok by (simp add: list_all_iff)
  then show "vars_ok (find_pat q)" "vars_ok (replace_pat q)" "last (replace_pat q) = CHR ''!''"
    "set (pattern_vars (replace_pat q)) \<subseteq> set (pattern_vars (find_pat q))"
    by (auto simp: shrink_ok_def list_all_iff split: prod.splits)
qed

lemma sequences_replace_ne: "list_all (\<lambda>q. replace_pat q \<noteq> []) sequences_cmp"
  by (simp add: sequence_tables)


lemma replace_ne: "q \<in> set sequences_cmp \<Longrightarrow> replace_pat q \<noteq> []"
  using sequences_replace_ne by (simp add: list_all_iff)

text \<open>
  A matched sequence: the match is a prefix of the text, the replacement is built without a
  fault when its allocation succeeds, it is shorter and ends a line.
\<close>

lemma sequence_step:
  assumes q: "q \<in> set sequences_cmp" and m: "matchsequence t (find_pat q) = Inr (Some (rest, symbols))"
  obtains pre where "t = pre @ rest"
    "replacesequence h (replace_pat q) symbols =
       (if granted h (repl_len (replace_pat q) (\<lambda>i. length (symbols ! i)))
        then Inr (TAB # repl_text (replace_pat q) symbols) else Inl (Fatal 103))"
    "Suc (length (repl_text (replace_pat q) symbols)) < length pre"
    "\<exists>r. repl_text (replace_pat q) symbols = r @ [NL, NUL]"
proof -
  from matchsequence_len [OF m] obtain pre where pre: "t = pre @ rest"
    "find_len (find_pat q) (\<lambda>i. length (symbols ! i)) \<le> length pre" by blast
  have tx: "Suc (length (repl_text (replace_pat q) symbols)) = repl_len (replace_pat q) (\<lambda>i. length (symbols ! i))"
    "\<exists>r. repl_text (replace_pat q) symbols = r @ [NL, NUL]"
    using repl_text_len [OF shrink_okD(2) [OF q] replace_ne [OF q] shrink_okD(3) [OF q]] by auto
  have "\<forall>v \<in> set (pattern_vars (replace_pat q)). symbols ! (v - 1) \<noteq> []"
    using match_from_vars [OF m [unfolded matchsequence_def] _ shrink_okD(1) [OF q]] shrink_okD(4) [OF q] by auto
  from repl_size_total [OF shrink_okD(2) [OF q] this] tx(1)
  have "replacesequence h (replace_pat q) symbols =
       (if granted h (repl_len (replace_pat q) (\<lambda>i. length (symbols ! i)))
        then Inr (TAB # repl_text (replace_pat q) symbols) else Inl (Fatal 103))"
    by (simp add: replacesequence_def Let_def)
  with that [OF pre(1) _ _ tx(2)] pre(2) tx(1) shrink_len [OF q, of "\<lambda>i. length (symbols ! i)"] show ?thesis
    by simp
qed

lemma strreplace_shrinks:
  assumes "length repl \<le> length pre"
  shows "take (length (pre @ rest) - (length pre - length repl))
           (strreplace (pre @ rest) repl (length pre) (length repl)) = repl @ rest"
proof (cases "length repl < length pre")
  case True
  then have "drop (length repl) (drop (length pre - length repl) (pre @ rest) @ w) = rest @ w" for w
    by simp
  with True show ?thesis by (simp add: strreplace_def Let_def)
qed (use assms in \<open>simp add: strreplace_def\<close>)

subsection \<open>The optimiser loop ends\<close>

text \<open>A region of complete lines: empty, or ending in the zero of its last line.\<close>

definition closed_text :: "string \<Rightarrow> bool" where
  "closed_text t \<longleftrightarrow> t = [] \<or> last t = NUL"

lemma closed_text_suffix: "closed_text (a @ b) \<Longrightarrow> closed_text b"
  by (cases "b = []") (auto simp: closed_text_def)

lemma match_from_fault: "match_from t pattern symbols \<noteq> Inl NoFuel"
proof (induction pattern arbitrary: t symbols rule: length_induct)
  case (1 pat)
  show ?case
  proof (cases pat)
    case Nil
    then show ?thesis by (simp add: match_from.simps)
  next
    case (Cons p ps)
    note ih = 1 [rule_format, unfolded Cons]
    have r: "match_from t' ps s \<noteq> Inl NoFuel" "match_from t' (tl ps) s \<noteq> Inl NoFuel" for t' s
      by (rule ih, simp)+
    have n: "match_from t' w s \<noteq> Inl NoFuel" if "hexdigits 0 ps = (v, w)" for t' s v w
      by (rule ih) (use hexdigits_length' [OF that [symmetric]] in \<open>simp add: less_Suc_eq_le\<close>)
    have "take_symbol t \<noteq> Inl NoFuel" by (simp add: take_symbol_def Let_def)
    then show ?thesis unfolding Cons match_from.simps(2) Let_def
      by (cases "take_symbol t") (simp_all add: r n split: prod.split option.split)
  qed
qed

lemma matchsequence_fault: "matchsequence t p \<noteq> Inl NoFuel"
  unfolding matchsequence_def by (rule match_from_fault)


definition opt_result_ok :: "string \<Rightarrow> nat \<Rightarrow> fault + (string \<times> cell \<times> nat) \<Rightarrow> bool" where
  "opt_result_ok t m r = (case r of
      Inl e \<Rightarrow> e \<noteq> NoFuel
    | Inr (t', s', m') \<Rightarrow> closed_text t' \<and> (t' = [] \<longrightarrow> t = []) \<and> m \<le> m' \<and> length t' + m' \<le> length t + m)"

lemma opt_at_ok:
  "set qs \<subseteq> set sequences_cmp \<Longrightarrow> length t \<le> fuel \<Longrightarrow> closed_text t \<Longrightarrow>
   opt_result_ok t m (opt_at h sequences_cmp fuel qs t saved m)"
proof (induction fuel arbitrary: qs t saved m)
  case 0
  have "opt_result_ok [] m (opt_at h sequences_cmp 0 qs [] saved m)" if "set qs \<subseteq> set sequences_cmp" for qs
    using that
  proof (induction qs)
    case Nil
    then show ?case by (simp add: opt_result_ok_def closed_text_def)
  next
    case (Cons q qs)
    then show ?case
      using matchsequence_fault [of "[]" "find_pat q"] sequence_step [of q "[]"]
      by (auto simp: opt_result_ok_def split: sum.split option.split prod.splits)
  qed
  then show ?case using 0 by auto
next
  case (Suc fuel)
  note outer = Suc
  show ?case using Suc.prems
  proof (induction qs)
    case Nil
    then show ?case by (simp add: opt_result_ok_def)
  next
    case (Cons q qs)
    from Cons.prems(1) have q: "q \<in> set sequences_cmp" by simp
    show ?case
    proof (cases "matchsequence t (find_pat q)")
      case (Inl e)
      then show ?thesis using matchsequence_fault [of t "find_pat q"] by (auto simp: opt_result_ok_def)
    next
      case (Inr r)
      show ?thesis
      proof (cases r)
        case None
        with Inr Cons show ?thesis by auto
      next
        case (Some x)
        obtain rest symbols where x: "x = (rest, symbols)" by fastforce
        let ?repl = "TAB # repl_text (replace_pat q) symbols"
        from sequence_step [OF q] Inr Some x obtain pre where pre: "t = pre @ rest" and
          rs: "replacesequence h (replace_pat q) symbols =
             (if granted h (repl_len (replace_pat q) (\<lambda>i. length (symbols ! i))) then Inr ?repl else Inl (Fatal 103))"
          and short: "length ?repl < length pre" and e: "\<exists>r. repl_text (replace_pat q) symbols = r @ [NL, NUL]"
          by (metis length_Cons)
        show ?thesis
        proof (cases "granted h (repl_len (replace_pat q) (\<lambda>i. length (symbols ! i)))")
          case False
          then show ?thesis using Inr Some x rs by (simp add: opt_result_ok_def)
        next
          case True
          have "opt_at h sequences_cmp (Suc fuel) (q # qs) t saved m =
              opt_at h sequences_cmp fuel sequences_cmp (?repl @ rest) (saved + savesize q) (Suc m)"
            using Inr Some x rs True short strreplace_shrinks [of ?repl pre rest] by (simp add: pre Let_def)
          moreover have "opt_result_ok (?repl @ rest) (Suc m)
              (opt_at h sequences_cmp fuel sequences_cmp (?repl @ rest) (saved + savesize q) (Suc m))"
          proof (rule outer(1))
            show "closed_text (?repl @ rest)"
              using e Cons.prems(3) pre by (cases "rest = []") (auto simp: closed_text_def)
          qed (use short pre Cons.prems in auto)
          ultimately show ?thesis using short pre by (auto simp: opt_result_ok_def split: sum.splits)
        qed
      qed
    qed
  qed
qed


lemma opt_pass_ok:
  "length t \<le> fuel \<Longrightarrow> closed_text t \<Longrightarrow> opt_result_ok t m (opt_pass h sequences_cmp fuel t saved m)"
proof (induction fuel arbitrary: t saved m)
  case 0
  then show ?case by (simp add: opt_result_ok_def closed_text_def)
next
  case (Suc fuel)
  show ?case
  proof (cases "t = []")
    case True
    then show ?thesis by (simp add: opt_result_ok_def closed_text_def)
  next
    case False
    note at = opt_at_ok [OF subset_refl le_refl Suc.prems(2), of m h saved]
    show ?thesis
    proof (cases "opt_at h sequences_cmp (length t) sequences_cmp t saved m")
      case (Inl e)
      then show ?thesis using at False by (simp add: opt_result_ok_def)
    next
      case (Inr r)
      obtain t1 s1 m1 where r: "r = (t1, s1, m1)" by (cases r)
      from at Inr r False have ok: "closed_text t1" "t1 \<noteq> []" "m \<le> m1" "length t1 + m1 \<le> length t + m"
        by (auto simp: opt_result_ok_def)
      then obtain line t2 where line: "t1 = line @ NUL # t2" "cstring line" "cstr_at t1 0 = Inr line"
        using split_list_first [of NUL t1] cstr_at_0 by (metis closed_text_def cstring_def last_in_set)
      then have c2: "closed_text t2" using ok(1) closed_text_suffix [of "line @ [NUL]" t2] by simp
      have "length t2 \<le> fuel" using line ok Suc.prems by simp
      note ih = Suc.IH [OF this c2, of m1 s1]
      have tl: "drop (Suc (length line)) t1 = t2" using line by simp
      show ?thesis using ih Inr r False line ok(3,4)
        by (auto simp: tl opt_result_ok_def closed_text_def split: sum.splits prod.splits)
    qed
  qed
qed

lemma opt_loop_ok:
  "length t < fuel \<Longrightarrow> closed_text t \<Longrightarrow>
   (case opt_loop h sequences_cmp fuel t saved of
      Inl e \<Rightarrow> e \<noteq> NoFuel | Inr (t', saved') \<Rightarrow> closed_text t' \<and> length t' \<le> length t \<and> (t' = [] \<longrightarrow> t = []))"
proof (induction fuel arbitrary: t saved)
  case (Suc fuel)
  note p = opt_pass_ok [OF le_refl Suc.prems(2), of 0 h saved]
  show ?case
  proof (cases "opt_pass h sequences_cmp (length t) t saved 0")
    case (Inl e)
    then show ?thesis using p by (simp add: opt_result_ok_def)
  next
    case (Inr r)
    obtain t1 s1 m1 where r: "r = (t1, s1, m1)" by (cases r)
    from p Inr r have ok: "closed_text t1" "t1 = [] \<longrightarrow> t = []" "length t1 + m1 \<le> length t" by (auto simp: opt_result_ok_def)
    show ?thesis
    proof (cases "m1 > 0")
      case True
      then have "length t1 < fuel" using ok Suc.prems by simp
      from Suc.IH [OF this ok(1), of s1] True show ?thesis using Inr r ok by (auto split: sum.splits prod.splits)
    qed (use Inr r ok in simp)
  qed
qed simp

subsection \<open>The result cannot be optimised further\<close>

lemma opt_at_none:
  "opt_at h sequences fuel qs t saved m = Inr (t', saved', m') \<Longrightarrow> m \<le> m' \<and> (m' = m \<longrightarrow> t' = t \<and> saved' = saved \<and>
     (\<forall>q \<in> set qs. matchsequence t (find_pat q) = Inr None))"
proof (induction h sequences fuel qs t saved m rule: opt_at.induct)
  case (2 h sequences fuel q qs t saved m)
  show ?case
  proof (cases "matchsequence t (find_pat q)")
    case (Inr r)
    show ?thesis
    proof (cases r)
      case None
      with Inr 2 show ?thesis by auto
    next
      case (Some x)
      obtain rest symbols where x: "x = (rest, symbols)" by fastforce
      with 2(3) Inr Some obtain repl fuel' where "replacesequence h (replace_pat q) symbols = Inr repl"
        "length repl \<le> length t - length rest" "fuel = Suc fuel'"
        "opt_at h sequences fuel' sequences
            (take (length t - (length t - length rest - length repl))
              (strreplace t repl (length t - length rest) (length repl)))
            (saved + savesize q) (Suc m) = Inr (t', saved', m')"
        by (auto simp: Let_def split: sum.splits if_splits nat.splits)
      note R = this
      from 2(2) [OF Inr Some x [symmetric] refl R(1) _ R(3,4)] R(2) show ?thesis by simp
    qed
  qed (use 2(3) in simp)
qed simp

text \<open>The lines of a region at which the optimiser looks for a match.\<close>

fun no_match :: "SEQUENCE list \<Rightarrow> nat \<Rightarrow> string \<Rightarrow> bool" where
  "no_match qs 0 t = True"
| "no_match qs (Suc n) t \<longleftrightarrow> t = [] \<or>
     (list_all (\<lambda>q. matchsequence t (find_pat q) = Inr None) qs \<and>
      no_match qs n (drop 1 (dropWhile (\<lambda>c. c \<noteq> NUL) t)))"


lemma cstr_at_split:
  "cstr_at t 0 = Inr line \<Longrightarrow> t = line @ NUL # drop (Suc (length line)) t \<and> line = takeWhile (\<lambda>c. c \<noteq> NUL) t \<and>
     drop 1 (dropWhile (\<lambda>c. c \<noteq> NUL) t) = drop (Suc (length line)) t"
proof -
  assume a: "cstr_at t 0 = Inr line"
  then have l: "line = takeWhile (\<lambda>c. c \<noteq> NUL) t" and "NUL \<in> set t" by (auto simp: cstr_at_def split: if_splits)
  then obtain u v where "t = u @ NUL # v" "NUL \<notin> set u" by (meson split_list_first)
  moreover from this have "takeWhile (\<lambda>c. c \<noteq> NUL) t = u" by (simp add: takeWhile_cstring cstring_def)
  moreover have "dropWhile (\<lambda>c. c \<noteq> NUL) (u @ NUL # v) = NUL # v"
    using \<open>NUL \<notin> set u\<close> by (induction u) auto
  ultimately show ?thesis using l by simp
qed

lemma opt_pass_none:
  "opt_pass h sequences fuel t saved m = Inr (t', saved', m') \<Longrightarrow>
     m \<le> m' \<and> (m' = m \<longrightarrow> t' = t \<and> saved' = saved \<and> no_match sequences fuel t)"
proof (induction fuel arbitrary: t saved m t')
  case (Suc fuel)
  show ?case
  proof (cases "t = []")
    case False
    with Suc.prems obtain t1 s1 m1 line t2 where
      at: "opt_at h sequences (length t) sequences t saved m = Inr (t1, s1, m1)"
      and c: "cstr_at t1 0 = Inr line"
      and p: "opt_pass h sequences fuel (drop (length line + 1) t1) s1 m1 = Inr (t2, saved', m')"
      and t': "t' = line @ NUL # t2"
      by (auto split: sum.splits prod.splits)
    from opt_at_none [OF at] Suc.IH [OF p] cstr_at_split [OF c] t'
    show ?thesis by (auto simp: list_all_iff)
  qed (use Suc.prems in auto)
qed (auto split: if_splits)

lemma opt_at_no_match:
  "list_all (\<lambda>q. matchsequence t (find_pat q) = Inr None) qs \<Longrightarrow> opt_at h sequences fuel qs t saved m = Inr (t, saved, m)"
  by (induction qs) simp_all

lemma opt_pass_no_match:
  "no_match sequences fuel t \<Longrightarrow> length t \<le> fuel \<Longrightarrow> closed_text t \<Longrightarrow> opt_pass h sequences fuel t saved m = Inr (t, saved, m)"
proof (induction fuel arbitrary: t)
  case (Suc fuel)
  show ?case
  proof (cases "t = []")
    case False
    with Suc.prems(3) obtain line rest where t: "t = line @ NUL # rest" "cstring line"
      using split_list_first [of NUL t] by (metis closed_text_def cstring_def last_in_set)
    then have c: "cstr_at t 0 = Inr line" by (simp add: cstr_at_0)
    have "closed_text rest" using Suc.prems(3) t closed_text_suffix [of "line @ [NUL]" rest] by simp
    have "list_all (\<lambda>q. matchsequence t (find_pat q) = Inr None) sequences"
      and n: "no_match sequences fuel rest"
      using Suc.prems(1) False cstr_at_split [OF c, THEN conjunct2, THEN conjunct2] t(1) by (simp_all del: One_nat_def)
    note at = opt_at_no_match [OF this(1), of h sequences "length t" saved m]
    have "length rest \<le> fuel" using Suc.prems(2) t(1) by simp
    note p = Suc.IH [OF n this \<open>closed_text rest\<close>]
    have tl: "drop (length line + 1) t = rest" using t(1) by simp
    show ?thesis unfolding opt_pass.simps(2) using False by (simp only: at c tl p sum.case prod.case if_False t(1) [symmetric])
  qed simp
qed simp

lemma opt_loop_no_match:
  "opt_loop h sequences fuel t saved = Inr (t', saved') \<Longrightarrow>
     \<exists>s'. opt_pass h sequences (length t') t' s' 0 = Inr (t', saved', 0) \<and> no_match sequences (length t') t'"
proof (induction fuel arbitrary: t saved)
  case (Suc fuel)
  then obtain t1 s1 m1 where p: "opt_pass h sequences (length t) t saved 0 = Inr (t1, s1, m1)"
    by (auto split: sum.splits prod.splits)
  show ?case
  proof (cases "m1 > 0")
    case True
    then show ?thesis using Suc.IH [of t1 s1] Suc.prems p by simp
  next
    case False
    with Suc.prems p opt_pass_none [OF p] show ?thesis by auto
  qed
qed simp

subsection \<open>The properties of the optimiser\<close>

text \<open>For every entry of the optimiser's table: when its pattern matches at the start of a text,
  the match is a prefix of the text, the replacement is built without a failing assertion or an access out of
  bounds, it is strictly shorter than the match (which the code asserts) and it ends a line.\<close>

theorem replacement_shorter:
  assumes "q \<in> set sequences_cmp" "matchsequence t (find_pat q) = Inr (Some (rest, symbols))" "\<forall>n. granted h n"
  shows "\<exists>pre repl. t = pre @ rest \<and> replacesequence h (replace_pat q) symbols = Inr repl \<and>
     length repl < length pre \<and> (\<exists>r. repl = r @ [NL, NUL])"
proof -
  from sequence_step [OF assms(1,2), of h] assms(3) obtain pre where "t = pre @ rest"
    "replacesequence h (replace_pat q) symbols = Inr (TAB # repl_text (replace_pat q) symbols)"
    "length (TAB # repl_text (replace_pat q) symbols) < length pre"
    "\<exists>r. TAB # repl_text (replace_pat q) symbols = r @ [NL, NUL]"
    by (metis append_Cons length_Cons)
  then show ?thesis by blast
qed

definition pop_text :: string where
  "pop_text = TAB # ''move.pri'' @ [NL, NUL, TAB] @ ''push.pri'' @ [NL, NUL, TAB] @ ''load.s.pri 8'' @ [NL, NUL, TAB] @
     ''pop.alt'' @ [NL, NUL]"

lemma pop_match: "matchsequence pop_text (find_pat (sequences_a ! 12)) = Inr (Some ([], [''8'', [], [], []]))"
  by code_simp

lemma nth_12_sequences: "sequences_a ! 12 \<in> set sequences_cmp"
proof -
  have "12 < length sequences_a" by code_simp
  then show ?thesis by (simp add: sequences_cmp_def)
qed

theorem replacement_shorter_witness:
  "\<exists>pre repl. pop_text = pre @ [] \<and>
     replacesequence \<lparr>granted = (\<lambda>_. True), junk = (\<lambda>_. NUL)\<rparr> (replace_pat (sequences_a ! 12)) [''8'', [], [], []] = Inr repl \<and>
     length repl < length pre \<and> (\<exists>r. repl = r @ [NL, NUL])"
  by (rule replacement_shorter [OF nth_12_sequences pop_match]) simp

text \<open>C15: The optimiser's loop ends on every region of complete lines: the bound of its model is
  never reached, and the region it leaves is not longer and consists of complete lines again.\<close>

theorem optimiser_ends:
  assumes "closed_text t"
  shows "opt_loop h sequences_cmp (Suc (length t)) t saved \<noteq> Inl NoFuel \<and>
    (\<forall>t' saved'. opt_loop h sequences_cmp (Suc (length t)) t saved = Inr (t', saved') \<longrightarrow>
       closed_text t' \<and> length t' \<le> length t)"
  using opt_loop_ok [OF lessI assms, of h saved] by (auto simp del: opt_loop.simps split: sum.splits)

theorem optimiser_ends_witness:
  "opt_loop \<lparr>granted = (\<lambda>_. True), junk = (\<lambda>_. NUL)\<rparr> sequences_cmp (Suc (length pop_text)) pop_text 0 \<noteq> Inl NoFuel"
  using optimiser_ends [of pop_text "\<lparr>granted = (\<lambda>_. True), junk = (\<lambda>_. NUL)\<rparr>" 0] by (simp add: closed_text_def pop_text_def del: opt_loop.simps)

text \<open>C16: What the optimiser leaves cannot be optimised further: running it again changes
  neither the text nor the count of saved bytes.\<close>

theorem optimiser_fixpoint:
  assumes "closed_text t" "opt_loop h sequences_cmp (Suc (length t)) t saved = Inr (t', saved')"
  shows "opt_loop h sequences_cmp (Suc fuel) t' s0 = Inr (t', s0)"
proof -
  have "closed_text t'" using opt_loop_ok [OF lessI assms(1), of h saved] assms(2) by (simp del: opt_loop.simps)
  moreover have "no_match sequences_cmp (length t') t'" using opt_loop_no_match [OF assms(2)] by blast
  ultimately show ?thesis by (simp add: opt_pass_no_match)
qed


definition nop_text :: string where
  "nop_text = TAB # ''nop'' @ [NL, NUL]"

lemma nop_opt: "opt_loop \<lparr>granted = (\<lambda>_. True), junk = (\<lambda>_. NUL)\<rparr> sequences_cmp (Suc (length nop_text)) nop_text 3 = Inr (nop_text, 3)"
  by code_simp

theorem optimiser_fixpoint_witness:
  "opt_loop \<lparr>granted = (\<lambda>_. True), junk = (\<lambda>_. NUL)\<rparr> sequences_cmp (Suc 4) nop_text 0 = Inr (nop_text, 0)"
  by (rule optimiser_fixpoint [OF _ nop_opt]) (simp add: closed_text_def nop_text_def)

end
