(* ===== verification/Staging.thy ===== *)
theory Staging
  imports Globals PeepholeFacts
begin

text \<open>
  The staging buffer of \<open>sc7.c\<close>: \<open>stgwrite\<close> collects the assembler text, either line
  by line on its way to the file or, while \<open>staging\<close>, in the buffer where marks group the
  argument expressions of a call; \<open>stgout\<close> sends the buffer through \<open>stgstring\<close>, which
  reorders the marked arguments, and \<open>stgopt\<close>, which optimises each block and writes it.

  \<open>stgbuf\<close> is the whole allocated block (its length is the C variable \<open>stgmax\<close>, the
  empty list is the null pointer); the pointers of \<open>stgstring\<close> are positions in it.
\<close>

subsection \<open>The buffer\<close>

definition sSTG_GROW :: nat where "sSTG_GROW = 512"
definition sSTG_MAX :: nat where "sSTG_MAX = 20480"
definition sSTARTREORDER :: char where "sSTARTREORDER = CHR 0x01"
definition sENDREORDER :: char where "sENDREORDER = CHR 0x02"
definition sEXPRSTART :: nat where "sEXPRSTART = 0x80"
definition sMAXARGS :: nat where "sMAXARGS = 127"

definition grow_stgbuffer :: "nat \<Rightarrow> cstate \<Rightarrow> fault + cstate" where
  "grow_stgbuffer requiredsize s =
     (let clear = (stgbuf s = []); stgmax = length (stgbuf s)
      in if \<not> stgmax < requiredsize then Inl AssertFail
         else if requiredsize > sSTG_MAX then Inl (Fatal 102)
         else if \<not> granted (mem s) (requiredsize + sSTG_GROW) then Inl (Fatal 102)
         else let p = stgbuf s @ fresh (mem s) stgmax (requiredsize + sSTG_GROW - stgmax)
              in Inr (s\<lparr>stgbuf := if clear then p[0 := NUL] else p\<rparr>))"

definition CHECK_STGBUFFER :: "nat \<Rightarrow> cstate \<Rightarrow> fault + cstate" where
  "CHECK_STGBUFFER index s = (if index \<ge> length (stgbuf s) then grow_stgbuffer (index + 1) s else Inr s)"

definition stgbuffer_cleanup :: "cstate \<Rightarrow> cstate" where
  "stgbuffer_cleanup s = s\<lparr>stgbuf := []\<rparr>"

text \<open>\<open>CHECK_STGBUFFER(stgidx); stgbuf[stgidx++]=c;\<close>\<close>

definition stg_put :: "char \<Rightarrow> cstate \<Rightarrow> fault + cstate" where
  "stg_put c s = bind_res (CHECK_STGBUFFER (stgidx s) s)
     (\<lambda>s. Inr (s\<lparr>stgbuf := (stgbuf s)[stgidx s := c], stgidx := stgidx s + 1\<rparr>))"

definition stgmark :: "char \<Rightarrow> cstate \<Rightarrow> fault + cstate" where
  "stgmark mark s = (if staging s then stg_put mark s else Inr s)"

definition filewrite :: "string \<Rightarrow> cstate \<Rightarrow> fault + cstate" where
  "filewrite str s =
     (if sc_status s = statWRITE then
        (case outf s of
           None \<Rightarrow> Inl AssertFail
         | Some mf \<Rightarrow> bind_res (pc_writeasm (mem s) mf str) (\<lambda>(ok, mf). Inr (s\<lparr>outf := Some mf\<rparr>)))
      else Inr s)"

definition stgwrite :: "string \<Rightarrow> cstate \<Rightarrow> fault + cstate" where
  "stgwrite st s =
     bind_res (CHECK_STGBUFFER 0 s) (\<lambda>s.
       if staging s then
         if stgidx s > length (stgbuf s) then Inl OutOfBounds
         else let s = (if stgidx s \<ge> 2 \<and> stgbuf s ! (stgidx s - 1) = NUL \<and> stgbuf s ! (stgidx s - 2) \<noteq> NL
                       then s\<lparr>stgidx := stgidx s - 1\<rparr> else s)
              in seq (map stg_put (st @ [NUL])) s
       else
         bind_res (cstr_at (stgbuf s) 0) (\<lambda>old.
           bind_res (CHECK_STGBUFFER (length old + length st + 1) s) (\<lambda>s.
             let line = old @ st;
                 s = s\<lparr>stgbuf := line @ NUL # drop (length line + 1) (stgbuf s)\<rparr>
             in if line \<noteq> [] \<and> last line = NL
                then bind_res (filewrite line s) (\<lambda>s. Inr (s\<lparr>stgbuf := (stgbuf s)[0 := NUL]\<rparr>))
                else Inr s)))"

definition stgdel :: "nat \<Rightarrow> cell \<Rightarrow> cstate \<Rightarrow> cstate" where
  "stgdel index code_index s = (if staging s then s\<lparr>stgidx := index, code_idx := code_index\<rparr> else s)"

text \<open>The index and the code index are stored only while staging.\<close>

definition stgget :: "cstate \<Rightarrow> (nat \<times> cell) option" where
  "stgget s = (if staging s then Some (stgidx s, code_idx s) else None)"

definition stgset :: "bool \<Rightarrow> cstate \<Rightarrow> fault + cstate" where
  "stgset onoff s0 =
     (let s = s0\<lparr>staging := onoff\<rparr>
      in bind_res
           (if staging s then
              if stgidx s \<noteq> 0 then Inl AssertFail
              else bind_res (CHECK_STGBUFFER (stgidx s) s) (\<lambda>s.
                     bind_res (cstr_at (stgbuf s) 0) (\<lambda>line.
                       if length line > 0 then filewrite line s else Inr s))
            else Inr s)
           (\<lambda>s. if stgbuf s = [] then Inl OutOfBounds else Inr (s\<lparr>stgbuf := (stgbuf s)[0 := NUL]\<rparr>)))"

subsection \<open>Optimising and writing a block\<close>

function write_lines :: "string \<Rightarrow> cstate \<Rightarrow> fault + cstate" where
  "write_lines t s =
     (if t = [] then Inr s
      else case cstr_at t 0 of
             Inl e \<Rightarrow> Inl e
           | Inr line \<Rightarrow> (case filewrite line s of
                            Inl e \<Rightarrow> Inl e
                          | Inr s' \<Rightarrow> write_lines (drop (length line + 1) t) s'))"
  by pat_completeness auto
termination
  by (relation "measure (\<lambda>(t, s). length t)") auto

declare write_lines.simps [simp del]

text \<open>
  \<open>stgopt(start, end)\<close>. The bytes an optimisation frees stay in the buffer, behind the
  shortened block, as the \<open>0xcc\<close> that \<open>strreplace\<close> fills in.
\<close>

definition stgopt :: "nat \<Rightarrow> nat \<Rightarrow> cstate \<Rightarrow> fault + cstate" where
  "stgopt start to s =
     (let block = take (to - start) (drop start (stgbuf s))
      in bind_res
           (if sc_debug s AND sNOOPTIMIZE = 0 \<and> sc_status s = statWRITE
            then opt_loop (mem s) sequences_cmp (Suc (length block)) block 0
            else Inr (block, 0))
           (\<lambda>(t, saved). write_lines t
              (s\<lparr>stgbuf := take start (stgbuf s) @ t @ replicate (length block - length t) (CHR 0xcc) @ drop to (stgbuf s),
                 code_idx := code_idx s - saved\<rparr>)))"

subsection \<open>Reordering\<close>

text \<open>
  A slot of the argument stack: the start and the end of an expression. A slot that was
  not assigned holds uninitialised pointers.
\<close>

type_synonym argstack = "(nat option \<times> nat option) list"

definition set_end :: "nat option \<Rightarrow> nat \<Rightarrow> argstack \<Rightarrow> argstack" where
  "set_end arg p stack = (case arg of None \<Rightarrow> stack | Some a \<Rightarrow> stack[a := (fst (stack ! a), Some p)])"

definition set_start :: "nat \<Rightarrow> nat \<Rightarrow> argstack \<Rightarrow> argstack" where
  "set_start a p stack = stack[a := (Some p, snd (stack ! a))]"

text \<open>The \<open>do ... while (nest)\<close> loop; \<open>None\<close> for \<open>arg\<close> is the \<open>-1\<close> of the code.\<close>

function reorder_scan :: "string \<Rightarrow> nat \<Rightarrow> nat \<Rightarrow> nat option \<Rightarrow> nat \<Rightarrow> argstack \<Rightarrow>
    fault + (nat \<times> nat option \<times> nat \<times> argstack)" where
  "reorder_scan buf start nest arg argc stack =
     (if start \<ge> length buf then Inl OutOfBounds
      else if buf ! start = sSTARTREORDER then reorder_scan buf (start + 1) (nest + 1) arg argc stack
      else if buf ! start = sENDREORDER then
        (if nest = 1 then Inr (start + 1, arg, argc, stack)
         else reorder_scan buf (start + 1) (nest - 1) arg argc stack)
      else if ord (buf ! start) AND sEXPRSTART = sEXPRSTART then
        (if nest = 1 then
           (let stack = set_end arg (start - 1) stack;
                arg = ord (buf ! start) - sEXPRSTART
            in if arg \<ge> sMAXARGS then Inl OutOfBounds
               else reorder_scan buf (start + 1) nest (Some arg) (if arg \<ge> argc then arg + 1 else argc)
                      (set_start arg (start + 1) stack))
         else reorder_scan buf (start + 1) nest arg argc stack)
      else case cstr_at buf start of
             Inl e \<Rightarrow> Inl e
           | Inr line \<Rightarrow> reorder_scan buf (start + length line + 1) nest arg argc stack)"
  by pat_completeness auto
termination
  by (relation "measure (\<lambda>(buf, start, nest, arg, argc, stack). length buf - start)") auto

declare reorder_scan.simps [simp del]

text \<open>The loop that finds the end of a block.\<close>

function block_end :: "string \<Rightarrow> nat \<Rightarrow> nat \<Rightarrow> fault + nat" where
  "block_end buf ptr to =
     (if ptr < to then
        if ptr \<ge> length buf then Inl OutOfBounds
        else if buf ! ptr = sSTARTREORDER then Inr ptr
        else case cstr_at buf ptr of
               Inl e \<Rightarrow> Inl e
             | Inr line \<Rightarrow> block_end buf (ptr + length line + 1) to
      else Inr ptr)"
  by pat_completeness auto
termination
  by (relation "measure (\<lambda>(buf, ptr, to). length buf - ptr)") auto

declare block_end.simps [simp del]

text \<open>
  \<open>stgstring\<close>: the fuel bounds the nesting of its calls and the rounds of its loop;
  the slot size of the argument stack is that of two pointers.
\<close>

fun stgstring :: "nat \<Rightarrow> nat \<Rightarrow> nat \<Rightarrow> cstate \<Rightarrow> fault + cstate" where
  "stgstring 0 start to s = Inl NoFuel"
| "stgstring (Suc fuel) start to s =
     (if start < to then
        if start \<ge> length (stgbuf s) then Inl OutOfBounds
        else if stgbuf s ! start = sSTARTREORDER then
          if \<not> granted (mem s) (sMAXARGS * 8) then Inl (Fatal 103)
          else (case reorder_scan (stgbuf s) (start + 1) 1 None 0 (replicate sMAXARGS (None, None)) of
                  Inl e \<Rightarrow> Inl e
                | Inr (start', arg, argc, stack) \<Rightarrow>
                    bind_res
                      (seq (map (\<lambda>slot s. case slot of
                                   (Some b, Some e) \<Rightarrow> stgstring fuel b e s
                                 | _ \<Rightarrow> Inl OutOfBounds)
                              (rev (take argc (set_end arg (start' - 1) stack)))) s)
                      (\<lambda>s. stgstring fuel start' to s))
        else (case block_end (stgbuf s) start to of
                Inl e \<Rightarrow> Inl e
              | Inr ptr \<Rightarrow> bind_res (stgopt start ptr s) (\<lambda>s. stgstring fuel ptr to s))
      else Inr s)"

definition stgout :: "nat \<Rightarrow> cstate \<Rightarrow> fault + cstate" where
  "stgout index s =
     (if \<not> staging s then Inr s
      else bind_res (stgstring (Suc (length (stgbuf s))) index (stgidx s) s) (\<lambda>s. Inr (s\<lparr>stgidx := index\<rparr>)))"

end
