(* ===== verification/StagingFacts.thy ===== *)
theory StagingFacts
  imports Staging
begin

text \<open>
  What the staging buffer promises. \<open>stgwrite\<close> appends to the text of the buffer or of the
  file and changes nothing else, failing only with the fatal "staging buffer overflow"; pieces
  of a line are joined. \<open>emits\<close> is the contract the code generator builds on: an operation
  appends given lines and advances the code index by a given amount.
\<close>

subsection \<open>Views of the state\<close>

definition stg_text :: "cstate \<Rightarrow> string" where
  "stg_text s = take (stgidx s) (stgbuf s)"

definition out_text :: "cstate \<Rightarrow> string" where
  "out_text s = (case outf s of None \<Rightarrow> [] | Some mf \<Rightarrow> contents mf)"

text \<open>The part of a line that waits in the buffer outside staging.\<close>

definition pending :: "cstate \<Rightarrow> string" where
  "pending s = takeWhile (\<lambda>c. c \<noteq> NUL) (stgbuf s)"

definition out_ok :: "cstate \<Rightarrow> bool" where
  "out_ok s \<longleftrightarrow> (\<forall>n. granted (mem s) n) \<and>
     (\<exists>mf. outf s = Some mf \<and> mf_wf mf \<and> position mf = length (contents mf))"

definition stg_wf :: "cstate \<Rightarrow> bool" where
  "stg_wf s \<longleftrightarrow> (if staging s then stgidx s \<le> length (stgbuf s) else stgbuf s = [] \<or> NUL \<in> set (stgbuf s))"

text \<open>The states that differ in the output only.\<close>

definition same_but_output :: "cstate \<Rightarrow> cstate \<Rightarrow> bool" where
  "same_but_output s s' \<longleftrightarrow>
     s' = s\<lparr>stgbuf := stgbuf s', stgidx := stgidx s', outf := outf s', code_idx := code_idx s'\<rparr>"

lemma same_but_output_refl [simp]: "same_but_output s s"
  by (simp add: same_but_output_def)

lemma same_but_output_trans: "same_but_output s t \<Longrightarrow> same_but_output t u \<Longrightarrow> same_but_output s u"
  by (cases s; cases t; cases u) (simp add: same_but_output_def)

lemma same_but_outputD:
  assumes "same_but_output s s'"
  shows "staging s' = staging s" "mem s' = mem s" "sc_status s' = sc_status s" "syms s' = syms s" "sc_debug s' = sc_debug s"
  by (subst assms [unfolded same_but_output_def], simp)+

subsection \<open>Writing to the file\<close>

lemma filewrite_spec:
  assumes "out_ok s"
  shows "\<exists>s'. filewrite str s = Inr s' \<and> out_ok s' \<and> s' = s\<lparr>outf := outf s'\<rparr> \<and>
     out_text s' = out_text s @ (if sc_status s = statWRITE then str else [])"
proof (cases "sc_status s = statWRITE")
  case True
  obtain mf where mf: "outf s = Some mf" "mf_wf mf" "position mf = length (contents mf)" "\<forall>n. granted (mem s) n"
    using assms by (auto simp: out_ok_def)
  from pc_writeasm_granted [OF mf(2,4)] obtain mf' where w: "pc_writeasm (mem s) mf str = Inr (True, mf')" by blast
  from asmfile.write_ok [OF mf(2,3) w] mf(4)
  show ?thesis using True w mf by (auto simp: filewrite_def out_ok_def out_text_def)
qed (use assms in \<open>simp add: filewrite_def\<close>)

subsection \<open>The buffer\<close>

lemma CHECK_STGBUFFER_spec:
  "CHECK_STGBUFFER i s = Inl (Fatal 102) \<or>
   (\<exists>b. CHECK_STGBUFFER i s = Inr (s\<lparr>stgbuf := b\<rparr>) \<and> i < length b \<and>
      (if stgbuf s = [] then b ! 0 = NUL else take (length (stgbuf s)) b = stgbuf s) \<and> length (stgbuf s) \<le> length b)"
proof (cases "i < length (stgbuf s)")
  case True
  then have "CHECK_STGBUFFER i s = Inr (s\<lparr>stgbuf := stgbuf s\<rparr>)" by (simp add: CHECK_STGBUFFER_def)
  with True show ?thesis by (intro disjI2 exI [of _ "stgbuf s"]) auto
qed (auto simp: CHECK_STGBUFFER_def grow_stgbuffer_def Let_def nth_append)

text \<open>Below the limit and with memory to spare the check succeeds.\<close>

lemma CHECK_STGBUFFER_room:
  "i < sSTG_MAX \<Longrightarrow> \<forall>n. granted (mem s) n \<Longrightarrow> CHECK_STGBUFFER i s \<noteq> Inl e"
  by (auto simp: CHECK_STGBUFFER_def grow_stgbuffer_def Let_def)

lemma stg_put_spec:
  assumes "stgidx s \<le> length (stgbuf s)"
  shows "stg_put c s = Inl (Fatal 102) \<or>
   (\<exists>b. stg_put c s = Inr (s\<lparr>stgbuf := b, stgidx := Suc (stgidx s)\<rparr>) \<and>
      Suc (stgidx s) \<le> length b \<and> take (Suc (stgidx s)) b = stg_text s @ [c])"
proof (cases "stg_put c s = Inl (Fatal 102)")
  case False
  then obtain b where b: "CHECK_STGBUFFER (stgidx s) s = Inr (s\<lparr>stgbuf := b\<rparr>)" "stgidx s < length b"
    "if stgbuf s = [] then b ! 0 = NUL else take (length (stgbuf s)) b = stgbuf s"
    using CHECK_STGBUFFER_spec [of "stgidx s" s] by (auto simp: stg_put_def)
  have "take (stgidx s) b = take (stgidx s) (stgbuf s)"
    using b(3) assms by (cases "stgbuf s = []") (auto simp: min_absorb1 dest: arg_cong [where f = "take (stgidx s)"])
  then have "take (Suc (stgidx s)) (b[stgidx s := c]) = take (stgidx s) (stgbuf s) @ [c]"
    using b(2) by (simp add: take_Suc_conv_app_nth)
  then show ?thesis using b by (auto simp: stg_put_def stg_text_def)
qed simp

lemma stg_puts_spec:
  "stgidx s \<le> length (stgbuf s) \<Longrightarrow> seq (map stg_put cs) s = Inl (Fatal 102) \<or>
   (\<exists>b i. seq (map stg_put cs) s = Inr (s\<lparr>stgbuf := b, stgidx := i\<rparr>) \<and>
      i \<le> length b \<and> take i b = stg_text s @ cs)"
proof (induction cs arbitrary: s)
  case Nil
  then show ?case by (auto simp: stg_text_def intro!: exI [of _ "stgbuf s"] exI [of _ "stgidx s"])
next
  case (Cons c cs)
  from stg_put_spec [OF Cons.prems, of c] show ?case
  proof (elim disjE exE conjE)
    fix b assume b: "stg_put c s = Inr (s\<lparr>stgbuf := b, stgidx := Suc (stgidx s)\<rparr>)"
      "Suc (stgidx s) \<le> length b" "take (Suc (stgidx s)) b = stg_text s @ [c]"
    with Cons.IH [of "s\<lparr>stgbuf := b, stgidx := Suc (stgidx s)\<rparr>"] show ?case
      by (auto simp: stg_text_def)
  qed simp
qed

text \<open>Text joined to a text: the zero of an incomplete line is overwritten.\<close>

definition open_line :: "string \<Rightarrow> bool" where
  "open_line t \<longleftrightarrow> length t \<ge> 2 \<and> last t = NUL \<and> last (butlast t) \<noteq> NL"

definition stg_join :: "string \<Rightarrow> string \<Rightarrow> string" where
  "stg_join t st = (if open_line t then butlast t else t) @ st @ [NUL]"

lemma stg_text_open:
  assumes "stgidx s \<le> length (stgbuf s)"
  shows "open_line (stg_text s) \<longleftrightarrow> stgidx s \<ge> 2 \<and> stgbuf s ! (stgidx s - 1) = NUL \<and> stgbuf s ! (stgidx s - 2) \<noteq> NL"
proof (cases "stgidx s \<ge> 2")
  case True
  then have "stg_text s \<noteq> []" "butlast (stg_text s) = take (stgidx s - 1) (stgbuf s)" "stgidx s - 1 - 1 = stgidx s - 2"
    using assms by (auto simp: stg_text_def butlast_take)
  with True assms show ?thesis
    by (auto simp: open_line_def last_conv_nth) (auto simp: stg_text_def last_conv_nth)
qed (use assms in \<open>auto simp: open_line_def stg_text_def\<close>)

lemma stgwrite_staged:
  assumes "staging s" "stg_wf s"
  shows "stgwrite st s = Inl (Fatal 102) \<or>
    (\<exists>b i. stgwrite st s = Inr (s\<lparr>stgbuf := b, stgidx := i\<rparr>) \<and> i \<le> length b \<and>
       take i b = stg_join (stg_text s) st)"
proof -
  have i: "stgidx s \<le> length (stgbuf s)" using assms by (simp add: stg_wf_def)
  from CHECK_STGBUFFER_spec [of 0 s] show ?thesis
  proof (elim disjE exE conjE)
    fix b assume b: "CHECK_STGBUFFER 0 s = Inr (s\<lparr>stgbuf := b\<rparr>)" "length (stgbuf s) \<le> length b"
      "if stgbuf s = [] then b ! 0 = NUL else take (length (stgbuf s)) b = stgbuf s"
    define t where "t = s\<lparr>stgbuf := b\<rparr>"
    have tt: "stg_text t = stg_text s" "stgidx t \<le> length (stgbuf t)"
      using b i by (auto simp: t_def stg_text_def dest: arg_cong [where f = "take (stgidx s)"] split: if_splits)
    define j where "j = (if open_line (stg_text s) then stgidx s - 1 else stgidx s)"
    have ut: "take j b = (if open_line (stg_text s) then butlast (stg_text s) else stg_text s)" "j \<le> length b"
      using tt butlast_take [OF tt(2)] by (auto simp: j_def t_def stg_text_def)
    have "stgwrite st s = seq (map stg_put (st @ [NUL])) (if open_line (stg_text t) then t\<lparr>stgidx := stgidx t - 1\<rparr> else t)"
      using assms(1) b(1) tt(2) unfolding stgwrite_def stg_text_open [OF tt(2)]
      by (simp add: t_def [symmetric] Let_def) (simp add: t_def)
    also have "\<dots> = seq (map stg_put (st @ [NUL])) (s\<lparr>stgbuf := b, stgidx := j\<rparr>)"
      by (simp add: tt(1) j_def) (simp add: t_def)
    finally show ?thesis using stg_puts_spec [of "s\<lparr>stgbuf := b, stgidx := j\<rparr>" "st @ [NUL]"] ut
      by (auto simp: stg_text_def stg_join_def)
  qed (simp add: stgwrite_def)
qed

lemma cstr_at_0_iff: "cstr_at b 0 = Inr l \<longleftrightarrow> NUL \<in> set b \<and> l = takeWhile (\<lambda>c. c \<noteq> NUL) b"
  by (auto simp: cstr_at_def)

lemma stgwrite_unstaged:
  assumes "\<not> staging s" "stg_wf s" "out_ok s" "cstring st"
  shows "stgwrite st s = Inl (Fatal 102) \<or>
    (\<exists>b m. stgwrite st s = Inr (s\<lparr>stgbuf := b, outf := m\<rparr>) \<and> NUL \<in> set b \<and> out_ok (s\<lparr>outf := m\<rparr>) \<and>
       (let l = pending s @ st in
        if l \<noteq> [] \<and> last l = NL
        then takeWhile (\<lambda>c. c \<noteq> NUL) b = [] \<and>
             out_text (s\<lparr>outf := m\<rparr>) = out_text s @ (if sc_status s = statWRITE then l else [])
        else takeWhile (\<lambda>c. c \<noteq> NUL) b = l \<and> m = outf s))"
proof -
  from CHECK_STGBUFFER_spec [of 0 s] show ?thesis
  proof (elim disjE exE conjE)
    fix b0 assume b0: "CHECK_STGBUFFER 0 s = Inr (s\<lparr>stgbuf := b0\<rparr>)" "0 < length b0"
      "if stgbuf s = [] then b0 ! 0 = NUL else take (length (stgbuf s)) b0 = stgbuf s"
    have p: "cstr_at b0 0 = Inr (pending s)"
    proof (cases "stgbuf s = []")
      case True
      with b0 obtain c where "b0 = NUL # c" by (cases b0) auto
      with True show ?thesis by (simp add: cstr_at_def pending_def)
    next
      case False
      with b0(3) have "b0 = stgbuf s @ drop (length (stgbuf s)) b0" by (metis append_take_drop_id)
      moreover obtain x where "x \<in> set (stgbuf s)" "x = NUL" using assms(1,2) False by (auto simp: stg_wf_def)
      ultimately show ?thesis
        by (metis (mono_tags, lifting) cstr_at_0_iff Un_iff pending_def set_append takeWhile_append1)
    qed
    define l where "l = pending s @ st"
    have cl: "cstring l" using assms(4) set_takeWhileD by (fastforce simp: l_def cstring_def pending_def)
    define s1 where "s1 = s\<lparr>stgbuf := b0\<rparr>"
    from CHECK_STGBUFFER_spec [of "length l + 1" s1] show ?thesis
    proof (elim disjE exE conjE)
      assume "CHECK_STGBUFFER (length l + 1) s1 = Inl (Fatal 102)"
      then show ?thesis using assms(1) b0(1) p by (simp add: stgwrite_def s1_def l_def)
    next
      fix b1 assume b1: "CHECK_STGBUFFER (length l + 1) s1 = Inr (s1\<lparr>stgbuf := b1\<rparr>)"
      define b2 where "b2 = l @ NUL # drop (length l + 1) b1"
      define s2 where "s2 = s\<lparr>stgbuf := b2\<rparr>"
      have w: "stgwrite st s = (if l \<noteq> [] \<and> last l = NL
          then bind_res (filewrite l s2) (\<lambda>s. Inr (s\<lparr>stgbuf := (stgbuf s)[0 := NUL]\<rparr>)) else Inr s2)"
        using assms(1) b0(1) p b1 by (simp add: stgwrite_def s1_def l_def Let_def s2_def b2_def)
      have "out_ok s2" using assms(3) by (simp add: s2_def out_ok_def)
      from filewrite_spec [OF this, of l] obtain m where
        f: "filewrite l s2 = Inr (s2\<lparr>outf := m\<rparr>)" "out_ok (s2\<lparr>outf := m\<rparr>)"
          "out_text (s2\<lparr>outf := m\<rparr>) = out_text s @ (if sc_status s = statWRITE then l else [])"
        by (auto simp: s2_def out_text_def)
      have b2: "NUL \<in> set b2" "takeWhile (\<lambda>c. c \<noteq> NUL) b2 = l" "b2 \<noteq> []"
        using takeWhile_cstring [OF cl] by (auto simp: b2_def)
      then have b3: "NUL \<in> set (b2[0 := NUL])" "takeWhile (\<lambda>c. c \<noteq> NUL) (b2[0 := NUL]) = []" by (cases b2; simp)+
      show ?thesis
      proof (cases "l \<noteq> [] \<and> last l = NL")
        case True
        then have "stgwrite st s = Inr (s\<lparr>stgbuf := b2[0 := NUL], outf := m\<rparr>)" using w f(1) by (simp add: s2_def)
        moreover have "out_ok (s\<lparr>outf := m\<rparr>)" "out_text (s\<lparr>outf := m\<rparr>) = out_text (s2\<lparr>outf := m\<rparr>)"
          using f(2) by (simp_all add: s2_def out_ok_def out_text_def)
        ultimately show ?thesis using True f(3) b3 unfolding l_def [symmetric] Let_def
          by (intro disjI2 exI [of _ "b2[0 := NUL]"] exI [of _ m]) simp
      next
        case False
        then have "stgwrite st s = Inr (s\<lparr>stgbuf := b2, outf := outf s\<rparr>)" using w by (auto simp: s2_def)
        with False b2 assms(3) show ?thesis unfolding l_def [symmetric] Let_def
          by (intro disjI2 exI [of _ b2] exI [of _ "outf s"]) auto
      qed
    qed
  qed (simp add: stgwrite_def)
qed

subsection \<open>Whole lines\<close>

text \<open>At the border of two lines, with the file open for appending.\<close>

definition ready :: "cstate \<Rightarrow> bool" where
  "ready s \<longleftrightarrow> stg_wf s \<and> out_ok s \<and> (if staging s then \<not> open_line (stg_text s) else pending s = [])"

text \<open>The lines \<open>ls\<close>, each with its newline, come behind what was written before.\<close>

definition appended :: "cstate \<Rightarrow> string list \<Rightarrow> cstate \<Rightarrow> bool" where
  "appended s ls s' \<longleftrightarrow>
     (if staging s then stg_text s' = stg_text s @ concat (map (\<lambda>l. l @ [NUL]) ls) \<and> outf s' = outf s
      else out_text s' = out_text s @ (if sc_status s = statWRITE then concat ls else []))"

definition asm_piece :: "string \<Rightarrow> bool" where
  "asm_piece p \<longleftrightarrow> p \<noteq> [] \<and> cstring p \<and> last p \<noteq> NL"

definition asm_text_line :: "string \<Rightarrow> bool" where
  "asm_text_line l \<longleftrightarrow> l \<noteq> [] \<and> cstring l \<and> last l = NL"

definition partial_line :: "cstate \<Rightarrow> string \<Rightarrow> cstate \<Rightarrow> bool" where
  "partial_line s q s' \<longleftrightarrow> (\<exists>b i. s' = s\<lparr>stgbuf := b, stgidx := i\<rparr>) \<and> stg_wf s' \<and>
     (if staging s then stg_text s' = stg_text s @ (if q = [] then [] else q @ [NUL]) else pending s' = q)"

lemma partial_line_refl: "ready s \<Longrightarrow> partial_line s [] s"
  by (auto simp: partial_line_def ready_def intro!: exI [of _ "stgbuf s"] exI [of _ "stgidx s"])

lemma stg_join_partial:
  assumes "\<not> open_line t" "q = [] \<or> last q \<noteq> NL"
  shows "stg_join (t @ (if q = [] then [] else q @ [NUL])) st = t @ q @ st @ [NUL]"
proof (cases "q = []")
  case False
  then have "open_line (t @ q @ [NUL])" "butlast (t @ q @ [NUL]) = t @ q"
    using assms(2) by (cases q; auto simp: open_line_def butlast_append)+
  with False show ?thesis by (simp add: stg_join_def)
qed (use assms in \<open>simp add: stg_join_def\<close>)

lemma stgwrite_partial:
  assumes "ready s" "partial_line s q s1" "q = [] \<or> last q \<noteq> NL" "asm_piece p"
  shows "stgwrite p s1 = Inl (Fatal 102) \<or> (\<exists>s2. stgwrite p s1 = Inr s2 \<and> partial_line s (q @ p) s2)"
proof (cases "staging s")
  case True
  from assms(2) obtain b i where s1: "s1 = s\<lparr>stgbuf := b, stgidx := i\<rparr>" "stg_wf s1"
    "stg_text s1 = stg_text s @ (if q = [] then [] else q @ [NUL])" using True by (auto simp: partial_line_def)
  then have "staging s1" using True by simp
  from stgwrite_staged [OF this s1(2), of p] show ?thesis
  proof (elim disjE exE conjE)
    fix b2 j assume w: "stgwrite p s1 = Inr (s1\<lparr>stgbuf := b2, stgidx := j\<rparr>)" "j \<le> length b2"
      "take j b2 = stg_join (stg_text s1) p"
    let ?s2 = "s\<lparr>stgbuf := b2, stgidx := j\<rparr>"
    have "take j b2 = stg_text s @ (q @ p) @ [NUL]"
      using w(3) s1(3) stg_join_partial [of "stg_text s" q p] assms(1,3) True by (simp add: ready_def)
    then have "partial_line s (q @ p) ?s2" using w(2) True assms(4)
      by (auto simp: partial_line_def stg_wf_def asm_piece_def stg_text_def)
    then show ?thesis using w(1) s1(1) by simp
  qed simp
next
  case False
  from assms(2) obtain b i where s1: "s1 = s\<lparr>stgbuf := b, stgidx := i\<rparr>" "stg_wf s1" "pending s1 = q"
    using False by (auto simp: partial_line_def)
  then have u: "\<not> staging s1" "out_ok s1" using False assms(1) by (auto simp: ready_def out_ok_def)
  have p: "q @ p \<noteq> []" "last (q @ p) \<noteq> NL" "cstring p" using assms(4) by (auto simp: asm_piece_def)
  from stgwrite_unstaged [OF u(1) s1(2) u(2) p(3)] show ?thesis
  proof (elim disjE exE conjE)
    fix b2 m assume w: "stgwrite p s1 = Inr (s1\<lparr>stgbuf := b2, outf := m\<rparr>)" "NUL \<in> set b2"
      and l: "let l = pending s1 @ p in if l \<noteq> [] \<and> last l = NL
         then takeWhile (\<lambda>c. c \<noteq> NUL) b2 = [] \<and>
             out_text (s1\<lparr>outf := m\<rparr>) = out_text s1 @ (if sc_status s1 = statWRITE then l else [])
         else takeWhile (\<lambda>c. c \<noteq> NUL) b2 = l \<and> m = outf s1"
    from l p s1(3) have "takeWhile (\<lambda>c. c \<noteq> NUL) b2 = q @ p" "m = outf s1" by (auto simp: Let_def)
    then have "stgwrite p s1 = Inr (s\<lparr>stgbuf := b2, stgidx := i\<rparr>)" using w(1) s1(1) by simp
    moreover have "partial_line s (q @ p) (s\<lparr>stgbuf := b2, stgidx := i\<rparr>)"
      using w(2) \<open>takeWhile (\<lambda>c. c \<noteq> NUL) b2 = q @ p\<close> False
      by (auto simp: partial_line_def stg_wf_def pending_def)
    ultimately show ?thesis by blast
  qed simp
qed

lemma stgwrite_pieces:
  "ready s \<Longrightarrow> partial_line s q s1 \<Longrightarrow> q = [] \<or> last q \<noteq> NL \<Longrightarrow> \<forall>p \<in> set ps. asm_piece p \<Longrightarrow>
   seq (map stgwrite ps) s1 = Inl (Fatal 102) \<or>
   (\<exists>s2. seq (map stgwrite ps) s1 = Inr s2 \<and> partial_line s (q @ concat ps) s2)"
proof (induction ps arbitrary: q s1)
  case (Cons p ps)
  then have ap: "asm_piece p" by simp
  from stgwrite_partial [OF Cons.prems(1-3) ap] show ?case
  proof (elim disjE exE conjE)
    fix s2 assume s2: "stgwrite p s1 = Inr s2" "partial_line s (q @ p) s2"
    have "q @ p = [] \<or> last (q @ p) \<noteq> NL" using ap by (auto simp: asm_piece_def)
    from Cons.IH [OF Cons.prems(1) s2(2) this] Cons.prems(4) s2(1) show ?case by auto
  qed simp
qed simp

lemma stgwrite_last:
  assumes r: "ready s" and p1: "partial_line s q s1" and q: "q = [] \<or> last q \<noteq> NL" and e: "asm_text_line p"
  shows "stgwrite p s1 = Inl (Fatal 102) \<or>
    (\<exists>s2. stgwrite p s1 = Inr s2 \<and> ready s2 \<and> appended s [q @ p] s2 \<and> (\<exists>b i m. s2 = s\<lparr>stgbuf := b, stgidx := i, outf := m\<rparr>))"
proof (cases "staging s")
  case True
  from p1 obtain b i where s1: "s1 = s\<lparr>stgbuf := b, stgidx := i\<rparr>" "stg_wf s1"
    "stg_text s1 = stg_text s @ (if q = [] then [] else q @ [NUL])" using True by (auto simp: partial_line_def)
  then have "staging s1" using True by simp
  from stgwrite_staged [OF this s1(2), of p] show ?thesis
  proof (elim disjE exE conjE)
    fix b2 j assume w: "stgwrite p s1 = Inr (s1\<lparr>stgbuf := b2, stgidx := j\<rparr>)" "j \<le> length b2"
      "take j b2 = stg_join (stg_text s1) p"
    have t: "take j b2 = stg_text s @ q @ p @ [NUL]"
      using w(3) s1(3) stg_join_partial [of "stg_text s" q p] r q True by (simp add: ready_def)
    have ob: "\<not> open_line (stg_text s @ q @ p @ [NUL])"
      using e by (simp add: open_line_def butlast_append asm_text_line_def)
    let ?s2 = "s\<lparr>stgbuf := b2, stgidx := j, outf := outf s\<rparr>"
    have "ready ?s2" using t ob w(2) r True by (simp add: ready_def stg_wf_def stg_text_def out_ok_def)
    moreover have "appended s [q @ p] ?s2" using t True by (simp add: appended_def stg_text_def)
    moreover have "stgwrite p s1 = Inr ?s2" using w(1) s1(1) by simp
    ultimately show ?thesis by blast
  qed simp
next
  case False
  from p1 obtain b i where s1: "s1 = s\<lparr>stgbuf := b, stgidx := i\<rparr>" "stg_wf s1" "pending s1 = q"
    using False by (auto simp: partial_line_def)
  then have u: "\<not> staging s1" "out_ok s1" using False r by (auto simp: ready_def out_ok_def)
  have p: "q @ p \<noteq> []" "last (q @ p) = NL" "cstring p" using e by (auto simp: asm_text_line_def)
  from stgwrite_unstaged [OF u(1) s1(2) u(2) p(3)] show ?thesis
  proof (elim disjE exE conjE)
    fix b2 m assume w: "stgwrite p s1 = Inr (s1\<lparr>stgbuf := b2, outf := m\<rparr>)" "NUL \<in> set b2" "out_ok (s1\<lparr>outf := m\<rparr>)"
      and l: "let l = pending s1 @ p in if l \<noteq> [] \<and> last l = NL
         then takeWhile (\<lambda>c. c \<noteq> NUL) b2 = [] \<and>
             out_text (s1\<lparr>outf := m\<rparr>) = out_text s1 @ (if sc_status s1 = statWRITE then l else [])
         else takeWhile (\<lambda>c. c \<noteq> NUL) b2 = l \<and> m = outf s1"
    let ?s2 = "s\<lparr>stgbuf := b2, stgidx := i, outf := m\<rparr>"
    from l p s1 have t: "takeWhile (\<lambda>c. c \<noteq> NUL) b2 = []"
      "out_text ?s2 = out_text s @ (if sc_status s = statWRITE then q @ p else [])"
      by (auto simp: Let_def out_text_def)
    have "ready ?s2" using w t s1(1) False by (simp add: ready_def stg_wf_def pending_def out_ok_def)
    moreover have "appended s [q @ p] ?s2" using t(2) False by (simp add: appended_def)
    moreover have "stgwrite p s1 = Inr ?s2" using w(1) s1(1) by simp
    ultimately show ?thesis by blast
  qed simp
qed

subsection \<open>The contract of an emitter\<close>

text \<open>What every emitter leaves alone.\<close>

definition frame :: "cstate \<Rightarrow> cstate \<Rightarrow> bool" where
  "frame s s' \<longleftrightarrow> staging s' = staging s \<and> sc_status s' = sc_status s \<and> sc_debug s' = sc_debug s \<and> mem s' = mem s"

lemma frame_refl [simp]: "frame s s"
  by (simp add: frame_def)

lemma frame_trans: "frame s t \<Longrightarrow> frame t u \<Longrightarrow> frame s u"
  by (simp add: frame_def)

lemma same_but_output_frame: "same_but_output s s' \<Longrightarrow> frame s s'"
  by (simp add: frame_def same_but_outputD)

text \<open>
  \<open>emits P f ls n\<close>: from a state at a line border that satisfies \<open>P\<close>, \<open>f\<close> appends the
  lines \<open>ls\<close>, advances the code index by \<open>n\<close> and ends in such a state; its only failure is
  the overflow of the staging buffer. A condition is \<open>stable\<close> when it does not depend on
  the output.
\<close>

definition emits :: "(cstate \<Rightarrow> bool) \<Rightarrow> (cstate \<Rightarrow> fault + cstate) \<Rightarrow> string list \<Rightarrow> cell \<Rightarrow> bool" where
  "emits P f ls n \<longleftrightarrow> (\<forall>s. ready s \<and> P s \<longrightarrow> f s = Inl (Fatal 102) \<or>
     (\<exists>s'. f s = Inr s' \<and> ready s' \<and> P s' \<and> appended s ls s' \<and> frame s s' \<and> code_idx s' = code_idx s + n))"

definition stable :: "(cstate \<Rightarrow> bool) \<Rightarrow> bool" where
  "stable P \<longleftrightarrow> (\<forall>s s'. same_but_output s s' \<longrightarrow> P s \<longrightarrow> P s')"

lemma stable_True [simp, intro]: "stable (\<lambda>s. True)"
  by (simp add: stable_def)

lemma stable_conj [intro]: "stable P \<Longrightarrow> stable Q \<Longrightarrow> stable (\<lambda>s. P s \<and> Q s)"
  by (simp add: stable_def)

lemma emitsD:
  assumes "emits P f ls n" "ready s" "P s" "f s = Inr s'"
  shows "ready s'" "P s'" "appended s ls s'" "frame s s'" "code_idx s' = code_idx s + n"
  using assms by (auto simp: emits_def)

text \<open>A line written in pieces.\<close>

lemma emits_line:
  assumes P: "stable P" and ps: "\<forall>p \<in> set ps. asm_piece p" "asm_text_line p"
  shows "emits P (seq (map stgwrite (ps @ [p]))) [concat ps @ p] 0"
  unfolding emits_def
proof (intro allI impI)
  fix s assume "ready s \<and> P s"
  then have r: "ready s" "P s" by auto
  let ?f = "seq (map stgwrite (ps @ [p]))"
  have q0: "[] = [] \<or> last [] \<noteq> NL" by simp
  from stgwrite_pieces [OF r(1) partial_line_refl [OF r(1)] q0 ps(1)]
  show "?f s = Inl (Fatal 102) \<or> (\<exists>s'. ?f s = Inr s' \<and> ready s' \<and> P s' \<and> appended s [concat ps @ p] s' \<and>
      frame s s' \<and> code_idx s' = code_idx s + 0)"
  proof (elim disjE exE conjE)
    fix s1 assume s1: "seq (map stgwrite ps) s = Inr s1" "partial_line s ([] @ concat ps) s1"
    have l: "[] @ concat ps = [] \<or> last ([] @ concat ps) \<noteq> NL"
      using ps(1) by (induction ps rule: rev_induct) (auto simp: asm_piece_def)
    from stgwrite_last [OF r(1) s1(2) l ps(2)] show ?thesis
    proof (elim disjE exE conjE)
      fix s2 b i m assume s2: "stgwrite p s1 = Inr s2" "ready s2" "appended s [([] @ concat ps) @ p] s2"
        "s2 = s\<lparr>stgbuf := b, stgidx := i, outf := m\<rparr>"
      then have "same_but_output s s2" by (simp add: same_but_output_def)
      then have "P s2" "frame s s2" using P r(2) same_but_output_frame by (auto simp: stable_def)
      then show ?thesis using s1(1) s2 by (simp add: seq_append)
    qed (use s1(1) in \<open>simp_all add: seq_append\<close>)
  qed (simp_all add: seq_append)
qed

lemma appended_append: "appended s ls s1 \<Longrightarrow> appended s1 ms s2 \<Longrightarrow> frame s s1 \<Longrightarrow> appended s (ls @ ms) s2"
  by (auto simp: appended_def frame_def)

lemma emits_Nil: "emits P (seq []) [] 0"
  by (auto simp: emits_def appended_def)

lemma emits_skip: "emits P skip [] 0"
  by (auto simp: emits_def skip_def appended_def)

lemma emits_bind:
  assumes "emits P f ls n" "emits P g ms m"
  shows "emits P (\<lambda>s. bind_res (f s) g) (ls @ ms) (n + m)"
  unfolding emits_def
proof (intro allI impI)
  fix s assume r: "ready s \<and> P s"
  show "bind_res (f s) g = Inl (Fatal 102) \<or> (\<exists>s'. bind_res (f s) g = Inr s' \<and> ready s' \<and> P s' \<and>
    appended s (ls @ ms) s' \<and> frame s s' \<and> code_idx s' = code_idx s + (n + m))"
  proof (cases "f s = Inl (Fatal 102)")
    case False
    then obtain s1 where s1: "f s = Inr s1" "ready s1 \<and> P s1" "appended s ls s1" "frame s s1" "code_idx s1 = code_idx s + n"
      using assms(1) r by (auto simp: emits_def)
    from assms(2) [unfolded emits_def, rule_format, OF s1(2)] s1 show ?thesis
      using appended_append frame_trans by (fastforce simp: add.assoc)
  qed simp
qed

lemma emits_Cons: "emits P f ls n \<Longrightarrow> emits P (seq fs) ms m \<Longrightarrow> emits P (seq (f # fs)) (ls @ ms) (n + m)"
  using emits_bind [of P f ls n "seq fs" ms m] by (simp add: emits_def)

lemma emits_seq_append: "emits P (seq fs) ls n \<Longrightarrow> emits P (seq gs) ms m \<Longrightarrow> emits P (seq (fs @ gs)) (ls @ ms) (n + m)"
  using emits_bind [of P "seq fs" ls n "seq gs" ms m] by (simp add: emits_def seq_append)

text \<open>A step that does not write.\<close>

lemma emits_quiet:
  assumes "\<And>s. ready s \<Longrightarrow> P s \<Longrightarrow> \<exists>s'. f s = Inr s' \<and> P s' \<and> frame s s' \<and> code_idx s' = code_idx s + n \<and>
      stgbuf s' = stgbuf s \<and> stgidx s' = stgidx s \<and> outf s' = outf s"
  shows "emits P f [] n"
  unfolding emits_def
proof (intro allI impI)
  fix s assume r: "ready s \<and> P s"
  with assms obtain s' where s': "f s = Inr s'" "P s'" "frame s s'" "code_idx s' = code_idx s + n"
    "stgbuf s' = stgbuf s" "stgidx s' = stgidx s" "outf s' = outf s" by blast
  then have "ready s'" "appended s [] s'" using r
    by (auto simp: ready_def stg_wf_def out_ok_def stg_text_def pending_def frame_def appended_def out_text_def)
  with s' show "f s = Inl (Fatal 102) \<or> (\<exists>s'. f s = Inr s' \<and> ready s' \<and> P s' \<and> appended s [] s' \<and>
      frame s s' \<and> code_idx s' = code_idx s + n)" by blast
qed

subsection \<open>The properties of the staging buffer\<close>

text \<open>A line written in pieces, only the last of which ends in a newline, arrives as one line behind what was
  written before, in the staging buffer or in the file, and nothing else changes; the only
  failure is the fatal overflow of the staging buffer.\<close>

theorem stgwrite_line:
  assumes "ready s" "\<forall>p \<in> set ps. asm_piece p" "asm_text_line p"
  shows "seq (map stgwrite (ps @ [p])) s = Inl (Fatal 102) \<or>
    (\<exists>s'. seq (map stgwrite (ps @ [p])) s = Inr s' \<and> ready s' \<and> appended s [concat ps @ p] s' \<and>
       frame s s' \<and> code_idx s' = code_idx s)"
  using emits_line [OF stable_True assms(2,3)] assms(1) by (auto simp: emits_def)

definition file_state :: cstate where
  "file_state = (initial_state ample_heap)\<lparr>outf := pc_openasm ample_heap ''out'', sc_status := statWRITE\<rparr>"

lemma file_state_ready: "ready file_state"
  using mf_wf_creat [of ample_heap "''out''" 4096]
  by (simp add: ready_def stg_wf_def file_state_def initial_state_def out_ok_def ample_heap_def pc_openasm_def mfcreate_def
      memfile_creat_def pending_def)

theorem stgwrite_line_witness:
  "seq (map stgwrite ([TAB # ''const.pri '', itoh 5] @ [[NL]])) file_state = Inl (Fatal 102) \<or>
    (\<exists>s'. seq (map stgwrite ([TAB # ''const.pri '', itoh 5] @ [[NL]])) file_state = Inr s' \<and> ready s' \<and>
       appended file_state [concat [TAB # ''const.pri '', itoh 5] @ [NL]] s' \<and> frame file_state s' \<and> code_idx s' = code_idx file_state)"
proof (rule stgwrite_line [OF file_state_ready])
  have "last (itoh 5) \<noteq> NL" using itoh_no_nl(1) [of 5] last_in_set [OF itoh_nonempty] by metis
  then show "\<forall>p \<in> set [TAB # ''const.pri '', itoh 5]. asm_piece p"
    by (simp add: asm_piece_def) (simp add: NL_def NUL_def)
qed (simp add: asm_text_line_def)

end
