(* ===== verification/Reorder.thy ===== *)
theory Reorder
  imports StagingFacts
begin

text \<open>
  The reordering of \<open>stgstring\<close>. The text that the expression parser leaves in the staging
  buffer is a sequence of \<open>piece\<close>s: lines of code, and bracketed groups of marked argument
  expressions, which hold pieces again. The specification is \<open>blocks\<close>: the blocks of code
  in the order of writing, the arguments of a group from the last to the first.
  \<open>stgstring_pieces\<close> shows that \<open>stgstring\<close> writes exactly these blocks, each through the
  optimiser, and needs no more fuel than the buffer is long.
\<close>

subsection \<open>Marked text\<close>

datatype piece = Code "string list" | Group "(nat \<times> piece list) list"

definition lines_text :: "string list \<Rightarrow> string" where
  "lines_text ls = concat (map (\<lambda>l. l @ [NUL]) ls)"

fun render_piece :: "piece \<Rightarrow> string" where
  "render_piece (Code ls) = lines_text ls"
| "render_piece (Group as) =
     sSTARTREORDER # concat (map (\<lambda>(i, ps). char_of (sEXPRSTART + i) # concat (map render_piece ps)) as) @ [sENDREORDER]"

definition render :: "piece list \<Rightarrow> string" where
  "render ps = concat (map render_piece ps)"

definition render_args :: "(nat \<times> piece list) list \<Rightarrow> string" where
  "render_args as = concat (map (\<lambda>(i, ps). char_of (sEXPRSTART + i) # render ps) as)"

definition code_line :: "string \<Rightarrow> bool" where
  "code_line l \<longleftrightarrow> l \<noteq> [] \<and> cstring l \<and> hd l \<noteq> sSTARTREORDER \<and> hd l \<noteq> sENDREORDER \<and> ord (hd l) < 128"

text \<open>Lines that start with no mark, arguments numbered from 0, no two neighbouring codes.\<close>

fun no_neighbours :: "piece list \<Rightarrow> bool" where
  "no_neighbours (Code ls # Code ms # ps) = False"
| "no_neighbours (p # ps) = no_neighbours ps"
| "no_neighbours [] = True"

fun piece_ok :: "piece \<Rightarrow> bool" where
  "piece_ok (Code ls) \<longleftrightarrow> ls \<noteq> [] \<and> list_all code_line ls"
| "piece_ok (Group as) \<longleftrightarrow> distinct (map fst as) \<and> set (map fst as) = {0..<length as} \<and> length as \<le> sMAXARGS \<and>
     (\<forall>(i, ps) \<in> set as. list_all piece_ok ps \<and> no_neighbours ps)"

definition pieces_ok :: "piece list \<Rightarrow> bool" where
  "pieces_ok ps \<longleftrightarrow> list_all piece_ok ps \<and> no_neighbours ps"

text \<open>The order of writing.\<close>

definition arg_of :: "(nat \<times> 'a list) list \<Rightarrow> nat \<Rightarrow> 'a list" where
  "arg_of as i = (case map_of as i of None \<Rightarrow> [] | Some ps \<Rightarrow> ps)"

fun piece_blocks :: "piece \<Rightarrow> string list list" where
  "piece_blocks (Code ls) = [ls]"
| "piece_blocks (Group as) =
     concat (map (arg_of (map (\<lambda>(i, ps). (i, concat (map piece_blocks ps))) as)) (rev [0..<length as]))"

definition blocks :: "piece list \<Rightarrow> string list list" where
  "blocks ps = concat (map piece_blocks ps)"

definition block_step :: "string list \<Rightarrow> cstate \<Rightarrow> fault + cstate" where
  "block_step ls s =
     (let block = lines_text ls
      in bind_res
           (if sc_debug s AND sNOOPTIMIZE = 0 \<and> sc_status s = statWRITE
            then opt_loop (mem s) sequences_cmp (Suc (length block)) block 0
            else Inr (block, 0))
           (\<lambda>(t, saved). write_lines t (s\<lparr>code_idx := code_idx s - saved\<rparr>)))"

definition write_blocks :: "string list list \<Rightarrow> cstate \<Rightarrow> fault + cstate" where
  "write_blocks bs = seq (map block_step bs)"

subsection \<open>Text at a position of the buffer\<close>

definition at :: "string \<Rightarrow> nat \<Rightarrow> string \<Rightarrow> bool" where
  "at buf p t \<longleftrightarrow> p + length t \<le> length buf \<and> take (length t) (drop p buf) = t"

lemma at_Nil [simp]: "at buf p [] \<longleftrightarrow> p \<le> length buf"
  by (simp add: at_def)

lemma at_append: "at buf p (x @ y) \<longleftrightarrow> at buf p x \<and> at buf (p + length x) y"
proof -
  have "take (length (x @ y)) (drop p buf) = take (length x) (drop p buf) @ take (length y) (drop (p + length x) buf)"
    by (simp add: take_add add.commute)
  then show ?thesis by (auto simp: at_def)
qed

lemma at_Cons: "at buf p (c # y) \<longleftrightarrow> p < length buf \<and> buf ! p = c \<and> at buf (Suc p) y"
proof (cases "p < length buf")
  case True
  then have "drop p buf = buf ! p # drop (Suc p) buf" by (simp add: Cons_nth_drop_Suc)
  then show ?thesis using True by (auto simp: at_def)
qed (auto simp: at_def)

lemma at_line: "at buf p (l @ [NUL]) \<Longrightarrow> cstring l \<Longrightarrow> cstr_at buf p = Inr l"
proof -
  assume a: "at buf p (l @ [NUL])" "cstring l"
  then have "drop p buf = (l @ [NUL]) @ drop (length (l @ [NUL])) (drop p buf)"
    unfolding at_def by (metis append_take_drop_id)
  then have "drop p buf = l @ NUL # drop (length (l @ [NUL])) (drop p buf)" by simp
  then show ?thesis using a(2) takeWhile_cstring [of l] by (metis cstr_at_def in_set_conv_decomp)
qed

text \<open>Two buffers that differ inside a range only.\<close>

definition same_outside :: "nat \<Rightarrow> nat \<Rightarrow> string \<Rightarrow> string \<Rightarrow> bool" where
  "same_outside b e buf buf' \<longleftrightarrow> length buf' = length buf \<and> take b buf' = take b buf \<and> drop e buf' = drop e buf"

lemma same_outside_refl [simp]: "same_outside b e buf buf"
  by (simp add: same_outside_def)

lemma same_outside_mono:
  assumes "same_outside b e x y" "b' \<le> b" "e \<le> e'"
  shows "same_outside b' e' x y"
proof -
  have "take b' y = take b' (take b y)" "take b' x = take b' (take b x)" using assms(2) by (simp_all add: min_absorb1)
  moreover have "drop e' y = drop (e' - e) (drop e y)" "drop e' x = drop (e' - e) (drop e x)" using assms(3) by simp_all
  ultimately show ?thesis using assms(1) unfolding same_outside_def by metis
qed

lemma same_outside_trans: "same_outside b e x y \<Longrightarrow> same_outside b e y z \<Longrightarrow> same_outside b e x z"
  by (simp add: same_outside_def)

lemma at_outside:
  assumes "at buf p t" "same_outside b e buf buf'" "p + length t \<le> b \<or> e \<le> p"
  shows "at buf' p t"
proof (cases "p + length t \<le> b")
  case True
  have "take (length t) (drop p x) = drop p (take (p + length t) (take b x))" for x :: string
    using True by (simp add: drop_take min_absorb1)
  then have "take (length t) (drop p buf') = take (length t) (drop p buf)" using assms(2) unfolding same_outside_def by metis
  then show ?thesis using assms(1,2) by (simp add: at_def same_outside_def)
next
  case False
  have "take (length t) (drop p x) = take (length t) (drop (p - e) (drop e x))" for x :: string
    using False assms(3) by simp
  then have "take (length t) (drop p buf') = take (length t) (drop p buf)" using assms(2) unfolding same_outside_def by metis
  then show ?thesis using assms(1,2) by (simp add: at_def same_outside_def)
qed

subsection \<open>Scanning\<close>

lemma marks [simp]:
  "sSTARTREORDER \<noteq> sENDREORDER" "sENDREORDER \<noteq> sSTARTREORDER"
  by (simp_all add: sSTARTREORDER_def sENDREORDER_def)

lemma high_bit: "(n::nat) < 256 \<Longrightarrow> n AND 128 = 128 \<longleftrightarrow> 128 \<le> n"
proof -
  assume n: "n < 256"
  have "n AND 2 ^ 7 = 2 ^ 7 \<longleftrightarrow> bit n 7"
  proof
    assume "n AND 2 ^ 7 = 2 ^ 7"
    then have "bit (n AND 2 ^ 7) 7" by (simp only: bit_exp_iff) simp
    then show "bit n 7" by (simp only: bit_and_iff)
  next
    assume "bit n 7"
    then show "n AND 2 ^ 7 = 2 ^ 7" by (intro bit_eqI) (simp only: bit_and_iff bit_exp_iff, auto)
  qed
  moreover have "bit n 7 \<longleftrightarrow> 128 \<le> n" 
  proof -
    have "n div 128 = (if 128 \<le> n then 1 else 0)" using n by (auto intro: div_nat_eqI)
    then show ?thesis by (simp add: bit_iff_odd)
  qed
  ultimately show ?thesis by simp
qed

lemma ord_AND_mark: "ord c AND sEXPRSTART = sEXPRSTART \<longleftrightarrow> 128 \<le> ord c"
proof -
  have "ord c < 256" by simp
  then show ?thesis using high_bit [of "ord c"] by (simp add: sEXPRSTART_def)
qed

lemma mark_char:
  assumes "i < 127"
  shows "ord (char_of (sEXPRSTART + i)) = 128 + i"
    "char_of (sEXPRSTART + i) \<noteq> sSTARTREORDER" "char_of (sEXPRSTART + i) \<noteq> sENDREORDER"
proof -
  show o: "ord (char_of (sEXPRSTART + i)) = 128 + i" using assms by (simp add: sEXPRSTART_def)
  have "ord (char_of (sEXPRSTART + i)) \<noteq> (ord sSTARTREORDER :: nat)" "ord (char_of (sEXPRSTART + i)) \<noteq> (ord sENDREORDER :: nat)"
    unfolding o by (simp_all add: sSTARTREORDER_def sENDREORDER_def)
  then show "char_of (sEXPRSTART + i) \<noteq> sSTARTREORDER" "char_of (sEXPRSTART + i) \<noteq> sENDREORDER" by metis+
qed

lemma mark_bit: "i < 127 \<Longrightarrow> ord (char_of (sEXPRSTART + i)) AND sEXPRSTART = sEXPRSTART"
  unfolding ord_AND_mark by (simp add: mark_char(1) del: of_char_of)

lemma scan_lines:
  "list_all code_line ls \<Longrightarrow> at buf p (lines_text ls) \<Longrightarrow>
   reorder_scan buf p nest arg argc stack = reorder_scan buf (p + length (lines_text ls)) nest arg argc stack"
proof (induction ls arbitrary: p)
  case (Cons l ls)
  then have l: "l \<noteq> []" "cstring l" "hd l \<noteq> sSTARTREORDER" "hd l \<noteq> sENDREORDER" "ord (hd l) < 128"
    and a: "at buf p (l @ [NUL])" "at buf (p + length l + 1) (lines_text ls)"
    by (auto simp: code_line_def lines_text_def at_append at_Cons)
  then have h: "buf ! p = hd l" "p < length buf" by (cases l; simp add: at_Cons)+
  have "reorder_scan buf p nest arg argc stack = reorder_scan buf (p + length l + 1) nest arg argc stack"
    using l h at_line [OF a(1) l(2)] by (subst reorder_scan.simps) (simp add: ord_AND_mark)
  also have "\<dots> = reorder_scan buf (p + length l + 1 + length (lines_text ls)) nest arg argc stack"
    using Cons a by (intro Cons.IH) auto
  finally show ?case by (simp add: lines_text_def add.assoc)
qed (simp add: lines_text_def)


lemma render_simps [simp]:
  "render [] = []" "render (p # ps) = render_piece p @ render ps"
  "render_piece (Group as) = sSTARTREORDER # render_args as @ [sENDREORDER]"
  by (simp_all add: render_def render_args_def)

lemma render_args_simps [simp]:
  "render_args [] = []" "render_args ((i, ps) # as) = char_of (sEXPRSTART + i) # render ps @ render_args as"
  by (simp_all add: render_args_def)

declare render_piece.simps(2) [simp del]

lemma scan_mark:
  assumes "i < sMAXARGS" "p < length buf" "buf ! p = char_of (sEXPRSTART + i)" "nest \<noteq> 1"
  shows "reorder_scan buf p nest arg argc stack = reorder_scan buf (Suc p) nest arg argc stack"
  using assms mark_char(2,3) [of i] mark_bit [of i]
  by (subst reorder_scan.simps) (simp add: sMAXARGS_def del: of_char_of)

lemma scan_mark_1:
  assumes "i < sMAXARGS" "p < length buf" "buf ! p = char_of (sEXPRSTART + i)"
  shows "reorder_scan buf p 1 arg argc stack = reorder_scan buf (Suc p) 1 (Some i) (max argc (i + 1))
           (set_start i (Suc p) (set_end arg (p - 1) stack))"
proof -
  have "ord (char_of (sEXPRSTART + i)) - sEXPRSTART = i"
    using assms mark_char(1) [of i] by (simp add: sMAXARGS_def sEXPRSTART_def del: of_char_of)
  moreover have "(if argc \<le> i then i + 1 else argc) = max argc (i + 1)" by simp
  ultimately show ?thesis using assms mark_char(2,3) [of i] mark_bit [of i]
    by (subst reorder_scan.simps) (simp add: sMAXARGS_def Let_def del: of_char_of)
qed

text \<open>Inside an argument nothing is recorded.\<close>

lemma scan_piece:
  "piece_ok q \<Longrightarrow> at buf p (render_piece q) \<Longrightarrow> 1 \<le> nest \<Longrightarrow>
   reorder_scan buf p nest arg argc stack = reorder_scan buf (p + length (render_piece q)) nest arg argc stack"
proof (induction q arbitrary: p nest)
  case (Code ls)
  then show ?case by (simp add: scan_lines)
next
  case (Group as)
  have "\<forall>i \<in> set (map fst as). i < sMAXARGS" using Group.prems(1) by auto
  then have bnd: "\<forall>a \<in> set as. fst a < sMAXARGS" by simp
  have pieces: "reorder_scan buf r (Suc nest) arg argc stack = reorder_scan buf (r + length (render ps)) (Suc nest) arg argc stack"
    if "list_all piece_ok ps" "at buf r (render ps)" "set ps \<subseteq> \<Union> (set ` snd ` set as)" for ps r
    using that
  proof (induction ps arbitrary: r)
    case (Cons x ps)
    then obtain i qs where "(i, qs) \<in> set as" "x \<in> set qs" by auto
    with Group.IH [of "(i, qs)" qs x r "Suc nest"] Cons.prems
    have "reorder_scan buf r (Suc nest) arg argc stack = reorder_scan buf (r + length (render_piece x)) (Suc nest) arg argc stack"
      by (simp add: at_append)
    also have "\<dots> = reorder_scan buf (r + length (render_piece x) + length (render ps)) (Suc nest) arg argc stack"
      using Cons.prems by (intro Cons.IH) (auto simp: at_append)
    finally show ?case by (simp add: add.assoc)
  qed simp
  have args: "reorder_scan buf r (Suc nest) arg argc stack = reorder_scan buf (r + length (render_args bs)) (Suc nest) arg argc stack"
    if "set bs \<subseteq> set as" "at buf r (render_args bs)" for bs r
    using that
  proof (induction bs arbitrary: r)
    case (Cons b bs)
    obtain i ps where b: "b = (i, ps)" by fastforce
    with Cons.prems bnd Group.prems(1) have ok: "i < sMAXARGS" "list_all piece_ok ps" by auto
    from Cons.prems(2) b have a: "r < length buf" "buf ! r = char_of (sEXPRSTART + i)" "at buf (Suc r) (render ps)"
      "at buf (Suc r + length (render ps)) (render_args bs)" by (auto simp: at_Cons at_append)
    have "reorder_scan buf r (Suc nest) arg argc stack = reorder_scan buf (Suc r) (Suc nest) arg argc stack"
      using scan_mark [OF ok(1) a(1,2)] Group.prems(3) by simp
    also have "\<dots> = reorder_scan buf (Suc r + length (render ps)) (Suc nest) arg argc stack"
      using Cons.prems b by (intro pieces [OF ok(2) a(3)]) force
    also have "\<dots> = reorder_scan buf (Suc r + length (render ps) + length (render_args bs)) (Suc nest) arg argc stack"
      using Cons a(4) by auto
    finally show ?case by (simp add: b add.assoc)
  qed simp
  from Group.prems(2) have a: "p < length buf" "buf ! p = sSTARTREORDER" "at buf (Suc p) (render_args as)"
    "Suc p + length (render_args as) < length buf" "buf ! (Suc p + length (render_args as)) = sENDREORDER"
    by (auto simp: at_Cons at_append)
  have "reorder_scan buf p nest arg argc stack = reorder_scan buf (Suc p) (Suc nest) arg argc stack"
    using a by (subst reorder_scan.simps) simp
  also have "\<dots> = reorder_scan buf (Suc p + length (render_args as)) (Suc nest) arg argc stack"
    by (rule args [OF subset_refl a(3)])
  also have "\<dots> = reorder_scan buf (Suc (Suc p + length (render_args as))) nest arg argc stack"
    using a Group.prems(3) by (subst reorder_scan.simps) simp
  finally show ?case by simp
qed

lemma scan_pieces:
  "list_all piece_ok ps \<Longrightarrow> at buf p (render ps) \<Longrightarrow> 1 \<le> nest \<Longrightarrow>
   reorder_scan buf p nest arg argc stack = reorder_scan buf (p + length (render ps)) nest arg argc stack"
proof (induction ps arbitrary: p)
  case (Cons q ps)
  then have "reorder_scan buf p nest arg argc stack = reorder_scan buf (p + length (render_piece q)) nest arg argc stack"
    by (intro scan_piece) (auto simp: at_append)
  also have "\<dots> = reorder_scan buf (p + length (render_piece q) + length (render ps)) nest arg argc stack"
    using Cons by (intro Cons.IH) (auto simp: at_append)
  finally show ?case by (simp add: add.assoc)
qed simp

text \<open>The slots of a group whose first mark is at \<open>p\<close>.\<close>

fun slots :: "nat \<Rightarrow> (nat \<times> piece list) list \<Rightarrow> (nat \<times> nat \<times> nat) list" where
  "slots p [] = []"
| "slots p ((i, ps) # as) =
     (i, Suc p, (if as = [] then Suc p else p) + length (render ps)) # slots (Suc p + length (render ps)) as"

definition fill :: "(nat \<times> nat \<times> nat) list \<Rightarrow> argstack \<Rightarrow> argstack" where
  "fill sl stack = foldl (\<lambda>st (i, b, e). st[i := (Some b, Some e)]) stack sl"

lemma set_end_start: "set_end (Some i) e (set_start i b st) = st[i := (Some b, Some e)]"
  by (cases "i < length st") (simp_all add: set_end_def set_start_def list_update_beyond)

lemma scan_args:
  "list_all (\<lambda>(i, ps). i < sMAXARGS \<and> list_all piece_ok ps) as \<Longrightarrow> at buf p (render_args as @ [sENDREORDER]) \<Longrightarrow>
   q = p + length (render_args as) \<Longrightarrow>
   \<exists>arg' stack'. reorder_scan buf p 1 arg argc stack = Inr (Suc q, arg', fold max (map (Suc \<circ> fst) as) argc, stack') \<and>
     set_end arg' q stack' = fill (slots p as) (set_end arg (if as = [] then q else p - 1) stack)"
proof (induction as arbitrary: p arg argc stack)
  case Nil
  then show ?case by (subst reorder_scan.simps) (simp add: at_Cons fill_def)
next
  case (Cons a as)
  obtain i ps where a: "a = (i, ps)" by fastforce
  with Cons.prems have ok: "i < sMAXARGS" "list_all piece_ok ps" by auto
  from Cons.prems(2) a have at: "p < length buf" "buf ! p = char_of (sEXPRSTART + i)" "at buf (Suc p) (render ps)"
    "at buf (Suc p + length (render ps)) (render_args as @ [sENDREORDER])" by (auto simp: at_Cons at_append add.assoc)
  let ?p = "Suc p + length (render ps)"
  let ?st = "set_start i (Suc p) (set_end arg (p - 1) stack)"
  have "reorder_scan buf p 1 arg argc stack = reorder_scan buf (Suc p) 1 (Some i) (max argc (i + 1)) ?st"
    by (rule scan_mark_1 [OF ok(1) at(1,2)])
  also have "\<dots> = reorder_scan buf ?p 1 (Some i) (max argc (i + 1)) ?st"
    by (rule scan_pieces [OF ok(2) at(3)]) simp
  finally have s: "reorder_scan buf p 1 arg argc stack = reorder_scan buf ?p 1 (Some i) (max argc (i + 1)) ?st" .
  have q: "q = ?p + length (render_args as)" using Cons.prems(3) a by simp
  have "list_all (\<lambda>(i, ps). i < sMAXARGS \<and> list_all piece_ok ps) as" using Cons.prems(1) by simp
  from Cons.IH [OF this at(4) q, of "Some i" "max argc (i + 1)" ?st]
  obtain arg' stack' where r: "reorder_scan buf ?p 1 (Some i) (max argc (i + 1)) ?st =
      Inr (Suc q, arg', fold max (map (Suc \<circ> fst) as) (max argc (i + 1)), stack')"
    "set_end arg' q stack' = fill (slots ?p as) (set_end (Some i) (if as = [] then q else ?p - 1) ?st)"
    by blast
  have "(if as = [] then q else ?p - 1) = (if as = [] then Suc p else p) + length (render ps)" using q by simp
  then have "set_end arg' q stack' = fill (slots p (a # as)) (set_end arg (p - 1) stack)"
    unfolding r(2) set_end_start by (simp add: fill_def a)
  with r(1) s show ?case by (simp add: a max.commute comp_def)
qed


lemma fill_simps [simp]: "fill [] st = st" "fill ((i, b, e) # sl) st = fill sl (st[i := (Some b, Some e)])"
  by (simp_all add: fill_def)

lemma length_fill [simp]: "length (fill sl st) = length st"
  by (induction sl arbitrary: st) auto

lemma fill_other: "i \<notin> fst ` set sl \<Longrightarrow> fill sl st ! i = st ! i"
  by (induction sl arbitrary: st) (auto simp: nth_list_update)

lemma fill_nth: "distinct (map fst sl) \<Longrightarrow> (i, b, e) \<in> set sl \<Longrightarrow> i < length st \<Longrightarrow> fill sl st ! i = (Some b, Some e)"
proof (induction sl arbitrary: st)
  case (Cons x sl)
  then show ?case by (cases x) (auto simp: fill_other)
qed simp

lemma slots_keys [simp]: "map fst (slots p as) = map fst as"
  by (induction p as rule: slots.induct) auto

lemma slots_at:
  "at buf p (render_args as) \<Longrightarrow> (i, b, e) \<in> set (slots p as) \<Longrightarrow>
   \<exists>ps. (i, ps) \<in> set as \<and> at buf b (render ps) \<and> p < b \<and> b + length (render ps) \<le> p + length (render_args as) \<and>
     (e = b + length (render ps) \<or> Suc e = b + length (render ps))"
proof (induction p as rule: slots.induct)
  case (2 p j ps as)
  then show ?case by (fastforce simp: at_Cons at_append)
qed simp

lemma slots_disjoint:
  "at buf p (render_args as) \<Longrightarrow> distinct (map fst as) \<Longrightarrow> (i, b, e) \<in> set (slots p as) \<Longrightarrow> (j, b', e') \<in> set (slots p as) \<Longrightarrow>
   i \<noteq> j \<Longrightarrow> (i, ps) \<in> set as \<Longrightarrow> (j, qs) \<in> set as \<Longrightarrow>
   b + length (render ps) \<le> b' \<or> b' + length (render qs) \<le> b"
proof (induction p as rule: slots.induct)
  case (2 p k rs as)
  note IH = "2.IH" and prems = "2.prems"
  have later: "Suc p + length (render rs) < c" if "(x, c, d) \<in> set (slots (Suc p + length (render rs)) as)" for x c d
    using slots_at [OF _ that, of buf] prems(1) by (auto simp: at_Cons at_append)
  have keys: "x \<in> fst ` set as" if "(x, c, d) \<in> set (slots (Suc p + length (render rs)) as)" for x c d
    using that slots_keys [of "Suc p + length (render rs)" as] by (metis fst_conv image_eqI set_map)
  consider "i = k" | "j = k" | "i \<noteq> k" "j \<noteq> k" by blast
  then show ?case
  proof cases
    case 1
    then have "ps = rs" "b = Suc p" "(j, b', e') \<in> set (slots (Suc p + length (render rs)) as)"
      using prems(2-6) keys by (force, force, auto)
    with later show ?thesis by fastforce
  next
    case 2
    then have "qs = rs" "b' = Suc p" "(i, b, e) \<in> set (slots (Suc p + length (render rs)) as)"
      using prems(2-7) keys by (force, force, auto)
    with later show ?thesis by fastforce
  next
    case 3
    with prems show ?thesis by (intro IH) (auto simp: at_Cons at_append)
  qed
qed simp

lemma fold_max_count:
  assumes "set (map fst as) = {0..<length as}"
  shows "fold max (map (Suc \<circ> fst) as) 0 = length as"
proof -
  have "fold max (map (Suc \<circ> fst) as) 0 = Max (set (0 # map (Suc \<circ> fst) as))"
    by (simp only: Max.set_eq_fold)
  also have "set (0 # map (Suc \<circ> fst) as) = insert 0 (Suc ` set (map fst as))" by (auto simp: image_image)
  also have "\<dots> = {0..length as}" unfolding assms by (auto simp: image_Suc_atLeastLessThan)
  also have "Max {0..length as} = length as" by (rule Max_eqI) auto
  finally show ?thesis .
qed

subsection \<open>Writing does not look at the buffer\<close>

definition upd :: "string \<Rightarrow> fault + cstate \<Rightarrow> fault + cstate" where
  "upd B r = map_sum id (\<lambda>s. s\<lparr>stgbuf := B\<rparr>) r"

lemma upd_simps [simp]: "upd B (Inl e) = Inl e" "upd B (Inr s) = Inr (s\<lparr>stgbuf := B\<rparr>)"
  by (simp_all add: upd_def)

lemma filewrite_upd: "filewrite x (s\<lparr>stgbuf := B\<rparr>) = upd B (filewrite x s)"
proof (cases "outf s")
  case (Some mf)
  then show ?thesis by (cases "pc_writeasm (mem s) mf x") (auto simp: filewrite_def)
qed (simp add: filewrite_def)

lemma filewrite_frame: "filewrite x s = Inr s' \<Longrightarrow> \<exists>m. s' = s\<lparr>outf := m\<rparr>"
proof -
  assume a: "filewrite x s = Inr s'"
  show ?thesis
  proof (cases "sc_status s = statWRITE")
    case True
    then show ?thesis using a by (auto simp: filewrite_def split: option.splits)
  next
    case False
    then have "s' = s\<lparr>outf := outf s\<rparr>" using a by (simp add: filewrite_def)
    then show ?thesis by blast
  qed
qed

lemma write_lines_upd: "write_lines t (s\<lparr>stgbuf := B\<rparr>) = upd B (write_lines t s)"
proof (induction t s rule: write_lines.induct)
  case (1 t s)
  show ?case
  proof (cases "t = []")
    case False
    show ?thesis
    proof (cases "cstr_at t 0")
      case (Inr line)
      note l = Inr
      show ?thesis
      proof (cases "filewrite line s")
        case (Inr s')
        with 1 [OF False l this] l False show ?thesis
          by (simp add: write_lines.simps [of t] filewrite_upd)
      qed (use l False in \<open>simp add: write_lines.simps [of t] filewrite_upd\<close>)
    qed (use False in \<open>simp add: write_lines.simps [of t]\<close>)
  qed (simp add: write_lines.simps)
qed


lemma write_lines_frame: "write_lines t s = Inr s' \<Longrightarrow> \<exists>m. s' = s\<lparr>outf := m\<rparr>"
proof (induction t s rule: write_lines.induct)
  case (1 t s)
  show ?case
  proof (cases "t = []")
    case True
    then have "s' = s\<lparr>outf := outf s\<rparr>" using "1.prems" by (simp add: write_lines.simps)
    then show ?thesis by blast
  next
    case False
    then obtain line s1 where l: "cstr_at t 0 = Inr line" "filewrite line s = Inr s1"
      "write_lines (drop (length line + 1) t) s1 = Inr s'"
      using "1.prems" by (auto simp: write_lines.simps [of t] split: sum.splits)
    from "1.IH" [OF False l] filewrite_frame [OF l(2)] show ?thesis by auto
  qed
qed

lemma upd_order: "s\<lparr>code_idx := c, stgbuf := B\<rparr> = s\<lparr>stgbuf := B, code_idx := c\<rparr>"
  for s :: cstate
  by simp

lemma block_step_upd: "block_step ls (s\<lparr>stgbuf := B\<rparr>) = upd B (block_step ls s)"
proof -
  have "write_lines t (s\<lparr>stgbuf := B, code_idx := c\<rparr>) = upd B (write_lines t (s\<lparr>code_idx := c\<rparr>))" for t c
    using write_lines_upd [of t B "s\<lparr>code_idx := c\<rparr>"] by (simp add: upd_order)
  then show ?thesis
    by (cases "opt_loop (mem s) sequences_cmp (Suc (length (lines_text ls))) (lines_text ls) 0")
      (auto simp: block_step_def Let_def)
qed

lemma block_step_frame:
  assumes "block_step ls s = Inr s'"
  shows "\<exists>m c. s' = s\<lparr>outf := m, code_idx := c\<rparr>"
proof -
  from assms obtain t c where "write_lines t (s\<lparr>code_idx := c\<rparr>) = Inr s'"
    by (auto simp: block_step_def Let_def split: prod.splits)
  from write_lines_frame [OF this] obtain m where "s' = s\<lparr>code_idx := c\<rparr>\<lparr>outf := m\<rparr>" by blast
  then show ?thesis by (intro exI [of _ m] exI [of _ c]) simp
qed

lemma write_blocks_upd: "write_blocks bs (s\<lparr>stgbuf := B\<rparr>) = upd B (write_blocks bs s)"
proof (induction bs arbitrary: s)
  case (Cons b bs)
  then show ?case by (cases "block_step b s") (simp_all add: write_blocks_def block_step_upd)
qed (simp add: write_blocks_def)

lemma write_blocks_frame: "write_blocks bs s = Inr s' \<Longrightarrow> \<exists>m c. s' = s\<lparr>outf := m, code_idx := c\<rparr>"
proof (induction bs arbitrary: s)
  case Nil
  then have "s' = s\<lparr>outf := outf s, code_idx := code_idx s\<rparr>" by (simp add: write_blocks_def)
  then show ?case by blast
next
  case (Cons b bs)
  from Cons.prems obtain s1 where s1: "block_step b s = Inr s1" "write_blocks bs s1 = Inr s'"
    by (auto simp: write_blocks_def)
  from block_step_frame [OF s1(1)] obtain m c where "s1 = s\<lparr>outf := m, code_idx := c\<rparr>" by blast
  with Cons.IH [OF s1(2)] show ?case by auto
qed

text \<open>
  \<open>runs f bs b e s\<close>: in state \<open>s\<close> operation \<open>f\<close> does what writing the blocks \<open>bs\<close> does,
  apart from changing bytes of the buffer between \<open>b\<close> and \<open>e\<close>.
\<close>

definition runs :: "(cstate \<Rightarrow> fault + cstate) \<Rightarrow> string list list \<Rightarrow> nat \<Rightarrow> nat \<Rightarrow> cstate \<Rightarrow> bool" where
  "runs f bs b e s \<longleftrightarrow> (\<exists>B. same_outside b e (stgbuf s) B \<and> f s = upd B (write_blocks bs s))"

lemma runs_mono: "runs f bs b e s \<Longrightarrow> b' \<le> b \<Longrightarrow> e \<le> e' \<Longrightarrow> runs f bs b' e' s"
  unfolding runs_def using same_outside_mono by blast

lemma runs_Inr: "runs Inr [] b e s"
  by (auto simp: runs_def write_blocks_def intro!: exI [of _ "stgbuf s"])

lemma runs_bind:
  assumes B: "same_outside b e (stgbuf s) B" "f s = upd B (write_blocks bs s)"
    and g: "\<And>m c. runs g cs b e (s\<lparr>stgbuf := B, outf := m, code_idx := c\<rparr>)"
  shows "runs (\<lambda>s. bind_res (f s) g) (bs @ cs) b e s"
proof -
  have app: "write_blocks (bs @ cs) s = bind_res (write_blocks bs s) (write_blocks cs)" by (simp add: write_blocks_def seq_append)
  show ?thesis
  proof (cases "write_blocks bs s")
    case (Inl x)
    then show ?thesis using B app by (auto simp: runs_def)
  next
    case (Inr s1)
    with write_blocks_frame obtain m c where s1: "s1 = s\<lparr>outf := m, code_idx := c\<rparr>" by blast
    from g [of c m] obtain B' where B': "same_outside b e B B'"
      "g (s\<lparr>stgbuf := B, outf := m, code_idx := c\<rparr>) = upd B' (write_blocks cs (s\<lparr>stgbuf := B, outf := m, code_idx := c\<rparr>))"
      by (auto simp: runs_def)
    have "s\<lparr>stgbuf := B, outf := m, code_idx := c\<rparr> = s1\<lparr>stgbuf := B\<rparr>" by (simp add: s1)
    with B' have "g (s1\<lparr>stgbuf := B\<rparr>) = upd B' (write_blocks cs s1)"
      by (cases "write_blocks cs s1") (simp_all add: write_blocks_upd)
    then show ?thesis using B Inr app same_outside_trans [OF B(1) B'(1)] by (auto simp: runs_def)
  qed
qed

lemma lines_text_closed: "ls \<noteq> [] \<Longrightarrow> closed_text (lines_text ls)"
  by (induction ls rule: rev_induct) (auto simp: closed_text_def lines_text_def)

lemma opt_loop_shorter:
  "closed_text t \<Longrightarrow> opt_loop h sequences_cmp (Suc (length t)) t c = Inr (t', c') \<Longrightarrow> length t' \<le> length t"
  using opt_loop_ok [of t "Suc (length t)" h c] by simp

lemma stgopt_runs:
  assumes "at (stgbuf s) b (lines_text ls)" "ls \<noteq> []"
  shows "runs (stgopt b (b + length (lines_text ls))) [ls] b (b + length (lines_text ls)) s"
proof -
  let ?t = "lines_text ls" and ?e = "b + length (lines_text ls)"
  define r where "r = (if sc_debug s AND sNOOPTIMIZE = 0 \<and> sc_status s = statWRITE
            then opt_loop (mem s) sequences_cmp (Suc (length ?t)) ?t 0 else Inr (?t, 0))"
  have blk: "take (?e - b) (drop b (stgbuf s)) = ?t" "?e \<le> length (stgbuf s)" using assms(1) by (auto simp: at_def)
  define B where "B t' = take b (stgbuf s) @ t' @ replicate (length ?t - length t') (CHR 0xcc) @ drop ?e (stgbuf s)" for t'
  have st: "stgopt b ?e s = bind_res r (\<lambda>(t, saved). write_lines t (s\<lparr>stgbuf := B t, code_idx := code_idx s - saved\<rparr>))"
    unfolding stgopt_def Let_def blk(1) B_def r_def by simp
  have bs: "write_blocks [ls] s = bind_res r (\<lambda>(t, saved). write_lines t (s\<lparr>code_idx := code_idx s - saved\<rparr>))"
    unfolding write_blocks_def list.map seq_single block_step_def Let_def r_def by (rule refl)
  show ?thesis
  proof (cases r)
    case (Inl x)
    then show ?thesis using st bs by (auto simp: runs_def intro!: exI [of _ "stgbuf s"])
  next
    case (Inr x)
    obtain t' c where x: "x = (t', c)" by fastforce
    have "length t' \<le> length ?t"
      using Inr x opt_loop_shorter [OF lines_text_closed [OF assms(2)]] by (auto simp: r_def split: if_splits)
    then have "same_outside b ?e (stgbuf s) (B t')"
      using blk(2) by (simp add: same_outside_def B_def min_absorb1)
    moreover have "stgopt b ?e s = upd (B t') (write_blocks [ls] s)"
      using st bs Inr x write_lines_upd [of t' "B t'" "s\<lparr>code_idx := code_idx s - c\<rparr>"] by (simp add: upd_order)
    ultimately show ?thesis by (auto simp: runs_def)
  qed
qed

lemma block_end_lines:
  "list_all code_line ls \<Longrightarrow> at buf p (lines_text ls) \<Longrightarrow> p + length (lines_text ls) \<le> Suc to \<Longrightarrow> to \<le> length buf \<Longrightarrow>
   block_end buf p to = block_end buf (p + length (lines_text ls)) to"
proof (induction ls arbitrary: p)
  case (Cons l ls)
  then have l: "l \<noteq> []" "cstring l" "hd l \<noteq> sSTARTREORDER"
    and a: "at buf p (l @ [NUL])" "at buf (p + length l + 1) (lines_text ls)"
    by (auto simp: code_line_def lines_text_def at_append at_Cons)
  then have h: "buf ! p = hd l" "p < length buf" "p < to" using Cons.prems(3) by (cases l; simp add: at_Cons lines_text_def)+
  have "block_end buf p to = block_end buf (p + length l + 1) to"
    using l h at_line [OF a(1) l(2)] by (subst block_end.simps) simp
  also have "\<dots> = block_end buf (p + length l + 1 + length (lines_text ls)) to"
    using Cons a by (intro Cons.IH) (auto simp: lines_text_def)
  finally show ?case by (simp add: lines_text_def add.assoc)
qed (simp add: lines_text_def)


lemma group_length: "2 \<le> length (render_piece (Group as))"
  by simp

lemma lines_length: "ls \<noteq> [] \<Longrightarrow> list_all code_line ls \<Longrightarrow> 2 \<le> length (lines_text ls)"
  by (cases ls) (auto simp: lines_text_def code_line_def Suc_le_eq)

lemma group_blocks: "piece_blocks (Group as) = concat (map (\<lambda>i. blocks (arg_of as i)) (rev [0..<length as]))"
proof -
  have "arg_of (map (\<lambda>(i, ps). (i, concat (map piece_blocks ps))) as) i = blocks (arg_of as i)" for i
    unfolding arg_of_def by (induction as) (auto simp: blocks_def)
  then show ?thesis unfolding piece_blocks.simps by presburger
qed

text \<open>The loop over the slots, from the last to the first.\<close>

definition slot_step :: "(nat \<Rightarrow> nat \<Rightarrow> cstate \<Rightarrow> fault + cstate) \<Rightarrow> nat option \<times> nat option \<Rightarrow> cstate \<Rightarrow> fault + cstate" where
  "slot_step f slot s = (case slot of (Some b, Some e) \<Rightarrow> f b e s | _ \<Rightarrow> Inl OutOfBounds)"

lemma slots_runs:
  assumes ok: "distinct (map fst as)" "at (stgbuf s) p (render_args as)"
    and r: "\<And>i b e ps s. (i, b, e) \<in> set (slots p as) \<Longrightarrow> (i, ps) \<in> set as \<Longrightarrow> at (stgbuf s) b (render ps) \<Longrightarrow> Q s \<Longrightarrow>
       runs (f b e) (blocks ps) b (b + length (render ps)) s"
    and Q: "\<And>s B m c. Q s \<Longrightarrow> Q (s\<lparr>stgbuf := B, outf := m, code_idx := c\<rparr>)" and "Q s"
    and js: "set js \<subseteq> fst ` set as" "distinct js"
  shows "runs (seq (map (\<lambda>i. slot_step f (case the (map_of (slots p as) i) of (b, e) \<Rightarrow> (Some b, Some e))) js))
      (concat (map (\<lambda>i. blocks (arg_of as i)) js)) p (p + length (render_args as)) s"
proof -
  have "runs (seq (map (\<lambda>i. slot_step f (case the (map_of (slots p as) i) of (b, e) \<Rightarrow> (Some b, Some e))) js))
      (concat (map (\<lambda>i. blocks (arg_of as i)) js)) p (p + length (render_args as)) u"
    if "set js \<subseteq> fst ` set as" "distinct js" "Q u"
      "\<forall>i b e ps. i \<in> set js \<longrightarrow> (i, b, e) \<in> set (slots p as) \<longrightarrow> (i, ps) \<in> set as \<longrightarrow> at (stgbuf u) b (render ps)" for u
    using that
  proof (induction js arbitrary: u)
    case Nil
    then show ?case using runs_Inr by simp
  next
    case (Cons i js)
    obtain ps where ps: "(i, ps) \<in> set as" using Cons.prems(1) by auto
    then have arg: "arg_of as i = ps" using ok(1) by (simp add: arg_of_def)
    have "i \<in> set (map fst (slots p as))" using Cons.prems(1) unfolding slots_keys by simp
    then obtain b e where sl: "(i, b, e) \<in> set (slots p as)" unfolding set_map by force
    then have mo: "map_of (slots p as) i = Some (b, e)" using ok(1) by (simp add: map_of_is_SomeI)
    from slots_at [OF ok(2) sl] ps ok(1) have bnd: "p \<le> b" "b + length (render ps) \<le> p + length (render_args as)"
      using eq_key_imp_eq_value [OF ok(1)] by fastforce+
    have "runs (f b e) (blocks ps) b (b + length (render ps)) u"
      using r [OF sl ps] Cons.prems(3,4) sl ps by simp
    then obtain B where B: "same_outside b (b + length (render ps)) (stgbuf u) B"
      "f b e u = upd B (write_blocks (blocks ps) u)" by (auto simp: runs_def)
    let ?g = "seq (map (\<lambda>i. slot_step f (case the (map_of (slots p as) i) of (b, e) \<Rightarrow> (Some b, Some e))) js)"
    have "runs (\<lambda>s. bind_res (f b e s) ?g)
       (blocks ps @ concat (map (\<lambda>i. blocks (arg_of as i)) js)) p (p + length (render_args as)) u"
    proof (rule runs_bind [where f = "f b e", OF same_outside_mono [OF B(1) bnd] B(2)])
      show "runs ?g (concat (map (\<lambda>i. blocks (arg_of as i)) js)) p (p + length (render_args as))
          (u\<lparr>stgbuf := B, outf := m, code_idx := c\<rparr>)" for m c
      proof (rule Cons.IH)
        show "Q (u\<lparr>stgbuf := B, outf := m, code_idx := c\<rparr>)" using Q Cons.prems(3) by blast
        show "\<forall>j b' e' qs. j \<in> set js \<longrightarrow> (j, b', e') \<in> set (slots p as) \<longrightarrow> (j, qs) \<in> set as \<longrightarrow>
            at (stgbuf (u\<lparr>stgbuf := B, outf := m, code_idx := c\<rparr>)) b' (render qs)"
        proof (intro allI impI)
          fix j b' e' qs assume j: "j \<in> set js" "(j, b', e') \<in> set (slots p as)" "(j, qs) \<in> set as"
          then have "i \<noteq> j" using Cons.prems(2) by auto
          from slots_disjoint [OF ok(2,1) sl j(2) this ps j(3)]
          have "b' + length (render qs) \<le> b \<or> b + length (render ps) \<le> b'" by auto
          moreover have "at (stgbuf u) b' (render qs)" using Cons.prems(4) j by simp
          ultimately show "at (stgbuf (u\<lparr>stgbuf := B, outf := m, code_idx := c\<rparr>)) b' (render qs)"
            using at_outside [OF _ B(1)] by simp
        qed
      qed (use Cons.prems in auto)
    qed
    moreover have "slot_step f (case the (map_of (slots p as) i) of (b, e) \<Rightarrow> (Some b, Some e)) = f b e"
      by (simp add: mo slot_step_def fun_eq_iff)
    ultimately show ?case by (simp add: arg runs_def)
  qed
  moreover have "\<forall>i b e ps. i \<in> set js \<longrightarrow> (i, b, e) \<in> set (slots p as) \<longrightarrow> (i, ps) \<in> set as \<longrightarrow> at (stgbuf s) b (render ps)"
  proof (intro allI impI)
    fix i b e ps assume "(i, b, e) \<in> set (slots p as)" "(i, ps) \<in> set as"
    with slots_at [OF ok(2)] eq_key_imp_eq_value [OF ok(1)] show "at (stgbuf s) b (render ps)" by metis
  qed
  ultimately show ?thesis using assms by blast
qed


lemma fill_slots:
  assumes "distinct (map fst as)" "set (map fst as) = {0..<length as}" "length as \<le> length st"
  shows "take (length as) (fill (slots p as) st) =
    map (\<lambda>i. case the (map_of (slots p as) i) of (b, e) \<Rightarrow> (Some b, Some e)) [0..<length as]"
proof (rule nth_equalityI)
  fix i assume "i < length (take (length as) (fill (slots p as) st))"
  then have i: "i < length as" by simp
  then have "i \<in> set (map fst (slots p as))" using assms(2) unfolding slots_keys by simp
  then obtain b e where sl: "(i, b, e) \<in> set (slots p as)" unfolding set_map by force
  have "distinct (map fst (slots p as))" unfolding slots_keys by (rule assms(1))
  then show "take (length as) (fill (slots p as) st) ! i =
    map (\<lambda>i. case the (map_of (slots p as) i) of (b, e) \<Rightarrow> (Some b, Some e)) [0..<length as] ! i"
    using i sl assms(3) fill_nth by (simp add: map_of_is_SomeI)
qed (use assms(3) in simp)

lemma stgstring_slots:
  "map (\<lambda>slot s. case slot of (Some b, Some e) \<Rightarrow> stgstring fuel b e s | _ \<Rightarrow> Inl OutOfBounds) sl =
   map (slot_step (stgstring fuel)) sl"
  by (rule map_cong [OF refl]) (simp add: fun_eq_iff slot_step_def)

lemma pieces_okD: "pieces_ok (p # ps) \<Longrightarrow> pieces_ok ps" "pieces_ok (p # ps) \<Longrightarrow> piece_ok p"
proof -
  assume a: "pieces_ok (p # ps)"
  then show "pieces_ok ps" by (cases "p # ps" rule: no_neighbours.cases) (auto simp: pieces_ok_def)
  show "piece_ok p" using a by (simp add: pieces_ok_def)
qed

lemma stgstring_pieces:
  "pieces_ok ps \<Longrightarrow> at (stgbuf s) b (render ps) \<Longrightarrow>
   e = b + length (render ps) \<or> Suc e = b + length (render ps) \<Longrightarrow> length (render ps) < fuel \<Longrightarrow>
   granted (mem s) (sMAXARGS * 8) \<Longrightarrow>
   runs (stgstring fuel b e) (blocks ps) b (b + length (render ps)) s"
proof (induction fuel arbitrary: ps b e s)
  case (Suc fuel)
  show ?case
  proof (cases ps)
    case Nil
    with Suc.prems(3) have "\<not> b < e" by auto
    then show ?thesis using runs_Inr Nil by (simp add: runs_def blocks_def)
  next
    case (Cons q qs)
    have qok: "piece_ok q" "pieces_ok qs" using Suc.prems(1) Cons pieces_okD by auto
    have aq: "at (stgbuf s) b (render_piece q)" "at (stgbuf s) (b + length (render_piece q)) (render qs)"
      using Suc.prems(2) Cons by (auto simp: at_append)
    have two: "2 \<le> length (render_piece q)" using qok(1) by (cases q) (auto simp: lines_length)
    then have be: "b < e" "b < length (stgbuf s)" using Suc.prems(2,3) Cons by (auto simp: at_def)
    let ?p = "b + length (render_piece q)"
    have rest: "runs (stgstring fuel ?p e) (blocks qs) b (b + length (render ps)) (s\<lparr>stgbuf := B, outf := m, code_idx := c\<rparr>)"
      if "same_outside b ?p (stgbuf s) B" for B m c
    proof (rule runs_mono)
      show "runs (stgstring fuel ?p e) (blocks qs) ?p (?p + length (render qs)) (s\<lparr>stgbuf := B, outf := m, code_idx := c\<rparr>)"
        using qok(2) at_outside [OF aq(2) that] Suc.prems(3-5) Cons two by (intro Suc.IH) (auto simp: add.assoc)
    qed (simp_all add: Cons)
    show ?thesis
    proof (cases q)
      case (Code ls)
      then have ls: "ls \<noteq> []" "list_all code_line ls" using qok(1) by auto
      then have hd: "buf0 ! b \<noteq> sSTARTREORDER" if "at buf0 b (lines_text ls)" for buf0
        using that by (cases ls; cases "hd ls") (auto simp: lines_text_def code_line_def at_append at_Cons neq_Nil_conv)
      have blk: "block_end (stgbuf s) b e = Inr ?p"
      proof -
        have le: "b + length (lines_text ls) \<le> Suc e" "e \<le> length (stgbuf s)"
          using Suc.prems(2,3) Cons Code by (auto simp: at_def)
        have "block_end (stgbuf s) b e = block_end (stgbuf s) ?p e"
          using block_end_lines [OF ls(2) _ le] aq(1) Code by simp
        also have "\<dots> = Inr ?p"
        proof (cases qs)
          case Nil
          then show ?thesis using Suc.prems(3) Cons by (subst block_end.simps) auto
        next
          case (Cons r rs)
          then obtain as where r: "r = Group as" using Suc.prems(1) \<open>ps = q # qs\<close> Code
            by (cases r) (auto simp: pieces_ok_def)
          then show ?thesis using aq(2) Cons Suc.prems(3) \<open>ps = q # qs\<close>
            by (subst block_end.simps) (auto simp: at_Cons)
        qed
        finally show ?thesis .
      qed
      obtain B where B: "same_outside b ?p (stgbuf s) B" "stgopt b ?p s = upd B (write_blocks [ls] s)"
        using stgopt_runs [of s b ls] aq(1) Code ls by (auto simp: runs_def)
      have "runs (\<lambda>s. bind_res (stgopt b ?p s) (stgstring fuel ?p e)) ([ls] @ blocks qs) b (b + length (render ps)) s"
        by (rule runs_bind [where f = "stgopt b ?p", OF same_outside_mono [OF B(1)] B(2) rest [OF B(1)]]) (simp_all add: Cons)
      then show ?thesis using be blk hd aq(1) Code Cons by (simp add: runs_def blocks_def)
    next
      case (Group as)
      then have aok: "distinct (map fst as)" "set (map fst as) = {0..<length as}" "length as \<le> sMAXARGS"
        "\<And>i ps. (i, ps) \<in> set as \<Longrightarrow> pieces_ok ps" using qok(1) by (auto simp: pieces_ok_def)
      have aa: "stgbuf s ! b = sSTARTREORDER" "at (stgbuf s) (Suc b) (render_args as @ [sENDREORDER])"
        using aq(1) Group by (auto simp: at_Cons)
      let ?q = "Suc b + length (render_args as)"
      let ?init = "replicate sMAXARGS (None, None) :: argstack"
      have "i < sMAXARGS" if "(i, ps) \<in> set as" for i ps
      proof -
        have "i \<in> set (map fst as)" using that by force
        then show ?thesis using aok(2,3) by simp
      qed
      then have "list_all (\<lambda>(i, ps). i < sMAXARGS \<and> list_all piece_ok ps) as"
        using aok(4) by (auto simp: list_all_iff pieces_ok_def)
      from scan_args [OF this aa(2) refl, of None 0 ?init] obtain arg' stack' where
        sc: "reorder_scan (stgbuf s) (Suc b) 1 None 0 ?init = Inr (Suc ?q, arg', length as, stack')"
        and "set_end arg' ?q stack' = fill (slots (Suc b) as) (set_end None (if as = [] then ?q else Suc b - 1) ?init)"
        unfolding fold_max_count [OF aok(2)] by blast
      then have se: "set_end arg' ?q stack' = fill (slots (Suc b) as) ?init" by (simp add: set_end_def)
      let ?js = "rev [0..<length as]"
      let ?sl = "map (\<lambda>i. slot_step (stgstring fuel) (case the (map_of (slots (Suc b) as) i) of (b, e) \<Rightarrow> (Some b, Some e))) ?js"
      have tk: "map (slot_step (stgstring fuel)) (rev (take (length as) (set_end arg' ?q stack'))) = ?sl"
        unfolding se using fill_slots [OF aok(1,2), of ?init] aok(3) by (simp add: rev_map)
      have "runs (seq ?sl) (concat (map (\<lambda>i. blocks (arg_of as i)) ?js)) (Suc b) (Suc b + length (render_args as)) s"
      proof (rule slots_runs [where Q = "\<lambda>s :: cstate. granted (mem s) (sMAXARGS * 8)"])
        fix i b' e' ps' and s' :: cstate assume sl: "(i, b', e') \<in> set (slots (Suc b) as)" and ip: "(i, ps') \<in> set as"
          and at': "at (stgbuf s') b' (render ps')" and g: "granted (mem s') (sMAXARGS * 8)"
        from slots_at [OF _ sl, of "stgbuf s"] aa(2) ip eq_key_imp_eq_value [OF aok(1)]
        have sz: "e' = b' + length (render ps') \<or> Suc e' = b' + length (render ps')"
          "length (render ps') \<le> length (render_args as)" by (fastforce simp: at_append)+
        show "runs (stgstring fuel b' e') (blocks ps') b' (b' + length (render ps')) s'"
          using Suc.prems(4) Cons Group sz(2) by (intro Suc.IH aok(4) [OF ip] at' sz(1) g) simp
      qed (use aok aa(2) Suc.prems(5) in \<open>auto simp: at_append\<close>)
      then obtain B where B: "same_outside (Suc b) ?q (stgbuf s) B"
        "seq ?sl s = upd B (write_blocks (piece_blocks q) s)" unfolding Group group_blocks by (auto simp: runs_def)
      have B': "same_outside b ?p (stgbuf s) B" by (rule same_outside_mono [OF B(1)]) (simp_all add: Group)
      have pp: "?p = Suc ?q" by (simp add: Group)
      have "runs (\<lambda>s. bind_res (seq ?sl s) (stgstring fuel ?p e)) (piece_blocks q @ blocks qs) b (b + length (render ps)) s"
        by (rule runs_bind [where f = "seq ?sl", OF same_outside_mono [OF B'] B(2) rest [OF B']]) (simp_all add: Cons)
      then show ?thesis using be aa(1) sc Suc.prems(5) tk Cons unfolding runs_def pp
        by (simp add: blocks_def stgstring_slots)
    qed
  qed
qed simp

subsection \<open>Sending the buffer\<close>

lemma write_lines_text:
  "out_ok s \<Longrightarrow> list_all code_line ls \<Longrightarrow>
   \<exists>m. write_lines (lines_text ls) s = Inr (s\<lparr>outf := m\<rparr>) \<and> out_ok (s\<lparr>outf := m\<rparr>) \<and>
     out_text (s\<lparr>outf := m\<rparr>) = out_text s @ (if sc_status s = statWRITE then concat ls else [])"
proof (induction ls arbitrary: s)
  case Nil
  then show ?case by (auto simp: write_lines.simps lines_text_def intro!: exI [of _ "outf s"])
next
  case (Cons l ls)
  have l: "cstring l" "l \<noteq> []" using Cons.prems by (auto simp: code_line_def)
  have tx: "lines_text (l # ls) = l @ NUL # lines_text ls" by (simp add: lines_text_def)
  from filewrite_spec [OF Cons.prems(1), of l] obtain m where f: "filewrite l s = Inr (s\<lparr>outf := m\<rparr>)"
    "out_ok (s\<lparr>outf := m\<rparr>)" "out_text (s\<lparr>outf := m\<rparr>) = out_text s @ (if sc_status s = statWRITE then l else [])" by auto
  from Cons.IH [OF f(2)] Cons.prems(2) obtain m' where
    "write_lines (lines_text ls) (s\<lparr>outf := m\<rparr>) = Inr (s\<lparr>outf := m'\<rparr>)" "out_ok (s\<lparr>outf := m'\<rparr>)"
    "out_text (s\<lparr>outf := m'\<rparr>) = out_text (s\<lparr>outf := m\<rparr>) @ (if sc_status s = statWRITE then concat ls else [])"
    by auto
  then show ?case using f l unfolding tx
    by (subst write_lines.simps) (auto simp: cstr_at_0)
qed

lemma stgout_blocks:
  assumes "staging s" "pieces_ok ps" "at (stgbuf s) index (render ps)" "stgidx s = index + length (render ps)"
    "granted (mem s) (sMAXARGS * 8)"
  shows "\<exists>B. same_outside index (stgidx s) (stgbuf s) B \<and>
     stgout index s = map_sum id (\<lambda>s'. s'\<lparr>stgbuf := B, stgidx := index\<rparr>) (write_blocks (blocks ps) s)"
proof -
  have "length (render ps) < Suc (length (stgbuf s))" using assms(3) by (simp add: at_def)
  from stgstring_pieces [OF assms(2,3) _ this assms(5), of "stgidx s"] assms(4)
  obtain B where B: "same_outside index (stgidx s) (stgbuf s) B"
    "stgstring (Suc (length (stgbuf s))) index (stgidx s) s = upd B (write_blocks (blocks ps) s)"
    by (auto simp: runs_def)
  then show ?thesis using assms(1) by (cases "write_blocks (blocks ps) s") (auto simp: stgout_def simp del: stgstring.simps)
qed

text \<open>Without optimisation the blocks reach the file as they are.\<close>

lemma write_blocks_plain:
  "out_ok s \<Longrightarrow> \<forall>ls \<in> set bs. list_all code_line ls \<Longrightarrow> sc_debug s AND sNOOPTIMIZE \<noteq> 0 \<Longrightarrow>
   \<exists>m. write_blocks bs s = Inr (s\<lparr>outf := m\<rparr>) \<and> out_ok (s\<lparr>outf := m\<rparr>) \<and>
     out_text (s\<lparr>outf := m\<rparr>) = out_text s @ (if sc_status s = statWRITE then concat (concat bs) else [])"
proof (induction bs arbitrary: s)
  case Nil
  then show ?case by (auto simp: write_blocks_def intro!: exI [of _ "outf s"])
next
  case (Cons ls bs)
  from write_lines_text [OF Cons.prems(1)] Cons.prems(2) obtain m where w:
    "write_lines (lines_text ls) s = Inr (s\<lparr>outf := m\<rparr>)" "out_ok (s\<lparr>outf := m\<rparr>)"
    "out_text (s\<lparr>outf := m\<rparr>) = out_text s @ (if sc_status s = statWRITE then concat ls else [])" by fastforce
  have "block_step ls s = Inr (s\<lparr>outf := m\<rparr>)" using w(1) Cons.prems(3) by (simp add: block_step_def)
  moreover from Cons.IH [OF w(2)] Cons.prems obtain m' where
    "write_blocks bs (s\<lparr>outf := m\<rparr>) = Inr (s\<lparr>outf := m'\<rparr>)" "out_ok (s\<lparr>outf := m'\<rparr>)"
    "out_text (s\<lparr>outf := m'\<rparr>) = out_text (s\<lparr>outf := m\<rparr>) @ (if sc_status s = statWRITE then concat (concat bs) else [])"
    by auto
  ultimately show ?case using w(3) by (auto simp: write_blocks_def)
qed

lemma blocks_code_lines: "pieces_ok ps \<Longrightarrow> \<forall>ls \<in> set (blocks ps). list_all code_line ls"
proof -
  have piece: "piece_ok q \<Longrightarrow> \<forall>ls \<in> set (piece_blocks q). list_all code_line ls" for q
  proof (induction q)
    case (Group as)
    have "\<forall>ls \<in> set (blocks (arg_of as i)). list_all code_line ls" for i
    proof (cases "map_of as i")
      case (Some ps)
      then have m: "(i, ps) \<in> set as" by (rule map_of_SomeD)
      then have "list_all piece_ok ps" using Group.prems by auto
      then show ?thesis using Group.IH [OF m] Some by (auto simp: arg_of_def blocks_def list_all_iff)
    qed (simp add: arg_of_def blocks_def)
    then show ?case unfolding group_blocks by auto
  qed simp
  then show "pieces_ok ps \<Longrightarrow> \<forall>ls \<in> set (blocks ps). list_all code_line ls"
    by (auto simp: pieces_ok_def list_all_iff blocks_def)
qed

subsection \<open>The properties of the reordering\<close>

text \<open>C9: Sending the staging buffer writes exactly the blocks of the marked text, the arguments of
  each call from the last to the first and nested calls likewise, each block through the
  optimiser; the buffer is changed in the sent range only and the index is reset.\<close>

theorem stgout_reorders:
  assumes "staging s" "pieces_ok ps" "at (stgbuf s) index (render ps)" "stgidx s = index + length (render ps)"
    "granted (mem s) (sMAXARGS * 8)"
  shows "\<exists>B. same_outside index (stgidx s) (stgbuf s) B \<and>
     stgout index s = map_sum id (\<lambda>s'. s'\<lparr>stgbuf := B, stgidx := index\<rparr>) (write_blocks (blocks ps) s)"
  using assms by (rule stgout_blocks)

definition call_pieces :: "piece list" where
  "call_pieces =
     [Group [(0, [Code [TAB # ''push.c 1'' @ [NL]]]), (1, [Code [TAB # ''push.c 2'' @ [NL]]])],
      Code [TAB # ''push.c 8'' @ [NL]]]"

definition call_state :: cstate where
  "call_state = file_state\<lparr>staging := True, sc_debug := sNOOPTIMIZE,
     stgbuf := render call_pieces @ replicate 100 NUL, stgidx := length (render call_pieces)\<rparr>"

lemma call_pieces_ok: "pieces_ok call_pieces"
  by code_simp

lemma call_state_at: "at (stgbuf call_state) 0 (render call_pieces)" "stgidx call_state = 0 + length (render call_pieces)"
  "staging call_state" "granted (mem call_state) n"
  by (simp_all add: at_def call_state_def file_state_def initial_state_def ample_heap_def)

theorem stgout_reorders_witness:
  "\<exists>B. same_outside 0 (stgidx call_state) (stgbuf call_state) B \<and>
     stgout 0 call_state = map_sum id (\<lambda>s'. s'\<lparr>stgbuf := B, stgidx := 0\<rparr>) (write_blocks (blocks call_pieces) call_state)"
  by (rule stgout_reorders [OF call_state_at(3) call_pieces_ok call_state_at(1,2,4)])

text \<open>C19: With the optimiser switched off the lines of the blocks reach the file unchanged, in the order
  of the blocks, and the code index stays as it is.\<close>

theorem stgout_writes_in_order:
  assumes "staging s" "pieces_ok ps" "at (stgbuf s) index (render ps)" "stgidx s = index + length (render ps)"
    "out_ok s" "sc_debug s AND sNOOPTIMIZE \<noteq> 0" "sc_status s = statWRITE"
  shows "\<exists>s'. stgout index s = Inr s' \<and> out_text s' = out_text s @ concat (concat (blocks ps)) \<and>
     stgidx s' = index \<and> code_idx s' = code_idx s"
proof -
  have g: "granted (mem s) (sMAXARGS * 8)" using assms(5) by (simp add: out_ok_def)
  obtain m where m: "write_blocks (blocks ps) s = Inr (s\<lparr>outf := m\<rparr>)"
    "out_text (s\<lparr>outf := m\<rparr>) = out_text s @ concat (concat (blocks ps))"
    using write_blocks_plain [OF assms(5) blocks_code_lines [OF assms(2)] assms(6)] assms(7) by auto
  from stgout_blocks [OF assms(1-4) g] m(1) obtain B where "stgout index s = Inr (s\<lparr>outf := m, stgbuf := B, stgidx := index\<rparr>)" by auto
  then show ?thesis using m(2) by (auto simp: out_text_def)
qed

lemma call_state_out: "out_ok call_state" "sc_status call_state = statWRITE" "sc_debug call_state AND sNOOPTIMIZE \<noteq> 0"
  using file_state_ready by (auto simp: ready_def call_state_def out_ok_def file_state_def sNOOPTIMIZE_def)

theorem stgout_writes_in_order_witness:
  "\<exists>s'. stgout 0 call_state = Inr s' \<and>
     out_text s' = out_text call_state @ concat (concat (blocks call_pieces)) \<and> stgidx s' = 0 \<and> code_idx s' = code_idx call_state"
  by (rule stgout_writes_in_order [OF call_state_at(3) call_pieces_ok call_state_at(1,2) call_state_out(1,3,2)])

end
