(* ===== verification/States.thy ===== *)
theory States
  imports Globals
begin

text \<open>
  The tables of named values of \<open>sc1.c\<close> (\<open>constvalue\<close> lists) and, built on them, the
  automatons and states of \<open>scstate.c\<close>: automaton and state names, and the interned lists
  of states ("state combinations") a function can be tied to.

  \<open>states_wf\<close> is the invariant of the three tables; the lemmas show that every operation
  keeps it, that an added name is found again, that identifiers are unique and that adding a
  state list twice yields the same identifier.
\<close>

subsection \<open>Tables of named values\<close>

definition sizeof_constvalue :: nat where "sizeof_constvalue = 76"

definition insert_constval :: "heap \<Rightarrow> constvalue list \<Rightarrow> constvalue list \<Rightarrow> string option \<Rightarrow> cell \<Rightarrow> int \<Rightarrow>
    fault + constvalue list" where
  "insert_constval h prev next name val index =
     (if \<not> granted h sizeof_constvalue then Inl (Fatal 103)
      else case name of
             None \<Rightarrow> Inr (prev @ \<lparr>cv_name = [], cv_value = val, cv_index = index\<rparr> # next)
           | Some n \<Rightarrow> if \<not> length n \<le> sNAMEMAX then Inl AssertFail
                       else Inr (prev @ \<lparr>cv_name = n, cv_value = val, cv_index = index\<rparr> # next))"

definition append_constval :: "heap \<Rightarrow> constvalue list \<Rightarrow> string option \<Rightarrow> cell \<Rightarrow> int \<Rightarrow> fault + constvalue list" where
  "append_constval h table name val index = insert_constval h table [] name val index"

fun find_constval :: "constvalue list \<Rightarrow> string \<Rightarrow> int \<Rightarrow> constvalue option" where
  "find_constval [] name index = None"
| "find_constval (ptr # table) name index =
     (if strcmp name (cv_name ptr) = 0 \<and> cv_index ptr = index then Some ptr else find_constval table name index)"

fun find_constval_byval :: "constvalue list \<Rightarrow> cell \<Rightarrow> constvalue option" where
  "find_constval_byval [] val = None"
| "find_constval_byval (ptr # table) val = (if cv_value ptr = val then Some ptr else find_constval_byval table val)"

definition delete_consttable :: "constvalue list \<Rightarrow> constvalue list" where
  "delete_consttable table = []"

subsection \<open>Automatons\<close>

definition SHRT_MAX :: int where "SHRT_MAX = 32767"

text \<open>The result is the entry found and the last index seen before it.\<close>

fun find_automaton_from :: "constvalue list \<Rightarrow> string \<Rightarrow> int \<Rightarrow> constvalue option \<times> int" where
  "find_automaton_from [] name high = (None, high)"
| "find_automaton_from (ptr # tab) name high =
     (if strcmp name (cv_name ptr) = 0 then (Some ptr, high)
      else find_automaton_from tab name (if cv_index ptr > high then cv_index ptr else high))"

definition find_automaton :: "cstate \<Rightarrow> string \<Rightarrow> constvalue option \<times> int" where
  "find_automaton s name = find_automaton_from (sc_automaton_tab s) name 0"

text \<open>\<open>(int)ptr->value\<close> reads the cell as a signed number.\<close>

fun find_state_from :: "constvalue list \<Rightarrow> string \<Rightarrow> int \<Rightarrow> int \<Rightarrow> constvalue option \<times> int" where
  "find_state_from [] name fsa high = (None, high)"
| "find_state_from (ptr # tab) name fsa high =
     (if cv_index ptr = fsa then
        if strcmp name (cv_name ptr) = 0 then (Some ptr, high)
        else find_state_from tab name fsa (if sint (cv_value ptr) > high then sint (cv_value ptr) else high)
      else find_state_from tab name fsa high)"

definition find_state :: "cstate \<Rightarrow> string \<Rightarrow> int \<Rightarrow> constvalue option \<times> int" where
  "find_state s name fsa = find_state_from (sc_state_tab s) name fsa 0"

definition state_add :: "string \<Rightarrow> int \<Rightarrow> cstate \<Rightarrow> fault + constvalue \<times> cstate" where
  "state_add name fsa s =
     (if \<not> length name < sNAMEMAX + 1 then Inl AssertFail
      else case find_state s name fsa of
             (Some ptr, _) \<Rightarrow> Inr (ptr, s)
           | (None, high) \<Rightarrow>
               if \<not> fsa \<le> SHRT_MAX then Inl AssertFail
               else bind_res (append_constval (mem s) (sc_state_tab s) (Some name) (of_int (high + 1)) fsa)
                      (\<lambda>tab. Inr (last tab, s\<lparr>sc_state_tab := tab\<rparr>)))"

definition automaton_add :: "string \<Rightarrow> cstate \<Rightarrow> fault + constvalue \<times> cstate" where
  "automaton_add name s =
     (if \<not> length name < sNAMEMAX + 1 then Inl AssertFail
      else case find_automaton s name of
             (Some ptr, _) \<Rightarrow> Inr (ptr, s)
           | (None, high) \<Rightarrow>
               if \<not> high + 1 \<le> SHRT_MAX then Inl AssertFail
               else bind_res (append_constval (mem s) (sc_automaton_tab s) (Some name) 0 (high + 1))
                      (\<lambda>tab. bind_res (state_add [] (high + 1) (s\<lparr>sc_automaton_tab := tab\<rparr>))
                        (\<lambda>(_, s'). Inr (last tab, s'))))"

definition automaton_find :: "cstate \<Rightarrow> string \<Rightarrow> constvalue option" where
  "automaton_find s name = fst (find_automaton s name)"

definition automaton_findid :: "cstate \<Rightarrow> int \<Rightarrow> constvalue option" where
  "automaton_findid s i = List.find (\<lambda>ptr. cv_index ptr = i) (sc_automaton_tab s)"

definition state_find :: "cstate \<Rightarrow> string \<Rightarrow> int \<Rightarrow> constvalue option" where
  "state_find s name fsa_id = fst (find_state s name fsa_id)"

definition state_findid :: "cstate \<Rightarrow> int \<Rightarrow> constvalue option" where
  "state_findid s i = List.find (\<lambda>ptr. cv_value ptr = of_int i) (sc_state_tab s)"

subsection \<open>Building a list of states\<close>

text \<open>
  \<open>state_buildlist(&list,&listsize,&count,stateid)\<close>: \<open>block\<close> is the allocated array, of
  \<open>listsize\<close> integers. The loop condition reads \<open>*list[idx]\<close>, which is \<open>*(list[idx])\<close>:
  the element 0 of the \<open>idx\<close>-th pointer, the list itself for \<open>idx = 0\<close> only. The pointers
  behind \<open>list\<close> are whatever follows the caller's variable, so reading them is undefined.
\<close>

definition sizeof_int :: nat where "sizeof_int = 4"

fun buildlist_idx :: "int list \<Rightarrow> nat \<Rightarrow> int \<Rightarrow> nat \<Rightarrow> nat \<Rightarrow> fault + nat" where
  "buildlist_idx block count stateid 0 idx = Inl NoFuel"
| "buildlist_idx block count stateid (Suc fuel) idx =
     (if idx < count then
        if idx = 0 then
          (if block ! 0 < stateid then buildlist_idx block count stateid fuel (idx + 1) else Inr idx)
        else Inl OutOfBounds
      else Inr idx)"

definition state_buildlist :: "heap \<Rightarrow> (nat \<Rightarrow> int) \<Rightarrow> int list \<Rightarrow> nat \<Rightarrow> int \<Rightarrow> fault + int list \<times> nat" where
  "state_buildlist h garbage block count stateid =
     (if \<not> count \<le> length block then Inl AssertFail
      else let listsize = (if count = length block then length block + 4 else length block)
           in if count = length block \<and> \<not> granted h (listsize * sizeof_int) then Inl (Fatal 103)
              else let block = block @ map garbage [length block..<listsize]
                   in bind_res (buildlist_idx block count stateid (count + 1) 0) (\<lambda>idx.
                        bind_res (if idx < count
                                  then memcpy block (int idx + 1) (take (count - idx + 1) (drop idx block))
                                  else Inr block)
                          (\<lambda>block. Inr (block[idx := stateid], count + 1))))"

subsection \<open>State combinations\<close>

fun state_findlist_from :: "statelist list \<Rightarrow> int list \<Rightarrow> int \<Rightarrow> int \<Rightarrow> statelist option \<times> int" where
  "state_findlist_from [] list fsa high = (None, high)"
| "state_findlist_from (ptr # tab) list fsa high =
     (let high = (if sl_listid ptr > high then sl_listid ptr else high)
      in if sl_fsa ptr = fsa \<and> sl_states ptr = list then (Some ptr, high)
         else state_findlist_from tab list fsa high)"

definition state_findlist :: "cstate \<Rightarrow> int list \<Rightarrow> int \<Rightarrow> statelist option \<times> int" where
  "state_findlist s list fsa = state_findlist_from (statelist_tab s) list fsa 0"

definition state_getlist_ptr :: "cstate \<Rightarrow> int \<Rightarrow> fault + statelist option" where
  "state_getlist_ptr s listid =
     (if \<not> listid > 0 then Inl AssertFail
      else Inr (List.find (\<lambda>ptr. sl_listid ptr = listid) (statelist_tab s)))"

definition sizeof_statelist :: nat where "sizeof_statelist = 20"

definition state_addlist :: "int list \<Rightarrow> int \<Rightarrow> cstate \<Rightarrow> fault + int \<times> cstate" where
  "state_addlist list fsa s =
     (if \<not> length list > 0 then Inl AssertFail
      else case state_findlist s list fsa of
             (Some ptr, _) \<Rightarrow> Inr (sl_listid ptr, s)
           | (None, high) \<Rightarrow>
               if \<not> granted (mem s) sizeof_statelist then Inl (Fatal 103)
               else if \<not> granted (mem s) (length list * sizeof_int) then Inl (Fatal 103)
               else Inr (high + 1, s\<lparr>statelist_tab :=
                      \<lparr>sl_states = list, sl_fsa = fsa, sl_listid = high + 1\<rparr> # statelist_tab s\<rparr>))"

definition state_deletetable :: "cstate \<Rightarrow> cstate" where
  "state_deletetable s = s\<lparr>statelist_tab := []\<rparr>"

definition state_getfsa :: "cstate \<Rightarrow> int \<Rightarrow> fault + int" where
  "state_getfsa s listid = bind_res (state_getlist_ptr s listid)
     (\<lambda>p. case p of None \<Rightarrow> Inr (- 1) | Some ptr \<Rightarrow> Inr (sl_fsa ptr))"

definition state_count :: "cstate \<Rightarrow> int \<Rightarrow> fault + nat" where
  "state_count s listid = bind_res (state_getlist_ptr s listid)
     (\<lambda>p. case p of None \<Rightarrow> Inr 0 | Some ptr \<Rightarrow> Inr (length (sl_states ptr)))"

definition state_inlist :: "cstate \<Rightarrow> int \<Rightarrow> int \<Rightarrow> fault + bool" where
  "state_inlist s listid state = bind_res (state_getlist_ptr s listid)
     (\<lambda>p. case p of None \<Rightarrow> Inr False | Some ptr \<Rightarrow> Inr (state \<in> set (sl_states ptr)))"

definition state_listitem :: "cstate \<Rightarrow> int \<Rightarrow> int \<Rightarrow> fault + int" where
  "state_listitem s listid index = bind_res (state_getlist_ptr s listid)
     (\<lambda>p. case p of None \<Rightarrow> Inl AssertFail
          | Some ptr \<Rightarrow> if 0 \<le> index \<and> index < int (length (sl_states ptr)) then Inr (sl_states ptr ! nat index)
                        else Inl AssertFail)"

text \<open>
  \<open>state_conflict\<close> for one pair of state lists of one function, then for all later ones of
  a list, for all lists of a function and for all functions; the errors are logged.
\<close>

definition uENTRYFUNC :: string where "uENTRYFUNC = ''entry''"

definition conflict_pair :: "string \<Rightarrow> statelist \<Rightarrow> statelist \<Rightarrow> cstate \<Rightarrow> cstate" where
  "conflict_pair name psrc ptgt s =
     (let s = (if sl_fsa psrc \<noteq> sl_fsa ptgt \<and> strcmp name uENTRYFUNC \<noteq> 0 then report 83 [name] s else s)
      in fold (\<lambda>a s. fold (\<lambda>b s. if a = b then report 84 [name] s else s) (sl_states ptgt) s) (sl_states psrc) s)"

fun conflict_targets :: "string \<Rightarrow> statelist \<Rightarrow> constvalue list \<Rightarrow> cstate \<Rightarrow> fault + cstate" where
  "conflict_targets name psrc [] s = Inr s"
| "conflict_targets name psrc (tgtptr # rest) s =
     (if cv_index tgtptr = - 1 then conflict_targets name psrc rest s
      else case state_getlist_ptr s (cv_index tgtptr) of
             Inl e \<Rightarrow> Inl e
           | Inr None \<Rightarrow> Inl AssertFail
           | Inr (Some ptgt) \<Rightarrow> conflict_targets name psrc rest (conflict_pair name psrc ptgt s))"

fun conflict_sources :: "string \<Rightarrow> constvalue list \<Rightarrow> cstate \<Rightarrow> fault + cstate" where
  "conflict_sources name [] s = Inr s"
| "conflict_sources name (srcptr # rest) s =
     (if cv_index srcptr = - 1 then conflict_sources name rest s
      else case state_getlist_ptr s (cv_index srcptr) of
             Inl e \<Rightarrow> Inl e
           | Inr None \<Rightarrow> Inl AssertFail
           | Inr (Some psrc) \<Rightarrow> bind_res (conflict_targets name psrc rest s) (conflict_sources name rest))"

definition conflict_symbol :: "nat \<Rightarrow> cstate \<Rightarrow> fault + cstate" where
  "conflict_symbol p s = bind_res (get_sym s (Some p)) (\<lambda>sy.
     if sym_parent sy \<noteq> None \<or> sym_ident sy \<noteq> iFUNCTN then Inr s
     else case sym_states sy of
            None \<Rightarrow> Inr s
          | Some states \<Rightarrow> conflict_sources (sym_name sy) states s)"

definition state_conflict :: "nat list \<Rightarrow> cstate \<Rightarrow> fault + cstate" where
  "state_conflict root = seq (map conflict_symbol root)"

subsection \<open>The tables' invariant\<close>

definition auto_wf :: "constvalue list \<Rightarrow> bool" where
  "auto_wf tab \<longleftrightarrow> distinct (map cv_name tab) \<and> distinct (map cv_index tab) \<and>
     list_all (\<lambda>p. cstring (cv_name p) \<and> 0 \<le> cv_index p \<and> cv_index p \<le> SHRT_MAX) tab"

text \<open>Within one automaton names and values of states are unique, and values are positive.\<close>

definition state_wf :: "constvalue list \<Rightarrow> bool" where
  "state_wf tab \<longleftrightarrow> distinct (map (\<lambda>p. (cv_index p, cv_name p)) tab) \<and>
     distinct (map (\<lambda>p. (cv_index p, cv_value p)) tab) \<and>
     list_all (\<lambda>p. cstring (cv_name p) \<and> 0 < sint (cv_value p) \<and> sint (cv_value p) \<le> int (length tab)) tab"

definition combos_wf :: "statelist list \<Rightarrow> bool" where
  "combos_wf tab \<longleftrightarrow> distinct (map sl_listid tab) \<and> distinct (map (\<lambda>p. (sl_fsa p, sl_states p)) tab) \<and>
     list_all (\<lambda>p. 0 < sl_listid p \<and> sl_states p \<noteq> []) tab"

lemma find_automaton_from_None:
  "find_automaton_from tab name high = (None, m) \<Longrightarrow>
   (\<forall>p \<in> set tab. strcmp name (cv_name p) \<noteq> 0 \<and> cv_index p \<le> m) \<and> high \<le> m \<and> (m = high \<or> m \<in> cv_index ` set tab)"
  by (induction tab name high rule: find_automaton_from.induct) (fastforce split: if_splits)+

lemma find_automaton_from_Some:
  "find_automaton_from tab name high = (Some p, m) \<Longrightarrow> p \<in> set tab \<and> strcmp name (cv_name p) = 0"
  by (induction tab name high rule: find_automaton_from.induct) (auto split: if_splits)

lemma find_automaton_from_append:
  "find_automaton_from tab name high = (None, m) \<Longrightarrow> fst (find_automaton_from (tab @ [p]) name high) =
     (if strcmp name (cv_name p) = 0 then Some p else None)"
  by (induction tab name high rule: find_automaton_from.induct) (auto split: if_splits)

lemma find_state_from_None:
  "find_state_from tab name fsa high = (None, m) \<Longrightarrow>
   (\<forall>p \<in> set tab. cv_index p = fsa \<longrightarrow> strcmp name (cv_name p) \<noteq> 0 \<and> sint (cv_value p) \<le> m) \<and> high \<le> m \<and>
   (m = high \<or> (\<exists>p \<in> set tab. cv_index p = fsa \<and> m = sint (cv_value p)))"
  by (induction tab name fsa high rule: find_state_from.induct) (fastforce split: if_splits)+

lemma find_state_from_Some:
  "find_state_from tab name fsa high = (Some p, m) \<Longrightarrow> p \<in> set tab \<and> cv_index p = fsa \<and> strcmp name (cv_name p) = 0"
  by (induction tab name fsa high rule: find_state_from.induct) (auto split: if_splits)

lemma find_state_from_append:
  "find_state_from tab name fsa high = (None, m) \<Longrightarrow> fst (find_state_from (tab @ [p]) name fsa high) =
     (if cv_index p = fsa \<and> strcmp name (cv_name p) = 0 then Some p else None)"
  by (induction tab name fsa high rule: find_state_from.induct) (auto split: if_splits)

lemma append_constval_Inr:
  "append_constval h tab (Some name) v i = Inr tab' \<longleftrightarrow>
   granted h sizeof_constvalue \<and> length name \<le> sNAMEMAX \<and> tab' = tab @ [\<lparr>cv_name = name, cv_value = v, cv_index = i\<rparr>]"
  by (auto simp: append_constval_def insert_constval_def)

subsection \<open>Adding states and automatons\<close>

lemma state_add_Inr:
  assumes a: "state_add name fsa s = Inr (p, s')" and wf: "state_wf (sc_state_tab s)" "cstring name"
    and room: "int (length (sc_state_tab s)) < 2 ^ 31 - 1"
  shows "state_find s' name fsa = Some p \<and> cv_name p = name \<and> cv_index p = fsa \<and> state_wf (sc_state_tab s') \<and>
     set (sc_state_tab s') = insert p (set (sc_state_tab s)) \<and> s' = s\<lparr>sc_state_tab := sc_state_tab s'\<rparr>"
proof (cases "find_state s name fsa")
  case (Pair r m)
  show ?thesis
  proof (cases r)
    case (Some q)
    then have q: "q = p" "s' = s" "p \<in> set (sc_state_tab s)" "cv_index p = fsa" "strcmp name (cv_name p) = 0"
      using a Pair find_state_from_Some [of "sc_state_tab s" name fsa 0 q m]
      by (auto simp: state_add_def find_state_def split: if_splits)
    have "cv_name p = name" using wf q by (auto simp: strcmp_eq_0 state_wf_def list_all_iff)
    with q Pair Some wf show ?thesis by (auto simp: state_find_def insert_absorb)
  next
    case None
    define q where "q = \<lparr>cv_name = name, cv_value = of_int (m + 1) :: cell, cv_index = fsa\<rparr>"
    from a Pair None have s': "p = q" "s' = s\<lparr>sc_state_tab := sc_state_tab s @ [q]\<rparr>"
      by (auto simp: state_add_def append_constval_Inr q_def split: if_splits)
    note n = find_state_from_None [of "sc_state_tab s" name fsa 0 m]
    from Pair None n have m: "\<forall>p \<in> set (sc_state_tab s). cv_index p = fsa \<longrightarrow> strcmp name (cv_name p) \<noteq> 0 \<and> sint (cv_value p) \<le> m"
      "0 \<le> m" "m = 0 \<or> (\<exists>p \<in> set (sc_state_tab s). cv_index p = fsa \<and> m = sint (cv_value p))"
      by (auto simp: find_state_def)
    have "m \<le> int (length (sc_state_tab s))" using m(3) wf(1) by (auto simp: state_wf_def list_all_iff)
    then have v: "sint (cv_value q) = m + 1" using room m(2) sint_of_int_cell [of "m + 1"] unfolding q_def constvalue.simps
      by simp
    have "(fsa, name) \<notin> (\<lambda>p. (cv_index p, cv_name p)) ` set (sc_state_tab s)" using m(1) by force
    moreover have "(fsa, cv_value q) \<notin> (\<lambda>p. (cv_index p, cv_value p)) ` set (sc_state_tab s)"
      using m(1) v by force
    ultimately have "state_wf (sc_state_tab s')" using wf v m(2) \<open>m \<le> int (length (sc_state_tab s))\<close>
      by (auto simp: state_wf_def s'(2) list_all_iff q_def)
    moreover have "state_find s' name fsa = Some q"
      using Pair None find_state_from_append [of "sc_state_tab s" name fsa 0 m q]
      by (simp add: state_find_def find_state_def s'(2)) (simp add: q_def)
    ultimately show ?thesis using s' by (auto simp: q_def)
  qed
qed

lemma automaton_add_Inr:
  assumes a: "automaton_add name s = Inr (p, s')" and wf: "auto_wf (sc_automaton_tab s)" "state_wf (sc_state_tab s)" "cstring name"
    and room: "int (length (sc_state_tab s)) < 2 ^ 31 - 1"
  shows "automaton_find s' name = Some p \<and> automaton_findid s' (cv_index p) = Some p \<and> cv_name p = name \<and>
     auto_wf (sc_automaton_tab s') \<and> state_wf (sc_state_tab s') \<and>
     (automaton_find s name = None \<longrightarrow> state_find s' [] (cv_index p) \<noteq> None)"
proof (cases "find_automaton s name")
  case (Pair r m)
  have uniq: "List.find (\<lambda>q. cv_index q = cv_index p) tab = Some p" if "p \<in> set tab" "distinct (map cv_index tab)" for tab
    using that by (induction tab) (auto simp: image_iff)
  show ?thesis
  proof (cases r)
    case (Some q)
    then have q: "q = p" "s' = s" "p \<in> set (sc_automaton_tab s)" "strcmp name (cv_name p) = 0"
      using a Pair find_automaton_from_Some [of "sc_automaton_tab s" name 0 q m]
      by (auto simp: automaton_add_def find_automaton_def split: if_splits)
    have "cv_name p = name" using wf q by (auto simp: strcmp_eq_0 auto_wf_def list_all_iff)
    with q Pair Some wf uniq [OF q(3)] show ?thesis
      by (auto simp: automaton_find_def automaton_findid_def auto_wf_def)
  next
    case None
    define q where "q = \<lparr>cv_name = name, cv_value = 0 :: cell, cv_index = m + 1\<rparr>"
    define s1 where "s1 = s\<lparr>sc_automaton_tab := sc_automaton_tab s @ [q]\<rparr>"
    from a Pair None obtain w where s': "p = q" "state_add [] (m + 1) s1 = Inr (w, s')" "m + 1 \<le> SHRT_MAX"
      by (auto simp: automaton_add_def append_constval_Inr q_def s1_def split: if_splits)
    from Pair None find_automaton_from_None [of "sc_automaton_tab s" name 0 m]
    have m: "\<forall>p \<in> set (sc_automaton_tab s). strcmp name (cv_name p) \<noteq> 0 \<and> cv_index p \<le> m" "0 \<le> m"
      by (auto simp: find_automaton_def)
    have awf: "auto_wf (sc_automaton_tab s @ [q])" using wf m s'(3) by (force simp: auto_wf_def q_def list_all_iff)
    from state_add_Inr [OF s'(2)] wf(2) room have st: "state_find s' [] (m + 1) = Some w" "state_wf (sc_state_tab s')"
      "s' = s1\<lparr>sc_state_tab := sc_state_tab s'\<rparr>" by (auto simp: s1_def)
    have tab: "sc_automaton_tab s' = sc_automaton_tab s @ [q]" 
      using arg_cong [OF st(3), of sc_automaton_tab] by (simp add: s1_def)
    have "automaton_find s' name = Some q"
      using Pair None find_automaton_from_append [of "sc_automaton_tab s" name 0 m q]
      by (simp add: automaton_find_def find_automaton_def tab) (simp add: q_def)
    moreover have "automaton_findid s' (cv_index q) = Some q"
      using uniq [of "sc_automaton_tab s @ [q]"] awf s'(1) by (simp add: automaton_findid_def tab auto_wf_def)
    moreover have "state_find s' [] (cv_index q) = Some w" using st(1) by (simp add: q_def)
    ultimately show ?thesis using s'(1) st(2) awf by (simp add: tab) (simp add: q_def)
  qed
qed


subsection \<open>State combinations\<close>

lemma state_findlist_from_None:
  "state_findlist_from tab list fsa high = (None, m) \<Longrightarrow>
   (\<forall>p \<in> set tab. (sl_fsa p, sl_states p) \<noteq> (fsa, list) \<and> sl_listid p \<le> m) \<and> high \<le> m"
  by (induction tab list fsa high rule: state_findlist_from.induct) (fastforce simp: Let_def split: if_splits)+

lemma state_findlist_from_Some:
  "state_findlist_from tab list fsa high = (Some p, m) \<Longrightarrow> p \<in> set tab \<and> sl_fsa p = fsa \<and> sl_states p = list"
  by (induction tab list fsa high rule: state_findlist_from.induct) (auto simp: Let_def split: if_splits)

lemma find_listid: "p \<in> set tab \<Longrightarrow> distinct (map sl_listid tab) \<Longrightarrow> List.find (\<lambda>q. sl_listid q = sl_listid p) tab = Some p"
  by (induction tab) (auto simp: image_iff)

lemma state_addlist_Inr:
  assumes a: "state_addlist list fsa s = Inr (i, s')" and wf: "combos_wf (statelist_tab s)"
  shows "combos_wf (statelist_tab s') \<and> 0 < i \<and>
     (\<exists>p. state_getlist_ptr s' i = Inr (Some p) \<and> p \<in> set (statelist_tab s') \<and> sl_fsa p = fsa \<and> sl_states p = list \<and> sl_listid p = i) \<and>
     set (statelist_tab s) \<subseteq> set (statelist_tab s') \<and> s' = s\<lparr>statelist_tab := statelist_tab s'\<rparr>"
proof (cases "state_findlist s list fsa")
  case (Pair r m)
  show ?thesis
  proof (cases r)
    case (Some q)
    then have "s' = s" "i = sl_listid q" "q \<in> set (statelist_tab s)" "sl_fsa q = fsa" "sl_states q = list"
      using a Pair state_findlist_from_Some [of "statelist_tab s" list fsa 0 q m]
      by (auto simp: state_addlist_def state_findlist_def split: if_splits)
    with wf show ?thesis by (auto simp: combos_wf_def list_all_iff state_getlist_ptr_def find_listid)
  next
    case None
    define q where "q = \<lparr>sl_states = list, sl_fsa = fsa, sl_listid = m + 1\<rparr>"
    from a Pair None have s': "list \<noteq> []" "i = m + 1" "s' = s\<lparr>statelist_tab := q # statelist_tab s\<rparr>"
      by (auto simp: state_addlist_def q_def split: if_splits)
    from Pair None state_findlist_from_None [of "statelist_tab s" list fsa 0 m]
    have m: "\<forall>p \<in> set (statelist_tab s). (sl_fsa p, sl_states p) \<noteq> (fsa, list) \<and> sl_listid p \<le> m" "0 \<le> m"
      by (auto simp: state_findlist_def)
    then have "combos_wf (q # statelist_tab s)" using wf s'(1)
      by (force simp: combos_wf_def q_def list_all_iff)
    moreover have "state_getlist_ptr s' i = Inr (Some q)" using m(2) s' by (simp add: state_getlist_ptr_def q_def)
    moreover have "set (statelist_tab s) \<subseteq> set (statelist_tab s')" using s'(3) by auto
    ultimately show ?thesis using s' m(2) by (auto simp: q_def)
  qed
qed

text \<open>Adding the same combination again yields the identifier it has.\<close>

lemma state_addlist_again:
  assumes "state_addlist list fsa s = Inr (i, s')" "combos_wf (statelist_tab s)"
  shows "state_addlist list fsa s' = Inr (i, s')"
proof -
  from state_addlist_Inr [OF assms] obtain p where p: "p \<in> set (statelist_tab s')" "sl_fsa p = fsa" "sl_states p = list"
    "sl_listid p = i" and wf: "combos_wf (statelist_tab s')" by auto
  have ne: "list \<noteq> []" using assms(1) by (auto simp: state_addlist_def split: if_splits)
  obtain r m where r: "state_findlist s' list fsa = (r, m)" by fastforce
  then obtain q where q: "r = Some q"
    using state_findlist_from_None [of "statelist_tab s'" list fsa 0 m] p by (cases r) (auto simp: state_findlist_def)
  with r state_findlist_from_Some [of "statelist_tab s'" list fsa 0 q m]
  have "q \<in> set (statelist_tab s')" "sl_fsa q = fsa" "sl_states q = list" by (auto simp: state_findlist_def)
  with p wf have "q = p" by (auto simp: combos_wf_def distinct_map inj_on_def)
  with r q p ne show ?thesis by (simp add: state_addlist_def)
qed

subsection \<open>Conflicts\<close>

definition conflict_errors :: "string \<Rightarrow> statelist \<Rightarrow> statelist \<Rightarrow> (nat \<times> string list) list" where
  "conflict_errors name psrc ptgt =
     (if sl_fsa psrc \<noteq> sl_fsa ptgt \<and> strcmp name uENTRYFUNC \<noteq> 0 then [(83, [name])] else []) @
     concat (map (\<lambda>a. concat (map (\<lambda>b. if a = b then [(84, [name])] else []) (sl_states ptgt))) (sl_states psrc))"

lemma fold_report:
  "fold (\<lambda>b s. if P b then report n args s else s) bs s =
   s\<lparr>reported := reported s @ concat (map (\<lambda>b. if P b then [(n, args)] else []) bs)\<rparr>"
  by (induction bs arbitrary: s) (auto simp: report_def)

lemma fold_fold_report:
  "fold (\<lambda>a s. fold (\<lambda>b s. if a = b then report n args s else s) bs s) as s =
   s\<lparr>reported := reported s @ concat (map (\<lambda>a. concat (map (\<lambda>b. if a = b then [(n, args)] else []) bs)) as)\<rparr>"
  by (induction as arbitrary: s) (simp_all add: fold_report)

lemma conflict_pair_reported:
  "conflict_pair name psrc ptgt s = s\<lparr>reported := reported s @ conflict_errors name psrc ptgt\<rparr>"
  by (simp add: conflict_pair_def Let_def fold_fold_report conflict_errors_def report_def)

lemma conflict_errors_none:
  "conflict_errors name psrc ptgt = [] \<longleftrightarrow>
   (sl_fsa psrc = sl_fsa ptgt \<or> strcmp name uENTRYFUNC = 0) \<and> set (sl_states psrc) \<inter> set (sl_states ptgt) = {}"
  by (auto simp: conflict_errors_def)

subsection \<open>Building a list\<close>

lemma state_buildlist_front:
  assumes "count \<le> length block" "\<forall>n. granted h n" "count = 0 \<or> stateid \<le> block ! 0" "count + 2 \<le> length block \<or> count = length block \<or> count = 0"
  shows "\<exists>block'. state_buildlist h garbage block count stateid = Inr (block', count + 1) \<and>
     take (count + 1) block' = stateid # take count block"
proof -
  define sz where "sz = (if count = length block then length block + 4 else length block)"
  define b where "b = block @ map garbage [length block..<sz]"
  have b0: "take count b = take count block" "count < length b" "count \<noteq> 0 \<longrightarrow> b ! 0 = block ! 0" "count \<noteq> 0 \<longrightarrow> count + 2 \<le> length b"
    using assms(1,4) by (auto simp: b_def sz_def nth_append)
  have i: "buildlist_idx b count stateid (count + 1) 0 = Inr 0"
    using assms(3) b0(3) by auto
  show ?thesis
  proof (cases "count = 0")
    case True
    then have "state_buildlist h garbage block count stateid = Inr (b[0 := stateid], 1)"
      using assms(1,2) i by (simp add: state_buildlist_def Let_def b_def sz_def)
    moreover have "take 1 (b[0 := stateid]) = [stateid]" using b0(2) by (cases b) auto
    ultimately show ?thesis using True by simp
  next
    case False
    have "memcpy b 1 (take (count + 1) b) = Inr (take 1 b @ take (count + 1) b @ drop (count + 2) b)"
      using b0(2,4) False by (simp add: memcpy_def)
    then have "state_buildlist h garbage block count stateid =
        Inr ((take 1 b @ take (count + 1) b @ drop (count + 2) b)[0 := stateid], count + 1)"
      using assms(1,2) i False by (simp add: state_buildlist_def Let_def b_def sz_def del: buildlist_idx.simps)
    moreover have "take (count + 1) ((take 1 b @ take (count + 1) b @ drop (count + 2) b)[0 := stateid]) = stateid # take count b"
      using b0(2) by (cases b; cases count) (auto simp: min_def)
    ultimately show ?thesis by (auto simp: b0(1))
  qed
qed

text \<open>A state that belongs behind the first one is looked for through a wild pointer.\<close>

lemma state_buildlist_wild:
  assumes "count \<le> length block" "2 \<le> count" "block ! 0 < stateid" "\<forall>n. granted h n"
  shows "state_buildlist h garbage block count stateid = Inl OutOfBounds"
proof -
  define sz where "sz = (if count = length block then length block + 4 else length block)"
  define b where "b = block @ map garbage [length block..<sz]"
  have "b ! 0 = block ! 0" using assms(1,2) by (cases block) (auto simp: b_def)
  then have "buildlist_idx b count stateid (count + 1) 0 = Inl OutOfBounds"
    using assms(2,3) by (cases count) auto
  then show ?thesis using assms(1,4) by (simp add: state_buildlist_def Let_def b_def sz_def del: buildlist_idx.simps)
qed

subsection \<open>The properties of states and automatons\<close>

text \<open>C24: Adding an automaton makes it findable by its name and by its identifier, keeps names
  and identifiers unique, and creates the anonymous state of a new automaton.\<close>

theorem automaton_add_found:
  assumes "automaton_add name s = Inr (p, s')" "auto_wf (sc_automaton_tab s)" "state_wf (sc_state_tab s)" "cstring name"
    "int (length (sc_state_tab s)) < 2 ^ 31 - 1"
  shows "automaton_find s' name = Some p \<and> automaton_findid s' (cv_index p) = Some p \<and> cv_name p = name \<and>
     auto_wf (sc_automaton_tab s') \<and> state_wf (sc_state_tab s') \<and>
     (automaton_find s name = None \<longrightarrow> state_find s' [] (cv_index p) \<noteq> None)"
  using assms by (rule automaton_add_Inr)

lemma add_traffic: "\<exists>p s'. automaton_add ''traffic'' (initial_state ample_heap) = Inr (p, s')"
  by (simp add: automaton_add_def initial_state_def ample_heap_def sNAMEMAX_def find_automaton_def SHRT_MAX_def
      append_constval_def insert_constval_def state_add_def find_state_def)

theorem automaton_add_found_witness:
  "\<exists>p s'. automaton_add ''traffic'' (initial_state ample_heap) = Inr (p, s') \<and> automaton_find s' ''traffic'' = Some p \<and>
     state_find s' [] (cv_index p) \<noteq> None"
proof -
  obtain p s' where a: "automaton_add ''traffic'' (initial_state ample_heap) = Inr (p, s')" using add_traffic by blast
  have "automaton_find (initial_state ample_heap) ''traffic'' = None"
    by (simp add: automaton_find_def find_automaton_def initial_state_def)
  with automaton_add_found [OF a] a show ?thesis
    by (auto simp: initial_state_def auto_wf_def state_wf_def NUL_def)
qed

text \<open>C23: State lists are interned: an added list gets a positive identifier under which its automaton,
  its states and their number are found, identifiers stay unique, and adding the list again
  returns the same identifier without a change.\<close>

theorem state_addlist_interns:
  assumes "state_addlist list fsa s = Inr (i, s')" "combos_wf (statelist_tab s)"
  shows "combos_wf (statelist_tab s') \<and> 0 < i \<and> state_getfsa s' i = Inr fsa \<and> state_count s' i = Inr (length list) \<and>
     (\<forall>x. state_inlist s' i x = Inr (x \<in> set list)) \<and> state_addlist list fsa s' = Inr (i, s')"
  using state_addlist_Inr [OF assms] state_addlist_again [OF assms]
  by (auto simp: state_getfsa_def state_count_def state_inlist_def)

theorem state_addlist_interns_witness:
  "\<exists>i s'. state_addlist [1, 2] 1 (initial_state ample_heap) = Inr (i, s') \<and> state_count s' i = Inr 2 \<and>
     state_inlist s' i 3 = Inr False"
proof -
  obtain i s' where a: "state_addlist [1, 2] 1 (initial_state ample_heap) = Inr (i, s')"
    by (auto simp: state_addlist_def initial_state_def ample_heap_def state_findlist_def)
  have "combos_wf (statelist_tab (initial_state ample_heap))" by (simp add: initial_state_def combos_wf_def)
  from state_addlist_interns [OF a this] a show ?thesis by auto
qed

text \<open>Building a sorted list of states: with two or more states in the list, a state behind the first one
  is looked up through \<open>*list[idx]\<close>, which for \<open>idx\<close> above 0 reads a pointer the caller
  never passed; the operation is undefined there.\<close>

theorem state_buildlist_undefined:
  assumes "count \<le> length block" "2 \<le> count" "block ! 0 < stateid" "\<forall>n. granted h n"
  shows "state_buildlist h garbage block count stateid = Inl OutOfBounds"
  using assms by (rule state_buildlist_wild)

theorem state_buildlist_undefined_witness:
  "state_buildlist ample_heap (\<lambda>_. 0) [1, 2, 0, 0] 2 3 = Inl OutOfBounds"
  by (rule state_buildlist_undefined) (simp_all add: ample_heap_def)

text \<open>Two state lists of a function are accepted without an error exactly when they belong to the same
  automaton (or the function is \<open>entry\<close>) and share no state; otherwise the errors 83 and 84
  are logged, one 84 for each shared pair.\<close>

theorem conflict_pair_errors:
  "conflict_pair name psrc ptgt s = s\<lparr>reported := reported s @ conflict_errors name psrc ptgt\<rparr> \<and>
   (conflict_errors name psrc ptgt = [] \<longleftrightarrow>
     (sl_fsa psrc = sl_fsa ptgt \<or> strcmp name uENTRYFUNC = 0) \<and> set (sl_states psrc) \<inter> set (sl_states ptgt) = {})"
  by (simp add: conflict_pair_reported conflict_errors_none)

end
