(* ===== verification/Symbols.thy ===== *)
theory Symbols
  imports Globals Peephole
begin

text \<open>
  The symbol tables: \<open>sp_symhash.c\<close> (the name hash and the hash table of the global
  symbols) and the symbol functions of \<open>sc2.c\<close> (sorted insertion of globals, locals at the
  head, lookup, deletion at the end of a scope, the referrer lists).

  A symbol is reached through its address in \<open>syms\<close>; \<open>glbtab\<close> and \<open>loctab\<close> hold the
  addresses of their nodes. A table is chosen by \<open>global\<close>, which stands for the address of
  its root node.
\<close>

subsection \<open>The hash of a name\<close>

definition get16bits :: "char \<Rightarrow> char \<Rightarrow> 32 word" where
  "get16bits a b = push_bit 8 (of_nat (ord b)) + of_nat (ord a)"

fun hash_main :: "string \<Rightarrow> 32 word \<Rightarrow> 32 word \<times> string" where
  "hash_main (a # b # c # d # data) hash =
     (let hash = hash + get16bits a b;
          tmp = push_bit 11 (get16bits c d) XOR hash;
          hash = push_bit 16 hash XOR tmp;
          hash = hash + drop_bit 11 hash
      in hash_main data hash)"
| "hash_main data hash = (hash, data)"

definition hash_tail :: "string \<Rightarrow> 32 word \<Rightarrow> 32 word" where
  "hash_tail data hash = (case data of
       [a, b, c] \<Rightarrow>
         let hash = hash + get16bits a b;
             hash = hash XOR push_bit 16 hash;
             hash = hash XOR push_bit 18 (of_nat (ord c))
         in hash + drop_bit 11 hash
     | [a, b] \<Rightarrow>
         let hash = hash + get16bits a b;
             hash = hash XOR push_bit 11 hash
         in hash + drop_bit 17 hash
     | [a] \<Rightarrow>
         let hash = hash + of_nat (ord a);
             hash = hash XOR push_bit 10 hash
         in hash + drop_bit 1 hash
     | _ \<Rightarrow> hash)"

definition NameHash :: "string \<Rightarrow> 32 word" where
  "NameHash str =
     (if length str = 0 then 0
      else let (hash, data) = hash_main str (of_nat (length str));
               hash = hash_tail data hash;
               hash = hash XOR push_bit 3 hash;
               hash = hash + drop_bit 5 hash;
               hash = hash XOR push_bit 4 hash;
               hash = hash + drop_bit 17 hash;
               hash = hash XOR push_bit 25 hash
           in hash + drop_bit 6 hash)"

subsection \<open>The hash table\<close>

definition sizeof_HashTable :: nat where "sizeof_HashTable = 16"
definition sizeof_HashEntry :: nat where "sizeof_HashEntry = 8"
definition sizeof_ptr :: nat where "sizeof_ptr = 4"
definition INT_MAX :: nat where "INT_MAX = 2147483647"

definition NewHashTable :: "heap \<Rightarrow> hashtable option" where
  "NewHashTable h =
     (if \<not> granted h sizeof_HashTable then None
      else if \<not> granted h (32 * sizeof_ptr) then None
      else Some \<lparr>nbuckets = 32, nused = 0, bucketmask = 32 - 1, buckets = replicate 32 []\<rparr>)"

text \<open>The condition under which a lookup accepts a symbol.\<close>

definition hash_visible :: "symbol \<Rightarrow> string \<Rightarrow> int \<Rightarrow> bool" where
  "hash_visible sy name fnumber \<longleftrightarrow>
     (sym_parent sy = None \<or> sym_ident sy = iCONSTEXPR) \<and>
     (sym_fnumber sy < 0 \<or> sym_fnumber sy = fnumber) \<and> strcmp (sym_name sy) name = 0"

fun find_in_chain :: "cstate \<Rightarrow> string \<Rightarrow> int \<Rightarrow> nat list \<Rightarrow> fault + nat option" where
  "find_in_chain s name fnumber [] = Inr None"
| "find_in_chain s name fnumber (he # chain) =
     (case get_sym s (Some he) of
        Inl e \<Rightarrow> Inl e
      | Inr sy \<Rightarrow> if hash_visible sy name fnumber then Inr (Some he) else find_in_chain s name fnumber chain)"

definition chain_of :: "hashtable \<Rightarrow> 32 word \<Rightarrow> nat list" where
  "chain_of ht hash = buckets ht ! unat (hash AND bucketmask ht)"

definition FindInHashTable :: "cstate \<Rightarrow> hashtable \<Rightarrow> string \<Rightarrow> int \<Rightarrow> fault + nat option" where
  "FindInHashTable s ht name fnumber = find_in_chain s name fnumber (chain_of ht (NameHash name))"

text \<open>The tagged search: the symbol found and the new value of \<open>*cmptag\<close>.\<close>

fun find_tagged_in_chain :: "cstate \<Rightarrow> string \<Rightarrow> int \<Rightarrow> int \<Rightarrow> nat option \<Rightarrow> int \<Rightarrow> nat list \<Rightarrow> fault + nat option \<times> int" where
  "find_tagged_in_chain s name fnumber cmptag firstmatch count [] =
     Inr (firstmatch, if firstmatch \<noteq> None then count else cmptag)"
| "find_tagged_in_chain s name fnumber cmptag firstmatch count (he # chain) =
     (case get_sym s (Some he) of
        Inl e \<Rightarrow> Inl e
      | Inr sy \<Rightarrow>
          if hash_visible sy name fnumber then
            let firstmatch = (if firstmatch = None then Some he else firstmatch);
                count = (if cmptag = 0 then count + 1 else count)
            in if cmptag = sym_tag sy then Inr (Some he, 1)
               else find_tagged_in_chain s name fnumber cmptag firstmatch count chain
          else find_tagged_in_chain s name fnumber cmptag firstmatch count chain)"

definition FindTaggedInHashTable :: "cstate \<Rightarrow> hashtable \<Rightarrow> string \<Rightarrow> int \<Rightarrow> int \<Rightarrow> fault + nat option \<times> int" where
  "FindTaggedInHashTable s ht name fnumber cmptag =
     find_tagged_in_chain s name fnumber cmptag None 0 (chain_of ht (NameHash name))"

text \<open>Growing the table moves every entry to the head of its new bucket.\<close>

fun rehash :: "cstate \<Rightarrow> 32 word \<Rightarrow> nat list \<Rightarrow> nat list list \<Rightarrow> fault + nat list list" where
  "rehash s xbucketmask [] xbuckets = Inr xbuckets"
| "rehash s xbucketmask (he # hes) xbuckets =
     (case get_sym s (Some he) of
        Inl e \<Rightarrow> Inl e
      | Inr sy \<Rightarrow>
          (let bucket = unat (sym_hash sy AND xbucketmask)
           in rehash s xbucketmask hes (xbuckets[bucket := he # xbuckets ! bucket])))"

definition ResizeHashTable :: "cstate \<Rightarrow> hashtable \<Rightarrow> fault + hashtable" where
  "ResizeHashTable s ht =
     (let xnbuckets = nbuckets ht * 2; xbucketmask = of_nat xnbuckets - 1
      in if \<not> granted (mem s) (xnbuckets * sizeof_ptr) then Inr ht
         else bind_res (rehash s xbucketmask (concat (buckets ht)) (replicate xnbuckets []))
                (\<lambda>xbuckets. Inr (ht\<lparr>buckets := xbuckets, nbuckets := xnbuckets, bucketmask := xbucketmask\<rparr>)))"

definition AddToHashTable :: "cstate \<Rightarrow> hashtable \<Rightarrow> nat \<Rightarrow> fault + hashtable" where
  "AddToHashTable s ht p = bind_res (get_sym s (Some p)) (\<lambda>sy.
     let bucket = unat (sym_hash sy AND bucketmask ht)
     in if p \<in> set (buckets ht ! bucket) then Inl AssertFail
        else if \<not> granted (mem s) sizeof_HashEntry then Inl (Fatal 163)
        else let ht = ht\<lparr>buckets := (buckets ht)[bucket := buckets ht ! bucket @ [p]], nused := nused ht + 1\<rparr>
             in if nused ht > nbuckets ht \<and> nbuckets ht \<le> INT_MAX div 2 then ResizeHashTable s ht
                else Inr ht)"

definition RemoveFromHashTable :: "cstate \<Rightarrow> hashtable \<Rightarrow> nat \<Rightarrow> fault + hashtable" where
  "RemoveFromHashTable s ht p = bind_res (get_sym s (Some p)) (\<lambda>sy.
     let bucket = unat (sym_hash sy AND bucketmask ht)
     in if p \<in> set (buckets ht ! bucket)
        then Inr (ht\<lparr>buckets := (buckets ht)[bucket := remove1 p (buckets ht ! bucket)], nused := nused ht - 1\<rparr>)
        else Inl AssertFail)"

subsection \<open>Inserting symbols\<close>

definition table :: "bool \<Rightarrow> cstate \<Rightarrow> nat list" where
  "table global s = (if global then glbtab s else loctab s)"

definition set_table :: "bool \<Rightarrow> nat list \<Rightarrow> cstate \<Rightarrow> cstate" where
  "set_table global l s = (if global then s\<lparr>glbtab := l\<rparr> else s\<lparr>loctab := l\<rparr>)"

definition sizeof_symbol :: nat where "sizeof_symbol = 140"

text \<open>The nodes in front of the insertion point of a sorted insertion.\<close>

fun sort_prefix :: "cstate \<Rightarrow> string \<Rightarrow> nat list \<Rightarrow> fault + nat list" where
  "sort_prefix s name [] = Inr []"
| "sort_prefix s name (p # ps) =
     (case get_sym s (Some p) of
        Inl e \<Rightarrow> Inl e
      | Inr sy \<Rightarrow> if strcmp name (sym_name sy) > 0
                  then bind_res (sort_prefix s name ps) (\<lambda>pre. Inr (p # pre)) else Inr [])"

definition add_symbol :: "bool \<Rightarrow> symbol \<Rightarrow> bool \<Rightarrow> cstate \<Rightarrow> fault + nat \<times> cstate" where
  "add_symbol global entry dosort s =
     bind_res (if dosort then sort_prefix s (sym_name entry) (table global s) else Inr []) (\<lambda>pre.
       if \<not> granted (mem s) sizeof_symbol then Inl (Fatal 103)
       else let newsym = next_sym s;
                s = s\<lparr>syms := (syms s)(newsym \<mapsto> entry), next_sym := newsym + 1\<rparr>;
                s = set_table global (pre @ newsym # drop (length pre) (table global s)) s
            in if global
               then bind_res (AddToHashTable s (sp_Globals s) newsym) (\<lambda>ht. Inr (newsym, s\<lparr>sp_Globals := ht\<rparr>))
               else Inr (newsym, s))"

subsection \<open>Lookup\<close>

fun find_symbol_from :: "cstate \<Rightarrow> string \<Rightarrow> int \<Rightarrow> bool \<Rightarrow> nat list \<Rightarrow> fault + nat option" where
  "find_symbol_from s name fnumber includechildren [] = Inr None"
| "find_symbol_from s name fnumber includechildren (p # ps) =
     (case get_sym s (Some p) of
        Inl e \<Rightarrow> Inl e
      | Inr sy \<Rightarrow>
          if NameHash name = sym_hash sy \<and> strcmp name (sym_name sy) = 0
             \<and> (sym_parent sy = None \<or> includechildren)
             \<and> (fnumber < 0 \<or> (sym_fnumber sy < 0 \<or> sym_fnumber sy = fnumber))
          then Inr (Some p) else find_symbol_from s name fnumber includechildren ps)"

definition find_symbol :: "bool \<Rightarrow> string \<Rightarrow> int \<Rightarrow> bool \<Rightarrow> cstate \<Rightarrow> fault + nat option" where
  "find_symbol global name fnumber includechildren s = find_symbol_from s name fnumber includechildren (table global s)"

fun find_child_from :: "cstate \<Rightarrow> nat \<Rightarrow> nat list \<Rightarrow> fault + nat option" where
  "find_child_from s parent [] = Inr None"
| "find_child_from s parent (p # ps) =
     (case get_sym s (Some p) of
        Inl e \<Rightarrow> Inl e
      | Inr sy \<Rightarrow> if sym_parent sy = Some parent then Inr (Some p) else find_child_from s parent ps)"

definition find_symbol_child :: "bool \<Rightarrow> nat \<Rightarrow> cstate \<Rightarrow> fault + nat option" where
  "find_symbol_child global parent s = find_child_from s parent (table global s)"

definition findglb :: "string \<Rightarrow> cstate \<Rightarrow> fault + nat option" where
  "findglb name s = find_symbol True name (fcurrent s) False s"

definition findloc :: "string \<Rightarrow> cstate \<Rightarrow> fault + nat option" where
  "findloc name s = find_symbol False name (- 1) False s"

definition finddepend :: "nat \<Rightarrow> cstate \<Rightarrow> fault + nat option" where
  "finddepend parent s = bind_res (find_symbol_child False parent s) (\<lambda>r.
     case r of None \<Rightarrow> find_symbol_child True parent s | Some p \<Rightarrow> Inr (Some p))"

definition uENUMFIELD :: "16 word" where "uENUMFIELD = 0x40"

definition findconst :: "string \<Rightarrow> cstate \<Rightarrow> fault + nat option" where
  "findconst name s =
     bind_res (find_symbol False name (- 1) True s) (\<lambda>r.
     bind_res (case r of None \<Rightarrow> Inr True | Some p \<Rightarrow> bind_res (get_sym s r) (\<lambda>sy. Inr (sym_ident sy \<noteq> iCONSTEXPR)))
       (\<lambda>other.
     bind_res (if other then FindInHashTable s (sp_Globals s) name (fcurrent s) else Inr r) (\<lambda>r.
     case r of
       None \<Rightarrow> Inr None
     | Some p \<Rightarrow> bind_res (get_sym s r) (\<lambda>sy.
         if sym_ident sy \<noteq> iCONSTEXPR then Inr None
         else if \<not> (sym_parent sy = None \<or> has_flag (sym_usage sy) uENUMFIELD) then Inl AssertFail
         else Inr r))))"

subsection \<open>Declaring\<close>

text \<open>\<open>(char)usage\<close>, sign-extended when it is stored in a \<open>short\<close>.\<close>

definition char_usage :: "16 word \<Rightarrow> 16 word" where
  "char_usage usage = scast (ucast usage :: 8 word)"

definition addsym :: "string \<Rightarrow> cell \<Rightarrow> ident \<Rightarrow> vclass \<Rightarrow> int \<Rightarrow> 16 word \<Rightarrow> cstate \<Rightarrow> fault + nat \<times> cstate" where
  "addsym name addr ident vclass tag usage s =
     bind_res (if (ident = iFUNCTN \<or> ident = iCONSTEXPR) \<and> vclass = sGLOBAL
               then bind_res (findglb name s) (\<lambda>r. if r = None then Inr () else Inl AssertFail) else Inr ()) (\<lambda>_.
     bind_res (if ident = iLABEL then bind_res (findloc name s) (\<lambda>r. if r = None then Inr () else Inl AssertFail)
               else Inr ()) (\<lambda>_.
       if \<not> granted (mem s) sizeof_ptr then Inl (Fatal 103)
       else if length name > sNAMEMAX then Inl OutOfBounds
       else let entry = \<lparr>sym_name = name, sym_hash = NameHash name, sym_addr = addr, sym_codeaddr = code_idx s,
                  sym_vclass = vclass, sym_ident = ident, sym_usage = char_usage usage, sym_compound = 0,
                  sym_tag = tag, sym_parent = None, sym_length = 0, sym_level = 0, sym_idxtag = 0,
                  sym_states = None, sym_fnumber = - 1, sym_lnumber = fline s, sym_refer = [None]\<rparr>
            in if vclass = sGLOBAL then add_symbol True entry True s else add_symbol False entry False s))"

text \<open>The dimensions of an array, outermost first: each level is the parent of the next.\<close>

fun add_levels :: "string \<Rightarrow> cell \<Rightarrow> ident \<Rightarrow> vclass \<Rightarrow> int \<Rightarrow> (int \<times> int) list \<Rightarrow> nat option \<Rightarrow> nat option \<Rightarrow> cstate \<Rightarrow>
    fault + nat option \<times> cstate" where
  "add_levels name addr ident vclass tag [] parent sy s = Inr (sy, s)"
| "add_levels name addr ident vclass tag ((dim, idxtag) # dims) parent sy s =
     (case addsym name addr ident vclass tag uDEFINE s of
        Inl e \<Rightarrow> Inl e
      | Inr (newsym, s) \<Rightarrow>
          (case get_sym s (Some newsym) of
             Inl e \<Rightarrow> Inl e
           | Inr t \<Rightarrow>
               let t = t\<lparr>sym_length := of_int dim, sym_level := length dims, sym_idxtag := idxtag, sym_parent := parent\<rparr>;
                   s = s\<lparr>syms := (syms s)(newsym \<mapsto> t)\<rparr>
               in add_levels name addr ident vclass tag dims (Some newsym) (if sy = None then Some newsym else sy) s))"

definition addvariable :: "string \<Rightarrow> cell \<Rightarrow> ident \<Rightarrow> vclass \<Rightarrow> int \<Rightarrow> (int \<times> int) list \<Rightarrow> cstate \<Rightarrow> fault + nat option \<times> cstate" where
  "addvariable name addr ident vclass tag dims s =
     bind_res (if vclass \<noteq> sGLOBAL then Inr ()
               else bind_res (findglb name s) (\<lambda>r. case r of
                      None \<Rightarrow> Inr ()
                    | Some p \<Rightarrow> bind_res (get_sym s (Some p)) (\<lambda>sy.
                        if \<not> has_flag (sym_usage sy) uDEFINE
                           \<or> (sym_ident sy = iFUNCTN \<and> (Some p = curfunc s \<or> has_flag (sym_usage sy) uNATIVE))
                        then Inr () else Inl AssertFail))) (\<lambda>_.
       if ident = iARRAY \<or> ident = iREFARRAY then add_levels name addr ident vclass tag dims None None s
       else bind_res (addsym name addr ident vclass tag uDEFINE s) (\<lambda>(p, s). Inr (Some p, s)))"

definition getlabel :: "cstate \<Rightarrow> nat \<times> cstate" where
  "getlabel s = (sc_labnum s, s\<lparr>sc_labnum := sc_labnum s + 1\<rparr>)"

subsection \<open>Referrers\<close>

definition upd_sym :: "nat \<Rightarrow> (symbol \<Rightarrow> symbol) \<Rightarrow> cstate \<Rightarrow> cstate" where
  "upd_sym p f s = s\<lparr>syms := (syms s)(p := map_option f (syms s p))\<rparr>"

definition add_referrer :: "heap \<Rightarrow> nat \<Rightarrow> nat option list \<Rightarrow> fault + nat option list" where
  "add_referrer h bywhom refer =
     (if Some bywhom \<in> set refer then Inr refer
      else let count = length (takeWhile (\<lambda>r. r \<noteq> None) refer)
           in if count < length refer then Inr (refer[count := Some bywhom])
              else let newsize = 2 * length refer
                   in if \<not> newsize > 0 then Inl AssertFail
                      else if \<not> granted h (newsize * sizeof_ptr) then Inr refer
                      else let refer = refer @ replicate (newsize - length refer) None
                           in Inr (refer[count := Some bywhom]))"

definition refer_symbol :: "nat \<Rightarrow> nat \<Rightarrow> cstate \<Rightarrow> fault + cstate" where
  "refer_symbol entry bywhom s = bind_res (get_sym s (Some entry)) (\<lambda>sy.
     bind_res (add_referrer (mem s) bywhom (sym_refer sy)) (\<lambda>refer.
       Inr (upd_sym entry (\<lambda>sy. sy\<lparr>sym_refer := refer\<rparr>) s)))"

definition markusage :: "nat option \<Rightarrow> 16 word \<Rightarrow> cstate \<Rightarrow> fault + cstate" where
  "markusage p usage s =
     (case p of
        None \<Rightarrow> Inl AssertFail
      | Some a \<Rightarrow> bind_res (get_sym s p) (\<lambda>sy.
          let s = upd_sym a (\<lambda>sy. sy\<lparr>sym_usage := sym_usage sy OR char_usage usage\<rparr>) s;
              s = (if has_flag usage uWRITTEN then upd_sym a (\<lambda>sy. sy\<lparr>sym_lnumber := fline s\<rparr>) s else s)
          in if has_flag usage (uREAD OR uWRITTEN) \<and> sym_vclass sy = sGLOBAL
             then (case curfunc s of None \<Rightarrow> Inr s | Some f \<Rightarrow> refer_symbol a f s)
             else Inr s))"

subsection \<open>Deleting\<close>

text \<open>
  \<open>free_symbol\<close> releases the node; what its pointers own (arguments, state list, referrers,
  documentation) goes with it.
\<close>

definition free_symbol :: "nat \<Rightarrow> cstate \<Rightarrow> cstate" where
  "free_symbol p s = s\<lparr>syms := (syms s)(p := None)\<rparr>"

definition delete_symbol :: "bool \<Rightarrow> nat \<Rightarrow> cstate \<Rightarrow> fault + cstate" where
  "delete_symbol global p s =
     (if p \<notin> set (table global s) then Inl AssertFail
      else bind_res (if global then bind_res (RemoveFromHashTable s (sp_Globals s) p) (\<lambda>ht. Inr (s\<lparr>sp_Globals := ht\<rparr>))
                     else Inr s)
             (\<lambda>s. Inr (free_symbol p (set_table global (remove1 p (table global s)) s))))"

text \<open>Following the parents; the fuel bounds the length of a chain of distinct addresses.\<close>

fun outermost :: "nat \<Rightarrow> symbol \<Rightarrow> cstate \<Rightarrow> fault + symbol" where
  "outermost 0 sy s = Inl NoFuel"
| "outermost (Suc fuel) sy s =
     (case sym_parent sy of
        None \<Rightarrow> Inr sy
      | Some p \<Rightarrow> (case get_sym s (Some p) of Inl e \<Rightarrow> Inl e | Inr sy' \<Rightarrow> outermost fuel sy' s))"

definition get_actual_compound :: "symbol \<Rightarrow> cstate \<Rightarrow> fault + int" where
  "get_actual_compound sy s =
     (if sym_ident sy = iARRAY \<or> sym_ident sy = iREFARRAY
      then bind_res (outermost (Suc (next_sym s)) sy s) (\<lambda>sy. Inr (sym_compound sy))
      else Inr (sym_compound sy))"

text \<open>The loop over the parents of an \<open>iREFARRAY\<close>: does it end at a function?\<close>

fun parent_function :: "nat \<Rightarrow> nat option \<Rightarrow> cstate \<Rightarrow> fault + bool" where
  "parent_function 0 p s = Inl NoFuel"
| "parent_function (Suc fuel) p s =
     (case p of
        None \<Rightarrow> Inr False
      | Some a \<Rightarrow> (case get_sym s p of
          Inl e \<Rightarrow> Inl e
        | Inr sy \<Rightarrow> if sym_ident sy = iFUNCTN then (if sym_parent sy = None then Inr True else Inl AssertFail)
                    else if sym_ident sy \<noteq> iREFARRAY then Inl AssertFail
                    else parent_function fuel (sym_parent sy) s))"

definition must_delete :: "symbol \<Rightarrow> bool \<Rightarrow> bool \<Rightarrow> cstate \<Rightarrow> fault + bool" where
  "must_delete sy delete_labels delete_functions s =
     (case sym_ident sy of
        iLABEL \<Rightarrow> Inr delete_labels
      | iVARIABLE \<Rightarrow> Inr delete_functions
      | iARRAY \<Rightarrow> Inr delete_functions
      | iREFERENCE \<Rightarrow> Inr True
      | iREFARRAY \<Rightarrow> bind_res (parent_function (Suc (next_sym s)) (sym_parent sy) s)
                        (\<lambda>fn. Inr (delete_functions \<or> \<not> fn))
      | iCONSTEXPR \<Rightarrow> Inr (delete_functions \<or> \<not> has_flag (sym_usage sy) uPREDEF)
      | iFUNCTN \<Rightarrow> if sym_parent sy = None then Inr (delete_functions \<or> has_flag (sym_usage sy) uNATIVE) else Inl AssertFail
      | _ \<Rightarrow> Inl AssertFail)"

text \<open>The case that keeps the symbol.\<close>

definition keep_symbol :: "symbol \<Rightarrow> symbol" where
  "keep_symbol sy =
     (let u = sym_usage sy;
          u = (if sym_ident sy = iFUNCTN \<and> \<not> has_flag u uDEFINE then u OR uMISSING else u);
          u = (if sym_ident sy = iFUNCTN \<or> sym_ident sy = iVARIABLE \<or> sym_ident sy = iARRAY then u AND NOT uDEFINE else u);
          u = (if sym_ident sy = iFUNCTN \<and> \<not> alpha (deref (sym_name sy)) then u AND NOT uPROTOTYPED else u)
      in sy\<lparr>sym_usage := u OR uVISITED,
             sym_states := map_option (List.map (\<lambda>c. c\<lparr>cv_value := 0\<rparr>)) (sym_states sy)\<rparr>)"

fun delete_children :: "nat \<Rightarrow> bool \<Rightarrow> nat \<Rightarrow> nat \<Rightarrow> cstate \<Rightarrow> fault + nat \<times> cstate" where
  "delete_children 0 global p count s = Inl NoFuel"
| "delete_children (Suc fuel) global p count s =
     (case finddepend p s of
        Inl e \<Rightarrow> Inl e
      | Inr None \<Rightarrow> Inr (count, s)
      | Inr (Some c) \<Rightarrow> (case delete_symbol global c s of
                           Inl e \<Rightarrow> Inl e
                         | Inr s' \<Rightarrow> delete_children fuel global p (count + 1) s'))"

text \<open>\<open>base\<close> is the number of nodes up to the node the C pointer \<open>base\<close> points to.\<close>

fun delete_loop :: "nat \<Rightarrow> bool \<Rightarrow> int \<Rightarrow> bool \<Rightarrow> bool \<Rightarrow> nat \<Rightarrow> cstate \<Rightarrow> fault + cstate" where
  "delete_loop 0 global level delete_labels delete_functions base s = Inl NoFuel"
| "delete_loop (Suc fuel) global level delete_labels delete_functions base s =
     (if base \<ge> length (table global s) then Inr s
      else let p = table global s ! base
      in case get_sym s (Some p) of
        Inl e \<Rightarrow> Inl e
      | Inr sy \<Rightarrow> (case get_actual_compound sy s of
        Inl e \<Rightarrow> Inl e
      | Inr compound \<Rightarrow>
          if compound < level then Inr s
          else if has_flag (sym_usage sy) uVISITED
          then delete_loop fuel global level delete_labels delete_functions (base + 1) s
          else (case must_delete sy delete_labels delete_functions s of
        Inl e \<Rightarrow> Inl e
      | Inr False \<Rightarrow>
          delete_loop fuel global level delete_labels delete_functions (base + 1) (upd_sym p keep_symbol s)
      | Inr True \<Rightarrow> (case delete_children (Suc (length (table global s))) global p 0 s of
        Inl e \<Rightarrow> Inl e
      | Inr (count, s) \<Rightarrow> (case delete_symbol global p s of
        Inl e \<Rightarrow> Inl e
      | Inr s \<Rightarrow> delete_loop fuel global level delete_labels delete_functions (if count = 0 then base else 0) s)))))"

definition clear_visited :: "nat list \<Rightarrow> cstate \<Rightarrow> cstate" where
  "clear_visited ps s = fold (\<lambda>p. upd_sym p (\<lambda>sy. sy\<lparr>sym_usage := sym_usage sy AND NOT uVISITED\<rparr>)) ps s"

definition delete_symbols :: "bool \<Rightarrow> int \<Rightarrow> bool \<Rightarrow> bool \<Rightarrow> cstate \<Rightarrow> fault + cstate" where
  "delete_symbols global level delete_labels delete_functions s =
     bind_res (delete_loop (Suc (length (table global s)) * Suc (length (table global s)))
                 global level delete_labels delete_functions 0 s)
       (\<lambda>s. Inr (clear_visited (table global s) s))"

end
