(* ===== verification/SymbolFacts.thy ===== *)
theory SymbolFacts
  imports Symbols
begin

text \<open>
  Correctness of the symbol tables. The locale \<open>symbol_index\<close> states what the compiler
  expects of an index of symbols by name; it is interpreted on the hash table of
  \<open>sp_symhash.c\<close> and on the linked list that \<open>find_symbol\<close> walks. \<open>globals_wf\<close> is the
  invariant that ties both together: the list of globals is sorted by name and holds the
  symbols of the hash table.
\<close>

subsection \<open>An index of symbols\<close>

locale symbol_index =
  fixes ok :: "'t \<Rightarrow> bool"
    and members :: "'t \<Rightarrow> nat set"
    and vis :: "nat \<Rightarrow> bool"
    and add :: "'t \<Rightarrow> nat \<Rightarrow> fault + 't"
    and remove :: "'t \<Rightarrow> nat \<Rightarrow> fault + 't"
    and look :: "'t \<Rightarrow> fault + nat option"
  assumes add_ok: "ok t \<Longrightarrow> add t p = Inr t' \<Longrightarrow> ok t' \<and> members t' = insert p (members t)"
    and remove_ok: "ok t \<Longrightarrow> remove t p = Inr t' \<Longrightarrow> ok t' \<and> members t' = members t - {p} \<and> p \<in> members t"
    and look_SomeD: "ok t \<Longrightarrow> look t = Inr (Some p) \<Longrightarrow> p \<in> members t \<and> vis p"
    and look_NoneD: "ok t \<Longrightarrow> look t = Inr None \<Longrightarrow> p \<in> members t \<Longrightarrow> \<not> vis p"
    and look_total: "ok t \<Longrightarrow> look t \<noteq> Inl e"
begin

lemma look_cases:
  assumes "ok t"
  obtains (none) "look t = Inr None" | (some) p where "look t = Inr (Some p)"
proof (cases "look t")
  case (Inl e)
  then show ?thesis using look_total [OF assms] by simp
next
  case (Inr r)
  then show ?thesis using that by (cases r) auto
qed

lemma look_only:
  assumes "ok t" "p \<in> members t" "vis p" "\<And>q. q \<in> members t \<Longrightarrow> vis q \<Longrightarrow> q = p"
  shows "look t = Inr (Some p)"
  using assms(1)
proof (cases rule: look_cases)
  case none
  then show ?thesis using look_NoneD [OF assms(1)] assms(2,3) by blast
next
  case (some q)
  then show ?thesis using look_SomeD [OF assms(1) some] assms(4) by simp
qed

lemma look_NoneI:
  assumes "ok t" "\<And>p. p \<in> members t \<Longrightarrow> \<not> vis p"
  shows "look t = Inr None"
  using assms(1)
proof (cases rule: look_cases)
  case (some q)
  then show ?thesis using look_SomeD [OF assms(1) some] assms(2) by blast
qed

lemma look_added:
  assumes "ok t" "add t p = Inr t'" "vis p" "look t = Inr None"
  shows "look t' = Inr (Some p)"
proof -
  have t': "ok t'" "members t' = insert p (members t)" using add_ok [OF assms(1,2)] by auto
  show ?thesis
    by (rule look_only) (use t' assms(3) look_NoneD [OF assms(1,4)] in auto)
qed

lemma look_removed:
  assumes "ok t" "remove t p = Inr t'" "\<forall>q \<in> members t. vis q \<longrightarrow> q = p"
  shows "look t' = Inr None"
proof (rule look_NoneI)
  show "ok t'" using remove_ok [OF assms(1,2)] by simp
  show "\<not> vis q" if "q \<in> members t'" for q using that remove_ok [OF assms(1,2)] assms(3) by auto
qed

lemma look_add_other:
  assumes "ok t" "add t q = Inr t'" "\<not> vis q" "look t = Inr None"
  shows "look t' = Inr None"
proof (rule look_NoneI)
  show "ok t'" using add_ok [OF assms(1,2)] by simp
  show "\<not> vis p" if "p \<in> members t'" for p
    using that add_ok [OF assms(1,2)] assms(3) look_NoneD [OF assms(1,4)] by auto
qed

end

subsection \<open>The hash table\<close>

definition ht_members :: "hashtable \<Rightarrow> nat set" where
  "ht_members ht = set (concat (buckets ht))"

definition home :: "cstate \<Rightarrow> 32 word \<Rightarrow> nat \<Rightarrow> nat" where
  "home s bmask p = (case syms s p of None \<Rightarrow> 0 | Some sy \<Rightarrow> unat (sym_hash sy AND bmask))"

definition sym_ok :: "cstate \<Rightarrow> nat \<Rightarrow> bool" where
  "sym_ok s p \<longleftrightarrow> (\<exists>sy. syms s p = Some sy \<and> sym_hash sy = NameHash (sym_name sy) \<and> cstring (sym_name sy))"

definition ht_wf :: "cstate \<Rightarrow> hashtable \<Rightarrow> bool" where
  "ht_wf s ht \<longleftrightarrow> (\<exists>k. 5 \<le> k \<and> k \<le> 31 \<and> nbuckets ht = 2 ^ k) \<and> bucketmask ht = of_nat (nbuckets ht) - 1 \<and>
     length (buckets ht) = nbuckets ht \<and> nused ht = length (concat (buckets ht)) \<and>
     (\<forall>b < nbuckets ht. distinct (buckets ht ! b) \<and>
        (\<forall>p \<in> set (buckets ht ! b). sym_ok s p \<and> home s (bucketmask ht) p = b))"

lemma bucket_less: "k \<le> 31 \<Longrightarrow> unat (h AND (of_nat (2 ^ k) - 1) :: 32 word) < 2 ^ k"
proof -
  have m: "of_nat (2 ^ k) - 1 = (mask k :: 32 word)" by (simp add: mask_eq_exp_minus_1)
  have "unat (take_bit k h) = take_bit k (unat h)" by (rule unsigned_take_bit_eq)
  then show "unat (h AND (of_nat (2 ^ k) - 1)) < 2 ^ k" unfolding m take_bit_eq_mask [symmetric] by simp
qed

lemma ht_bucket_less: "ht_wf s ht \<Longrightarrow> unat (h AND bucketmask ht) < nbuckets ht"
  using bucket_less by (auto simp: ht_wf_def)

lemma home_less: "ht_wf s ht \<Longrightarrow> home s (bucketmask ht) p < nbuckets ht"
proof -
  assume wf: "ht_wf s ht"
  then have "0 < nbuckets ht" by (auto simp: ht_wf_def)
  with ht_bucket_less [OF wf] show ?thesis by (simp add: home_def split: option.splits)
qed

lemma in_concat: "p \<in> set (concat bs) \<longleftrightarrow> (\<exists>i < length bs. p \<in> set (bs ! i))"
  unfolding set_concat UN_iff by (metis in_set_conv_nth)

lemma ht_members_iff: "ht_wf s ht \<Longrightarrow> p \<in> ht_members ht \<longleftrightarrow> p \<in> set (buckets ht ! home s (bucketmask ht) p)"
proof
  assume wf: "ht_wf s ht" and "p \<in> ht_members ht"
  then obtain b where "b < nbuckets ht" "p \<in> set (buckets ht ! b)"
    by (auto simp: ht_members_def ht_wf_def in_concat simp del: set_concat)
  with wf show "p \<in> set (buckets ht ! home s (bucketmask ht) p)" by (auto simp: ht_wf_def)
next
  assume wf: "ht_wf s ht" and "p \<in> set (buckets ht ! home s (bucketmask ht) p)"
  moreover have "home s (bucketmask ht) p < length (buckets ht)" using wf home_less [OF wf] by (simp add: ht_wf_def)
  ultimately show "p \<in> ht_members ht" by (auto simp: ht_members_def)
qed

lemma new_table_wf: "NewHashTable h = Some ht \<Longrightarrow> ht_wf s ht \<and> ht_members ht = {}"
  by (auto simp: NewHashTable_def ht_wf_def ht_members_def split: if_splits intro!: exI [of _ 5])

text \<open>Rehashing moves the entries, in order, to the heads of their buckets.\<close>

lemma rehash_spec:
  "\<forall>p \<in> set hes. syms s p \<noteq> None \<Longrightarrow> \<forall>p \<in> set hes. home s m p < length xb \<Longrightarrow>
   \<exists>xb'. rehash s m hes xb = Inr xb' \<and> length xb' = length xb \<and>
     (\<forall>b < length xb. xb' ! b = rev (filter (\<lambda>p. home s m p = b) hes) @ xb ! b)"
proof (induction hes arbitrary: xb)
  case (Cons he hes)
  then obtain sy where sy: "syms s he = Some sy" by auto
  define b0 where "b0 = unat (sym_hash sy AND m)"
  have h: "home s m he = b0" by (simp add: home_def sy b0_def)
  from Cons.IH [of "xb[b0 := he # xb ! b0]"] Cons.prems obtain xb' where
    "rehash s m hes (xb[b0 := he # xb ! b0]) = Inr xb'" "length xb' = length xb"
    "\<forall>b < length xb. xb' ! b = rev (filter (\<lambda>p. home s m p = b) hes) @ xb[b0 := he # xb ! b0] ! b" by auto
  then show ?case using Cons.prems by (auto simp: get_sym_def sy b0_def [symmetric] Let_def h nth_list_update)
qed simp

lemma concat_length_nth: "length (concat xs) = (\<Sum>i < length xs. length (xs ! i))"
  by (simp add: length_concat sum_list_sum_nth atLeast0LessThan)

lemma filter_partition_length:
  "\<forall>p \<in> set hes. f p < (n :: nat) \<Longrightarrow> (\<Sum>i < n. length (filter (\<lambda>p. f p = i) hes)) = length hes"
proof (induction hes)
  case (Cons a hes)
  have "(\<Sum>i < n. length (filter (\<lambda>p. f p = i) (a # hes))) =
      (\<Sum>i < n. (if f a = i then 1 else 0) + length (filter (\<lambda>p. f p = i) hes))"
    by (rule sum.cong) auto
  also have "\<dots> = (\<Sum>i < n. if i = f a then 1 else 0) + length hes" using Cons by (simp add: sum.distrib eq_commute)
  also have "(\<Sum>i < n. if i = f a then 1 else 0) = (1 :: nat)" using Cons.prems by (subst sum.delta) auto
  finally show ?case by simp
qed simp

lemma ht_wf_distinct: "ht_wf s ht \<Longrightarrow> distinct (concat (buckets ht))"
proof -
  assume wf: "ht_wf s ht"
  have "distinct (concat bs)" if "\<forall>i < length bs. distinct (bs ! i) \<and> (\<forall>p \<in> set (bs ! i). f p = i + (n :: nat))" for bs f n
    using that
  proof (induction bs arbitrary: n)
    case (Cons b bs)
    have "\<forall>p \<in> set b. f p = n" "distinct b" using Cons.prems by force+
    moreover have "\<forall>p \<in> set (concat bs). n < f p"
    proof
      fix p assume "p \<in> set (concat bs)"
      then obtain i where "i < length bs" "p \<in> set (bs ! i)" unfolding in_concat by blast
      then show "n < f p" using Cons.prems by (auto dest!: spec [of _ "Suc i"])
    qed
    moreover have "distinct (concat bs)"
    proof (rule Cons.IH [of "Suc n"], intro allI impI)
      fix i assume "i < length bs"
      then show "distinct (bs ! i) \<and> (\<forall>p \<in> set (bs ! i). f p = i + Suc n)"
        using Cons.prems [rule_format, of "Suc i"] by simp
    qed
    ultimately show ?case by fastforce
  qed simp
  from this [of "buckets ht" "home s (bucketmask ht)" 0] wf show ?thesis by (auto simp: ht_wf_def)
qed

lemma ResizeHashTable_wf:
  assumes wf: "ht_wf s ht" and small: "nbuckets ht \<le> INT_MAX div 2"
  shows "\<exists>ht'. ResizeHashTable s ht = Inr ht' \<and> ht_wf s ht' \<and> ht_members ht' = ht_members ht \<and> nused ht' = nused ht"
proof (cases "granted (mem s) (nbuckets ht * 2 * sizeof_ptr)")
  case False
  then show ?thesis using wf by (simp add: ResizeHashTable_def)
next
  case True
  define m :: "32 word" where "m = of_nat (nbuckets ht * 2) - 1"
  from wf obtain k where k: "5 \<le> k" "k \<le> 31" "nbuckets ht = 2 ^ k" by (auto simp: ht_wf_def)
  have "k < 30"
  proof (rule ccontr)
    assume "\<not> k < 30"
    then have "(2::nat) ^ 30 \<le> 2 ^ k" by (intro power_increasing) auto
    then show False using small k(3) by (simp add: INT_MAX_def)
  qed
  then have k2: "nbuckets ht * 2 = 2 ^ Suc k" "Suc k \<le> 31" using k by simp_all
  define hes where "hes = concat (buckets ht)"
  have hb: "home s m p < nbuckets ht * 2" if "p \<in> set hes" for p
    using bucket_less [OF k2(2)] unfolding m_def k2(1) by (auto simp: home_def split: option.splits)
  have ok: "sym_ok s p" if "p \<in> set hes" for p
    using that wf by (auto simp: hes_def ht_wf_def in_concat simp del: set_concat)
  then have "\<forall>p \<in> set hes. syms s p \<noteq> None" by (auto simp: sym_ok_def)
  from rehash_spec [OF this, of m "replicate (nbuckets ht * 2) []"] hb obtain xb where
    xb: "rehash s m hes (replicate (nbuckets ht * 2) []) = Inr xb" "length xb = nbuckets ht * 2"
      "\<forall>b < nbuckets ht * 2. xb ! b = rev (filter (\<lambda>p. home s m p = b) hes)" by auto
  define ht' where "ht' = ht\<lparr>buckets := xb, nbuckets := nbuckets ht * 2, bucketmask := m\<rparr>"
  have r: "ResizeHashTable s ht = Inr ht'" using True xb(1) by (simp add: ResizeHashTable_def m_def hes_def ht'_def Let_def)
  have mem': "set (concat xb) = set hes" using xb(2,3) hb unfolding set_eq_iff in_concat by fastforce
  have "length (concat xb) = length hes"
    using filter_partition_length [of hes "home s m" "nbuckets ht * 2"] hb xb by (simp add: concat_length_nth)
  then have n: "nused ht' = length (concat (buckets ht'))" using wf by (simp add: ht'_def ht_wf_def hes_def)
  have "\<exists>k. 5 \<le> k \<and> k \<le> 31 \<and> nbuckets ht' = 2 ^ k" using k(1) k2 by (auto simp: ht'_def intro!: exI [of _ "Suc k"])
  moreover have "\<forall>b < nbuckets ht'. distinct (buckets ht' ! b) \<and>
        (\<forall>p \<in> set (buckets ht' ! b). sym_ok s p \<and> home s (bucketmask ht') p = b)"
    using xb(3) ok ht_wf_distinct [OF wf] by (auto simp: ht'_def hes_def [symmetric])
  ultimately have "ht_wf s ht'" using n xb(2) unfolding ht_wf_def by (simp add: ht'_def m_def)
  then show ?thesis using r mem' by (auto simp: ht'_def ht_members_def hes_def)
qed


lemma get_sym_Inr [simp]: "get_sym s (Some p) = Inr sy \<longleftrightarrow> syms s p = Some sy"
  by (auto simp: get_sym_def split: option.splits)

lemma get_sym_Some: "syms s p = Some sy \<Longrightarrow> get_sym s (Some p) = Inr sy"
  by simp

lemma ht_wf_update:
  assumes wf: "ht_wf s ht" and b: "b < nbuckets ht"
    and new: "distinct l" "\<forall>p \<in> set l. sym_ok s p \<and> home s (bucketmask ht) p = b"
    and n: "n + length (buckets ht ! b) = nused ht + length l"
  shows "ht_wf s (ht\<lparr>buckets := (buckets ht)[b := l], nused := n\<rparr>)"
proof -
  have len: "b < length (buckets ht)" using wf b by (simp add: ht_wf_def)
  let ?f = "\<lambda>i. length ((buckets ht)[b := l] ! i)" and ?g = "\<lambda>i. length (buckets ht ! i)"
  have "(\<Sum>i < length (buckets ht). ?f i) + ?g b = (\<Sum>i < length (buckets ht). ?g i) + length l"
  proof -
    have i: "finite {..<length (buckets ht)}" "b \<in> {..<length (buckets ht)}" using len by auto
    have "(\<Sum>j \<in> {..<length (buckets ht)} - {b}. ?f j) = (\<Sum>j \<in> {..<length (buckets ht)} - {b}. ?g j)"
      by (rule sum.cong) auto
    then show ?thesis using len by (simp add: sum.remove [OF i])
  qed
  then have "n = length (concat ((buckets ht)[b := l]))"
    using n wf by (simp add: concat_length_nth ht_wf_def)
  then show ?thesis using wf new len by (auto simp: ht_wf_def nth_list_update)
qed

lemma ht_members_update:
  assumes "b < length (buckets ht)" "distinct (concat (buckets ht))"
  shows "ht_members (ht\<lparr>buckets := (buckets ht)[b := l], nused := n\<rparr>) = (ht_members ht - set (buckets ht ! b)) \<union> set l"
proof -
  have "p \<in> set (concat ((buckets ht)[b := l])) \<longleftrightarrow> p \<in> (ht_members ht - set (buckets ht ! b)) \<union> set l" for p
  proof -
    have dis: "i = j" if "i < length (buckets ht)" "j < length (buckets ht)" "p \<in> set (buckets ht ! i)" "p \<in> set (buckets ht ! j)" for i j
    proof (rule ccontr)
      have d: "distinct (concat bs) \<Longrightarrow> i < j \<Longrightarrow> j < length bs \<Longrightarrow> p \<in> set (bs ! i) \<Longrightarrow> p \<notin> set (bs ! j)"
        for i j and bs :: "nat list list"
      proof (induction bs arbitrary: i j)
        case (Cons b bs)
        have "p \<notin> set b \<or> p \<notin> set (bs ! j')" if "j' < length bs" for j'
          using Cons.prems(1) nth_mem [OF that] by auto
        with Cons show ?case by (cases i; cases j) auto
      qed simp
      assume "i \<noteq> j"
      then show False using d [OF assms(2), of i j] d [OF assms(2), of j i] that by (cases "i < j") auto
    qed
    show ?thesis unfolding in_concat ht_members_def Un_iff Diff_iff
      using assms(1) dis by (auto simp: nth_list_update split: if_splits) metis+
  qed
  then show ?thesis by (auto simp: ht_members_def)
qed

lemma AddToHashTable_spec:
  assumes wf: "ht_wf s ht" and p: "sym_ok s p" and a: "AddToHashTable s ht p = Inr ht'"
  shows "ht_wf s ht' \<and> ht_members ht' = insert p (ht_members ht) \<and> p \<notin> ht_members ht"
proof -
  obtain sy where sy: "syms s p = Some sy" using p by (auto simp: sym_ok_def)
  define b where "b = unat (sym_hash sy AND bucketmask ht)"
  have b: "b < nbuckets ht" "b < length (buckets ht)" "home s (bucketmask ht) p = b"
    using ht_bucket_less [OF wf] wf sy by (auto simp: b_def home_def ht_wf_def)
  define h1 where "h1 = ht\<lparr>buckets := (buckets ht)[b := buckets ht ! b @ [p]], nused := nused ht + 1\<rparr>"
  from a sy have new: "p \<notin> set (buckets ht ! b)"
    and r: "(if nused h1 > nbuckets h1 \<and> nbuckets h1 \<le> INT_MAX div 2 then ResizeHashTable s h1 else Inr h1) = Inr ht'"
    by (auto simp: AddToHashTable_def b_def [symmetric] Let_def h1_def split: if_splits)
  have wf1: "ht_wf s h1" unfolding h1_def
    by (rule ht_wf_update [OF wf b(1)]) (use wf new p b in \<open>auto simp: ht_wf_def\<close>)
  have m1: "ht_members h1 = insert p (ht_members ht)"
    unfolding h1_def ht_members_update [OF b(2) ht_wf_distinct [OF wf]] using b(2) by (auto simp: ht_members_def)
  have "p \<notin> ht_members ht" using new ht_members_iff [OF wf] b(3) by simp
  moreover have "ht_wf s ht' \<and> ht_members ht' = ht_members h1"
    using r ResizeHashTable_wf [OF wf1] wf1 by (auto split: if_splits)
  ultimately show ?thesis using m1 by simp
qed

lemma AddToHashTable_total:
  assumes wf: "ht_wf s ht" and p: "sym_ok s p" "p \<notin> ht_members ht" and g: "\<forall>n. granted (mem s) n"
  shows "\<exists>ht'. AddToHashTable s ht p = Inr ht'"
proof -
  obtain sy where sy: "syms s p = Some sy" using p by (auto simp: sym_ok_def)
  define b where "b = unat (sym_hash sy AND bucketmask ht)"
  have b: "b < nbuckets ht" "b < length (buckets ht)" "home s (bucketmask ht) p = b"
    using ht_bucket_less [OF wf] wf sy by (auto simp: b_def home_def ht_wf_def)
  have new: "p \<notin> set (buckets ht ! b)" using p(2) ht_members_iff [OF wf] b(3) by simp
  have "ht_wf s (ht\<lparr>buckets := (buckets ht)[b := buckets ht ! b @ [p]], nused := nused ht + 1\<rparr>)"
    by (rule ht_wf_update [OF wf b(1)]) (use wf new p b in \<open>auto simp: ht_wf_def\<close>)
  from ResizeHashTable_wf [OF this] new g sy show ?thesis
    by (auto simp: AddToHashTable_def b_def [symmetric] Let_def)
qed

lemma RemoveFromHashTable_spec:
  assumes wf: "ht_wf s ht" and a: "RemoveFromHashTable s ht p = Inr ht'"
  shows "ht_wf s ht' \<and> ht_members ht' = ht_members ht - {p} \<and> p \<in> ht_members ht"
proof -
  obtain sy where sy: "syms s p = Some sy" using a by (auto simp: RemoveFromHashTable_def)
  define b where "b = unat (sym_hash sy AND bucketmask ht)"
  have b: "b < nbuckets ht" "b < length (buckets ht)" "home s (bucketmask ht) p = b"
    using ht_bucket_less [OF wf] wf sy by (auto simp: b_def home_def ht_wf_def)
  from a sy have old: "p \<in> set (buckets ht ! b)"
    and r: "ht' = ht\<lparr>buckets := (buckets ht)[b := remove1 p (buckets ht ! b)], nused := nused ht - 1\<rparr>"
    by (auto simp: RemoveFromHashTable_def b_def [symmetric] Let_def split: if_splits)
  have d: "distinct (buckets ht ! b)" using wf b(1) by (simp add: ht_wf_def)
  have "p \<in> set (concat (buckets ht))" unfolding in_concat using old b(2) by blast
  then have ne: "0 < nused ht" using wf by (cases "concat (buckets ht)") (auto simp: ht_wf_def simp del: set_concat)
  have "ht_wf s ht'" unfolding r
  proof (rule ht_wf_update [OF wf b(1)])
    show "\<forall>q \<in> set (remove1 p (buckets ht ! b)). sym_ok s q \<and> home s (bucketmask ht) q = b"
      using wf b(1) by (auto simp: ht_wf_def dest: set_mp [OF set_remove1_subset])
    show "nused ht - 1 + length (buckets ht ! b) = nused ht + length (remove1 p (buckets ht ! b))"
      using ne old length_pos_if_in_set [OF old] unfolding length_remove1 by (simp only: if_True)
  qed (use d in simp)
  moreover have "ht_members ht' = ht_members ht - {p}"
    unfolding r ht_members_update [OF b(2) ht_wf_distinct [OF wf]] using d old b(2) by (auto simp: ht_members_def)
  ultimately show ?thesis using old ht_members_iff [OF wf] b(3) by simp
qed

lemma find_in_chain_spec:
  "\<forall>p \<in> set chain. syms s p \<noteq> None \<Longrightarrow>
   find_in_chain s name fnumber chain =
     Inr (List.find (\<lambda>p. hash_visible (the (syms s p)) name fnumber) chain)"
  by (induction chain) (auto simp: get_sym_def)

definition ht_visible :: "cstate \<Rightarrow> string \<Rightarrow> int \<Rightarrow> nat \<Rightarrow> bool" where
  "ht_visible s name fnumber p \<longleftrightarrow> (\<exists>sy. syms s p = Some sy \<and> hash_visible sy name fnumber)"

text \<open>A visible symbol hashes to the bucket that is searched.\<close>

lemma visible_home:
  assumes "ht_wf s ht" "cstring name" "p \<in> ht_members ht" "ht_visible s name fnumber p"
  shows "p \<in> set (chain_of ht (NameHash name))"
proof -
  from assms(4) obtain sy where sy: "syms s p = Some sy" "strcmp (sym_name sy) name = 0"
    by (auto simp: ht_visible_def hash_visible_def)
  have "p \<in> set (buckets ht ! home s (bucketmask ht) p)" using assms(1,3) ht_members_iff by blast
  moreover have "\<forall>b < nbuckets ht. \<forall>p \<in> set (buckets ht ! b). sym_ok s p" using assms(1) by (simp add: ht_wf_def)
  ultimately have "sym_ok s p" using home_less [OF assms(1)] by blast
  then have "sym_hash sy = NameHash name" using sy assms(2) by (auto simp: sym_ok_def strcmp_eq_0)
  with \<open>p \<in> set (buckets ht ! home s (bucketmask ht) p)\<close> sy(1) show ?thesis by (simp add: chain_of_def home_def)
qed

lemma FindInHashTable_spec:
  assumes wf: "ht_wf s ht" and name: "cstring name"
  shows "\<exists>r. FindInHashTable s ht name fnumber = Inr r \<and>
    (\<forall>p. r = Some p \<longrightarrow> p \<in> ht_members ht \<and> ht_visible s name fnumber p) \<and>
    (r = None \<longrightarrow> (\<forall>p \<in> ht_members ht. \<not> ht_visible s name fnumber p))"
proof -
  let ?c = "chain_of ht (NameHash name)"
  have b: "unat (NameHash name AND bucketmask ht) < length (buckets ht)"
    using ht_bucket_less [OF wf] wf by (simp add: ht_wf_def)
  then have sub: "set ?c \<subseteq> ht_members ht" unfolding ht_members_def chain_of_def by (auto simp: in_concat simp del: set_concat)
  have ok: "\<forall>p \<in> set ?c. syms s p \<noteq> None" using wf b by (auto simp: chain_of_def ht_wf_def sym_ok_def)
  let ?r = "List.find (\<lambda>p. hash_visible (the (syms s p)) name fnumber) ?c"
  have f: "FindInHashTable s ht name fnumber = Inr ?r" by (simp add: FindInHashTable_def find_in_chain_spec [OF ok])
  have "p \<in> ht_members ht \<and> ht_visible s name fnumber p" if "?r = Some p" for p
  proof -
    from that have "p \<in> set ?c" "hash_visible (the (syms s p)) name fnumber" by (auto simp: find_Some_iff)
    then show ?thesis using sub ok by (auto simp: ht_visible_def)
  qed
  moreover have "\<not> ht_visible s name fnumber p" if "?r = None" "p \<in> ht_members ht" for p
  proof
    assume v: "ht_visible s name fnumber p"
    then have "hash_visible (the (syms s p)) name fnumber" by (auto simp: ht_visible_def)
    then show False using that(1) visible_home [OF wf name that(2) v] by (auto simp: find_None_iff)
  qed
  ultimately show ?thesis using f by blast
qed

text \<open>The C string at the start of a character array.\<close>

abbreviation c_str :: "string \<Rightarrow> string" where
  "c_str \<equiv> takeWhile (\<lambda>c. c \<noteq> NUL)"

lemma cstring_c_str: "cstring (c_str s)"
  unfolding cstring_def by (metis set_takeWhileD)

text \<open>The hash table over a store of symbols is an index.\<close>

interpretation hash_index: symbol_index
  "ht_wf s" ht_members "ht_visible s (c_str name) fnumber"
  "\<lambda>ht p. if sym_ok s p then AddToHashTable s ht p else Inl OutOfBounds" "RemoveFromHashTable s"
  "\<lambda>ht. FindInHashTable s ht (c_str name) fnumber"
  for s name fnumber
proof
  fix t t' p e
  assume wf: "ht_wf s t"
  show "ht_wf s t' \<and> ht_members t' = insert p (ht_members t)"
    if "(if sym_ok s p then AddToHashTable s t p else Inl OutOfBounds) = Inr t'"
    using that AddToHashTable_spec [OF wf] by (auto split: if_splits)
  show "ht_wf s t' \<and> ht_members t' = ht_members t - {p} \<and> p \<in> ht_members t"
    if "RemoveFromHashTable s t p = Inr t'" using RemoveFromHashTable_spec [OF wf that] .
  note f = FindInHashTable_spec [OF wf cstring_c_str, of name fnumber]
  show "p \<in> ht_members t \<and> ht_visible s (c_str name) fnumber p"
    if "FindInHashTable s t (c_str name) fnumber = Inr (Some p)" using f that by auto
  show "\<not> ht_visible s (c_str name) fnumber p"
    if "FindInHashTable s t (c_str name) fnumber = Inr None" "p \<in> ht_members t" using f that by auto
  show "FindInHashTable s t (c_str name) fnumber \<noteq> Inl e" using f by auto
qed

subsection \<open>The linked lists\<close>

definition list_wf :: "cstate \<Rightarrow> nat list \<Rightarrow> bool" where
  "list_wf s l \<longleftrightarrow> distinct l \<and> (\<forall>p \<in> set l. sym_ok s p)"

definition list_visible :: "cstate \<Rightarrow> string \<Rightarrow> int \<Rightarrow> bool \<Rightarrow> nat \<Rightarrow> bool" where
  "list_visible s name fnumber children p \<longleftrightarrow> (\<exists>sy. syms s p = Some sy \<and> sym_name sy = name \<and>
     (sym_parent sy = None \<or> children) \<and> (fnumber < 0 \<or> sym_fnumber sy < 0 \<or> sym_fnumber sy = fnumber))"

lemma find_symbol_from_spec:
  "\<forall>p \<in> set l. sym_ok s p \<Longrightarrow> cstring name \<Longrightarrow>
   find_symbol_from s name fnumber children l = Inr (List.find (list_visible s name fnumber children) l)"
proof (induction l)
  case (Cons p l)
  then obtain sy where sy: "syms s p = Some sy" "sym_hash sy = NameHash (sym_name sy)" "cstring (sym_name sy)"
    by (auto simp: sym_ok_def)
  then have "strcmp name (sym_name sy) = 0 \<longleftrightarrow> sym_name sy = name" using Cons.prems(2) strcmp_eq_0 by auto
  then show ?case using Cons sy by (auto simp: get_sym_Some list_visible_def)
qed simp

text \<open>Insertion of a node at any place and removal; the search is \<open>find_symbol\<close>'s.\<close>

definition list_insert :: "cstate \<Rightarrow> nat list \<Rightarrow> nat \<Rightarrow> fault + nat list" where
  "list_insert s l p =
     (if sym_ok s p \<and> p \<notin> set l then Inr (p # l) else Inl OutOfBounds)"

definition list_remove :: "nat list \<Rightarrow> nat \<Rightarrow> fault + nat list" where
  "list_remove l p = (if p \<in> set l then Inr (remove1 p l) else Inl AssertFail)"

interpretation list_index: symbol_index
  "list_wf s" set "list_visible s (c_str name) fnumber children" "list_insert s" list_remove
  "find_symbol_from s (c_str name) fnumber children"
  for s name fnumber children
proof
  fix t t' p e
  assume wf: "list_wf s t"
  show "list_wf s t' \<and> set t' = insert p (set t)" if "list_insert s t p = Inr t'"
    using that wf by (auto simp: list_insert_def list_wf_def split: if_splits)
  show "list_wf s t' \<and> set t' = set t - {p} \<and> p \<in> set t" if "list_remove t p = Inr t'"
    using that wf by (auto simp: list_remove_def list_wf_def split: if_splits)
  have f: "find_symbol_from s (c_str name) fnumber children t = Inr (List.find (list_visible s (c_str name) fnumber children) t)"
    by (rule find_symbol_from_spec) (use wf cstring_c_str in \<open>auto simp: list_wf_def\<close>)
  show "p \<in> set t \<and> list_visible s (c_str name) fnumber children p"
    if "find_symbol_from s (c_str name) fnumber children t = Inr (Some p)"
    using that f by (auto simp: find_Some_iff)
  show "\<not> list_visible s (c_str name) fnumber children p"
    if "find_symbol_from s (c_str name) fnumber children t = Inr None" "p \<in> set t"
    using that f by (auto simp: find_None_iff)
  show "find_symbol_from s (c_str name) fnumber children t \<noteq> Inl e" using f by simp
qed

subsection \<open>The global symbols\<close>

text \<open>
  The invariant of the global table: the list is sorted by name, duplicate-free, and holds
  the symbols of the hash table.
\<close>

definition name_of :: "cstate \<Rightarrow> nat \<Rightarrow> string" where
  "name_of s p = (case syms s p of None \<Rightarrow> [] | Some sy \<Rightarrow> sym_name sy)"

definition name_le :: "cstate \<Rightarrow> nat \<Rightarrow> nat \<Rightarrow> bool" where
  "name_le s p q \<longleftrightarrow> strcmp (name_of s p) (name_of s q) \<le> 0"

definition globals_wf :: "cstate \<Rightarrow> bool" where
  "globals_wf s \<longleftrightarrow> list_wf s (glbtab s) \<and> sorted_wrt (name_le s) (glbtab s) \<and>
     ht_wf s (sp_Globals s) \<and> ht_members (sp_Globals s) = set (glbtab s) \<and>
     (\<forall>p. syms s p \<noteq> None \<longrightarrow> p < next_sym s)"

lemma sort_prefix_spec:
  "\<forall>p \<in> set l. sym_ok s p \<Longrightarrow>
   \<exists>pre. sort_prefix s name l = Inr pre \<and> (\<exists>post. l = pre @ post \<and>
     (\<forall>p \<in> set pre. strcmp name (name_of s p) > 0) \<and>
     (post \<noteq> [] \<longrightarrow> strcmp name (name_of s (hd post)) \<le> 0))"
proof (induction l)
  case (Cons p l)
  then obtain sy where sy: "syms s p = Some sy" by (auto simp: sym_ok_def)
  show ?case
  proof (cases "strcmp name (sym_name sy) > 0")
    case True
    from Cons obtain pre post where "sort_prefix s name l = Inr pre" "l = pre @ post"
      "\<forall>p \<in> set pre. strcmp name (name_of s p) > 0" "post \<noteq> [] \<longrightarrow> strcmp name (name_of s (hd post)) \<le> 0" by auto
    with True sy show ?thesis
      by (intro exI [of _ "p # pre"]) (auto simp: get_sym_Some name_of_def)
  next
    case False
    with sy show ?thesis by (intro exI [of _ "[]"]) (auto simp: get_sym_Some name_of_def)
  qed
qed simp

lemma sorted_insert:
  assumes "sorted_wrt R (pre @ post)" "\<forall>p \<in> set pre. R p x" "\<forall>p \<in> set post. R x p"
  shows "sorted_wrt R (pre @ x # post)"
  using assms by (auto simp: sorted_wrt_append)

lemma strcmp_le_trans:
  "sym_ok s p \<Longrightarrow> sym_ok s q \<Longrightarrow> cstring name \<Longrightarrow> strcmp name (name_of s p) \<le> 0 \<Longrightarrow> name_le s p q \<Longrightarrow>
   strcmp name (name_of s q) \<le> 0"
  using strcmp_trans [of name "name_of s p" "name_of s q"] by (auto simp: name_le_def name_of_def sym_ok_def)

lemma name_of_upd_sym_ok: "p < next_sym s \<Longrightarrow> name_of (s\<lparr>syms := (syms s)(next_sym s \<mapsto> e)\<rparr>) p = name_of s p"
  by (simp add: name_of_def)

lemma same_syms:
  assumes "syms s' = syms s"
  shows "sym_ok s' = sym_ok s" "home s' = home s" "name_of s' = name_of s" "name_le s' = name_le s"
    "list_wf s' = list_wf s" "ht_wf s' = ht_wf s"
proof -
  show k: "sym_ok s' = sym_ok s" "home s' = home s" "name_of s' = name_of s"
    by (auto simp: fun_eq_iff sym_ok_def home_def name_of_def assms)
  then show "name_le s' = name_le s" "list_wf s' = list_wf s" "ht_wf s' = ht_wf s"
    by (simp_all add: fun_eq_iff name_le_def list_wf_def ht_wf_def)
qed

text \<open>A symbol added to the globals: found by the hash table, and the order is kept.\<close>

lemma add_symbol_global:
  assumes wf: "globals_wf s" and e: "sym_hash e = NameHash (sym_name e)" "cstring (sym_name e)"
    and a: "add_symbol True e True s = Inr (p, s')"
  shows "globals_wf s' \<and> set (glbtab s') = insert p (set (glbtab s)) \<and> syms s' = (syms s)(p \<mapsto> e) \<and> p \<notin> set (glbtab s) \<and>
     loctab s' = loctab s \<and> fcurrent s' = fcurrent s"
proof -
  let ?q = "next_sym s"
  define s1 where "s1 = s\<lparr>syms := (syms s)(?q \<mapsto> e), next_sym := ?q + 1\<rparr>"
  have lw: "list_wf s (glbtab s)" and so: "sorted_wrt (name_le s) (glbtab s)" and hw: "ht_wf s (sp_Globals s)"
    and hm: "ht_members (sp_Globals s) = set (glbtab s)" and nx: "\<forall>p. syms s p \<noteq> None \<longrightarrow> p < ?q"
    using wf by (auto simp: globals_wf_def)
  have okl: "\<forall>p \<in> set (glbtab s). sym_ok s p" using lw by (simp add: list_wf_def)
  from sort_prefix_spec [OF okl, of "sym_name e"] obtain pre post where
    pre: "sort_prefix s (sym_name e) (glbtab s) = Inr pre" "glbtab s = pre @ post"
      "\<forall>p \<in> set pre. strcmp (sym_name e) (name_of s p) > 0"
      "post \<noteq> [] \<longrightarrow> strcmp (sym_name e) (name_of s (hd post)) \<le> 0" by blast
  define s2 where "s2 = s1\<lparr>glbtab := pre @ ?q # post\<rparr>"
  from a pre(1,2) obtain ht where ht: "AddToHashTable s2 (sp_Globals s) ?q = Inr ht" "p = ?q" "s' = s2\<lparr>sp_Globals := ht\<rparr>"
    by (auto simp: add_symbol_def table_def set_table_def Let_def s2_def s1_def split: if_splits)
  have old: "syms s2 q = syms s q" "q < ?q" if "sym_ok s q" for q
    using that nx by (auto simp: s2_def s1_def sym_ok_def)
  have okq: "sym_ok s2 q" if "sym_ok s q" for q using old [OF that] that by (auto simp: sym_ok_def)
  have new: "sym_ok s2 ?q" using e by (auto simp: sym_ok_def s2_def s1_def)
  have notin: "?q \<notin> set (glbtab s)" using okl old by blast
  have home: "home s2 m q = home s m q" if "sym_ok s q" for m q using old [OF that] by (simp add: home_def)
  have hw2: "ht_wf s2 (sp_Globals s)" using hw okq home by (auto simp: ht_wf_def)
  from AddToHashTable_spec [OF hw2 new ht(1)] have h: "ht_wf s2 ht" "ht_members ht = insert ?q (set (glbtab s))" by (auto simp: hm)
  have s2t: "glbtab s2 = pre @ ?q # post" by (simp add: s2_def)
  have lw2: "list_wf s2 (glbtab s2)" using lw notin new okq by (auto simp: list_wf_def s2t pre(2))
  have nm: "name_of s2 q = name_of s q" if "q \<in> set (glbtab s)" for q using okl that old by (simp add: name_of_def)
  have nq: "name_of s2 ?q = sym_name e" by (simp add: name_of_def s2_def s1_def)
  have "sorted_wrt (name_le s2) (pre @ post)"
    using so nm unfolding pre(2) [symmetric] by (auto simp: name_le_def intro: sorted_wrt_mono_rel [rotated])
  moreover have "\<forall>q \<in> set pre. name_le s2 q ?q"
    using pre(2,3) nm by (auto simp: name_le_def nq) (metis less_imp_le neg_le_0_iff_le strcmp_antisym)
  moreover have "\<forall>q \<in> set post. name_le s2 ?q q"
  proof
    fix q assume q: "q \<in> set post"
    then have ne: "post \<noteq> []" and g: "q \<in> set (glbtab s)" "hd post \<in> set (glbtab s)" by (auto simp: pre(2) intro: hd_in_set)
    have "q = hd post \<or> name_le s (hd post) q" using so q unfolding pre(2) by (cases post) (auto simp: sorted_wrt_append)
    then have "strcmp (sym_name e) (name_of s q) \<le> 0"
      using pre(4) ne okl g e(2) strcmp_le_trans [of s "hd post" q "sym_name e"] by auto
    then show "name_le s2 ?q q" by (simp add: name_le_def nq nm [OF g(1)])
  qed
  ultimately have "sorted_wrt (name_le s2) (glbtab s2)" unfolding s2t by (intro sorted_insert) auto
  moreover have "\<forall>p. syms s2 p \<noteq> None \<longrightarrow> p < next_sym s2" using nx by (auto simp: s2_def s1_def split: if_splits)
  moreover have "syms s' = syms s2" "glbtab s' = glbtab s2" "sp_Globals s' = ht" "next_sym s' = next_sym s2"
    by (simp_all add: ht(3))
  ultimately have "globals_wf s'" using lw2 h s2t pre(2) by (simp add: globals_wf_def same_syms [of s' s2])
  then show ?thesis using notin by (simp add: ht(2,3) s2t pre(2)) (auto simp: s2_def s1_def)
qed


subsection \<open>Local symbols\<close>

lemma find_symbol_from_cong:
  "\<forall>p \<in> set l. syms s' p = syms s p \<Longrightarrow> find_symbol_from s' name fn ch l = find_symbol_from s name fn ch l"
  by (induction l) (auto simp: get_sym_def split: option.splits)

lemma addsym_local:
  assumes a: "addsym name addr ident sLOCAL tag usage s = Inr (p, s')"
  shows "p = next_sym s \<and> loctab s' = p # loctab s \<and> glbtab s' = glbtab s \<and> sp_Globals s' = sp_Globals s \<and>
    (\<exists>e. syms s' = (syms s)(p \<mapsto> e) \<and> sym_name e = name \<and> sym_hash e = NameHash name \<and> sym_parent e = None \<and>
       sym_fnumber e = - 1 \<and> sym_ident e = ident \<and> sym_addr e = addr)"
proof -
  have e: "addsym name addr ident sLOCAL tag usage s =
      bind_res (if ident = iLABEL then bind_res (findloc name s) (\<lambda>r. if r = None then Inr () else Inl AssertFail) else Inr ())
       (\<lambda>_. if \<not> granted (mem s) sizeof_ptr then Inl (Fatal 103) else if length name > sNAMEMAX then Inl OutOfBounds
         else add_symbol False \<lparr>sym_name = name, sym_hash = NameHash name, sym_addr = addr, sym_codeaddr = code_idx s,
                  sym_vclass = sLOCAL, sym_ident = ident, sym_usage = char_usage usage, sym_compound = 0,
                  sym_tag = tag, sym_parent = None, sym_length = 0, sym_level = 0, sym_idxtag = 0,
                  sym_states = None, sym_fnumber = - 1, sym_lnumber = fline s, sym_refer = [None]\<rparr> False s)"
    by (simp add: addsym_def Let_def)
  from a [unfolded e] show ?thesis
    by (auto simp: add_symbol_def table_def set_table_def Let_def split: if_splits)
qed

subsection \<open>Referrers\<close>

lemma takeWhile_Some_nth:
  "length (takeWhile (\<lambda>r. r \<noteq> None) refer) < length refer \<Longrightarrow> refer ! length (takeWhile (\<lambda>r. r \<noteq> None) refer) = None"
  using nth_length_takeWhile by blast

lemma add_referrer_spec:
  assumes "refer \<noteq> []" "\<forall>n. granted h n"
  shows "\<exists>refer'. add_referrer h bywhom refer = Inr refer' \<and> 
    (\<forall>q. Some q \<in> set refer' \<longleftrightarrow> Some q \<in> set refer \<or> q = bywhom)"
proof (cases "Some bywhom \<in> set refer")
  case True
  then show ?thesis using assms by (auto simp: add_referrer_def)
next
  case False
  let ?c = "length (takeWhile (\<lambda>r. r \<noteq> None) refer)"
  have upd: "Some q \<in> set (l[?c := Some bywhom]) \<longleftrightarrow> Some q \<in> set l \<or> q = bywhom"
    if "?c < length l" "l ! ?c = None" for q l
  proof
    assume "Some q \<in> set (l[?c := Some bywhom])"
    then show "Some q \<in> set l \<or> q = bywhom" using set_update_subset_insert by fastforce
  next
    assume r: "Some q \<in> set l \<or> q = bywhom"
    show "Some q \<in> set (l[?c := Some bywhom])"
    proof (cases "q = bywhom")
      case True
      then show ?thesis using that(1) by (simp add: set_update_memI)
    next
      case False
      with r obtain i where i: "i < length l" "l ! i = Some q" by (auto simp: in_set_conv_nth)
      then have "i \<noteq> ?c" using that(2) by auto
      with i show ?thesis by (metis length_list_update nth_list_update_neq nth_mem)
    qed
  qed
  show ?thesis
  proof (cases "?c < length refer")
    case True
    note u = upd [OF True takeWhile_Some_nth [OF True]]
    have "add_referrer h bywhom refer = Inr (refer[?c := Some bywhom])" using True False by (simp add: add_referrer_def Let_def)
    then show ?thesis using u by (intro exI conjI) auto
  next
    case False
    let ?l = "refer @ replicate (2 * length refer - length refer) None"
    have c: "?c = length refer" using False length_takeWhile_le [of "\<lambda>r. r \<noteq> None" refer] by simp
    have l: "?c < length ?l" "?l ! ?c = None" using assms(1) unfolding c by (auto simp: nth_append)
    note u = upd [OF l]
    have "add_referrer h bywhom refer = Inr (?l[?c := Some bywhom])"
      using False assms \<open>Some bywhom \<notin> set refer\<close> by (simp add: add_referrer_def Let_def)
    moreover have "Some q \<in> set (?l[?c := Some bywhom]) \<longleftrightarrow> Some q \<in> set refer \<or> q = bywhom" for q
      unfolding u by auto
    ultimately show ?thesis by (intro exI conjI) auto
  qed
qed

subsection \<open>The properties of the symbol tables\<close>

text \<open>A lookup in the hash table delivers a visible symbol of the table with the wanted name when there is one,
  and none otherwise; the bucket that is searched holds every symbol of that name.\<close>

theorem hash_lookup_correct:
  assumes "ht_wf s ht" "cstring name"
  shows "\<exists>r. FindInHashTable s ht name fnumber = Inr r \<and>
    (\<forall>p. r = Some p \<longrightarrow> p \<in> ht_members ht \<and> ht_visible s name fnumber p) \<and>
    (r = None \<longrightarrow> (\<forall>p \<in> ht_members ht. \<not> ht_visible s name fnumber p))"
  using assms by (rule FindInHashTable_spec)

definition counter_sym :: symbol where
  "counter_sym = \<lparr>sym_name = ''counter'', sym_hash = NameHash ''counter'', sym_addr = 8, sym_codeaddr = 0,
     sym_vclass = sGLOBAL, sym_ident = iVARIABLE, sym_usage = uDEFINE, sym_compound = 0, sym_tag = 0,
     sym_parent = None, sym_length = 0, sym_level = 0, sym_idxtag = 0, sym_states = None, sym_fnumber = - 1,
     sym_lnumber = 1, sym_refer = [None]\<rparr>"

definition table_state :: cstate where
  "table_state = (initial_state ample_heap)\<lparr>syms := [0 \<mapsto> counter_sym], next_sym := 1,
     sp_Globals := the (NewHashTable ample_heap)\<rparr>"

lemma new_table_ok: "ht_wf s (the (NewHashTable ample_heap))" "ht_members (the (NewHashTable ample_heap)) = {}"
  using new_table_wf [of ample_heap _ s] by (simp_all add: NewHashTable_def ample_heap_def)

lemma counter_ok: "sym_ok table_state 0"
  by (simp add: sym_ok_def table_state_def initial_state_def counter_sym_def NUL_def)

theorem hash_lookup_correct_witness:
  "\<exists>r. FindInHashTable table_state (the (NewHashTable ample_heap)) ''counter'' 0 = Inr r"
  using hash_lookup_correct [OF new_table_ok(1), of "''counter''" table_state, where fnumber = 0] by (auto simp: NUL_def)

text \<open>C17: Adding a symbol to the hash table keeps the table well-formed, also when the table grows and
  every entry moves, loses no symbol, and makes the new one the result of a lookup that found none before.\<close>

theorem hash_add_found:
  assumes "ht_wf s ht" "sym_ok s p" "AddToHashTable s ht p = Inr ht'" "cstring name"
    "ht_visible s name fnumber p" "FindInHashTable s ht name fnumber = Inr None"
  shows "ht_wf s ht' \<and> ht_members ht' = insert p (ht_members ht) \<and> FindInHashTable s ht' name fnumber = Inr (Some p)"
proof -
  have c: "c_str name = name" using assms(4) takeWhile_cstring [of name "[]"] by (simp add: cstring_def takeWhile_eq_all_conv) metis
  have a: "(if sym_ok s p then AddToHashTable s ht p else Inl OutOfBounds) = Inr ht'" using assms(2,3) by simp
  have "FindInHashTable s ht' (c_str name) fnumber = Inr (Some p)"
    using hash_index.look_added [where name = name and fnumber = fnumber, OF assms(1) a] assms(5,6) unfolding c by blast
  then show ?thesis using AddToHashTable_spec [OF assms(1-3)] c by simp
qed

lemma counter_none: "FindInHashTable table_state (the (NewHashTable ample_heap)) ''counter'' 0 = Inr None"
proof -
  have "chain_of (the (NewHashTable ample_heap)) (NameHash ''counter'') = []" by code_simp
  then show ?thesis by (simp add: FindInHashTable_def)
qed

theorem hash_add_found_witness:
  "\<exists>ht'. AddToHashTable table_state (the (NewHashTable ample_heap)) 0 = Inr ht' \<and> ht_wf table_state ht' \<and>
     FindInHashTable table_state ht' ''counter'' 0 = Inr (Some 0)"
proof -
  have "\<forall>n. granted (mem table_state) n" by (simp add: table_state_def initial_state_def ample_heap_def)
  with AddToHashTable_total [OF new_table_ok(1) counter_ok] new_table_ok(2)
  obtain ht' where a: "AddToHashTable table_state (the (NewHashTable ample_heap)) 0 = Inr ht'" by auto
  have v: "ht_visible table_state ''counter'' 0 0"
    by (simp add: ht_visible_def hash_visible_def table_state_def initial_state_def counter_sym_def)
  from hash_add_found [OF new_table_ok(1) counter_ok a _ v counter_none] a show ?thesis by (auto simp: NUL_def)
qed

text \<open>C18: A symbol added to the global table is put where the list stays sorted by name (the order in which public
  functions are written), the hash table receives it too, and both tables keep their invariant.\<close>

theorem add_global_sorted:
  assumes "globals_wf s" "sym_hash e = NameHash (sym_name e)" "cstring (sym_name e)" "add_symbol True e True s = Inr (p, s')"
  shows "globals_wf s' \<and> set (glbtab s') = insert p (set (glbtab s)) \<and> syms s' = (syms s)(p \<mapsto> e) \<and> p \<notin> set (glbtab s)"
  using add_symbol_global [OF assms] by blast

lemma start_globals_wf: "globals_wf ((initial_state ample_heap)\<lparr>sp_Globals := the (NewHashTable ample_heap)\<rparr>)"
proof -
  let ?s = "(initial_state ample_heap)\<lparr>sp_Globals := the (NewHashTable ample_heap)\<rparr>"
  show ?thesis using new_table_ok(1) [of ?s] new_table_ok(2) by (simp add: globals_wf_def list_wf_def) (simp add: initial_state_def)
qed

theorem add_global_sorted_witness:
  "\<exists>p s'. add_symbol True counter_sym True ((initial_state ample_heap)\<lparr>sp_Globals := the (NewHashTable ample_heap)\<rparr>) = Inr (p, s') \<and>
     globals_wf s' \<and> set (glbtab s') = {p}"
proof -
  let ?s = "(initial_state ample_heap)\<lparr>sp_Globals := the (NewHashTable ample_heap)\<rparr>"
  let ?t = "?s\<lparr>syms := [0 \<mapsto> counter_sym], next_sym := 1, glbtab := [0]\<rparr>"
  have t: "sym_ok ?t 0" "\<forall>n. granted (mem ?t) n"
    by (simp_all add: sym_ok_def counter_sym_def NUL_def initial_state_def ample_heap_def)
  from AddToHashTable_total [OF new_table_ok(1) t(1) _ t(2)] new_table_ok(2)
  obtain ht where "AddToHashTable ?t (the (NewHashTable ample_heap)) 0 = Inr ht" by auto
  then obtain p s' where a: "add_symbol True counter_sym True ?s = Inr (p, s')"
    by (auto simp: add_symbol_def table_def set_table_def initial_state_def ample_heap_def)
  have "sym_hash counter_sym = NameHash (sym_name counter_sym)" "cstring (sym_name counter_sym)"
    by (simp_all add: counter_sym_def NUL_def)
  from add_global_sorted [OF start_globals_wf this a] a show ?thesis by (auto simp: initial_state_def)
qed

text \<open>C22: A local symbol hides what was declared before under its name and leaves other lookups alone; deleting it at
  the end of its scope restores the local table and the store of symbols.\<close>

theorem local_scope:
  assumes "addsym name addr ident sLOCAL tag usage s = Inr (p, s')" "cstring name" "list_wf s (loctab s)"
    "\<forall>q. syms s q \<noteq> None \<longrightarrow> q < next_sym s"
  shows "findloc name s' = Inr (Some p) \<and>
    (\<forall>other. cstring other \<longrightarrow> other \<noteq> name \<longrightarrow> findloc other s' = findloc other s) \<and>
    (\<exists>s''. delete_symbol False p s' = Inr s'' \<and> loctab s'' = loctab s \<and> syms s'' = syms s)"
proof -
  from addsym_local [OF assms(1)] obtain e where p: "p = next_sym s" "loctab s' = p # loctab s"
    "syms s' = (syms s)(p \<mapsto> e)" "sym_name e = name" "sym_hash e = NameHash name" "sym_parent e = None" "sym_fnumber e = - 1"
    by blast
  have "syms s q \<noteq> None" if "q \<in> set (loctab s)" for q using assms(3) that by (auto simp: list_wf_def sym_ok_def)
  then have new: "syms s p = None" "p \<notin> set (loctab s)" using assms(4) p(1) by blast+
  have "findloc name s' = Inr (Some p)"
    by (simp add: findloc_def find_symbol_def table_def p(2) get_sym_Some p(3-7))
  moreover have "findloc other s' = findloc other s" if "cstring other" "other \<noteq> name" for other
  proof -
    have "strcmp other name \<noteq> 0" using that assms(2) by (simp add: strcmp_eq_0)
    moreover have "\<forall>q \<in> set (loctab s). syms s' q = syms s q" using new(2) by (auto simp: p(3))
    ultimately show ?thesis
      by (simp add: findloc_def find_symbol_def table_def p(2) get_sym_Some p(3,4) find_symbol_from_cong)
  qed
  moreover have "\<exists>s''. delete_symbol False p s' = Inr s'' \<and> loctab s'' = loctab s \<and> syms s'' = syms s"
    using new(1) by (auto simp: delete_symbol_def table_def set_table_def free_symbol_def p(2,3) fun_eq_iff)
  ultimately show ?thesis by blast
qed

theorem local_scope_witness:
  "\<exists>p s'. addsym ''i'' 0 iVARIABLE sLOCAL 0 uDEFINE (initial_state ample_heap) = Inr (p, s') \<and> findloc ''i'' s' = Inr (Some p)"
proof -
  obtain p s' where a: "addsym ''i'' 0 iVARIABLE sLOCAL 0 uDEFINE (initial_state ample_heap) = Inr (p, s')"
    by (auto simp: addsym_def add_symbol_def initial_state_def ample_heap_def sNAMEMAX_def Let_def)
  from local_scope [OF a] a show ?thesis by (auto simp: NUL_def list_wf_def initial_state_def)
qed

text \<open>C25: Noting that a function refers to a symbol adds it to the symbol's referrers, keeps the others, grows the list
  when it is full, and doing it again changes nothing.\<close>

theorem add_referrer_correct:
  assumes "refer \<noteq> []" "\<forall>n. granted h n"
  shows "\<exists>refer'. add_referrer h bywhom refer = Inr refer' \<and>
    (\<forall>q. Some q \<in> set refer' \<longleftrightarrow> Some q \<in> set refer \<or> q = bywhom) \<and> add_referrer h bywhom refer' = Inr refer'"
proof -
  from add_referrer_spec [OF assms, of bywhom] obtain refer' where r: "add_referrer h bywhom refer = Inr refer'"
    "\<forall>q. Some q \<in> set refer' \<longleftrightarrow> Some q \<in> set refer \<or> q = bywhom" by blast
  then have "Some bywhom \<in> set refer'" by blast
  then have "add_referrer h bywhom refer' = Inr refer'" by (simp add: add_referrer_def)
  with r show ?thesis by blast
qed

theorem add_referrer_correct_witness:
  "\<exists>refer'. add_referrer ample_heap 7 [Some 5] = Inr refer' \<and>
    (\<forall>q. Some q \<in> set refer' \<longleftrightarrow> Some q \<in> set [Some 5] \<or> q = 7) \<and> add_referrer ample_heap 7 refer' = Inr refer'"
  by (rule add_referrer_correct) (simp_all add: ample_heap_def)

end
