(* ===== verification/Operators.thy ===== *)
theory Operators
  imports States
begin

text \<open>
  The names under which user-defined operators are entered in the symbol table
  (\<open>operator_symname\<close>, \<open>parse_funcname\<close> of \<open>sc1.c\<close>) and how they are displayed
  (\<open>funcdisplayname\<close>). The name of an operator is the operator between the tag numbers of its
  operands; parsing a name gives back the operator and the tags.
\<close>

subsection \<open>Tags\<close>

definition PUBLICTAG :: cell where "PUBLICTAG = 0x80000000"
definition FIXEDTAG :: cell where "FIXEDTAG = 0x40000000"
definition TAGMASK :: cell where "TAGMASK = NOT PUBLICTAG"

definition tag2str :: "cell \<Rightarrow> string" where
  "tag2str tag =
     (let dest = CHR ''0'' # itoh (tag AND TAGMASK)
      in if isdigit (dest ! 1) then drop 1 dest else dest)"

subsection \<open>Operator names\<close>

definition operator_symname :: "string \<Rightarrow> cell \<Rightarrow> cell \<Rightarrow> nat \<Rightarrow> cell \<Rightarrow> fault + string" where
  "operator_symname opername tag1 tag2 numtags resulttag =
     (if \<not> (1 \<le> numtags \<and> numtags \<le> 2) then Inl AssertFail
      else let opertok = (if deref (tl opername) = NUL then deref opername else NUL)
           in Inr (if opertok = CHR ''='' then tag2str resulttag @ opername @ tag2str tag1
                   else if numtags = 1 \<or> opertok = CHR ''~'' then opername @ tag2str tag1
                   else tag2str tag1 @ opername @ tag2str tag2))"

text \<open>\<open>strtol(s, &end, 16)\<close> with a 32-bit \<open>long\<close>: the value and what follows.\<close>

definition hexvalue :: "string \<Rightarrow> int" where
  "hexvalue ds = foldl (\<lambda>a c. 16 * a + int (case hexdigit c of Some d \<Rightarrow> d | None \<Rightarrow> 0)) 0 ds"

definition strtol16 :: "string \<Rightarrow> int \<times> string" where
  "strtol16 s =
     (let t = dropWhile isspace s;
          negate = (deref t = CHR ''-'');
          t = (if negate \<or> deref t = CHR ''+'' then tl t else t);
          t = (if deref t = CHR ''0'' \<and> (deref (tl t) = CHR ''x'' \<or> deref (tl t) = CHR ''X'')
                  \<and> hexdigit (deref (tl (tl t))) \<noteq> None then drop 2 t else t);
          ds = takeWhile (\<lambda>c. hexdigit c \<noteq> None) t;
          v = (if negate then - hexvalue ds else hexvalue ds)
      in if ds = [] then (0, s)
         else (if v > 2147483647 then 2147483647 else if v < - 2147483648 then - 2147483648 else v, drop (length ds) t))"

text \<open>The buffer for the operator has ten bytes; a name without a digit is read past its end.\<close>

definition parse_funcname :: "string \<Rightarrow> fault + (bool \<times> cell \<times> cell \<times> string)" where
  "parse_funcname fname =
     (let (tag1, ptr) = (if deref fname = CHR ''-'' then (0, fname) else strtol16 fname);
          unary = (deref fname = CHR ''-'' \<or> ptr = fname);
          opname = takeWhile (\<lambda>c. \<not> isdigit c) ptr;
          rest = drop (length opname) ptr
      in if \<not> (\<not> unary \<or> tag1 = 0) \<or> ptr = [] then Inl AssertFail
         else if rest = [] \<or> length opname \<ge> 10 then Inl OutOfBounds
         else Inr (unary, of_int tag1, of_int (fst (strtol16 rest)), opname))"

definition find_tag_byval :: "cell \<Rightarrow> cstate \<Rightarrow> constvalue option" where
  "find_tag_byval tag s =
     (case find_constval_byval (tagname_tab s) (tag AND NOT PUBLICTAG) of
        None \<Rightarrow> find_constval_byval (tagname_tab s) (tag OR PUBLICTAG)
      | Some tagsym \<Rightarrow> Some tagsym)"

definition funcdisplayname :: "string \<Rightarrow> cstate \<Rightarrow> fault + string" where
  "funcdisplayname funcname s =
     (let c = deref funcname
      in if isalpha c \<or> c = CHR ''_'' \<or> c = CHR ''@'' \<or> c = NUL then Inr funcname
         else bind_res (parse_funcname funcname) (\<lambda>(unary, tag1, tag2, opname).
           case find_tag_byval tag2 s of
             None \<Rightarrow> Inl AssertFail
           | Some tagsym1 \<Rightarrow>
               if unary then Inr (''operator'' @ opname @ ''('' @ cv_name tagsym1 @ '':)'')
               else case find_tag_byval tag1 s of
                 None \<Rightarrow> Inl AssertFail
               | Some tagsym0 \<Rightarrow>
                   if opname = ''=''
                   then Inr (cv_name tagsym0 @ '':operator'' @ opname @ ''('' @ cv_name tagsym1 @ '':)'')
                   else Inr (''operator'' @ opname @ ''('' @ cv_name tagsym0 @ '':,'' @ cv_name tagsym1 @ '':)'')))"

subsection \<open>The table of tag names\<close>

text \<open>\<open>pc_addtag(name)\<close> for a given name; the numbers are compared as signed integers.\<close>

fun addtag_scan :: "constvalue list \<Rightarrow> string \<Rightarrow> cell \<Rightarrow> cell option \<times> cell" where
  "addtag_scan [] name high = (None, high)"
| "addtag_scan (ptr # tab) name high =
     (let tag = cv_value ptr AND TAGMASK
      in if strcmp name (cv_name ptr) = 0 then (Some tag, high)
         else let tag = tag AND NOT FIXEDTAG
              in addtag_scan tab name (if sint tag > sint high then tag else high))"

definition pc_addtag :: "string \<Rightarrow> cstate \<Rightarrow> fault + cell \<times> cstate" where
  "pc_addtag name s =
     (if CHR '':'' \<in> set name then Inl AssertFail
      else case addtag_scan (tagname_tab s) name 0 of
             (Some tag, _) \<Rightarrow> Inr (tag, s)
           | (None, high) \<Rightarrow>
               let tag = high + 1;
                   tag = (if isupper (deref name) then tag OR FIXEDTAG else tag)
               in bind_res (append_constval (mem s) (tagname_tab s) (Some name) tag 0)
                    (\<lambda>tab. Inr (tag, s\<lparr>tagname_tab := tab\<rparr>)))"

subsection \<open>Operators and their tags\<close>

text \<open>The operators that can be redefined, as \<open>operatorname\<close> writes them.\<close>

definition operator_names :: "string list" where
  "operator_names = [''+'', ''-'', ''*'', ''/'', ''%'', ''>'', ''<'', ''!'', ''~'', ''='',
     ''++'', ''--'', ''=='', ''!='', ''<='', ''>='']"

text \<open>The unary operators among them, written in front of the tag of their operand.\<close>

definition unary_form :: "string \<Rightarrow> nat \<Rightarrow> bool" where
  "unary_form opername numtags \<longleftrightarrow> opername \<noteq> ''='' \<and> (numtags = 1 \<or> opername = ''~'')"

lemma hexdigit_isdigit: "isdigit c \<Longrightarrow> hexdigit c \<noteq> None"
  by (simp add: hexdigit_def)

lemma hexvalue_printed:
  "list_all (\<lambda>d. d < 16) ds \<Longrightarrow> hexvalue (map hexchar ds) = foldl (\<lambda>a d. 16 * a + int d) 0 ds"
  unfolding hexvalue_def by (induction ds rule: rev_induct) (auto simp: hexdigit_hexchar)

lemma uint_drop_nibble: "uint (drop_bit 4 v) = uint (v :: cell) div 16"
proof -
  have "unat (drop_bit 4 v) = unat v div 16" by (subst unat_drop_bit_eq) (simp add: drop_bit_eq_div)
  then have "int (unat (drop_bit 4 v)) = int (unat v) div 16" by (simp only: zdiv_int of_nat_numeral)
  then show ?thesis unfolding uint_nat .
qed

lemma uint_nibble: "uint v = 16 * uint (drop_bit 4 v) + int (unat (v AND 0x0f :: cell))"
proof -
  have "v AND 0x0f = take_bit 4 v" using take_bit_eq_mask [of 4 v] by (simp add: mask_eq_exp_minus_1)
  moreover have "unat (take_bit 4 v) = unat v mod 16" by (subst unsigned_take_bit_eq) (simp add: take_bit_eq_mod)
  then have "int (unat (take_bit 4 v)) = int (unat v) mod 16" by (simp only: zmod_int of_nat_numeral)
  ultimately have "int (unat (v AND 0x0f)) = uint v mod 16" unfolding uint_nat by simp
  then show ?thesis by (simp add: uint_drop_nibble)
qed

lemma nibbles_value: "uint v < 16 ^ n \<Longrightarrow> foldl (\<lambda>a d. 16 * a + int d) 0 (rev (nibbles n v)) = uint v"
proof (induction n arbitrary: v)
  case (Suc n)
  have "uint (drop_bit 4 v) < 16 ^ n" using Suc.prems by (simp add: uint_drop_nibble)
  from Suc.IH [OF this] uint_nibble [of v] show ?case by simp
next
  case 0
  then have "uint v < 1" by simp
  then have "uint v = 0" using uint_ge_0 [of v] by linarith
  then show ?case by simp
qed

lemma foldl_zeros: "foldl (\<lambda>a d. 16 * a + int d) 0 (replicate k 0 @ ds) = foldl (\<lambda>a d. 16 * a + int d) 0 ds"
  by (induction k) auto

lemma hexvalue_itoh: "hexvalue (itoh v) = uint v"
proof -
  let ?ns = "nibbles 8 v"
  let ?h = "Suc (highest ?ns 7)"
  have "drop ?h ?ns = replicate (length ?ns - ?h) 0"
    using above_highest [of ?ns 7] by (intro nth_equalityI) auto
  then have r: "rev ?ns = replicate (length ?ns - ?h) 0 @ rev (take ?h ?ns)"
    by (metis append_take_drop_id rev_append rev_replicate)
  have "uint v < 16 ^ 8" using uint_bounded [of v] by simp
  then have "foldl (\<lambda>a d. 16 * a + int d) 0 (rev (take ?h ?ns)) = uint v"
    using nibbles_value [of v 8] foldl_zeros unfolding r by metis
  moreover have "list_all (\<lambda>d. d < 16) (rev (take ?h ?ns))"
    by (auto simp: list_all_iff dest!: in_set_takeD nibbles_less)
  ultimately show ?thesis by (simp add: itoh_def Let_def hexvalue_printed)
qed

lemma hexvalue_zero: "hexvalue (CHR ''0'' # ds) = hexvalue ds"
  by (simp add: hexvalue_def hexdigit_def isdigit_def)

lemma itoh_hexdigits: "c \<in> set (itoh v) \<Longrightarrow> hexdigit c \<noteq> None"
  using itoh_chars [of c v] by (auto simp: hexdigit_def)

lemma tag2str_cases: obtains "tag2str tag = itoh (tag AND TAGMASK)" "isdigit (deref (tag2str tag))"
  | "tag2str tag = CHR ''0'' # itoh (tag AND TAGMASK)"
proof -
  have "itoh (tag AND TAGMASK) ! 0 = deref (itoh (tag AND TAGMASK))"
    using itoh_nonempty [of "tag AND TAGMASK"] by (cases "itoh (tag AND TAGMASK)") (simp_all del: itoh_nonempty)
  then show ?thesis using that by (cases "isdigit (deref (itoh (tag AND TAGMASK)))") (simp_all add: tag2str_def)
qed

lemma hexdigit_zero: "hexdigit CHR ''0'' = Some 0"
  by (simp add: hexdigit_def isdigit_def)

lemma tag2str_digits: "list_all (\<lambda>c. hexdigit c \<noteq> None) (tag2str tag)"
  by (rule tag2str_cases [of tag]) (auto simp: list_all_iff hexdigit_zero dest: itoh_hexdigits)

lemma tag2str_first: "isdigit (deref (tag2str tag))"
  by (rule tag2str_cases [of tag]) (auto simp: isdigit_def)

lemma tag2str_nonempty [simp]: "tag2str tag \<noteq> []"
  using tag2str_first [of tag] by (auto simp: isdigit_def NUL_def)

lemma hexvalue_tag2str: "hexvalue (tag2str tag) = uint (tag AND TAGMASK)"
  by (rule tag2str_cases [of tag]) (simp_all add: hexvalue_itoh hexvalue_zero)

lemma length_tag2str: "length (tag2str tag) \<le> 9"
  using length_itoh [of "tag AND TAGMASK"] by (auto simp: tag2str_def Let_def)

lemma TAGMASK_take_bit: "tag AND TAGMASK = take_bit 31 tag"
proof -
  have "TAGMASK = mask 31" by (simp add: TAGMASK_def PUBLICTAG_def mask_eq_exp_minus_1 word_eq_iff_unsigned)
  then show ?thesis by (simp add: take_bit_eq_mask)
qed

lemma bit_PUBLICTAG: "bit PUBLICTAG n \<longleftrightarrow> n = 31"
proof -
  have e: "PUBLICTAG = push_bit 31 1" by (simp add: PUBLICTAG_def word_eq_iff_unsigned)
  show ?thesis unfolding e bit_push_bit_iff by (auto simp: bit_simps)
qed

lemma bit_FIXEDTAG: "bit FIXEDTAG n \<longleftrightarrow> n = 30"
proof -
  have e: "FIXEDTAG = push_bit 30 1" by (simp add: FIXEDTAG_def word_eq_iff_unsigned)
  show ?thesis unfolding e bit_push_bit_iff by (auto simp: bit_simps)
qed

lemma uint_TAGMASK: "uint (tag AND TAGMASK) < 2147483648"
  using take_bit_int_less_exp [of 31 "uint tag"] by (simp add: TAGMASK_take_bit unsigned_take_bit_eq)

lemma strtol16_tag:
  assumes "hexdigit (deref rest) = None" "deref rest \<noteq> CHR ''x''" "deref rest \<noteq> CHR ''X''"
  shows "strtol16 (tag2str tag @ rest) = (uint (tag AND TAGMASK), rest)"
proof -
  obtain c t where ct: "tag2str tag = c # t" by (cases "tag2str tag") simp_all
  then have c: "isdigit c" "\<not> isspace c" "c \<noteq> CHR ''-''" "c \<noteq> CHR ''+''" and t: "list_all (\<lambda>c. hexdigit c \<noteq> None) t"
    using tag2str_first [of tag] tag2str_digits [of tag] by (auto simp: isdigit_def isspace_def)
  have x: "deref (t @ rest) \<noteq> CHR ''x''" "deref (t @ rest) \<noteq> CHR ''X''"
    using assms t by (cases t; auto simp: hexdigit_def isdigit_def)+
  have "takeWhile (\<lambda>c. hexdigit c \<noteq> None) (tag2str tag @ rest) = tag2str tag"
    using assms(1) tag2str_digits [of tag] by (cases rest) (auto simp: list_all_iff takeWhile_append2)
  moreover have "\<not> uint (tag AND TAGMASK) < - 2147483648" using uint_ge_0 [of "tag AND TAGMASK"] by linarith
  ultimately show ?thesis
    using c x uint_TAGMASK [of tag] hexvalue_tag2str [of tag]
    unfolding strtol16_def ct by (simp add: Let_def ct)
qed

lemma strtol16_none:
  assumes "deref s \<in> {CHR ''!'', CHR ''~'', CHR ''*'', CHR ''/'', CHR ''%'', CHR ''<'', CHR ''>'', CHR ''=''}"
  shows "strtol16 s = (0, s)"
proof (cases s)
  case (Cons c t)
  have "hexdigit c = None" "c \<noteq> CHR ''-''" "c \<noteq> CHR ''+''" "c \<noteq> CHR ''0''"
    using assms unfolding Cons by (auto simp: hexdigit_def isdigit_def)
  moreover have "\<not> isspace c" using assms unfolding Cons by (auto simp: isspace_def)
  ultimately show ?thesis unfolding Cons strtol16_def by (simp add: Let_def)
qed (use assms in \<open>simp add: NUL_def\<close>)

text \<open>Operator names have no digits, and start with none of the characters a number can hold.\<close>

lemma operator_chars:
  assumes "opername \<in> set operator_names"
  shows "list_all (\<lambda>c. \<not> isdigit c \<and> c \<noteq> NUL) opername" "opername \<noteq> []" "length opername \<le> 2"
    "hexdigit (deref opername) = None" "deref opername \<noteq> CHR ''x''" "deref opername \<noteq> CHR ''X''"
  using assms by (auto simp: operator_names_def isdigit_def hexdigit_def NUL_def)

lemma parse_rest:
  assumes "opername \<in> set operator_names"
  shows "takeWhile (\<lambda>c. \<not> isdigit c) (opername @ tag2str tag) = opername" "strtol16 (tag2str tag) = (uint (tag AND TAGMASK), [])"
proof -
  obtain c t where ct: "tag2str tag = c # t" by (cases "tag2str tag") simp_all
  then have "isdigit c" using tag2str_first [of tag] by simp
  then show "takeWhile (\<lambda>c. \<not> isdigit c) (opername @ tag2str tag) = opername"
    using operator_chars(1) [OF assms] by (simp add: ct list_all_iff takeWhile_append2)
  show "strtol16 (tag2str tag) = (uint (tag AND TAGMASK), [])"
    using strtol16_tag [of "[]" tag] by (simp add: NUL_def hexdigit_def isdigit_def)
qed

lemma parse_unary:
  assumes "opername \<in> set operator_names" "opername \<noteq> ''+''" "opername \<noteq> ''=''" 
  shows "parse_funcname (opername @ tag2str tag) = Inr (True, 0, tag AND TAGMASK, opername)"
proof -
  let ?f = "opername @ tag2str tag"
  have "deref ?f = CHR ''-'' \<or> strtol16 ?f = (0, ?f)"
  proof (cases "opername = ''++''")
    case True
    then show ?thesis by (simp add: strtol16_def Let_def isspace_def hexdigit_def isdigit_def)
  next
    case False
    then have "deref ?f = CHR ''-'' \<or> deref ?f \<in> {CHR ''!'', CHR ''~'', CHR ''*'', CHR ''/'', CHR ''%'', CHR ''<'', CHR ''>'', CHR ''=''}"
      using assms by (auto simp: operator_names_def)
    then show ?thesis using strtol16_none by blast
  qed
  then show ?thesis using operator_chars(2,3) [OF assms(1)] parse_rest [OF assms(1), of tag]
    by (auto simp: parse_funcname_def Let_def)
qed

lemma parse_binary:
  assumes "opername \<in> set operator_names"
  shows "parse_funcname (tag2str t1 @ opername @ tag2str t2) = Inr (False, t1 AND TAGMASK, t2 AND TAGMASK, opername)"
proof -
  let ?r = "opername @ tag2str t2"
  have "strtol16 (tag2str t1 @ ?r) = (uint (t1 AND TAGMASK), ?r)"
    using operator_chars [OF assms] by (intro strtol16_tag) simp_all
  moreover have "deref (tag2str t1 @ ?r) \<noteq> CHR ''-''" using tag2str_first [of t1] by (auto simp: isdigit_def)
  ultimately show ?thesis using operator_chars(2,3) [OF assms] parse_rest [OF assms, of t2]
    by (auto simp: parse_funcname_def Let_def)
qed

lemma operator_symname_form:
  assumes "opername \<in> set operator_names" "numtags = 1 \<or> numtags = 2"
  shows "operator_symname opername t1 t2 numtags r = Inr
    (if unary_form opername numtags then opername @ tag2str t1
     else if opername = ''='' then tag2str r @ opername @ tag2str t1 else tag2str t1 @ opername @ tag2str t2)"
proof -
  define tok where "tok = (if deref (tl opername) = NUL then deref opername else NUL)"
  have tok: "tok = CHR ''='' \<longleftrightarrow> opername = ''=''" "tok = CHR ''~'' \<longleftrightarrow> opername = ''~''"
    using assms(1) by (auto simp: operator_names_def tok_def NUL_def)
  have "operator_symname opername t1 t2 numtags r = Inr
    (if tok = CHR ''='' then tag2str r @ opername @ tag2str t1
     else if numtags = 1 \<or> tok = CHR ''~'' then opername @ tag2str t1
     else tag2str t1 @ opername @ tag2str t2)"
    using assms(2) by (auto simp: operator_symname_def Let_def tok_def)
  then show ?thesis unfolding tok by (auto simp: unary_form_def)
qed

text \<open>C26: The name under which an operator is entered in the symbol table, for every operator that can be
  defined and one or two operands, except the unary plus, is parsed back into the operator and the
  tags of its operands (for an assignment: the tags of the result and of the operand), and it
  fits the name field of a symbol.\<close>

theorem operator_name_roundtrip:
  assumes "opername \<in> set operator_names" "numtags = 1 \<or> numtags = 2" "unary_form opername numtags \<longrightarrow> opername \<noteq> ''+''"
  shows "\<exists>name. operator_symname opername t1 t2 numtags r = Inr name \<and> length name \<le> sNAMEMAX \<and>
    parse_funcname name = Inr
      (if unary_form opername numtags then (True, 0, t1 AND TAGMASK, opername)
       else if opername = ''='' then (False, r AND TAGMASK, t1 AND TAGMASK, opername)
       else (False, t1 AND TAGMASK, t2 AND TAGMASK, opername))"
proof -
  let ?name = "if unary_form opername numtags then opername @ tag2str t1
     else if opername = ''='' then tag2str r @ opername @ tag2str t1 else tag2str t1 @ opername @ tag2str t2"
  have "length ?name \<le> sNAMEMAX"
    using operator_chars(3) [OF assms(1)] length_tag2str [of t1] length_tag2str [of t2] length_tag2str [of r]
    by (simp add: sNAMEMAX_def)
  moreover have "unary_form opername numtags \<Longrightarrow> parse_funcname (opername @ tag2str t1) = Inr (True, 0, t1 AND TAGMASK, opername)"
    using assms by (intro parse_unary) (auto simp: unary_form_def)
  moreover have "\<not> unary_form opername numtags \<Longrightarrow> opername = ''='' \<Longrightarrow>
      parse_funcname (tag2str r @ opername @ tag2str t1) = Inr (False, r AND TAGMASK, t1 AND TAGMASK, opername)"
    using parse_binary [OF assms(1)] by blast
  ultimately show ?thesis
    using operator_symname_form [OF assms(1,2), of t1 t2 r] parse_binary [OF assms(1), of t1 t2]
    by (intro exI [of _ ?name] conjI) (cases "unary_form opername numtags"; cases "opername = ''=''"; simp)+
qed

theorem operator_name_roundtrip_witness:
  "\<exists>name. operator_symname ''=='' 0x40000002 3 2 1 = Inr name \<and> length name \<le> sNAMEMAX \<and>
    parse_funcname name = Inr (False, 0x40000002 AND TAGMASK, 3 AND TAGMASK, ''=='')"
  using operator_name_roundtrip [of "''==''" 2 "0x40000002" 3 1] by (simp add: operator_names_def unary_form_def)

text \<open>C29: The name of a unary plus, which is entered although an error was reported for it, cannot be parsed: the
  sign and the tag are read as one number and nothing is left for the operator.\<close>

theorem unary_plus_unparsable:
  "operator_symname ''+'' tag t2 1 r = Inr (CHR ''+'' # tag2str tag) \<and> parse_funcname (CHR ''+'' # tag2str tag) = Inl AssertFail"
proof -
  obtain c t where ct: "tag2str tag = c # t" by (cases "tag2str tag") simp_all
  have c: "hexdigit c \<noteq> None" "\<forall>d \<in> set t. hexdigit d \<noteq> None" using tag2str_digits [of tag] by (simp_all add: ct list_all_iff)
  have x: "deref t \<noteq> CHR ''x''" "deref t \<noteq> CHR ''X''"
    using c(2) by (cases t; auto simp: hexdigit_def isdigit_def NUL_def)+
  have tw: "length (takeWhile (\<lambda>c. \<exists>y. hexdigit c = Some y) t) = length t" using c(2) by (induction t) auto
  have "\<not> isspace CHR ''+''" by (simp add: isspace_def)
  then have "snd (strtol16 (CHR ''+'' # tag2str tag)) = []"
    using c(1) x tw unfolding ct strtol16_def by (simp add: Let_def)
  then obtain a where "strtol16 (CHR ''+'' # tag2str tag) = (a, [])" by (cases "strtol16 (CHR ''+'' # tag2str tag)") simp
  then show ?thesis by (simp add: parse_funcname_def Let_def operator_symname_def NUL_def)
qed

subsection \<open>Display names\<close>

lemma find_constval_byval_Some: "find_constval_byval tab v = Some p \<Longrightarrow> p \<in> set tab \<and> cv_value p = v"
  by (induction tab) (auto split: if_splits)

lemma find_constval_byval_None: "find_constval_byval tab v = None \<longleftrightarrow> (\<forall>p \<in> set tab. cv_value p \<noteq> v)"
  by (induction tab) auto

lemma find_tag_Some: "find_tag_byval tag s = Some p \<Longrightarrow> p \<in> set (tagname_tab s)"
  by (auto simp: find_tag_byval_def dest: find_constval_byval_Some split: option.splits)

lemma operator_not_plain:
  assumes "opername \<in> set operator_names" "n = opername @ x \<or> n = tag2str t @ x"
  shows "\<not> (isalpha (deref n) \<or> deref n = CHR ''_'' \<or> deref n = CHR ''@'' \<or> deref n = NUL)"
proof -
  have "isdigit (deref n) \<or> deref n \<in> set (concat operator_names)"
  proof -
    have "deref opername \<in> set opername" using operator_chars(2) [OF assms(1)] by (cases opername) auto
    then show ?thesis using assms tag2str_first [of t] operator_chars(2) [OF assms(1)] by auto
  qed
  then show ?thesis
  proof
    assume "isdigit (deref n)"
    then show ?thesis by (auto simp: isdigit_def isalpha_def isupper_def islower_def NUL_def)
  next
    assume "deref n \<in> set (concat operator_names)"
    then show ?thesis by (auto simp: operator_names_def isalpha_def isupper_def islower_def NUL_def)
  qed
qed

definition operator_text :: "string \<Rightarrow> nat \<Rightarrow> constvalue \<Rightarrow> constvalue \<Rightarrow> constvalue \<Rightarrow> string" where
  "operator_text opername numtags p q u =
     (if unary_form opername numtags then ''operator'' @ opername @ ''('' @ cv_name p @ '':)''
      else if opername = ''='' then cv_name u @ '':operator=('' @ cv_name p @ '':)''
      else ''operator'' @ opername @ ''('' @ cv_name p @ '':,'' @ cv_name q @ '':)'')"

text \<open>C28: Let the tags of the operands and of the result be known, and no tag name be longer than a
  symbol. The name under which an operator is entered, any but the unary plus (whose name cannot
  be parsed), is displayed with the names of the operands' tags in their order, an assignment with
  the tag of its result in front, and the text fits the buffers of the callers. A function name, which starts
  with a letter, \<open>_\<close> or \<open>@\<close>, and the empty name are displayed as they are.\<close>

theorem operator_display:
  assumes "opername \<in> set operator_names" "numtags = 1 \<or> numtags = 2" "unary_form opername numtags \<longrightarrow> opername \<noteq> ''+''"
    and "find_tag_byval (t1 AND TAGMASK) s = Some p" "find_tag_byval (t2 AND TAGMASK) s = Some q" "find_tag_byval (r AND TAGMASK) s = Some u"
    and "list_all (\<lambda>p. length (cv_name p) \<le> sNAMEMAX) (tagname_tab s)"
  shows "(\<exists>name. operator_symname opername t1 t2 numtags r = Inr name \<and>
      funcdisplayname name s = Inr (operator_text opername numtags p q u)) \<and>
    length (operator_text opername numtags p q u) < 2 * sNAMEMAX + 16 \<and>
    (isalpha (deref fname) \<or> deref fname = CHR ''_'' \<or> deref fname = CHR ''@'' \<or> fname = [] \<longrightarrow> funcdisplayname fname s = Inr fname)"
proof -
  let ?name = "if unary_form opername numtags then opername @ tag2str t1
     else if opername = ''='' then tag2str r @ opername @ tag2str t1 else tag2str t1 @ opername @ tag2str t2"
  have n: "operator_symname opername t1 t2 numtags r = Inr ?name" by (rule operator_symname_form [OF assms(1,2)])
  have "\<not> (isalpha (deref ?name) \<or> deref ?name = CHR ''_'' \<or> deref ?name = CHR ''@'' \<or> deref ?name = NUL)"
  proof -
    have "\<exists>x t. ?name = opername @ x \<or> ?name = tag2str t @ x" by auto
    then show ?thesis using operator_not_plain [OF assms(1)] by blast
  qed
  then have d: "funcdisplayname ?name s = bind_res (parse_funcname ?name) (\<lambda>(unary, tag1, tag2, opname).
      case find_tag_byval tag2 s of
        None \<Rightarrow> Inl AssertFail
      | Some tagsym1 \<Rightarrow>
          if unary then Inr (''operator'' @ opname @ ''('' @ cv_name tagsym1 @ '':)'')
          else case find_tag_byval tag1 s of
            None \<Rightarrow> Inl AssertFail
          | Some tagsym0 \<Rightarrow>
              if opname = ''='' then Inr (cv_name tagsym0 @ '':operator'' @ opname @ ''('' @ cv_name tagsym1 @ '':)'')
              else Inr (''operator'' @ opname @ ''('' @ cv_name tagsym0 @ '':,'' @ cv_name tagsym1 @ '':)''))"
    unfolding funcdisplayname_def Let_def by (simp only: if_False)
  have "parse_funcname (opername @ tag2str t1) = Inr (True, 0, t1 AND TAGMASK, opername)" if "unary_form opername numtags"
    using that assms(1,3) by (intro parse_unary) (auto simp: unary_form_def)
  then have "funcdisplayname ?name s = Inr (operator_text opername numtags p q u)"
    unfolding d using parse_binary [OF assms(1)] assms(4-6) by (auto simp: operator_text_def unary_form_def)
  moreover have "length (cv_name p) \<le> sNAMEMAX" "length (cv_name q) \<le> sNAMEMAX" "length (cv_name u) \<le> sNAMEMAX"
    using assms(7) assms(4-6) [THEN find_tag_Some] by (auto simp: list_all_iff)
  then have "length (operator_text opername numtags p q u) < 2 * sNAMEMAX + 16"
    using operator_chars(3) [OF assms(1)] by (simp add: operator_text_def sNAMEMAX_def)
  moreover have "isalpha (deref fname) \<or> deref fname = CHR ''_'' \<or> deref fname = CHR ''@'' \<or> fname = [] \<longrightarrow>
      funcdisplayname fname s = Inr fname"
    by (auto simp: funcdisplayname_def Let_def)
  ultimately show ?thesis using n by blast
qed

definition tag_state :: cstate where
  "tag_state = (initial_state ample_heap)\<lparr>tagname_tab :=
     [\<lparr>cv_name = ''_'', cv_value = 0, cv_index = 0\<rparr>, \<lparr>cv_name = ''bool'', cv_value = 1, cv_index = 0\<rparr>,
      \<lparr>cv_name = ''Float'', cv_value = 0x40000002, cv_index = 0\<rparr>]\<rparr>"

theorem operator_display_witness:
  "(\<exists>name. operator_symname ''+'' 0x40000002 0 2 1 = Inr name \<and> funcdisplayname name tag_state = Inr ''operator+(Float:,_:)'') \<and>
   funcdisplayname ''_main'' tag_state = Inr ''_main''"
proof -
  have f1: "find_tag_byval (0x40000002 AND TAGMASK) tag_state = Some \<lparr>cv_name = ''Float'', cv_value = 0x40000002, cv_index = 0\<rparr>"
    by (simp add: find_tag_byval_def tag_state_def TAGMASK_def PUBLICTAG_def)
  have f2: "find_tag_byval (0 AND TAGMASK) tag_state = Some \<lparr>cv_name = ''_'', cv_value = 0, cv_index = 0\<rparr>"
    by (simp add: find_tag_byval_def tag_state_def)
  have f3: "find_tag_byval (1 AND TAGMASK) tag_state = Some \<lparr>cv_name = ''bool'', cv_value = 1, cv_index = 0\<rparr>"
    by (simp add: find_tag_byval_def tag_state_def TAGMASK_def PUBLICTAG_def)
  have f4: "list_all (\<lambda>p. length (cv_name p) \<le> sNAMEMAX) (tagname_tab tag_state)"
    by (simp add: tag_state_def sNAMEMAX_def)
  show ?thesis using operator_display [OF _ _ _ f1 f2 f3 f4, of "''+''" 2 "''_main''"]
    by (simp add: operator_names_def unary_form_def operator_text_def)
qed

subsection \<open>The table of tags\<close>

definition tag_id :: "constvalue \<Rightarrow> cell" where
  "tag_id p = (cv_value p AND TAGMASK) AND NOT FIXEDTAG"

definition tags_wf :: "constvalue list \<Rightarrow> bool" where
  "tags_wf tab \<longleftrightarrow> distinct (map cv_name tab) \<and> distinct (map tag_id tab) \<and>
     list_all (\<lambda>p. cstring (cv_name p) \<and> uint (tag_id p) \<le> int (length tab)) tab"

lemma tag_id_take_bit: "tag_id p = take_bit 30 (cv_value p)"
proof -
  have "TAGMASK AND NOT FIXEDTAG = mask 30"
    by (simp add: TAGMASK_def PUBLICTAG_def FIXEDTAG_def mask_eq_exp_minus_1 word_eq_iff_unsigned)
  then show ?thesis by (simp add: tag_id_def and.assoc take_bit_eq_mask)
qed

lemma uint_tag_id: "0 \<le> uint (tag_id p) \<and> uint (tag_id p) < 1073741824"
  using take_bit_int_less_exp [of 30 "uint (cv_value p)"] by (simp add: tag_id_take_bit unsigned_take_bit_eq)

lemma sint_small:
  assumes "uint (v :: cell) < 2147483648"
  shows "sint v = uint v"
proof -
  have "- 2147483648 \<le> uint v" using uint_ge_0 [of v] by linarith
  then show ?thesis using assms signed_take_bit_int_eq_self [of 31 "uint v"] by (simp add: sint_uint)
qed

lemma addtag_scan_None:
  "addtag_scan tab name high = (None, m) \<Longrightarrow> uint high < 1073741824 \<Longrightarrow>
   (\<forall>p \<in> set tab. strcmp name (cv_name p) \<noteq> 0 \<and> uint (tag_id p) \<le> uint m) \<and> uint high \<le> uint m \<and>
   (m = high \<or> m \<in> tag_id ` set tab) \<and> uint m < 1073741824"
proof (induction tab name high rule: addtag_scan.induct)
  case (2 ptr tab name high)
  let ?t = "(cv_value ptr AND TAGMASK) AND NOT FIXEDTAG"
  have i: "?t = tag_id ptr" "sint (tag_id ptr) = uint (tag_id ptr)" "sint high = uint high"
    using uint_tag_id [of ptr] "2.prems"(2) by (simp_all add: tag_id_def [symmetric] sint_small)
  have n: "strcmp name (cv_name ptr) \<noteq> 0" using "2.prems"(1) by (auto simp: Let_def split: if_splits)
  have "addtag_scan tab name (if uint (tag_id ptr) > uint high then tag_id ptr else high) = (None, m)"
    using "2.prems"(1) n unfolding addtag_scan.simps Let_def i by simp
  with "2.IH" [OF refl n refl] i uint_tag_id [of ptr] "2.prems"(2) n show ?case by (auto split: if_splits)
qed simp

lemma addtag_scan_Some:
  "addtag_scan tab name high = (Some t, m) \<Longrightarrow> \<exists>p \<in> set tab. strcmp name (cv_name p) = 0 \<and> t = cv_value p AND TAGMASK"
  by (induction tab name high rule: addtag_scan.induct) (auto simp: Let_def split: if_splits)

lemma addtag_scan_found:
  "p \<in> set tab \<Longrightarrow> strcmp name (cv_name p) = 0 \<Longrightarrow> \<exists>t m. addtag_scan tab name high = (Some t, m)"
  by (induction tab name high rule: addtag_scan.induct) (auto simp: Let_def)

text \<open>A tag's number identifies its entry, whether it was marked public or not.\<close>

lemma tag_lookup:
  assumes "tags_wf (tagname_tab s)" "p \<in> set (tagname_tab s)"
  shows "find_tag_byval (cv_value p AND TAGMASK) s = Some p"
proof -
  have same: "q = p" if "q \<in> set (tagname_tab s)" "tag_id q = tag_id p" for q
    using assms that by (auto simp: tags_wf_def distinct_map dest: inj_onD)
  let ?v = "cv_value p AND TAGMASK"
  let ?a = "?v AND NOT PUBLICTAG" and ?b = "?v OR PUBLICTAG"
  have bits: "bit ?a n \<longleftrightarrow> n < 31 \<and> bit (cv_value p) n" "bit ?b n \<longleftrightarrow> n = 31 \<or> n < 31 \<and> bit (cv_value p) n" for n
    unfolding TAGMASK_take_bit bit_and_iff bit_or_iff bit_not_iff bit_take_bit_iff bit_PUBLICTAG by auto
  have id: "tag_id q = tag_id p" if "cv_value q = ?a \<or> cv_value q = ?b" for q
  proof -
    have "bit (take_bit 30 (cv_value q)) n \<longleftrightarrow> bit (take_bit 30 (cv_value p)) n" for n
      using that bits [of n] by (auto simp: bit_take_bit_iff)
    then show ?thesis unfolding tag_id_take_bit by (intro bit_word_eqI) blast
  qed
  have "cv_value p = (if bit (cv_value p) 31 then ?b else ?a)"
  proof (rule bit_word_eqI)
    fix n assume "n < LENGTH(32)"
    then have "n < 31 \<or> n = 31" by auto
    then show "bit (cv_value p) n \<longleftrightarrow> bit (if bit (cv_value p) 31 then ?b else ?a) n" by (auto simp: bits)
  qed
  then have p: "cv_value p = ?a \<or> cv_value p = ?b" by (metis (full_types))
  show ?thesis
  proof (cases "find_constval_byval (tagname_tab s) ?a")
    case None
    then have "cv_value p = ?b" using p assms(2) by (auto simp: find_constval_byval_None)
    then obtain q where "find_constval_byval (tagname_tab s) ?b = Some q"
      using assms(2) by (cases "find_constval_byval (tagname_tab s) ?b") (auto simp: find_constval_byval_None)
    with None show ?thesis using same id find_constval_byval_Some [of "tagname_tab s" ?b q] by (simp add: find_tag_byval_def)
  next
    case (Some q)
    then show ?thesis using same id find_constval_byval_Some [of "tagname_tab s" ?a q] by (simp add: find_tag_byval_def)
  qed
qed

text \<open>Adding a tag name keeps names and numbers of tags unique, a name gets the same number whenever it is added
  again, and the number leads back to the name.\<close>

theorem addtag_unique:
  assumes "tags_wf (tagname_tab s)" "cstring name" "length name \<le> sNAMEMAX" "length (tagname_tab s) < 1073741823"
    "pc_addtag name s = Inr (tag, s')"
  shows "tags_wf (tagname_tab s') \<and> pc_addtag name s' = Inr (tag, s') \<and>
    (\<exists>p. find_tag_byval tag s' = Some p \<and> cv_name p = name)"
proof -
  note [simp del] = addtag_scan.simps
  have colon: "CHR '':'' \<notin> set name" using assms(5) by (auto simp: pc_addtag_def split: if_splits)
  have cs: "\<forall>p \<in> set (tagname_tab s). cstring (cv_name p)" using assms(1) by (auto simp: tags_wf_def list_all_iff)
  obtain r m where scan: "addtag_scan (tagname_tab s) name 0 = (r, m)" by (cases "addtag_scan (tagname_tab s) name 0")
  show ?thesis
  proof (cases r)
    case (Some t)
    with scan assms(5) colon have s': "s' = s" "tag = t" by (auto simp: pc_addtag_def)
    from addtag_scan_Some [OF scan [unfolded Some]] obtain p where
      p: "p \<in> set (tagname_tab s)" "strcmp name (cv_name p) = 0" "t = cv_value p AND TAGMASK" by blast
    then have "cv_name p = name" using cs assms(2) strcmp_eq_0 by metis
    then show ?thesis using p tag_lookup [OF assms(1) p(1)] assms(1,5) s' by auto
  next
    case None
    from addtag_scan_None [OF scan [unfolded None]] have
      m: "\<forall>p \<in> set (tagname_tab s). strcmp name (cv_name p) \<noteq> 0 \<and> uint (tag_id p) \<le> uint m" "m = 0 \<or> m \<in> tag_id ` set (tagname_tab s)"
      by auto
    have le: "uint m \<le> int (length (tagname_tab s))" using m(2) assms(1) by (auto simp: tags_wf_def list_all_iff)
    define t where "t = (if isupper (deref name) then (m + 1) OR FIXEDTAG else m + 1)"
    define p where "p = \<lparr>cv_name = name, cv_value = t, cv_index = 0\<rparr>"
    from scan None assms(5,3) colon have s': "tag = t" "s' = s\<lparr>tagname_tab := tagname_tab s @ [p]\<rparr>"
      by (auto simp: pc_addtag_def append_constval_def insert_constval_def t_def p_def Let_def split: if_splits)
    have um: "uint (m + 1) = uint m + 1" using le assms(4) by (simp add: uint_word_ariths)
    have tb: "take_bit 30 (m + 1) = m + 1"
    proof -
      have "uint (take_bit 30 (m + 1)) = uint (m + 1)"
        unfolding unsigned_take_bit_eq um using le assms(4) by (intro take_bit_int_eq_self) auto
      then show ?thesis by (simp only: word_uint_eq_iff)
    qed
    have id: "tag_id p = m + 1"
    proof -
      have "take_bit 30 ((m + 1) OR FIXEDTAG) = take_bit 30 (m + 1)"
        by (rule bit_word_eqI) (auto simp: bit_take_bit_iff bit_or_iff bit_FIXEDTAG)
      then show ?thesis by (simp add: tag_id_take_bit p_def t_def tb)
    qed
    have nm: "name \<noteq> cv_name q" "tag_id q \<noteq> m + 1" if "q \<in> set (tagname_tab s)" for q
      using m(1) that um by auto
    have new: "name \<notin> cv_name ` set (tagname_tab s)" "tag_id p \<notin> tag_id ` set (tagname_tab s)"
      using nm unfolding id image_iff by metis+
    have new': "cv_name p = name" "uint (tag_id p) \<le> int (length (tagname_tab s)) + 1"
      using le um unfolding id by (simp_all add: p_def)
    have wf: "tags_wf (tagname_tab s')"
      using assms(1,2) new new' by (auto simp: tags_wf_def list_all_iff s'(2))
    have pub: "t AND TAGMASK = t"
    proof -
      have "bit t n \<longrightarrow> n < 31" for n
        using arg_cong [OF tb, of "\<lambda>w. bit w n"] by (simp add: t_def bit_or_iff bit_FIXEDTAG bit_take_bit_iff) auto
      then show ?thesis unfolding TAGMASK_take_bit by (intro bit_word_eqI) (auto simp: bit_take_bit_iff)
    qed
    have "p \<in> set (tagname_tab s')" by (simp add: s'(2))
    from tag_lookup [OF wf this] have f: "find_tag_byval tag s' = Some p" by (simp add: p_def pub s'(1))
    from addtag_scan_found [OF \<open>p \<in> set (tagname_tab s')\<close>, of name 0] obtain t2 m2 where
      sc: "addtag_scan (tagname_tab s') name 0 = (Some t2, m2)" by (auto simp: p_def)
    from addtag_scan_Some [OF sc] obtain q where q: "q \<in> set (tagname_tab s')" "strcmp name (cv_name q) = 0" "t2 = cv_value q AND TAGMASK" by blast
    then have "q = p" using m(1) by (auto simp: s'(2))
    then have "t2 = t" using q(3) pub by (simp add: p_def)
    then have "pc_addtag name s' = Inr (tag, s')" using sc colon s'(1) by (simp add: pc_addtag_def)
    with wf f show ?thesis by (simp add: p_def)
  qed
qed

theorem addtag_unique_witness:
  "\<exists>tag s'. pc_addtag ''Handle'' tag_state = Inr (tag, s') \<and> tags_wf (tagname_tab s') \<and>
     pc_addtag ''Handle'' s' = Inr (tag, s') \<and> (\<exists>p. find_tag_byval tag s' = Some p \<and> cv_name p = ''Handle'')"
proof -
  have "tags_wf (tagname_tab tag_state)"
    by (simp add: tags_wf_def tag_state_def tag_id_def NUL_def TAGMASK_def PUBLICTAG_def FIXEDTAG_def)
  moreover obtain tag s' where a: "pc_addtag ''Handle'' tag_state = Inr (tag, s')"
    by (auto simp: pc_addtag_def tag_state_def append_constval_def insert_constval_def initial_state_def ample_heap_def sNAMEMAX_def
        Let_def split: prod.splits option.splits)
  ultimately show ?thesis using addtag_unique [OF _ _ _ _ a] by (auto simp: NUL_def sNAMEMAX_def tag_state_def)
qed

end
