(* ===== verification/CodeGen.thy ===== *)
theory CodeGen
  imports Staging Symbols Operators
begin

text \<open>
  The code generator, \<open>sc4.c\<close>: each function writes lines of assembler text through
  \<open>stgwrite\<close> and advances \<open>code_idx\<close> by the size the code is expected to have. A function is
  the sequence of its statements; \<open>instr t\<close> stands for the line with one tab in front of
  \<open>t\<close> and \<open>instr_arg t\<close> for the beginning of a line whose operand is still to be written.
\<close>

subsection \<open>Writing a value\<close>

definition instr :: "string \<Rightarrow> string" where
  "instr t = TAB # t @ [NL]"

definition instr_arg :: "string \<Rightarrow> string" where
  "instr_arg t = TAB # t @ '' ''"

definition outval :: "cell \<Rightarrow> bool \<Rightarrow> cstate \<Rightarrow> fault + cstate" where
  "outval v newline = seq [stgwrite (itoh v), if newline then stgwrite [NL] else skip]"

definition add_code :: "cell \<Rightarrow> cstate \<Rightarrow> fault + cstate" where
  "add_code n s = Inr (s\<lparr>code_idx := code_idx s + n\<rparr>)"

text \<open>\<open>assert(sym!=NULL)\<close> and the access to the symbol.\<close>

definition with_sym :: "nat option \<Rightarrow> (symbol \<Rightarrow> cstate \<Rightarrow> fault + 'a) \<Rightarrow> cstate \<Rightarrow> fault + 'a" where
  "with_sym p f s = (if p = None then Inl AssertFail else bind_res (get_sym s p) (\<lambda>sy. f sy s))"

subsection \<open>Segments, lines and labels\<close>

definition begcseg :: "cstate \<Rightarrow> fault + cstate" where
  "begcseg s =
     (if curseg s \<noteq> sIN_CSEG
      then seq [stgwrite [NL], stgwrite (''CODE'' @ [TAB] @ ''; ''), \<lambda>s. outval (code_idx s) True s,
                \<lambda>s. Inr (s\<lparr>curseg := sIN_CSEG\<rparr>)] s
      else Inr s)"

definition begdseg :: "cstate \<Rightarrow> fault + cstate" where
  "begdseg s =
     (if curseg s \<noteq> sIN_DSEG
      then seq [stgwrite [NL], stgwrite (''DATA'' @ [TAB] @ ''; ''),
                \<lambda>s. outval (glb_declared s - of_nat (litidx s)) True s,
                \<lambda>s. Inr (s\<lparr>curseg := sIN_DSEG\<rparr>)] s
      else Inr s)"

definition setline :: "bool \<Rightarrow> cstate \<Rightarrow> fault + cstate" where
  "setline chkbounds s =
     (if sc_debug s AND sSYMBOLIC \<noteq> 0 \<or> (chkbounds \<and> sc_debug s AND sCHKBOUNDS \<noteq> 0)
      then seq [stgwrite (TAB # ''break'' @ [TAB] @ ''; ''), \<lambda>s. outval (code_idx s) True s, add_code (opcodes 1)] s
      else Inr s)"

text \<open>The direct writes of the listing; \<open>%d\<close> of a non-negative line number.\<close>

fun decimal :: "nat \<Rightarrow> string" where
  "decimal n = (if n < 10 then [char_of (48 + n)] else decimal (n div 10) @ [char_of (48 + n mod 10)])"

declare decimal.simps [simp del]

definition write_direct :: "string \<Rightarrow> cstate \<Rightarrow> fault + cstate" where
  "write_direct str s =
     (case outf s of
        None \<Rightarrow> Inl AssertFail
      | Some mf \<Rightarrow> bind_res (pc_writeasm (mem s) mf str) (\<lambda>(ok, mf). Inr (s\<lparr>outf := Some mf\<rparr>)))"

definition setfiledirect :: "string \<Rightarrow> cstate \<Rightarrow> fault + cstate" where
  "setfiledirect name s =
     (if sc_status s = statFIRST \<and> sc_listing s
      then seq [write_direct ''#file '', write_direct name, write_direct [NL]] s
      else Inr s)"

definition setlinedirect :: "nat \<Rightarrow> cstate \<Rightarrow> fault + cstate" where
  "setlinedirect line s =
     (if sc_status s = statFIRST \<and> sc_listing s
      then write_direct (''#line '' @ decimal line @ [NL]) s
      else Inr s)"

definition setlabel :: "nat \<Rightarrow> cstate \<Rightarrow> fault + cstate" where
  "setlabel number =
     seq [stgwrite ''l.'', stgwrite (itoh (of_nat number)),
          \<lambda>s. if \<not> staging s then seq [stgwrite ([TAB, TAB] @ ''; ''), \<lambda>s. outval (code_idx s) False s] s else Inr s,
          stgwrite [NL]]"

definition markexpr :: "optmark \<Rightarrow> string option \<Rightarrow> cell \<Rightarrow> cstate \<Rightarrow> fault + cstate" where
  "markexpr mark name offset =
     (case mark of
        sEXPR \<Rightarrow> stgwrite (instr '';$exp'')
      | sPARM \<Rightarrow> stgwrite (instr '';$par'')
      | sLDECL \<Rightarrow> (case name of
            None \<Rightarrow> \<lambda>s. Inl AssertFail
          | Some n \<Rightarrow> seq [stgwrite (instr_arg '';$lcl''), stgwrite n, stgwrite '' '', outval offset True]))"

definition startfunc :: "string \<Rightarrow> cstate \<Rightarrow> fault + cstate" where
  "startfunc fname =
     seq [stgwrite (TAB # ''proc''),
          \<lambda>s. if sc_asmfile s
               then bind_res (funcdisplayname fname s) (\<lambda>symname. seq [stgwrite (TAB # ''; ''), stgwrite symname] s)
               else Inr s,
          stgwrite [NL], add_code (opcodes 1)]"

definition endfunc :: "cstate \<Rightarrow> fault + cstate" where
  "endfunc = stgwrite [NL]"

text \<open>The assertion counts the bits of \<open>numbytes\<close>.\<close>

definition alignframe :: "cell \<Rightarrow> cstate \<Rightarrow> fault + cstate" where
  "alignframe numbytes s =
     (if length (List.filter (bit numbytes) [0..<32]) \<noteq> 1 then Inl AssertFail
      else seq [stgwrite (instr ''lctrl 4''), stgwrite (instr_arg ''const.alt''), outval (NOT (numbytes - 1)) True,
                stgwrite (instr ''and''), stgwrite (instr ''sctrl 4''), stgwrite (instr ''sctrl 5''),
                add_code (opcodes 5 + opargs 4)] s)"

subsection \<open>Loading and storing\<close>

definition sCHARBITS :: nat where "sCHARBITS = 8"

text \<open>An instruction with one operand, as most functions write it.\<close>

definition emit_arg :: "string \<Rightarrow> cell \<Rightarrow> cstate \<Rightarrow> fault + cstate" where
  "emit_arg t v = seq [stgwrite (instr_arg t), outval v True, add_code (opcodes 1 + opargs 1)]"

definition load_i :: "cstate \<Rightarrow> fault + cstate" where
  "load_i = seq [stgwrite (instr ''load.i''), add_code (opcodes 1)]"

definition rvalue :: "val \<Rightarrow> cstate \<Rightarrow> fault + cstate" where
  "rvalue lval =
     (case v_ident lval of
        iARRAYCELL \<Rightarrow> load_i
      | iARRAYCHAR \<Rightarrow> seq [stgwrite (instr_arg ''lodb.i''), outval (of_nat (sCHARBITS div 8)) True, add_code (opcodes 1 + opargs 1)]
      | iREFERENCE \<Rightarrow> with_sym (v_sym lval) (\<lambda>sy.
          if sym_vclass sy \<noteq> sLOCAL then (\<lambda>s. Inl AssertFail)
          else seq [stgwrite (instr_arg ''lref.s.pri''), outval (sym_addr sy) True, markusage (v_sym lval) uREAD,
                    add_code (opcodes 1 + opargs 1)])
      | _ \<Rightarrow> with_sym (v_sym lval) (\<lambda>sy.
          seq [stgwrite (instr_arg (if sym_vclass sy = sLOCAL then ''load.s.pri'' else ''load.pri'')), outval (sym_addr sy) True,
               markusage (v_sym lval) uREAD, add_code (opcodes 1 + opargs 1)]))"

definition address :: "nat option \<Rightarrow> regid \<Rightarrow> cstate \<Rightarrow> fault + cstate" where
  "address p reg = with_sym p (\<lambda>sy.
     seq [stgwrite (instr_arg
            (if sym_ident sy = iREFARRAY \<or> sym_ident sy = iREFERENCE
             then (case reg of sPRI \<Rightarrow> ''load.s.pri'' | sALT \<Rightarrow> ''load.s.alt'')
             else (case reg of sPRI \<Rightarrow> if sym_vclass sy = sLOCAL then ''addr.pri'' else ''const.pri''
                             | sALT \<Rightarrow> if sym_vclass sy = sLOCAL then ''addr.alt'' else ''const.alt''))),
          outval (sym_addr sy) True, markusage p uREAD, add_code (opcodes 1 + opargs 1)])"

definition addr_reg :: "cell \<Rightarrow> regid \<Rightarrow> cstate \<Rightarrow> fault + cstate" where
  "addr_reg v reg = seq [if reg = sPRI then stgwrite (instr_arg ''addr.pri'') else stgwrite (instr_arg ''addr.alt''),
     outval v True, add_code (opcodes 1 + opargs 1)]"

definition load_argcount :: "regid \<Rightarrow> cstate \<Rightarrow> fault + cstate" where
  "load_argcount reg = seq [if reg = sPRI then stgwrite (instr_arg ''load.s.pri'') else stgwrite (instr_arg ''load.s.alt''),
     outval (2 * 4) True, add_code (opcodes 1 + opargs 1)]"

definition store :: "val \<Rightarrow> cstate \<Rightarrow> fault + cstate" where
  "store lval =
     (case v_ident lval of
        iARRAYCELL \<Rightarrow> seq [stgwrite (instr ''stor.i''), add_code (opcodes 1)]
      | iARRAYCHAR \<Rightarrow> seq [stgwrite (instr_arg ''strb.i''), outval (of_nat (sCHARBITS div 8)) True, add_code (opcodes 1 + opargs 1)]
      | iREFERENCE \<Rightarrow> with_sym (v_sym lval) (\<lambda>sy.
          seq [stgwrite (instr_arg (if sym_vclass sy = sLOCAL then ''sref.s.pri'' else ''sref.pri'')),
               outval (sym_addr sy) True, add_code (opcodes 1 + opargs 1)])
      | _ \<Rightarrow> with_sym (v_sym lval) (\<lambda>sy.
          seq [markusage (v_sym lval) uWRITTEN,
               stgwrite (instr_arg (if sym_vclass sy = sLOCAL then ''stor.s.pri'' else ''stor.pri'')),
               outval (sym_addr sy) True, add_code (opcodes 1 + opargs 1)]))"

definition storereg :: "cell \<Rightarrow> regid \<Rightarrow> cstate \<Rightarrow> fault + cstate" where
  "storereg addr reg = seq [if reg = sPRI then stgwrite (instr_arg ''stor.pri'') else stgwrite (instr_arg ''stor.alt''),
     outval addr True, add_code (opcodes 1 + opargs 1)]"

definition memcopy :: "cell \<Rightarrow> cstate \<Rightarrow> fault + cstate" where
  "memcopy n = seq [stgwrite (instr_arg ''movs''), outval n True, add_code (opcodes 1 + opargs 1)]"

text \<open>The address of an array symbol goes to ALT, in \<open>copyarray\<close> and \<open>fillarray\<close>.\<close>

definition array_alt :: "nat option \<Rightarrow> symbol \<Rightarrow> cstate \<Rightarrow> fault + cstate" where
  "array_alt p sy s =
     (if sym_ident sy = iREFARRAY \<and> sym_vclass sy \<noteq> sLOCAL then Inl AssertFail
      else seq [stgwrite (instr_arg (if sym_ident sy = iREFARRAY then ''load.s.alt''
                            else if sym_vclass sy = sLOCAL then ''addr.alt'' else ''const.alt'')),
                outval (sym_addr sy) True, markusage p uWRITTEN] s)"

definition copyarray :: "nat option \<Rightarrow> cell \<Rightarrow> cstate \<Rightarrow> fault + cstate" where
  "copyarray p n = with_sym p (\<lambda>sy. seq [array_alt p sy, add_code (opcodes 1 + opargs 1), memcopy n])"

definition ldconst :: "cell \<Rightarrow> regid \<Rightarrow> cstate \<Rightarrow> fault + cstate" where
  "ldconst v reg =
     (case reg of
        sPRI \<Rightarrow> if v = 0 then seq [stgwrite (instr ''zero.pri''), add_code (opcodes 1)]
                else seq [stgwrite (instr_arg ''const.pri''), outval v True, add_code (opcodes 1 + opargs 1)]
      | sALT \<Rightarrow> if v = 0 then seq [stgwrite (instr ''zero.alt''), add_code (opcodes 1)]
                else seq [stgwrite (instr_arg ''const.alt''), outval v True, add_code (opcodes 1 + opargs 1)])"

definition fillarray :: "nat option \<Rightarrow> cell \<Rightarrow> cell \<Rightarrow> cstate \<Rightarrow> fault + cstate" where
  "fillarray p n v = seq [ldconst v sPRI, with_sym p (\<lambda>sy. seq [array_alt p sy,
     c_assert (0 <s n), stgwrite (instr_arg ''fill''), outval n True, add_code (opcodes 2 + opargs 2)])]"

definition moveto1 :: "cstate \<Rightarrow> fault + cstate" where
  "moveto1 = seq [stgwrite (instr ''move.pri''), add_code (opcodes 1 + opargs 0)]"

definition move_alt :: "cstate \<Rightarrow> fault + cstate" where
  "move_alt = seq [stgwrite (instr ''move.alt''), add_code (opcodes 1 + opargs 0)]"

definition pushreg :: "regid \<Rightarrow> cstate \<Rightarrow> fault + cstate" where
  "pushreg reg = seq [case reg of sPRI \<Rightarrow> stgwrite (instr ''push.pri'') | sALT \<Rightarrow> stgwrite (instr ''push.alt''), add_code (opcodes 1)]"

definition pushval :: "cell \<Rightarrow> cstate \<Rightarrow> fault + cstate" where
  "pushval v = seq [stgwrite (instr_arg ''push.c''), outval v True, add_code (opcodes 1 + opargs 1)]"

definition popreg :: "regid \<Rightarrow> cstate \<Rightarrow> fault + cstate" where
  "popreg reg = seq [case reg of sPRI \<Rightarrow> stgwrite (instr ''pop.pri'') | sALT \<Rightarrow> stgwrite (instr ''pop.alt''), add_code (opcodes 1)]"

definition swap1 :: "cstate \<Rightarrow> fault + cstate" where
  "swap1 = seq [stgwrite (instr ''swap.pri''), add_code (opcodes 1)]"

definition ob_add :: "cstate \<Rightarrow> fault + cstate" where
  "ob_add = seq [stgwrite (instr ''add''), add_code (opcodes 1)]"

definition load_hidden_arg :: "cstate \<Rightarrow> fault + cstate" where
  "load_hidden_arg = seq [pushreg sPRI, addr_reg 0xc sALT, load_argcount sPRI, ob_add, load_i, move_alt, popreg sPRI]"

subsection \<open>Switches, calls and jumps\<close>

definition ffswitch :: "nat \<Rightarrow> cstate \<Rightarrow> fault + cstate" where
  "ffswitch label = seq [stgwrite (instr_arg ''switch''), outval (of_nat label) True, add_code (opcodes 1 + opargs 1)]"

definition ffcase :: "cell \<Rightarrow> string \<Rightarrow> bool \<Rightarrow> cstate \<Rightarrow> fault + cstate" where
  "ffcase v labelname newtable =
     seq [if newtable then seq [stgwrite (instr ''casetbl''), add_code (opcodes 1)] else skip,
          stgwrite (instr_arg ''case''), outval v False, stgwrite '' '', stgwrite labelname, stgwrite [NL],
          add_code (opcodes 0 + opargs 2)]"

text \<open>The native function takes the next number when its first call is written.\<close>

definition reserve_native :: "nat \<Rightarrow> cstate \<Rightarrow> fault + cstate" where
  "reserve_native p s = bind_res (get_sym s (Some p)) (\<lambda>sy.
     Inr (if sc_status s = statWRITE \<and> \<not> has_flag (sym_usage sy) uREAD \<and> 0 \<le>s sym_addr sy
          then (upd_sym p (\<lambda>sy. sy\<lparr>sym_addr := of_nat (ntv_funcid s)\<rparr>) s)\<lparr>ntv_funcid := ntv_funcid s + 1\<rparr>
          else s))"

definition ffcall :: "nat option \<Rightarrow> string option \<Rightarrow> cell \<Rightarrow> cstate \<Rightarrow> fault + cstate" where
  "ffcall p label numargs = with_sym p (\<lambda>sy s.
     if sym_ident sy \<noteq> iFUNCTN then Inl AssertFail
     else bind_res (if sc_asmfile s then funcdisplayname (sym_name sy) s else Inr []) (\<lambda>symname.
       (if has_flag (sym_usage sy) uNATIVE
        then if label \<noteq> None then Inl AssertFail
             else seq [reserve_native (the p),
                       stgwrite (instr_arg ''sysreq.c''),
                       with_sym p (\<lambda>sy. outval (sym_addr sy) False),
                       if sc_asmfile s then seq [stgwrite (TAB # ''; ''), stgwrite symname] else skip,
                       stgwrite (NL # instr_arg ''stack''), outval ((numargs + 1) * 4) True,
                       add_code (opcodes 2 + opargs 2)] s
        else seq [stgwrite (instr_arg ''call''),
                  case label of Some l \<Rightarrow> seq [stgwrite ''l.'', stgwrite l] | None \<Rightarrow> stgwrite (sym_name sy),
                  if sc_asmfile s \<and> (label \<noteq> None \<or> (\<not> isalpha (deref (sym_name sy)) \<and> deref (sym_name sy) \<noteq> CHR ''_''
                       \<and> deref (sym_name sy) \<noteq> sc_ctrlchar s))
                  then seq [stgwrite (TAB # ''; ''), stgwrite symname] else skip,
                  stgwrite [NL], add_code (opcodes 1 + opargs 1)] s)))"

definition ffret :: "cstate \<Rightarrow> fault + cstate" where
  "ffret = seq [stgwrite (instr ''retn''), add_code (opcodes 1)]"

definition ffabort :: "cell \<Rightarrow> cstate \<Rightarrow> fault + cstate" where
  "ffabort reason = seq [stgwrite (instr_arg ''halt''), outval reason True, add_code (opcodes 1 + opargs 1)]"

definition ffbounds :: "cell \<Rightarrow> cstate \<Rightarrow> fault + cstate" where
  "ffbounds n s =
     (if sc_debug s AND sCHKBOUNDS \<noteq> 0
      then seq [stgwrite (instr_arg ''bounds''), outval n True, add_code (opcodes 1 + opargs 1)] s else Inr s)"

definition jumplabel :: "nat \<Rightarrow> cstate \<Rightarrow> fault + cstate" where
  "jumplabel number = seq [stgwrite (instr_arg ''jump''), outval (of_nat number) True, add_code (opcodes 1 + opargs 1)]"

definition jmp_ne0 :: "nat \<Rightarrow> cstate \<Rightarrow> fault + cstate" where
  "jmp_ne0 number = seq [stgwrite (instr_arg ''jnz''), outval (of_nat number) True, add_code (opcodes 1 + opargs 1)]"

definition jmp_eq0 :: "nat \<Rightarrow> cstate \<Rightarrow> fault + cstate" where
  "jmp_eq0 number = seq [stgwrite (instr_arg ''jzer''), outval (of_nat number) True, add_code (opcodes 1 + opargs 1)]"

definition defstorage :: "cstate \<Rightarrow> fault + cstate" where
  "defstorage = stgwrite ''dump ''"

subsection \<open>Stack and heap\<close>

definition modstk :: "cell \<Rightarrow> cstate \<Rightarrow> fault + cstate" where
  "modstk delta = (if delta \<noteq> 0 then seq [stgwrite (instr_arg ''stack''), outval delta True, add_code (opcodes 1 + opargs 1)] else skip)"

definition setstk :: "cell \<Rightarrow> cstate \<Rightarrow> fault + cstate" where
  "setstk v = seq [stgwrite (instr ''lctrl 5''), c_assert (v \<le>s 0),
     if v <s 0 then seq [stgwrite (instr_arg ''add.c''), outval v True, add_code (opcodes 1 + opargs 1)] else skip,
     stgwrite (instr ''sctrl 4''), add_code (opcodes 2 + opargs 2)]"

definition modheap :: "cell \<Rightarrow> cstate \<Rightarrow> fault + cstate" where
  "modheap delta = (if delta \<noteq> 0 then seq [stgwrite (instr_arg ''heap''), outval delta True, add_code (opcodes 1 + opargs 1)] else skip)"

definition setheap_pri :: "cstate \<Rightarrow> fault + cstate" where
  "setheap_pri = seq [stgwrite (instr_arg ''heap''), outval 4 True, stgwrite (instr ''stor.i''), stgwrite (instr ''move.pri''),
     add_code (opcodes 3 + opargs 1)]"

definition setheap :: "cell \<Rightarrow> cstate \<Rightarrow> fault + cstate" where
  "setheap v = seq [stgwrite (instr_arg ''const.pri''), outval v True, add_code (opcodes 1 + opargs 1), setheap_pri]"

subsection \<open>Arithmetic\<close>

definition cell2addr :: "cstate \<Rightarrow> fault + cstate" where
  "cell2addr = seq [stgwrite (instr ''shl.c.pri 2''), add_code (opcodes 1 + opargs 1)]"

definition cell2addr_alt :: "cstate \<Rightarrow> fault + cstate" where
  "cell2addr_alt = seq [stgwrite (instr ''shl.c.alt 2''), add_code (opcodes 1 + opargs 1)]"

definition addr2cell :: "cstate \<Rightarrow> fault + cstate" where
  "addr2cell = seq [stgwrite (instr ''shr.c.pri 2''), add_code (opcodes 1 + opargs 1)]"

text \<open>With 8-bit characters \<open>char2addr\<close> does nothing.\<close>

definition char2addr :: "cstate \<Rightarrow> fault + cstate" where
  "char2addr = skip"

definition charalign :: "cstate \<Rightarrow> fault + cstate" where
  "charalign = seq [stgwrite (instr_arg ''align.pri''), outval (of_nat (sCHARBITS div 8)) True, add_code (opcodes 1 + opargs 1)]"

definition addconst :: "cell \<Rightarrow> cstate \<Rightarrow> fault + cstate" where
  "addconst v = (if v \<noteq> 0 then seq [stgwrite (instr_arg ''add.c''), outval v True, add_code (opcodes 1 + opargs 1)] else skip)"

definition os_mult :: "cstate \<Rightarrow> fault + cstate" where
  "os_mult = seq [stgwrite (instr ''smul''), add_code (opcodes 1)]"

definition os_div :: "cstate \<Rightarrow> fault + cstate" where
  "os_div = seq [stgwrite (instr ''sdiv.alt''), add_code (opcodes 1)]"

definition os_mod :: "cstate \<Rightarrow> fault + cstate" where
  "os_mod = seq [stgwrite (instr ''sdiv.alt''), stgwrite (instr ''move.pri''), add_code (opcodes 2)]"

definition ob_sub :: "cstate \<Rightarrow> fault + cstate" where
  "ob_sub = seq [stgwrite (instr ''sub.alt''), add_code (opcodes 1)]"

definition ob_sal :: "cstate \<Rightarrow> fault + cstate" where
  "ob_sal = seq [stgwrite (instr ''xchg''), stgwrite (instr ''shl''), add_code (opcodes 2)]"

definition os_sar :: "cstate \<Rightarrow> fault + cstate" where
  "os_sar = seq [stgwrite (instr ''xchg''), stgwrite (instr ''sshr''), add_code (opcodes 2)]"

definition ou_sar :: "cstate \<Rightarrow> fault + cstate" where
  "ou_sar = seq [stgwrite (instr ''xchg''), stgwrite (instr ''shr''), add_code (opcodes 2)]"

definition ob_or :: "cstate \<Rightarrow> fault + cstate" where
  "ob_or = seq [stgwrite (instr ''or''), add_code (opcodes 1)]"

definition ob_xor :: "cstate \<Rightarrow> fault + cstate" where
  "ob_xor = seq [stgwrite (instr ''xor''), add_code (opcodes 1)]"

definition ob_and :: "cstate \<Rightarrow> fault + cstate" where
  "ob_and = seq [stgwrite (instr ''and''), add_code (opcodes 1)]"

definition ob_eq :: "cstate \<Rightarrow> fault + cstate" where
  "ob_eq = seq [stgwrite (instr ''eq''), add_code (opcodes 1)]"

definition ob_ne :: "cstate \<Rightarrow> fault + cstate" where
  "ob_ne = seq [stgwrite (instr ''neq''), add_code (opcodes 1)]"

definition relop_prefix :: "cstate \<Rightarrow> fault + cstate" where
  "relop_prefix = seq [stgwrite (instr ''push.pri''), stgwrite (instr ''move.pri''), add_code (opcodes 2)]"

definition relop_suffix :: "cstate \<Rightarrow> fault + cstate" where
  "relop_suffix = seq [stgwrite (instr ''swap.alt''), stgwrite (instr ''and''), stgwrite (instr ''pop.alt''), add_code (opcodes 3)]"

definition os_lt :: "cstate \<Rightarrow> fault + cstate" where
  "os_lt = seq [stgwrite (instr ''xchg''), stgwrite (instr ''sless''), add_code (opcodes 2)]"

definition os_le :: "cstate \<Rightarrow> fault + cstate" where
  "os_le = seq [stgwrite (instr ''xchg''), stgwrite (instr ''sleq''), add_code (opcodes 2)]"

definition os_gt :: "cstate \<Rightarrow> fault + cstate" where
  "os_gt = seq [stgwrite (instr ''xchg''), stgwrite (instr ''sgrtr''), add_code (opcodes 2)]"

definition os_ge :: "cstate \<Rightarrow> fault + cstate" where
  "os_ge = seq [stgwrite (instr ''xchg''), stgwrite (instr ''sgeq''), add_code (opcodes 2)]"

definition lneg :: "cstate \<Rightarrow> fault + cstate" where
  "lneg = seq [stgwrite (instr ''not''), add_code (opcodes 1)]"

definition neg :: "cstate \<Rightarrow> fault + cstate" where
  "neg = seq [stgwrite (instr ''neg''), add_code (opcodes 1)]"

definition invert :: "cstate \<Rightarrow> fault + cstate" where
  "invert = seq [stgwrite (instr ''invert''), add_code (opcodes 1)]"

definition nooperation :: "cstate \<Rightarrow> fault + cstate" where
  "nooperation = seq [stgwrite (instr ''nop''), add_code (opcodes 1)]"

definition inc :: "val \<Rightarrow> cstate \<Rightarrow> fault + cstate" where
  "inc lval =
     (case v_ident lval of
        iARRAYCELL \<Rightarrow> seq [stgwrite (instr ''inc.i''), add_code (opcodes 1)]
      | iARRAYCHAR \<Rightarrow>
          seq [stgwrite (instr ''push.pri''), stgwrite (instr ''push.alt''), stgwrite (instr ''move.alt''),
               stgwrite (instr_arg ''lodb.i''), outval (of_nat (sCHARBITS div 8)) True, stgwrite (instr ''inc.pri''),
               stgwrite (instr_arg ''strb.i''), outval (of_nat (sCHARBITS div 8)) True,
               stgwrite (instr ''pop.alt''), stgwrite (instr ''pop.pri''), add_code (opcodes 8 + opargs 2)]
      | iREFERENCE \<Rightarrow> with_sym (v_sym lval) (\<lambda>sy.
          seq [stgwrite (instr ''push.pri''), c_assert (sym_vclass sy = sLOCAL),
               stgwrite (instr_arg (if sym_vclass sy = sLOCAL then ''lref.s.pri'' else ''lref.pri'')), outval (sym_addr sy) True,
               stgwrite (instr ''inc.pri''),
               stgwrite (instr_arg (if sym_vclass sy = sLOCAL then ''sref.s.pri'' else ''sref.pri'')), outval (sym_addr sy) True,
               stgwrite (instr ''pop.pri''), add_code (opcodes 5 + opargs 2)])
      | _ \<Rightarrow> with_sym (v_sym lval) (\<lambda>sy.
          seq [stgwrite (instr_arg (if sym_vclass sy = sLOCAL then ''inc.s'' else ''inc'')), outval (sym_addr sy) True,
               add_code (opcodes 1 + opargs 1)]))"

definition dec :: "val \<Rightarrow> cstate \<Rightarrow> fault + cstate" where
  "dec lval =
     (case v_ident lval of
        iARRAYCELL \<Rightarrow> seq [stgwrite (instr ''dec.i''), add_code (opcodes 1)]
      | iARRAYCHAR \<Rightarrow>
          seq [stgwrite (instr ''push.pri''), stgwrite (instr ''push.alt''), stgwrite (instr ''move.alt''),
               stgwrite (instr_arg ''lodb.i''), outval (of_nat (sCHARBITS div 8)) True, stgwrite (instr ''dec.pri''),
               stgwrite (instr_arg ''strb.i''), outval (of_nat (sCHARBITS div 8)) True,
               stgwrite (instr ''pop.alt''), stgwrite (instr ''pop.pri''), add_code (opcodes 8 + opargs 2)]
      | iREFERENCE \<Rightarrow> with_sym (v_sym lval) (\<lambda>sy.
          seq [stgwrite (instr ''push.pri''), c_assert (sym_vclass sy = sLOCAL),
               stgwrite (instr_arg (if sym_vclass sy = sLOCAL then ''lref.s.pri'' else ''lref.pri'')), outval (sym_addr sy) True,
               stgwrite (instr ''dec.pri''),
               stgwrite (instr_arg (if sym_vclass sy = sLOCAL then ''sref.s.pri'' else ''sref.pri'')), outval (sym_addr sy) True,
               stgwrite (instr ''pop.pri''), add_code (opcodes 5 + opargs 2)])
      | _ \<Rightarrow> with_sym (v_sym lval) (\<lambda>sy.
          seq [stgwrite (instr_arg (if sym_vclass sy = sLOCAL then ''dec.s'' else ''dec'')), outval (sym_addr sy) True,
               add_code (opcodes 1 + opargs 1)]))"

subsection \<open>The end of the program\<close>

text \<open>
  The loops of \<open>writetrailer\<close> pad by cells until the size is a multiple of the alignment;
  the fuel is the alignment, which is more than the number of cells needed. The remainder of
  the code index is that of a signed division.
\<close>

definition c_rem :: "cell \<Rightarrow> nat \<Rightarrow> int" where
  "c_rem a b = sgn (sint a) * (\<bar>sint a\<bar> mod int b)"

fun pad_code :: "nat \<Rightarrow> cstate \<Rightarrow> fault + cstate" where
  "pad_code 0 s = Inl NoFuel"
| "pad_code (Suc fuel) s =
     (if c_rem (code_idx s) (sc_dataalign s) \<noteq> 0
      then (case nooperation s of Inl e \<Rightarrow> Inl e | Inr s' \<Rightarrow> pad_code fuel s')
      else Inr s)"

fun pad_data :: "nat \<Rightarrow> cstate \<Rightarrow> fault + cstate" where
  "pad_data 0 s = Inl NoFuel"
| "pad_data (Suc fuel) s =
     (if unat (glb_declared s * 4) mod sc_dataalign s \<noteq> 0
      then (case stgwrite ''0 '' s of Inl e \<Rightarrow> Inl e | Inr s' \<Rightarrow> pad_data fuel (s'\<lparr>glb_declared := glb_declared s' + 1\<rparr>))
      else Inr s)"

definition writetrailer :: "cstate \<Rightarrow> fault + cstate" where
  "writetrailer s =
     (if sc_dataalign s mod 4 \<noteq> 0 \<or> sc_dataalign s = 0 then Inl AssertFail
      else seq
        [\<lambda>s. if c_rem (code_idx s) (sc_dataalign s) \<noteq> 0 then seq [begcseg, pad_code (Suc (sc_dataalign s))] s else Inr s,
         \<lambda>s. if litidx s \<noteq> 0 then Inl AssertFail else Inr s,
         \<lambda>s. if unat (glb_declared s * 4) mod sc_dataalign s \<noteq> 0
              then seq [begdseg, defstorage, pad_data (Suc (sc_dataalign s))] s else Inr s,
         stgwrite (NL # ''STKSIZE ''),
         \<lambda>s. outval (sc_stksize s - of_int (c_rem (sc_stksize s) (sc_dataalign s))) True s] s)"

subsection \<open>The start of the program\<close>

definition AMX_ERR_INVSTATE :: cell where "AMX_ERR_INVSTATE = 13"

definition state_function :: "symbol \<Rightarrow> bool" where
  "state_function sy \<longleftrightarrow> sym_ident sy = iFUNCTN \<and> has_flag (sym_usage sy) uREAD \<and> sym_states sy \<noteq> None"

fun any_state_function :: "nat list \<Rightarrow> cstate \<Rightarrow> fault + bool" where
  "any_state_function [] s = Inr False"
| "any_state_function (p # ps) s =
     (case get_sym s (Some p) of
        Inl e \<Rightarrow> Inl e
      | Inr sy \<Rightarrow> if state_function sy then Inr True else any_state_function ps s)"

text \<open>One turn of the loop over the automatons.\<close>

definition leader_automaton :: "nat \<Rightarrow> cstate \<Rightarrow> fault + cstate" where
  "leader_automaton i = seq
     [defstorage, stgwrite (''0'' @ [TAB] @ ''; automaton ''),
      \<lambda>s. let name = cv_name (sc_automaton_tab s ! i)
           in stgwrite (if length name = 0 then ''(anonymous)'' else name) s,
      stgwrite [NL],
      \<lambda>s. let tab = sc_automaton_tab s
           in Inr (s\<lparr>sc_automaton_tab := tab[i := (tab ! i)\<lparr>cv_value := glb_declared s * 4\<rparr>],
                     glb_declared := glb_declared s + 1\<rparr>)]"

text \<open>New labels for all state sts of a function; each name must still be empty.\<close>

fun label_states :: "constvalue list \<Rightarrow> cstate \<Rightarrow> fault + constvalue list \<times> cstate" where
  "label_states [] s = Inr ([], s)"
| "label_states (c # cs) s =
     (if length (cv_name c) \<noteq> 0 then Inl AssertFail
      else (let (n, s') = getlabel s
            in case label_states cs s' of
                 Inl e \<Rightarrow> Inl e
               | Inr (cs', s'') \<Rightarrow> Inr (c\<lparr>cv_name := itoh (of_nat n)\<rparr> # cs', s'')))"

text \<open>The number of states used and the label of the default.\<close>

fun count_states :: "cstate \<Rightarrow> constvalue list \<Rightarrow> nat \<Rightarrow> string \<Rightarrow> fault + nat \<times> string" where
  "count_states s [] n lbl = Inr (n, lbl)"
| "count_states s (c # cs) n lbl =
     (if cv_index c = - 1 then count_states s cs n (cv_name c)
      else (case state_count s (cv_index c) of
              Inl e \<Rightarrow> Inl e
            | Inr k \<Rightarrow> count_states s cs (n + k) lbl))"

fun list_of_state :: "cstate \<Rightarrow> constvalue list \<Rightarrow> int \<Rightarrow> fault + constvalue option" where
  "list_of_state s [] st = Inr None"
| "list_of_state s (c # cs) st =
     (if cv_index c = - 1 then list_of_state s cs st
      else (case state_inlist s (cv_index c) st of
              Inl e \<Rightarrow> Inl e
            | Inr found \<Rightarrow> if found then Inr (Some c) else list_of_state s cs st))"

definition leader_case :: "string \<Rightarrow> constvalue list \<Rightarrow> int \<Rightarrow> string \<Rightarrow> nat \<Rightarrow> constvalue \<Rightarrow> cstate \<Rightarrow> fault + cstate" where
  "leader_case fname sts fsa_id lbl_default lbl_nostate st s =
     (if cv_index st \<noteq> fsa_id then Inr s
      else bind_res (list_of_state s sts (sint (cv_value st))) (\<lambda>r.
        case r of
          Some c \<Rightarrow> ffcase (cv_value st) (cv_name c) False s
        | None \<Rightarrow> Inr (if fst (strtol16 lbl_default) = int lbl_nostate then report 230 [cv_name st, fname] s else s)))"

definition leader_stub :: "nat \<Rightarrow> nat \<Rightarrow> int \<Rightarrow> constvalue list \<Rightarrow> cstate \<Rightarrow> fault + cstate" where
  "leader_stub lbl_nostate p listid sts s =
     (if \<not> listid > 0 then Inl AssertFail
      else bind_res (get_sym s (Some p)) (\<lambda>sy.
        bind_res (state_getfsa s listid) (\<lambda>fsa_id.
          if \<not> fsa_id \<ge> 0 then Inl AssertFail
          else bind_res (count_states s sts 0 (itoh (of_nat lbl_nostate))) (\<lambda>(statecount, lbl_default).
            case automaton_findid s fsa_id of
              None \<Rightarrow> Inl OutOfBounds
            | Some fsa \<Rightarrow> seq
                [stgwrite (instr_arg ''load.pri''), outval (cv_value fsa) False, stgwrite (TAB # ''; ''),
                 stgwrite (sym_name sy), stgwrite [NL], add_code (opcodes 1 + opargs 1),
                 \<lambda>s. let (lbl_table, s) = getlabel s
                      in seq [ffswitch lbl_table, setlabel lbl_table, ffcase (of_nat statecount) lbl_default True] s,
                 \<lambda>s. seq (map (leader_case (sym_name sy) sts fsa_id lbl_default lbl_nostate) (sc_state_tab s)) s,
                 stgwrite [NL]] s))))"

definition leader_function :: "nat \<Rightarrow> nat \<Rightarrow> cstate \<Rightarrow> fault + cstate" where
  "leader_function lbl_nostate p s = bind_res (get_sym s (Some p)) (\<lambda>sy.
     if \<not> state_function sy then Inr s
     else let sts = the (sym_states sy)
     in if sts = [] then Inl AssertFail
        else if \<not> (cv_index (sts ! 0) = - 1 \<or> cv_index (sts ! 0) > 0) then Inl AssertFail
        else let k = (if cv_index (sts ! 0) = - 1 \<and> length sts > 1 then 1 else 0);
                 listid = cv_index (sts ! k)
             in if listid = - 1
                then Inr (upd_sym p (\<lambda>sy. sy\<lparr>sym_states := Some (sts[k := (sts ! k)\<lparr>cv_name := ''0''\<rparr>])\<rparr>) s)
                else bind_res (label_states sts s) (\<lambda>(sts, s).
                  let s = upd_sym p (\<lambda>sy. sy\<lparr>sym_states := Some sts\<rparr>) s
                  in if strcmp (sym_name sy) uENTRYFUNC = 0 then Inr s
                     else leader_stub lbl_nostate p listid sts (upd_sym p (\<lambda>sy. sy\<lparr>sym_addr := code_idx s\<rparr>) s)))"

definition writeleader :: "cstate \<Rightarrow> fault + cstate" where
  "writeleader s =
     (if code_idx s \<noteq> 0 then Inl AssertFail
      else seq
        [begcseg, stgwrite ('';program exit point'' @ [NL]), stgwrite (instr ''halt 0''), add_code (opcodes 1 + opargs 1),
         \<lambda>s. bind_res (any_state_function (glbtab s) s) (\<lambda>any.
           if \<not> any then Inr s
           else seq
             [stgwrite (NL # '';exit point for functions called from the wrong state'' @ [NL]),
              \<lambda>s. let (lbl_nostate, s) = getlabel s
              in seq
                [setlabel lbl_nostate, stgwrite (instr_arg ''halt''), outval AMX_ERR_INVSTATE True,
                 add_code (opcodes 1 + opargs 1),
                 \<lambda>s. if glb_declared s \<noteq> 0 then Inl AssertFail else Inr s,
                 begdseg,
                 \<lambda>s. seq (map leader_automaton [0..<length (sc_automaton_tab s)]) s,
                 begcseg,
                 \<lambda>s. seq (map (leader_function lbl_nostate) (glbtab s)) s] s] s)] s)"

end
