(* ===== verification/Assembler.thy ===== *)
theory Assembler
  imports Symbols
begin

text \<open>
  The passes of the assembler, \<open>sc6.c\<close>: the opcode list and its binary search, the functions
  that parse the operands of an instruction and write its cells, the pass that finds the
  addresses of the labels, and the passes that write code and data. The binary file is a
  sequence of bytes with a position (\<open>pc_writebin\<close> and its neighbours in \<open>libpawnc.c\<close>); the
  function pointers of the opcode list are the constructors of \<open>opcode_proc\<close>.
\<close>

subsection \<open>The binary file\<close>

record binfile =
  bin_bytes :: "byte list"
  bin_pos :: nat
  bin_room :: bool

definition pc_writebin :: "byte list \<Rightarrow> binfile \<Rightarrow> bool \<times> binfile" where
  "pc_writebin buffer f =
     (if bin_room f
      then let old = bin_bytes f @ replicate (bin_pos f - length (bin_bytes f)) 0
           in (True, f\<lparr>bin_bytes := take (bin_pos f) old @ buffer @ drop (bin_pos f + length buffer) old,
                       bin_pos := bin_pos f + length buffer\<rparr>)
      else (False, f))"

definition pc_resetbin :: "nat \<Rightarrow> binfile \<Rightarrow> binfile" where
  "pc_resetbin offset f = f\<lparr>bin_pos := offset\<rparr>"

definition pc_lengthbin :: "binfile \<Rightarrow> nat" where
  "pc_lengthbin f = bin_pos f"

text \<open>The bytes of a cell, low byte first.\<close>

fun le_bytes :: "nat \<Rightarrow> cell \<Rightarrow> byte list" where
  "le_bytes 0 v = []"
| "le_bytes (Suc n) v = ucast v # le_bytes n (drop_bit 8 v)"

record asmstate =
  fbin :: binfile
  writeerror :: bool
  bytes_in :: int
  bytes_out :: int
  codeindex :: cell
  lbltab :: "cell option list"

subsection \<open>Text\<close>

definition skipwhitespace :: "string \<Rightarrow> string" where
  "skipwhitespace str = dropWhile isspace str"

definition stripcomment :: "string \<Rightarrow> string" where
  "stripcomment str = (if CHR '';'' \<in> set str then takeWhile (\<lambda>c. c \<noteq> CHR '';'') str @ [NL] else str)"

subsection \<open>Compact encoding\<close>

definition ENC_MAX :: nat where "ENC_MAX = 5"
definition ENC_MASK :: cell where "ENC_MASK = 0x0f"
definition AMX_COMPACTMARGIN :: int where "AMX_COMPACTMARGIN = 64"

fun groups :: "nat \<Rightarrow> cell \<Rightarrow> cell list" where
  "groups 0 p = []"
| "groups (Suc n) p = (p AND 0x7f) # groups n (drop_bit 7 p)"

text \<open>The loops that skip leading zeros and leading minus ones.\<close>

fun skip_zeros :: "cell list \<Rightarrow> nat \<Rightarrow> nat" where
  "skip_zeros t 0 = 0"
| "skip_zeros t (Suc k) =
     (if Suc k > 1 \<and> t ! k = 0 \<and> t ! (k - 1) AND 0x40 = 0 then skip_zeros t k else Suc k)"

fun skip_ones :: "cell list \<Rightarrow> nat \<Rightarrow> nat" where
  "skip_ones t 0 = 0"
| "skip_ones t (Suc k) =
     (if Suc k > 1 \<and> t ! k = 0x7f \<and> t ! (k - 1) AND 0x40 \<noteq> 0 then skip_ones t k else Suc k)"

definition encode_length :: "cell list \<Rightarrow> nat" where
  "encode_length t =
     (let index = skip_zeros t ENC_MAX;
          index = (if index = ENC_MAX \<and> t ! (index - 1) = ENC_MASK \<and> t ! (index - 2) AND 0x40 \<noteq> 0 then index - 1 else index)
      in skip_ones t index)"

definition encode_cell :: "cell \<Rightarrow> byte list" where
  "encode_cell c =
     (let t = groups ENC_MAX c
      in map (\<lambda>index. ucast (if index = 0 then t ! index else t ! index OR 0x80)) (rev [0..<encode_length t]))"

definition put_byte :: "byte \<Rightarrow> asmstate \<Rightarrow> asmstate" where
  "put_byte code a =
     (let (ok, f) = pc_writebin [code] (fbin a)
      in a\<lparr>fbin := f, writeerror := writeerror a \<or> \<not> ok, bytes_out := bytes_out a + 1\<rparr>)"

text \<open>\<open>write_encoded(fbin,&c,1)\<close>: every call writes one cell.\<close>

definition write_encoded :: "bool \<Rightarrow> cell \<Rightarrow> asmstate \<Rightarrow> fault + asmstate" where
  "write_encoded compress c a =
     (if compress
      then let a = fold put_byte (encode_cell c) a;
               a = a\<lparr>bytes_in := bytes_in a + 4\<rparr>
           in if bytes_out a - bytes_in a \<ge> AMX_COMPACTMARGIN - 2 then Inl (LongJump (bin_bytes (fbin a))) else Inr a
      else if pc_lengthbin (fbin a) mod 4 \<noteq> 0 then Inl AssertFail
      else let (ok, f) = pc_writebin (le_bytes 4 c) (fbin a)
           in Inr (a\<lparr>fbin := f, writeerror := writeerror a \<or> \<not> ok\<rparr>))"

subsection \<open>The opcode functions\<close>

text \<open>\<open>out\<close> tells whether a file is given (the C functions get \<open>NULL\<close> in the first pass).\<close>

definition write_cells :: "cstate \<Rightarrow> bool \<Rightarrow> cell list \<Rightarrow> asmstate \<Rightarrow> fault + asmstate" where
  "write_cells s out cs = (if out then seq (map (write_encoded (sc_compress s)) cs) else skip)"

definition noop :: "cstate \<Rightarrow> bool \<Rightarrow> string \<Rightarrow> cell \<Rightarrow> asmstate \<Rightarrow> fault + cell \<times> asmstate" where
  "noop s out params opcode a = Inr (0, a)"

definition parm0 :: "cstate \<Rightarrow> bool \<Rightarrow> string \<Rightarrow> cell \<Rightarrow> asmstate \<Rightarrow> fault + cell \<times> asmstate" where
  "parm0 s out params opcode a = bind_res (write_cells s out [opcode] a) (\<lambda>a. Inr (opcodes 1, a))"

definition parm1 :: "cstate \<Rightarrow> bool \<Rightarrow> string \<Rightarrow> cell \<Rightarrow> asmstate \<Rightarrow> fault + cell \<times> asmstate" where
  "parm1 s out params opcode a =
     bind_res (getparam params) (\<lambda>(p, _).
     bind_res (write_cells s out [opcode, p] a) (\<lambda>a. Inr (opcodes 1 + opargs 1, a)))"

lemma getparam_from_consumes: "getparam_from r s = Inr (v, n) \<Longrightarrow> length n < length s"
proof (induction r s rule: getparam_from.induct)
  case (1 result s)
  obtain w s' where h: "hex2long s = Inr (w, s')" using "1.prems" by (auto simp: getparam_from.simps [of result s] split: sum.splits)
  show ?case
  proof (cases "deref s' = CHR ''+''")
    case True
    then have "length n < length (tl s')"
      using "1.IH" [OF h refl] "1.prems" by (simp add: getparam_from.simps [of result s] h)
    then show ?thesis using hex2long_consumes [OF h] by simp
  next
    case False
    then show ?thesis using "1.prems" hex2long_consumes [OF h] by (simp add: getparam_from.simps [of result s] h)
  qed
qed

function dump_loop :: "cstate \<Rightarrow> bool \<Rightarrow> string \<Rightarrow> nat \<Rightarrow> asmstate \<Rightarrow> fault + nat \<times> asmstate" where
  "dump_loop s out params num a =
     (if params = [] then Inr (num, a)
      else case getparam params of
             Inl e \<Rightarrow> Inl e
           | Inr (p, params') \<Rightarrow>
               (case write_cells s out [p] a of
                  Inl e \<Rightarrow> Inl e
                | Inr a' \<Rightarrow> dump_loop s out (dropWhile isspace params') (num + 1) a'))"
  by pat_completeness auto
termination
  by (relation "measure (\<lambda>(s, out, params, num, a). length params)")
    (auto simp: getparam_def dest!: getparam_from_consumes intro: le_less_trans [OF length_dropWhile_le])

declare dump_loop.simps [simp del]

definition do_dump :: "cstate \<Rightarrow> bool \<Rightarrow> string \<Rightarrow> cell \<Rightarrow> asmstate \<Rightarrow> fault + cell \<times> asmstate" where
  "do_dump s out params opcode a = bind_res (dump_loop s out params 0 a) (\<lambda>(num, a). Inr (of_nat (num * 4), a))"

text \<open>\<open>i=(int)hex2long(...); assert(i>=0 && i<sc_labnum);\<close> and \<open>lbltab[i]\<close>.\<close>

definition label_index :: "cstate \<Rightarrow> string \<Rightarrow> fault + nat \<times> string" where
  "label_index s params = bind_res (hex2long params) (\<lambda>(v, rest).
     if 0 \<le> sint v \<and> sint v < int (sc_labnum s) then Inr (unat v, rest) else Inl AssertFail)"

definition label_address :: "nat \<Rightarrow> asmstate \<Rightarrow> fault + cell" where
  "label_address i a =
     (if i < length (lbltab a) then (case lbltab a ! i of Some v \<Rightarrow> Inr v | None \<Rightarrow> Inl OutOfBounds) else Inl AssertFail)"

definition do_call :: "cstate \<Rightarrow> bool \<Rightarrow> string \<Rightarrow> cell \<Rightarrow> asmstate \<Rightarrow> fault + cell \<times> asmstate" where
  "do_call s out params opcode a =
     (let name = takeWhile (\<lambda>c. \<not> isspace c) params
      in if length name = length params \<or> length name > sNAMEMAX then Inl AssertFail
         else bind_res
           (if deref name = CHR ''l'' \<and> deref (tl name) = CHR ''.''
            then bind_res (label_index s (drop 2 name)) (\<lambda>(i, _). if out then label_address i a else Inr 0)
            else bind_res (findglb name s) (\<lambda>p.
              case p of
                None \<Rightarrow> Inl AssertFail
              | Some q \<Rightarrow> bind_res (get_sym s p) (\<lambda>sy.
                  if (sym_ident sy = iFUNCTN \<or> sym_ident sy = iREFFUNC) \<and> sym_vclass sy = sGLOBAL
                  then Inr (sym_addr sy) else Inl AssertFail)))
           (\<lambda>p. bind_res (write_cells s out [opcode, p] a) (\<lambda>a. Inr (opcodes 1 + opargs 1, a))))"

definition do_jump :: "cstate \<Rightarrow> bool \<Rightarrow> string \<Rightarrow> cell \<Rightarrow> asmstate \<Rightarrow> fault + cell \<times> asmstate" where
  "do_jump s out params opcode a =
     bind_res (label_index s params) (\<lambda>(i, _).
     bind_res (if out then bind_res (label_address i a) (\<lambda>p. write_cells s True [opcode, p] a) else Inr a)
       (\<lambda>a. Inr (opcodes 1 + opargs 1, a)))"

definition do_switch :: "cstate \<Rightarrow> bool \<Rightarrow> string \<Rightarrow> cell \<Rightarrow> asmstate \<Rightarrow> fault + cell \<times> asmstate" where
  "do_switch s out params opcode a =
     bind_res (label_index s params) (\<lambda>(i, _).
     bind_res (if out then bind_res (label_address i a) (\<lambda>p. write_cells s True [opcode, p] a) else Inr a)
       (\<lambda>a. Inr (opcodes 1 + opargs 1, a)))"

definition do_case :: "cstate \<Rightarrow> bool \<Rightarrow> string \<Rightarrow> cell \<Rightarrow> asmstate \<Rightarrow> fault + cell \<times> asmstate" where
  "do_case s out params opcode a =
     bind_res (hex2long params) (\<lambda>(v, rest).
     bind_res (label_index s rest) (\<lambda>(i, _).
     bind_res (if out then bind_res (label_address i a) (\<lambda>p. write_cells s True [v, p] a) else Inr a)
       (\<lambda>a. Inr (opcodes 0 + opargs 2, a))))"

subsection \<open>The opcode list\<close>

datatype opcode_proc = Noop | Parm0 | Parm1 | Do_dump | Do_call | Do_jump | Do_switch | Do_case

fun call_proc :: "opcode_proc \<Rightarrow> cstate \<Rightarrow> bool \<Rightarrow> string \<Rightarrow> cell \<Rightarrow> asmstate \<Rightarrow> fault + cell \<times> asmstate" where
  "call_proc Noop = noop"
| "call_proc Parm0 = parm0"
| "call_proc Parm1 = parm1"
| "call_proc Do_dump = do_dump"
| "call_proc Do_call = do_call"
| "call_proc Do_jump = do_jump"
| "call_proc Do_switch = do_switch"
| "call_proc Do_case = do_case"

datatype opcode_entry = OPCODE (oc_opcode: nat) (oc_name: "string option") (oc_segment: nat) (oc_func: opcode_proc)

definition opcodelist :: "opcode_entry list" where
  "opcodelist =
    [OPCODE 0 None 0 Noop,
     OPCODE 78 (Some ''add'') sIN_CSEG Parm0, OPCODE 87 (Some ''add.c'') sIN_CSEG Parm1,
     OPCODE 14 (Some ''addr.alt'') sIN_CSEG Parm1, OPCODE 13 (Some ''addr.pri'') sIN_CSEG Parm1,
     OPCODE 30 (Some ''align.alt'') sIN_CSEG Parm1, OPCODE 29 (Some ''align.pri'') sIN_CSEG Parm1,
     OPCODE 81 (Some ''and'') sIN_CSEG Parm0, OPCODE 121 (Some ''bounds'') sIN_CSEG Parm1,
     OPCODE 137 (Some ''break'') sIN_CSEG Parm0, OPCODE 49 (Some ''call'') sIN_CSEG Do_call,
     OPCODE 50 (Some ''call.pri'') sIN_CSEG Parm0, OPCODE 0 (Some ''case'') sIN_CSEG Do_case,
     OPCODE 130 (Some ''casetbl'') sIN_CSEG Parm0, OPCODE 118 (Some ''cmps'') sIN_CSEG Parm1,
     OPCODE 0 (Some ''code'') 0 Noop, OPCODE 12 (Some ''const.alt'') sIN_CSEG Parm1,
     OPCODE 11 (Some ''const.pri'') sIN_CSEG Parm1, OPCODE 0 (Some ''data'') 0 Noop,
     OPCODE 114 (Some ''dec'') sIN_CSEG Parm1, OPCODE 113 (Some ''dec.alt'') sIN_CSEG Parm0,
     OPCODE 116 (Some ''dec.i'') sIN_CSEG Parm0, OPCODE 112 (Some ''dec.pri'') sIN_CSEG Parm0,
     OPCODE 115 (Some ''dec.s'') sIN_CSEG Parm1, OPCODE 0 (Some ''dump'') sIN_DSEG Do_dump,
     OPCODE 95 (Some ''eq'') sIN_CSEG Parm0, OPCODE 106 (Some ''eq.c.alt'') sIN_CSEG Parm1,
     OPCODE 105 (Some ''eq.c.pri'') sIN_CSEG Parm1, OPCODE 119 (Some ''fill'') sIN_CSEG Parm1,
     OPCODE 100 (Some ''geq'') sIN_CSEG Parm0, OPCODE 99 (Some ''grtr'') sIN_CSEG Parm0,
     OPCODE 120 (Some ''halt'') sIN_CSEG Parm1, OPCODE 45 (Some ''heap'') sIN_CSEG Parm1,
     OPCODE 27 (Some ''idxaddr'') sIN_CSEG Parm0, OPCODE 28 (Some ''idxaddr.b'') sIN_CSEG Parm1,
     OPCODE 109 (Some ''inc'') sIN_CSEG Parm1, OPCODE 108 (Some ''inc.alt'') sIN_CSEG Parm0,
     OPCODE 111 (Some ''inc.i'') sIN_CSEG Parm0, OPCODE 107 (Some ''inc.pri'') sIN_CSEG Parm0,
     OPCODE 110 (Some ''inc.s'') sIN_CSEG Parm1, OPCODE 86 (Some ''invert'') sIN_CSEG Parm0,
     OPCODE 55 (Some ''jeq'') sIN_CSEG Do_jump, OPCODE 60 (Some ''jgeq'') sIN_CSEG Do_jump,
     OPCODE 59 (Some ''jgrtr'') sIN_CSEG Do_jump, OPCODE 58 (Some ''jleq'') sIN_CSEG Do_jump,
     OPCODE 57 (Some ''jless'') sIN_CSEG Do_jump, OPCODE 56 (Some ''jneq'') sIN_CSEG Do_jump,
     OPCODE 54 (Some ''jnz'') sIN_CSEG Do_jump, OPCODE 52 (Some ''jrel'') sIN_CSEG Parm1,
     OPCODE 64 (Some ''jsgeq'') sIN_CSEG Do_jump, OPCODE 63 (Some ''jsgrtr'') sIN_CSEG Do_jump,
     OPCODE 62 (Some ''jsleq'') sIN_CSEG Do_jump, OPCODE 61 (Some ''jsless'') sIN_CSEG Do_jump,
     OPCODE 51 (Some ''jump'') sIN_CSEG Do_jump, OPCODE 128 (Some ''jump.pri'') sIN_CSEG Parm0,
     OPCODE 53 (Some ''jzer'') sIN_CSEG Do_jump, OPCODE 31 (Some ''lctrl'') sIN_CSEG Parm1,
     OPCODE 98 (Some ''leq'') sIN_CSEG Parm0, OPCODE 97 (Some ''less'') sIN_CSEG Parm0,
     OPCODE 25 (Some ''lidx'') sIN_CSEG Parm0, OPCODE 26 (Some ''lidx.b'') sIN_CSEG Parm1,
     OPCODE 2 (Some ''load.alt'') sIN_CSEG Parm1, OPCODE 9 (Some ''load.i'') sIN_CSEG Parm0,
     OPCODE 1 (Some ''load.pri'') sIN_CSEG Parm1, OPCODE 4 (Some ''load.s.alt'') sIN_CSEG Parm1,
     OPCODE 3 (Some ''load.s.pri'') sIN_CSEG Parm1, OPCODE 10 (Some ''lodb.i'') sIN_CSEG Parm1,
     OPCODE 6 (Some ''lref.alt'') sIN_CSEG Parm1, OPCODE 5 (Some ''lref.pri'') sIN_CSEG Parm1,
     OPCODE 8 (Some ''lref.s.alt'') sIN_CSEG Parm1, OPCODE 7 (Some ''lref.s.pri'') sIN_CSEG Parm1,
     OPCODE 34 (Some ''move.alt'') sIN_CSEG Parm0, OPCODE 33 (Some ''move.pri'') sIN_CSEG Parm0,
     OPCODE 117 (Some ''movs'') sIN_CSEG Parm1, OPCODE 85 (Some ''neg'') sIN_CSEG Parm0,
     OPCODE 96 (Some ''neq'') sIN_CSEG Parm0, OPCODE 134 (Some ''nop'') sIN_CSEG Parm0,
     OPCODE 84 (Some ''not'') sIN_CSEG Parm0, OPCODE 82 (Some ''or'') sIN_CSEG Parm0,
     OPCODE 43 (Some ''pop.alt'') sIN_CSEG Parm0, OPCODE 42 (Some ''pop.pri'') sIN_CSEG Parm0,
     OPCODE 46 (Some ''proc'') sIN_CSEG Parm0, OPCODE 40 (Some ''push'') sIN_CSEG Parm1,
     OPCODE 37 (Some ''push.alt'') sIN_CSEG Parm0, OPCODE 39 (Some ''push.c'') sIN_CSEG Parm1,
     OPCODE 36 (Some ''push.pri'') sIN_CSEG Parm0, OPCODE 38 (Some ''push.r'') sIN_CSEG Parm1,
     OPCODE 41 (Some ''push.s'') sIN_CSEG Parm1, OPCODE 133 (Some ''pushaddr'') sIN_CSEG Parm1,
     OPCODE 47 (Some ''ret'') sIN_CSEG Parm0, OPCODE 48 (Some ''retn'') sIN_CSEG Parm0,
     OPCODE 32 (Some ''sctrl'') sIN_CSEG Parm1, OPCODE 73 (Some ''sdiv'') sIN_CSEG Parm0,
     OPCODE 74 (Some ''sdiv.alt'') sIN_CSEG Parm0, OPCODE 104 (Some ''sgeq'') sIN_CSEG Parm0,
     OPCODE 103 (Some ''sgrtr'') sIN_CSEG Parm0, OPCODE 65 (Some ''shl'') sIN_CSEG Parm0,
     OPCODE 69 (Some ''shl.c.alt'') sIN_CSEG Parm1, OPCODE 68 (Some ''shl.c.pri'') sIN_CSEG Parm1,
     OPCODE 66 (Some ''shr'') sIN_CSEG Parm0, OPCODE 71 (Some ''shr.c.alt'') sIN_CSEG Parm1,
     OPCODE 70 (Some ''shr.c.pri'') sIN_CSEG Parm1, OPCODE 94 (Some ''sign.alt'') sIN_CSEG Parm0,
     OPCODE 93 (Some ''sign.pri'') sIN_CSEG Parm0, OPCODE 102 (Some ''sleq'') sIN_CSEG Parm0,
     OPCODE 101 (Some ''sless'') sIN_CSEG Parm0, OPCODE 72 (Some ''smul'') sIN_CSEG Parm0,
     OPCODE 88 (Some ''smul.c'') sIN_CSEG Parm1, OPCODE 20 (Some ''sref.alt'') sIN_CSEG Parm1,
     OPCODE 19 (Some ''sref.pri'') sIN_CSEG Parm1, OPCODE 22 (Some ''sref.s.alt'') sIN_CSEG Parm1,
     OPCODE 21 (Some ''sref.s.pri'') sIN_CSEG Parm1, OPCODE 67 (Some ''sshr'') sIN_CSEG Parm0,
     OPCODE 44 (Some ''stack'') sIN_CSEG Parm1, OPCODE 0 (Some ''stksize'') 0 Noop,
     OPCODE 16 (Some ''stor.alt'') sIN_CSEG Parm1, OPCODE 23 (Some ''stor.i'') sIN_CSEG Parm0,
     OPCODE 15 (Some ''stor.pri'') sIN_CSEG Parm1, OPCODE 18 (Some ''stor.s.alt'') sIN_CSEG Parm1,
     OPCODE 17 (Some ''stor.s.pri'') sIN_CSEG Parm1, OPCODE 24 (Some ''strb.i'') sIN_CSEG Parm1,
     OPCODE 79 (Some ''sub'') sIN_CSEG Parm0, OPCODE 80 (Some ''sub.alt'') sIN_CSEG Parm0,
     OPCODE 132 (Some ''swap.alt'') sIN_CSEG Parm0, OPCODE 131 (Some ''swap.pri'') sIN_CSEG Parm0,
     OPCODE 129 (Some ''switch'') sIN_CSEG Do_switch, OPCODE 123 (Some ''sysreq.c'') sIN_CSEG Parm1,
     OPCODE 135 (Some ''sysreq.d'') sIN_CSEG Parm1, OPCODE 122 (Some ''sysreq.pri'') sIN_CSEG Parm0,
     OPCODE 76 (Some ''udiv'') sIN_CSEG Parm0, OPCODE 77 (Some ''udiv.alt'') sIN_CSEG Parm0,
     OPCODE 75 (Some ''umul'') sIN_CSEG Parm0, OPCODE 35 (Some ''xchg'') sIN_CSEG Parm0,
     OPCODE 83 (Some ''xor'') sIN_CSEG Parm0, OPCODE 91 (Some ''zero'') sIN_CSEG Parm1,
     OPCODE 90 (Some ''zero.alt'') sIN_CSEG Parm0, OPCODE 89 (Some ''zero.pri'') sIN_CSEG Parm0,
     OPCODE 92 (Some ''zero.s'') sIN_CSEG Parm1]"

definition MAX_INSTR_LEN :: nat where "MAX_INSTR_LEN = 30"

definition opcode_name :: "nat \<Rightarrow> string" where
  "opcode_name i = (case oc_name (opcodelist ! i) of Some n \<Rightarrow> n | None \<Rightarrow> [])"

function findopcode_loop :: "string \<Rightarrow> nat \<Rightarrow> nat \<Rightarrow> nat" where
  "findopcode_loop str low high =
     (if low < high
      then let mid = (low + high) div 2; cmp = stricmp str (opcode_name mid)
           in if cmp > 0 then findopcode_loop str (mid + 1) high else findopcode_loop str low mid
      else low)"
  by pat_completeness auto
termination
  by (relation "measure (\<lambda>(str, low, high). high - low)") auto

declare findopcode_loop.simps [simp del]

definition findopcode :: "string \<Rightarrow> nat \<Rightarrow> nat" where
  "findopcode instr maxlen =
     (if maxlen \<ge> MAX_INSTR_LEN then 0
      else let str = take maxlen instr; low = findopcode_loop str 1 (length opcodelist - 1)
           in if stricmp str (opcode_name low) = 0 then low else 0)"

subsection \<open>The passes\<close>

definition is_label :: "string \<Rightarrow> bool" where
  "is_label instr \<longleftrightarrow> tolower (deref instr) = CHR ''l'' \<and> deref (tl instr) = CHR ''.''"

text \<open>The end of the instruction, and the list entry found for it.\<close>

definition instr_length :: "string \<Rightarrow> nat" where
  "instr_length instr = length (takeWhile (\<lambda>c. \<not> isspace c) instr)"

definition pass1_line :: "cstate \<Rightarrow> string \<Rightarrow> asmstate \<Rightarrow> fault + asmstate" where
  "pass1_line s line a =
     (let instr = skipwhitespace (stripcomment line)
      in if instr = [] then Inr a
         else if is_label instr
         then bind_res (label_index s (drop 2 instr)) (\<lambda>(lindex, _).
                if lindex < length (lbltab a) then Inr (a\<lparr>lbltab := (lbltab a)[lindex := Some (codeindex a)]\<rparr>)
                else Inl OutOfBounds)
         else let n = instr_length instr; i = findopcode instr n; oc = opcodelist ! i
              in if oc_name oc = None then Inl (Fatal 104)
                 else if oc_segment oc = sIN_CSEG
                 then bind_res (call_proc (oc_func oc) s False (skipwhitespace (drop n instr)) (of_nat (oc_opcode oc)) a)
                        (\<lambda>(n, a). Inr (a\<lparr>codeindex := codeindex a + n\<rparr>))
                 else Inr a)"

definition pass2_line :: "cstate \<Rightarrow> nat \<Rightarrow> string \<Rightarrow> asmstate \<Rightarrow> fault + asmstate" where
  "pass2_line s pass line a =
     (let instr = skipwhitespace (stripcomment line)
      in if instr = [] \<or> is_label instr then Inr a
         else let n = instr_length instr; i = findopcode instr n; oc = opcodelist ! i
              in if oc_name oc = None then Inl AssertFail
                 else if oc_segment oc = pass
                 then bind_res (call_proc (oc_func oc) s True (skipwhitespace (drop n instr)) (of_nat (oc_opcode oc)) a)
                        (\<lambda>(n, a). Inr a)
                 else Inr a)"

text \<open>
  \<open>while (pc_readasm(fin,line,sizeof line)!=NULL)\<close>; each turn reads at least one byte, so the
  fuel, the length of the file, is enough.
\<close>

definition LINE_SIZE :: nat where "LINE_SIZE = 256"

fun line_loop :: "(string \<Rightarrow> asmstate \<Rightarrow> fault + asmstate) \<Rightarrow> nat \<Rightarrow> memfile \<Rightarrow> asmstate \<Rightarrow> fault + memfile \<times> asmstate" where
  "line_loop f 0 fin a = Inl NoFuel"
| "line_loop f (Suc fuel) fin a =
     (case pc_readasm fin LINE_SIZE of
        Inl e \<Rightarrow> Inl e
      | Inr (None, fin') \<Rightarrow> Inr (fin', a)
      | Inr (Some line, fin') \<Rightarrow> (case f line a of Inl e \<Rightarrow> Inl e | Inr a' \<Rightarrow> line_loop f fuel fin' a'))"

definition asm_pass :: "(string \<Rightarrow> asmstate \<Rightarrow> fault + asmstate) \<Rightarrow> memfile \<Rightarrow> asmstate \<Rightarrow> fault + memfile \<times> asmstate" where
  "asm_pass f fin a = bind_res (pc_resetasm fin) (\<lambda>fin. line_loop f (Suc (length (contents fin))) fin a)"

definition first_pass :: "cstate \<Rightarrow> memfile \<Rightarrow> asmstate \<Rightarrow> fault + memfile \<times> asmstate" where
  "first_pass s fin a =
     (if sc_labnum s > 0
      then if \<not> granted (mem s) (sc_labnum s * 4) then Inl (Fatal 103)
           else asm_pass (pass1_line s) fin (a\<lparr>lbltab := replicate (sc_labnum s) None, codeindex := 0\<rparr>)
      else Inr (fin, a\<lparr>lbltab := []\<rparr>))"

definition second_pass :: "cstate \<Rightarrow> memfile \<Rightarrow> asmstate \<Rightarrow> fault + memfile \<times> asmstate" where
  "second_pass s fin a =
     bind_res (asm_pass (pass2_line s sIN_CSEG) fin (a\<lparr>bytes_in := 0, bytes_out := 0\<rparr>)) (\<lambda>(fin, a).
     bind_res (asm_pass (pass2_line s sIN_DSEG) fin a) (\<lambda>(fin, a).
       if bytes_out a - bytes_in a > 0 then Inl (Fatal 106) else Inr (fin, a)))"

end
