(* ===== verification/AssemblerFacts.thy ===== *)
theory AssemblerFacts
  imports Assembler
begin

text \<open>
  Correctness of the assembler's parts: the opcode list is sorted, so the binary search finds
  an instruction exactly when the list has it; a pass over the file is the sequence of its
  lines; and the first pass computes what the second pass writes.
\<close>

subsection \<open>The binary search\<close>

lemma opcodelist_length: "length opcodelist = 138"
  by (simp add: opcodelist_def)

fun adjacent :: "string list \<Rightarrow> bool" where
  "adjacent (a # b # ns) \<longleftrightarrow> stricmp a b < 0 \<and> adjacent (b # ns)"
| "adjacent _ \<longleftrightarrow> True"

lemma stricmp_simps:
  "stricmp [] [] = 0"
  "stricmp [] (y # ys) = - int (ord (tolower y))"
  "stricmp (x # xs) [] = int (ord (tolower x))"
  "stricmp (x # xs) (y # ys) =
     (if x = y then stricmp xs ys
      else let a = tolower x; b = tolower y in if a = b then stricmp xs ys else int (ord a) - int (ord b))"
  by (simp_all add: stricmp_def Let_def)

lemma opcodes_adjacent: "adjacent (map (\<lambda>e. the (oc_name e)) (tl opcodelist))"
  by (simp add: opcodelist_def stricmp_simps tolower_def isupper_def)

lemma opcodes_named: "list_all (\<lambda>e. oc_name e \<noteq> None) (tl opcodelist)"
  by (simp add: opcodelist_def)

lemma cstring_tolower [simp]: "cstring (map tolower s) \<longleftrightarrow> cstring s"
proof -
  have "tolower c = NUL \<longleftrightarrow> c = NUL" for c
  proof (cases "isupper c")
    case True
    then have "ord c + 32 < 256" "c \<noteq> NUL" "ord c + 32 \<noteq> 0" by (auto simp: isupper_def NUL_def)
    then show ?thesis using True ord_NUL_iff [of "tolower c"] by (simp add: tolower_def)
  qed (simp add: tolower_def)
  then show ?thesis unfolding cstring_def by (metis (no_types, lifting) imageE image_eqI list.set_map)
qed

lemma stricmp_antisym: "stricmp t s = - stricmp s t"
  unfolding stricmp_def by (rule strcmp_antisym)

lemma stricmp_less_trans:
  "cstring s \<Longrightarrow> cstring t \<Longrightarrow> cstring u \<Longrightarrow> stricmp s t < 0 \<Longrightarrow> stricmp t u \<le> 0 \<Longrightarrow> stricmp s u < 0"
  unfolding stricmp_def by (rule strcmp_less_trans) simp_all

lemma stricmp_trans:
  "cstring s \<Longrightarrow> cstring t \<Longrightarrow> cstring u \<Longrightarrow> stricmp s t \<le> 0 \<Longrightarrow> stricmp t u \<le> 0 \<Longrightarrow> stricmp s u \<le> 0"
  unfolding stricmp_def by (rule strcmp_trans) simp_all

lemma adjacent_sorted: "adjacent ns \<Longrightarrow> list_all cstring ns \<Longrightarrow> sorted_wrt (\<lambda>a b. stricmp a b < 0) ns"
proof (induction ns rule: adjacent.induct)
  case (1 a b ns)
  then have s: "sorted_wrt (\<lambda>a b. stricmp a b < 0) (b # ns)" and ab: "stricmp a b < 0" by auto
  have "stricmp a c < 0" if "c \<in> set ns" for c
  proof (rule stricmp_less_trans [OF _ _ _ ab])
    show "stricmp b c \<le> 0" using s that by auto
  qed (use "1.prems" that in \<open>auto simp: list_all_iff\<close>)
  with s ab show ?case by auto
qed auto

lemma opcodes_cstring: "list_all cstring (map (\<lambda>e. the (oc_name e)) (tl opcodelist))"
  by (simp add: opcodelist_def NUL_def)

lemma opcode_name_tl: "1 \<le> i \<Longrightarrow> i < 138 \<Longrightarrow> opcode_name i = map (\<lambda>e. the (oc_name e)) (tl opcodelist) ! (i - 1)"
proof -
  assume i: "1 \<le> i" "i < 138"
  have e: "opcodelist ! i = tl opcodelist ! (i - 1)" using i opcodelist_length by (simp add: nth_tl)
  have "oc_name (tl opcodelist ! (i - 1)) \<noteq> None"
    using opcodes_named i opcodelist_length by (simp add: list_all_length)
  then show ?thesis using i opcodelist_length by (auto simp: opcode_name_def e)
qed

lemma opcode_name_less:
  assumes "1 \<le> i" "i < j" "j < 138"
  shows "stricmp (opcode_name i) (opcode_name j) < 0"
proof -
  have "i - 1 < j - 1" "j - 1 < length (tl opcodelist)" using assms opcodelist_length by auto
  then show ?thesis
    using sorted_wrt_nth_less [OF adjacent_sorted [OF opcodes_adjacent opcodes_cstring], of "i - 1" "j - 1"] assms
    by (simp add: opcode_name_tl)
qed

lemma opcode_name_cstring: "1 \<le> i \<Longrightarrow> i < 138 \<Longrightarrow> cstring (opcode_name i)"
  using opcodes_cstring opcodelist_length by (simp add: opcode_name_tl list_all_length)

lemma findopcode_loop_spec:
  shows "cstring str \<Longrightarrow> 1 \<le> low \<Longrightarrow> low \<le> high \<Longrightarrow> high < 138 \<Longrightarrow>
    low \<le> findopcode_loop str low high \<and> findopcode_loop str low high \<le> high \<and>
    (\<forall>j. low \<le> j \<and> j < findopcode_loop str low high \<longrightarrow> stricmp str (opcode_name j) > 0) \<and>
    (\<forall>j. findopcode_loop str low high \<le> j \<and> j < high \<longrightarrow> stricmp str (opcode_name j) \<le> 0)"
proof (induction str low high rule: findopcode_loop.induct)
  case (1 str low high)
  show ?case
  proof (cases "low < high")
    case True
    let ?mid = "(low + high) div 2"
    have mid: "1 \<le> ?mid" "low \<le> ?mid" "?mid < high" using True "1.prems" by auto
    have cs: "cstring (opcode_name j)" if "low \<le> j" "j \<le> high" for j using that "1.prems" by (intro opcode_name_cstring) auto
    show ?thesis
    proof (cases "stricmp str (opcode_name ?mid) > 0")
      case pos: True
      have e: "findopcode_loop str low high = findopcode_loop str (?mid + 1) high"
        using True pos by (subst findopcode_loop.simps) (simp add: Let_def)
      have "stricmp str (opcode_name j) > 0" if "low \<le> j" "j < ?mid + 1" for j
      proof (cases "j = ?mid")
        case False
        then have "stricmp (opcode_name j) (opcode_name ?mid) < 0" using that mid "1.prems" by (intro opcode_name_less) auto
        moreover have "stricmp (opcode_name ?mid) str \<le> 0" using pos stricmp_antisym [of str "opcode_name ?mid"] by simp
        ultimately have "stricmp (opcode_name j) str < 0"
          using cs [of j] cs [of ?mid] that mid 1(3) by - (rule stricmp_less_trans [of "opcode_name j" "opcode_name ?mid" str], auto)
        then show ?thesis using stricmp_antisym [of str "opcode_name j"] by simp
      qed (simp add: pos)
      moreover have "?mid + 1 \<le> findopcode_loop str (?mid + 1) high \<and> findopcode_loop str (?mid + 1) high \<le> high \<and>
          (\<forall>j. ?mid + 1 \<le> j \<and> j < findopcode_loop str (?mid + 1) high \<longrightarrow> stricmp str (opcode_name j) > 0) \<and>
          (\<forall>j. findopcode_loop str (?mid + 1) high \<le> j \<and> j < high \<longrightarrow> stricmp str (opcode_name j) \<le> 0)"
        by (rule "1.IH"(1) [OF True refl refl pos]) (use mid "1.prems" in auto)
      ultimately show ?thesis using mid unfolding e by (auto simp: not_le) (metis not_le)
    next
      case neg: False
      have e: "findopcode_loop str low high = findopcode_loop str low ?mid"
        using True neg by (subst findopcode_loop.simps) (simp add: Let_def)
      have "stricmp str (opcode_name j) \<le> 0" if "?mid \<le> j" "j < high" for j
      proof (cases "j = ?mid")
        case False
        then have "stricmp (opcode_name ?mid) (opcode_name j) \<le> 0"
          using that mid "1.prems" opcode_name_less [of ?mid j] by auto
        then show ?thesis using neg cs [of ?mid] cs [of j] that mid 1(3) by - (rule stricmp_trans [of str "opcode_name ?mid"], auto)
      qed (use neg in simp)
      moreover have "low \<le> findopcode_loop str low ?mid \<and> findopcode_loop str low ?mid \<le> ?mid \<and>
          (\<forall>j. low \<le> j \<and> j < findopcode_loop str low ?mid \<longrightarrow> stricmp str (opcode_name j) > 0) \<and>
          (\<forall>j. findopcode_loop str low ?mid \<le> j \<and> j < ?mid \<longrightarrow> stricmp str (opcode_name j) \<le> 0)"
        by (rule "1.IH"(2) [OF True refl refl neg]) (use mid "1.prems" in auto)
      ultimately show ?thesis using mid unfolding e by (auto simp: not_le) (metis not_le)
    qed
  next
    case False
    then have "findopcode_loop str low high = low" by (subst findopcode_loop.simps) simp
    then show ?thesis using False "1.prems" by auto
  qed
qed


lemma findopcode_iff:
  assumes "cstring instr" "n < MAX_INSTR_LEN"
  shows "findopcode instr n < 138"
    and "1 \<le> i \<Longrightarrow> i < 138 \<Longrightarrow> stricmp (take n instr) (opcode_name i) = 0 \<longleftrightarrow> findopcode instr n = i"
proof -
  let ?str = "take n instr"
  let ?r = "findopcode_loop ?str 1 137"
  have cs: "cstring ?str" using assms(1) by (auto simp: cstring_def dest: in_set_takeD)
  from findopcode_loop_spec [OF cs, of 1 137] have r: "1 \<le> ?r" "?r \<le> 137" "\<forall>j. 1 \<le> j \<and> j < ?r \<longrightarrow> stricmp ?str (opcode_name j) > 0"
      "\<forall>j. ?r \<le> j \<and> j < 137 \<longrightarrow> stricmp ?str (opcode_name j) \<le> 0"
    by auto
  have f: "findopcode instr n = (if stricmp ?str (opcode_name ?r) = 0 then ?r else 0)"
    using assms(2) by (simp add: findopcode_def opcodelist_length Let_def)
  have eq: "i = ?r" if i: "1 \<le> i" "i < 138" and e: "stricmp ?str (opcode_name i) = 0" for i
  proof (rule ccontr)
    assume "i \<noteq> ?r"
    then consider "i < ?r" | "?r < i" by linarith
    then show False
    proof cases
      case 1
      then show False using r(3) i e by fastforce
    next
      case 2
      then have "stricmp (opcode_name ?r) (opcode_name i) < 0" using r(1) i by (intro opcode_name_less) auto
      moreover have "stricmp (opcode_name i) (opcode_name ?r) \<le> 0"
        using r(1,2,4) 2 i e cs stricmp_antisym [of ?str "opcode_name i"]
        by - (rule stricmp_trans [of "opcode_name i" ?str], auto intro: opcode_name_cstring)
      ultimately show False using stricmp_antisym [of "opcode_name i" "opcode_name ?r"] by simp
    qed
  qed
  show "findopcode instr n < 138" using r(2) by (simp add: f)
  show "stricmp ?str (opcode_name i) = 0 \<longleftrightarrow> findopcode instr n = i" if "1 \<le> i" "i < 138"
    using eq [OF that] that r(1) by (auto simp: f)
qed

text \<open>C27: An instruction is found exactly when the list has it under that name, in upper or lower case; every entry
  of the list is found at its place, and a text that is no instruction gives entry 0.\<close>

theorem findopcode_correct:
  assumes "cstring instr" "n < MAX_INSTR_LEN"
  shows "findopcode instr n < length opcodelist \<and>
    (\<forall>i. 1 \<le> i \<and> i < length opcodelist \<longrightarrow> (findopcode instr n = i \<longleftrightarrow> stricmp (take n instr) (opcode_name i) = 0)) \<and>
    (findopcode instr n = 0 \<longleftrightarrow> (\<forall>i. 1 \<le> i \<and> i < length opcodelist \<longrightarrow> stricmp (take n instr) (opcode_name i) \<noteq> 0))"
proof -
  have "findopcode instr n = 0 \<or> 1 \<le> findopcode instr n" by linarith
  then show ?thesis unfolding opcodelist_length using findopcode_iff [OF assms] by (metis zero_less_one not_le)
qed

theorem findopcode_correct_witness:
  "findopcode (''Load.S.pri 8'' @ [NL]) 10 = 65 \<and> findopcode (''loadi'' @ [NL]) 5 = 0"
proof -
  have c: "cstring (''Load.S.pri 8'' @ [NL])" "cstring (''loadi'' @ [NL])" by (simp_all add: NUL_def NL_def)
  have "opcode_name 65 = ''load.s.pri''" by (simp add: opcode_name_def opcodelist_def)
  moreover have "stricmp (take 10 (''Load.S.pri 8'' @ [NL])) ''load.s.pri'' = 0" by code_simp
  ultimately have "stricmp (take 10 (''Load.S.pri 8'' @ [NL])) (opcode_name 65) = 0" by simp
  then have "findopcode (''Load.S.pri 8'' @ [NL]) 10 = 65"
    using findopcode_correct [OF c(1), of 10] by (simp add: MAX_INSTR_LEN_def opcodelist_length)
  moreover have "findopcode (''loadi'' @ [NL]) 5 = 0"
  proof -
    have "list_all (\<lambda>e. stricmp (take 5 (''loadi'' @ [NL])) (the (oc_name e)) \<noteq> 0) (tl opcodelist)"
      by (simp add: opcodelist_def stricmp_simps tolower_def isupper_def)
    then have "\<forall>i. 1 \<le> i \<and> i < length opcodelist \<longrightarrow> stricmp (take 5 (''loadi'' @ [NL])) (opcode_name i) \<noteq> 0"
      by (auto simp: list_all_length opcode_name_tl opcodelist_length)
    then show ?thesis using findopcode_correct [OF c(2), of 5] by (simp add: MAX_INSTR_LEN_def)
  qed
  ultimately show ?thesis by blast
qed

subsection \<open>A pass is the sequence of its lines\<close>

lemma line_loop_text:
  assumes "mf_wf fin" "2 \<le> LINE_SIZE" "cstring (contents fin)"
  shows "length (contents fin) - position fin < fuel \<Longrightarrow>
    case seq (map f (text_lines LINE_SIZE (drop (position fin) (contents fin)))) a of
      Inl e \<Rightarrow> line_loop f fuel fin a = Inl e
    | Inr a' \<Rightarrow> \<exists>fin'. line_loop f fuel fin a = Inr (fin', a') \<and> mf_wf fin' \<and> contents fin' = contents fin"
  using assms
proof (induction fuel arbitrary: fin a)
  case (Suc fuel)
  show ?case
  proof (cases "position fin < length (contents fin)")
    case False
    then have "pc_readasm fin LINE_SIZE = Inr (None, fin)" using asmfile.read_eof Suc.prems by simp
    then show ?thesis using False Suc.prems by (simp add: text_lines.simps)
  next
    case True
    define l where "l = next_line LINE_SIZE (drop (position fin) (contents fin))"
    obtain m where m: "pc_readasm fin LINE_SIZE = Inr (Some l, m)" "mf_wf m" "contents m = contents fin" "position m = position fin + length l"
      using asmfile.read_more [OF Suc.prems(2,3,4) True] unfolding l_def by blast
    have "l \<noteq> []" unfolding l_def using True Suc.prems by (intro next_line_nonempty) auto
    then have less: "length (contents m) - position m < fuel" using Suc.prems(1) True unfolding m(3,4) by (cases l) auto
    have t: "text_lines LINE_SIZE (drop (position fin) (contents fin)) = l # text_lines LINE_SIZE (drop (position m) (contents m))"
      using True Suc.prems(3) by (subst text_lines.simps) (simp add: l_def [symmetric] m add.commute)
    show ?thesis
    proof (cases "f l a")
      case (Inr a1)
      from Suc.IH [OF less m(2) Suc.prems(3), of a1] Suc.prems(4) m Inr show ?thesis unfolding t by (simp split: sum.splits)
    qed (simp add: t m)
  qed
qed simp

lemma asm_pass_lines:
  assumes "mf_wf fin" "cstring (contents fin)"
  shows "case seq (map f (text_lines LINE_SIZE (contents fin))) a of
      Inl e \<Rightarrow> asm_pass f fin a = Inl e
    | Inr a' \<Rightarrow> \<exists>fin'. asm_pass f fin a = Inr (fin', a') \<and> mf_wf fin' \<and> contents fin' = contents fin"
proof -
  obtain f0 where f0: "pc_resetasm fin = Inr f0" "mf_wf f0" "contents f0 = contents fin" "position f0 = 0"
    using asmfile.reset_ok [OF assms(1)] by blast
  have "2 \<le> LINE_SIZE" by (simp add: LINE_SIZE_def)
  from line_loop_text [OF f0(2) this, of "Suc (length (contents fin))" f a] assms(2) f0
  show ?thesis by (simp add: asm_pass_def del: line_loop.simps split: sum.splits)
qed

subsection \<open>The two passes agree\<close>

text \<open>The offset in the binary file, and that no write has failed.\<close>

abbreviation offset :: "asmstate \<Rightarrow> cell" where
  "offset a \<equiv> of_nat (bin_pos (fbin a))"

abbreviation room :: "asmstate \<Rightarrow> bool" where
  "room a \<equiv> bin_room (fbin a)"

lemma length_le_bytes [simp]: "length (le_bytes n v) = n"
  by (induction n arbitrary: v) auto

lemma write_cells_plain:
  assumes "\<not> sc_compress s"
  shows "room a \<Longrightarrow> write_cells s True cs a = Inr a' \<Longrightarrow>
    room a' \<and> offset a' = offset a + of_nat (4 * length cs) \<and> lbltab a' = lbltab a \<and> codeindex a' = codeindex a"
proof (induction cs arbitrary: a)
  case (Cons c cs)
  from Cons.prems(2) obtain a1 where a1: "write_encoded False c a = Inr a1" "write_cells s True cs a1 = Inr a'"
    using assms by (auto simp: write_cells_def)
  have "room a1 \<and> offset a1 = offset a + 4 \<and> lbltab a1 = lbltab a \<and> codeindex a1 = codeindex a"
    using a1(1) Cons.prems(1) by (auto simp: write_encoded_def pc_writebin_def Let_def split: if_splits)
  with Cons.IH [OF _ a1(2)] show ?case by auto
qed (simp add: write_cells_def)

lemma write_cells_none: "write_cells s False cs a = Inr a"
  by (simp add: write_cells_def skip_def)

lemma dump_loop_sizes:
  shows "out \<Longrightarrow> \<not> sc_compress s \<Longrightarrow> room a \<Longrightarrow> dump_loop s out params k a = Inr (n, a') \<Longrightarrow> dump_loop s False params k b = Inr (m, b') \<Longrightarrow>
    m = n \<and> b' = b \<and> room a' \<and> offset a' = offset a + of_nat (4 * n) - of_nat (4 * k) \<and> codeindex a' = codeindex a"
proof (induction s out params k a rule: dump_loop.induct)
  case (1 s out params num a)
  then have [simp]: out by simp
  show ?case
  proof (cases "params = []")
    case True
    then show ?thesis using "1.prems" by (simp add: dump_loop.simps)
  next
    case False
    then obtain p r a1 where p: "getparam params = Inr (p, r)" "write_cells s True [p] a = Inr a1"
        "dump_loop s True (dropWhile isspace r) (num + 1) a1 = Inr (n, a')"
      using "1.prems"(4) by (auto simp: dump_loop.simps [of s True params] split: sum.splits prod.splits)
    have q: "dump_loop s False (dropWhile isspace r) (num + 1) b = Inr (m, b')"
      using "1.prems"(5) False p(1) by (simp add: dump_loop.simps [of s False params] write_cells_none)
    have a1: "room a1 \<and> offset a1 = offset a + 4 \<and> lbltab a1 = lbltab a \<and> codeindex a1 = codeindex a"
      using write_cells_plain [OF "1.prems"(2,3) p(2)] by simp
    from "1.IH" [OF False p(1) refl _ _ "1.prems"(2) _ _ q] p a1
    show ?thesis by (simp add: algebra_simps)
  qed
qed

lemma call_proc_sizes:
  assumes "\<not> sc_compress s" "room a" "call_proc p s True params oc a = Inr (n, a')" "call_proc p s False params oc b = Inr (m, b')"
  shows "m = n \<and> b' = b \<and> room a' \<and> offset a' = offset a + n"
proof (cases p)
  case Do_dump
  then show ?thesis using assms dump_loop_sizes [OF TrueI assms(1,2)]
    by (fastforce simp: do_dump_def)
qed (use assms in \<open>auto simp: noop_def parm0_def parm1_def do_call_def do_jump_def do_switch_def do_case_def write_cells_none opcodes_def opargs_def
      Let_def split: if_splits dest!: write_cells_plain [OF assms(1,2)]\<close>)

text \<open>The label a line defines.\<close>

definition defines_label :: "cstate \<Rightarrow> nat \<Rightarrow> string \<Rightarrow> bool" where
  "defines_label s i line \<longleftrightarrow>
     (let instr = skipwhitespace (stripcomment line)
      in instr \<noteq> [] \<and> is_label instr \<and> (\<exists>r. label_index s (drop 2 instr) = Inr (i, r)))"

definition code_pass :: "cstate \<Rightarrow> string list \<Rightarrow> asmstate \<Rightarrow> fault + asmstate" where
  "code_pass s ls = seq (map (pass2_line s sIN_CSEG) ls)"

lemma lines_agree:
  assumes "\<not> sc_compress s" "room a" "pass2_line s sIN_CSEG l a = Inr a'" "pass1_line s l b = Inr b'"
  shows "room a' \<and> offset a' - offset a = codeindex b' - codeindex b \<and>
    (lbltab b' = lbltab b \<or>
     (\<exists>i. defines_label s i l \<and> i < length (lbltab b) \<and> lbltab b' = (lbltab b)[i := Some (codeindex b)]))"
proof -
  define instr where "instr = skipwhitespace (stripcomment l)"
  define oc where "oc = opcodelist ! findopcode instr (instr_length instr)"
  note d = instr_def [symmetric] oc_def [symmetric]
  consider "instr = []" | "instr \<noteq> []" "is_label instr" | "instr \<noteq> []" "\<not> is_label instr" by blast
  then show ?thesis
  proof cases
    case 1
    then show ?thesis using assms by (simp add: pass1_line_def pass2_line_def d)
  next
    case 2
    then show ?thesis using assms by (auto simp: pass1_line_def pass2_line_def d defines_label_def split: if_splits)
  next
    case 3
    then have n: "oc_name oc \<noteq> None" using assms(3) by (auto simp: pass2_line_def Let_def d split: if_splits)
    show ?thesis
    proof (cases "oc_segment oc = sIN_CSEG")
      case True
      let ?params = "skipwhitespace (drop (instr_length instr) instr)"
      obtain m b1 where b: "call_proc (oc_func oc) s False ?params (of_nat (oc_opcode oc)) b = Inr (m, b1)"
          "b' = b1\<lparr>codeindex := codeindex b1 + m\<rparr>"
        using assms(4) 3 n True by (auto simp: pass1_line_def Let_def d)
      obtain n where a: "call_proc (oc_func oc) s True ?params (of_nat (oc_opcode oc)) a = Inr (n, a')"
        using assms(3) 3 n True by (auto simp: pass2_line_def Let_def d)
      from call_proc_sizes [OF assms(1,2) a b(1)] b(2) show ?thesis by simp
    next
      case False
      then show ?thesis using assms 3 n by (simp add: pass1_line_def pass2_line_def Let_def d)
    qed
  qed
qed

lemma cell_diff_trans: "(p :: cell) - q = r - s \<Longrightarrow> q - t = s - u \<Longrightarrow> p - t = r - u"
proof -
  assume "p - q = r - s" "q - t = s - u"
  moreover have "p - t = (p - q) + (q - t)" "r - u = (r - s) + (s - u)" by simp_all
  ultimately show ?thesis by metis
qed

lemma passes_agree:
  assumes "\<not> sc_compress s" "room a"
  shows "code_pass s ls a = Inr a' \<Longrightarrow> seq (map (pass1_line s) ls) b = Inr b' \<Longrightarrow>
    room a' \<and> offset a' - offset a = codeindex b' - codeindex b \<and> length (lbltab b') = length (lbltab b) \<and>
    (\<forall>i < length (lbltab b). \<forall>v. lbltab b' ! i = Some v \<longrightarrow> lbltab b ! i = Some v \<or>
       (\<exists>k < length ls. \<exists>c. defines_label s i (ls ! k) \<and> code_pass s (take k ls) a = Inr c \<and>
          v - codeindex b = offset c - offset a))"
proof (induction ls arbitrary: a' b' rule: rev_induct)
  case (snoc l ls)
  obtain a1 where a1: "code_pass s ls a = Inr a1" "pass2_line s sIN_CSEG l a1 = Inr a'"
    using snoc.prems(1) by (auto simp: code_pass_def seq_append)
  obtain b1 where b1: "seq (map (pass1_line s) ls) b = Inr b1" "pass1_line s l b1 = Inr b'"
    using snoc.prems(2) by (auto simp: seq_append)
  note IH = snoc.IH [OF a1(1) b1(1)]
  have step: "room a'" "offset a' - offset a1 = codeindex b' - codeindex b1"
      "lbltab b' = lbltab b1 \<or> (\<exists>i. defines_label s i l \<and> i < length (lbltab b1) \<and> lbltab b' = (lbltab b1)[i := Some (codeindex b1)])"
    using lines_agree [OF assms(1) _ a1(2) b1(2)] IH by auto
  have "offset a' - offset a = codeindex b' - codeindex b"
    using cell_diff_trans [OF step(2)] IH by blast
  moreover have "lbltab b ! i = Some v \<or> (\<exists>k < length (ls @ [l]). \<exists>c. defines_label s i ((ls @ [l]) ! k) \<and>
      code_pass s (take k (ls @ [l])) a = Inr c \<and> v - codeindex b = offset c - offset a)"
    if i: "i < length (lbltab b)" and v: "lbltab b' ! i = Some v" for i v
  proof (cases "defines_label s i l \<and> v = codeindex b1")
    case True
    then show ?thesis using a1(1) IH by (intro disjI2 exI [of _ "length ls"]) auto
  next
    case False
    have "lbltab b1 ! i = Some v"
      using step(3) v False IH i by (auto simp: nth_list_update split: if_splits)
    then consider "lbltab b ! i = Some v" | k c where "k < length ls" "defines_label s i (ls ! k)" "code_pass s (take k ls) a = Inr c"
        "v - codeindex b = offset c - offset a"
      using IH i by blast
    then show ?thesis
    proof cases
      case (2 k c)
      then show ?thesis by (intro disjI2 exI [of _ k]) (auto simp: nth_append)
    qed simp
  qed
  moreover have "length (lbltab b') = length (lbltab b)" using step(3) IH by auto
  ultimately show ?case using step(1) by blast
qed (use assms in \<open>auto simp: code_pass_def\<close>)

text \<open>C7: Without compression, the first pass computes what the second pass writes: the code index at the end is
  the number of code bytes, and the address of every label is the number of bytes written for
  the lines in front of a line that defines the label.\<close>

theorem label_addresses_correct:
  assumes "\<not> sc_compress s" "mf_wf fin" "cstring (contents fin)" "0 < sc_labnum s" "room a"
    and "first_pass s fin b = Inr (f1, b')" "asm_pass (pass2_line s sIN_CSEG) fin a = Inr (f2, a')"
  shows "codeindex b' = offset a' - offset a \<and> length (lbltab b') = sc_labnum s \<and>
    (\<forall>i < sc_labnum s. \<forall>v. lbltab b' ! i = Some v \<longrightarrow>
       (\<exists>k < length (text_lines LINE_SIZE (contents fin)). \<exists>c.
          defines_label s i (text_lines LINE_SIZE (contents fin) ! k) \<and>
          code_pass s (take k (text_lines LINE_SIZE (contents fin))) a = Inr c \<and> v = offset c - offset a))"
proof -
  let ?ls = "text_lines LINE_SIZE (contents fin)"
  let ?b = "b\<lparr>lbltab := replicate (sc_labnum s) None, codeindex := 0\<rparr>"
  have "asm_pass (pass1_line s) fin ?b = Inr (f1, b')" using assms(4,6) by (simp add: first_pass_def split: if_splits)
  then have "seq (map (pass1_line s) ?ls) ?b = Inr b'"
    using asm_pass_lines [OF assms(2,3), of "pass1_line s" ?b] by (auto split: sum.splits)
  moreover have "code_pass s ?ls a = Inr a'"
    using asm_pass_lines [OF assms(2,3), of "pass2_line s sIN_CSEG" a] assms(7) by (auto simp: code_pass_def split: sum.splits)
  ultimately show ?thesis using passes_agree [OF assms(1,5), of ?ls a' ?b b'] by auto
qed

definition loop_state :: cstate where
  "loop_state = (initial_state ample_heap)\<lparr>sc_compress := False, sc_labnum := 1\<rparr>"

definition loop_file :: memfile where
  "loop_file = (let t = TAB # ''nop'' @ [NL] @ ''l.0'' @ [NL, TAB] @ ''jump 0'' @ [NL]
     in \<lparr>mf_name = ''out'', mf_base = t, mf_offs = 0, mf_usedoffs = int (length t), mf_size = length t, mf_static = False\<rparr>)"

definition loop_asm :: asmstate where
  "loop_asm = \<lparr>fbin = \<lparr>bin_bytes = [], bin_pos = 0, bin_room = True\<rparr>, writeerror = False, bytes_in = 0, bytes_out = 0,
     codeindex = 0, lbltab = [Some 4]\<rparr>"

lemma loop_first: "map_sum id (\<lambda>(f, b). (codeindex b, lbltab b)) (first_pass loop_state loop_file loop_asm) = Inr (12, [Some 4])"
  by code_simp

lemma loop_second: "map_sum id (\<lambda>(f, a). bin_bytes (fbin a)) (asm_pass (pass2_line loop_state sIN_CSEG) loop_file loop_asm) =
  Inr [134, 0, 0, 0, 51, 0, 0, 0, 4, 0, 0, 0]"
  by code_simp

theorem label_addresses_correct_witness:
  "\<exists>f1 b f2 a. first_pass loop_state loop_file loop_asm = Inr (f1, b) \<and> codeindex b = 12 \<and> lbltab b = [Some 4] \<and>
     asm_pass (pass2_line loop_state sIN_CSEG) loop_file loop_asm = Inr (f2, a) \<and> codeindex b = offset a - offset loop_asm \<and>
     (\<exists>k < length (text_lines LINE_SIZE (contents loop_file)). \<exists>c.
        defines_label loop_state 0 (text_lines LINE_SIZE (contents loop_file) ! k) \<and>
        code_pass loop_state (take k (text_lines LINE_SIZE (contents loop_file))) loop_asm = Inr c \<and> 4 = offset c - offset loop_asm)"
proof -
  obtain f1 b where b: "first_pass loop_state loop_file loop_asm = Inr (f1, b)" "codeindex b = 12" "lbltab b = [Some 4]"
    using loop_first by (cases "first_pass loop_state loop_file loop_asm") auto
  obtain f2 a where a: "asm_pass (pass2_line loop_state sIN_CSEG) loop_file loop_asm = Inr (f2, a)"
    using loop_second by (cases "asm_pass (pass2_line loop_state sIN_CSEG) loop_file loop_asm") auto
  have "mf_wf loop_file" "cstring (contents loop_file)"
    by (auto simp: loop_file_def mf_wf_def contents_def Let_def TAB_def NL_def NUL_def)
  moreover have "\<not> sc_compress loop_state" "sc_labnum loop_state = 1" "room loop_asm" by (auto simp: loop_state_def loop_asm_def)
  ultimately show ?thesis using label_addresses_correct [OF _ _ _ _ _ b(1) a] a b by auto
qed

end
