(* ===== verification/CodeGenFacts.thy ===== *)
theory CodeGenFacts
  imports CodeGen AssemblerFacts StagingFacts
begin

text \<open>
  The code generator against the assembler: for code that goes straight to the file, the code
  index the generator keeps is the code index the assembler's first pass computes from the
  text, and a label posted at an index gets that index. \<open>codes f n m\<close> says that \<open>f\<close> advances
  the index by \<open>n\<close> and writes text of size \<open>m\<close>; \<open>tracks f\<close> that both are the same.
\<close>

subsection \<open>The size of assembler text\<close>

definition text_sized :: "cstate \<Rightarrow> string \<Rightarrow> cell \<Rightarrow> bool" where
  "text_sized sa txt m \<longleftrightarrow> (\<exists>ls. txt = concat ls \<and> list_all (\<lambda>l. asm_line LINE_SIZE l \<and> cstring l) ls \<and>
     (\<forall>a. seq (map (pass1_line sa) ls) a = Inr (a\<lparr>codeindex := codeindex a + m\<rparr>)))"

lemma text_sized_Nil: "text_sized sa [] 0"
  unfolding text_sized_def by (intro exI [of _ "[]"]) simp

lemma text_sized_append: "text_sized sa t m \<Longrightarrow> text_sized sa u n \<Longrightarrow> text_sized sa (t @ u) (m + n)"
proof -
  assume "text_sized sa t m" "text_sized sa u n"
  then obtain ls ms where "t = concat ls" "list_all (\<lambda>l. asm_line LINE_SIZE l \<and> cstring l) ls"
      "\<And>a. seq (map (pass1_line sa) ls) a = Inr (a\<lparr>codeindex := codeindex a + m\<rparr>)"
      "u = concat ms" "list_all (\<lambda>l. asm_line LINE_SIZE l \<and> cstring l) ms"
      "\<And>a. seq (map (pass1_line sa) ms) a = Inr (a\<lparr>codeindex := codeindex a + n\<rparr>)"
    by (auto simp: text_sized_def)
  then show ?thesis unfolding text_sized_def by (intro exI [of _ "ls @ ms"]) (simp add: seq_append add.assoc)
qed

lemma text_sized_line:
  assumes "asm_line LINE_SIZE l" "cstring l" "\<And>a. pass1_line sa l a = Inr (a\<lparr>codeindex := codeindex a + m\<rparr>)"
  shows "text_sized sa l m"
  unfolding text_sized_def using assms by (intro exI [of _ "[l]"]) simp

subsection \<open>The size of an instruction\<close>

definition opcode_in :: "string \<Rightarrow> opcode_proc \<Rightarrow> bool" where
  "opcode_in t p \<longleftrightarrow> (\<exists>e \<in> set (tl opcodelist). oc_name e = Some t \<and> oc_segment e = sIN_CSEG \<and> oc_func e = p)"

definition good_name :: "string \<Rightarrow> bool" where
  "good_name t \<longleftrightarrow> t \<noteq> [] \<and> list_all (\<lambda>c. \<not> isspace c \<and> c \<noteq> CHR '';'' \<and> c \<noteq> NUL) t \<and> length t < MAX_INSTR_LEN \<and> \<not> is_label t"

lemma opcode_names_good: "list_all (\<lambda>e. good_name (the (oc_name e))) (tl opcodelist)"
  by (simp add: opcodelist_def good_name_def isspace_def NUL_def MAX_INSTR_LEN_def is_label_def tolower_def isupper_def)

lemma opcode_in_good: "opcode_in t p \<Longrightarrow> good_name t"
  using opcode_names_good by (auto simp: opcode_in_def list_all_iff)

lemma stricmp_same [simp]: "stricmp t t = 0"
  by (simp add: stricmp_def)

lemma is_label_append: "t \<noteq> [] \<Longrightarrow> rest = [] \<or> isspace (deref rest) \<Longrightarrow> is_label (t @ rest) = is_label t"
  by (cases t; cases "tl t"; cases rest) (auto simp: is_label_def isspace_def NUL_def)

lemma dropWhile_space: "isspace (deref s) = False \<Longrightarrow> skipwhitespace s = s"
  by (cases s) (auto simp: skipwhitespace_def)

lemma pass1_instr:
  assumes "opcode_in t p" "skipwhitespace (stripcomment l) = t @ rest" "isspace (deref rest)" "cstring rest"
  shows "\<exists>opc. pass1_line sa l a = bind_res (call_proc p sa False (skipwhitespace rest) opc a)
    (\<lambda>(n, a). Inr (a\<lparr>codeindex := codeindex a + n\<rparr>))"
proof -
  from opcode_in_good [OF assms(1)] have g: "t \<noteq> []" "\<forall>c \<in> set t. \<not> isspace c" "cstring t" "length t < MAX_INSTR_LEN" "\<not> is_label t"
    by (auto simp: good_name_def list_all_iff cstring_def)
  obtain i where i: "1 \<le> i" "i < 138" "oc_name (opcodelist ! i) = Some t" "oc_segment (opcodelist ! i) = sIN_CSEG"
      "oc_func (opcodelist ! i) = p"
  proof -
    obtain j where "j < length (tl opcodelist)" "oc_name (tl opcodelist ! j) = Some t"
        "oc_segment (tl opcodelist ! j) = sIN_CSEG" "oc_func (tl opcodelist ! j) = p"
      using assms(1) by (auto simp: opcode_in_def in_set_conv_nth)
    then show ?thesis by (intro that [of "Suc j"]) (auto simp: nth_tl opcodelist_length)
  qed
  have tw: "takeWhile (\<lambda>c. \<not> isspace c) (t @ rest) = t"
    using g(2) assms(3) by (cases rest) (auto simp: takeWhile_append2)
  have "findopcode (t @ rest) (length t) = i"
    using findopcode_iff(2) [of "t @ rest" "length t" i] g i assms(4) by (auto simp: opcode_name_def)
  moreover have "\<not> is_label (t @ rest)" using is_label_append [OF g(1)] g(5) assms(3) by blast
  ultimately show ?thesis using i g(1)
    by (intro exI [of _ "of_nat (oc_opcode (opcodelist ! i))"]) (simp add: pass1_line_def assms(2) Let_def instr_length_def tw)
qed

lemma good_name_facts:
  assumes "good_name t"
  shows "t \<noteq> []" "cstring t" "NL \<notin> set t" "CHR '';'' \<notin> set t" "isspace (deref t) = False" "length t < MAX_INSTR_LEN"
proof -
  from assms have g: "t \<noteq> []" "\<And>c. c \<in> set t \<Longrightarrow> \<not> isspace c" "\<And>c. c \<in> set t \<Longrightarrow> c \<noteq> CHR '';'' \<and> c \<noteq> NUL" "length t < MAX_INSTR_LEN"
    by (auto simp: good_name_def list_all_iff)
  show "t \<noteq> []" "length t < MAX_INSTR_LEN" by (fact g)+
  show "cstring t" "CHR '';'' \<notin> set t" using g(3) by (auto simp: cstring_def)
  show "NL \<notin> set t" using g(2) [of NL] by auto
  show "isspace (deref t) = False" using g(1) g(2) [of "deref t"] by (cases t) auto
qed

lemma stripcomment_none: "CHR '';'' \<notin> set l \<Longrightarrow> stripcomment l = l"
  by (simp add: stripcomment_def)

lemma isspace_simps [simp]: "isspace CHR '' '' = True" "isspace TAB = True" "isspace NL = True"
  by simp_all

lemma skip_tab: "good_name t \<Longrightarrow> skipwhitespace (TAB # t @ rest) = t @ rest"
  by (cases t) (auto simp: skipwhitespace_def good_name_def)

lemma sized_instr:
  assumes "opcode_in t Parm0"
  shows "text_sized sa (instr t) (opcodes 1)"
proof (rule text_sized_line)
  note g = good_name_facts [OF opcode_in_good [OF assms]]
  show "asm_line LINE_SIZE (instr t)" "cstring (instr t)"
    using g by (auto simp: instr_def asm_line_def butlast_append LINE_SIZE_def MAX_INSTR_LEN_def)
  fix a
  have "CHR '';'' \<notin> set (instr t)" using g(4) by (simp add: instr_def TAB_def NL_def)
  then have "skipwhitespace (stripcomment (instr t)) = t @ [NL]"
    using skip_tab [OF opcode_in_good [OF assms], of "[NL]"] by (simp add: stripcomment_none instr_def)
  from pass1_instr [OF assms this, of sa a]
  show "pass1_line sa (instr t) a = Inr (a\<lparr>codeindex := codeindex a + opcodes 1\<rparr>)"
    by (auto simp: parm0_def write_cells_none)
qed

text \<open>A line with an operand, possibly with a comment behind it.\<close>

lemma sized_arg_line:
  assumes t: "opcode_in t p" and par: "\<And>opc a. call_proc p sa False (par @ [NL]) opc a = Inr (n, a)"
    and ok: "list_all (\<lambda>c. c \<noteq> NL \<and> c \<noteq> NUL \<and> c \<noteq> CHR '';'') par" "par \<noteq> []" "\<not> isspace (deref par)" "length par < 100"
  shows "text_sized sa (instr_arg t @ par @ [NL]) n"
proof (rule text_sized_line)
  note g = good_name_facts [OF opcode_in_good [OF t]]
  let ?l = "instr_arg t @ par @ [NL]"
  have par_set: "NL \<notin> set par" "cstring par" "CHR '';'' \<notin> set par" using ok(1) by (auto simp: list_all_iff cstring_def)
  have blank: "CHR '' '' \<noteq> NL" "CHR '' '' \<noteq> NUL" "NL \<noteq> CHR '' ''" "CHR '';'' \<noteq> NL" "CHR '';'' \<noteq> TAB" by (simp_all add: NL_def NUL_def TAB_def)
  show "asm_line LINE_SIZE ?l" "cstring ?l"
    using g(1,2,3,6) par_set ok(4) by (simp_all add: instr_arg_def asm_line_def butlast_append LINE_SIZE_def MAX_INSTR_LEN_def blank)
  fix a
  have "CHR '';'' \<notin> set ?l" using g(4) par_set(3) blank by (simp add: instr_arg_def)
  then have s: "skipwhitespace (stripcomment ?l) = t @ '' '' @ par @ [NL]"
    using skip_tab [OF opcode_in_good [OF t], of "'' '' @ par @ [NL]"] by (simp add: stripcomment_none instr_arg_def)
  have "cstring ('' '' @ par @ [NL])" using par_set(2) blank by simp
  moreover have "skipwhitespace ('' '' @ par @ [NL]) = par @ [NL]"
    using ok(2,3) by (cases par) (auto simp: skipwhitespace_def)
  ultimately show "pass1_line sa ?l a = Inr (a\<lparr>codeindex := codeindex a + n\<rparr>)"
    using pass1_instr [OF t s, of sa a] par by auto
qed

lemma itoh_ok: "list_all (\<lambda>c. c \<noteq> NL \<and> c \<noteq> NUL \<and> c \<noteq> CHR '';'') (itoh v)" "\<not> isspace (deref (itoh v))" "length (itoh v) < 100"
  using itoh_no_nl [of v] itoh_cstring [of v] length_itoh [of v] itoh_no_blank [of "deref (itoh v)" v] itoh_nonempty [of v]
  by (auto simp: list_all_iff cstring_def) (cases "itoh v"; auto)

lemma hexdigit_NL [simp]: "hexdigit NL = None"
  by (simp add: hexdigit_def NL_def isdigit_def)

lemma parm1_literal:
  assumes "getparam (par @ [NL]) = Inr (v, rest)"
  shows "call_proc Parm1 sa False (par @ [NL]) opc a = Inr (opcodes 1 + opargs 1, a)"
  using assms by (simp add: parm1_def write_cells_none)

lemma sized_arg: "opcode_in t Parm1 \<Longrightarrow> text_sized sa (instr_arg t @ itoh v @ [NL]) (opcodes 1 + opargs 1)"
  by (rule sized_arg_line, assumption, rule parm1_literal, rule getparam_itoh)
    (use itoh_ok in \<open>auto simp: NL_def hexdigit_def isdigit_def\<close>)

text \<open>A label that the compiler has reserved.\<close>

definition label_ok :: "cstate \<Rightarrow> nat \<Rightarrow> bool" where
  "label_ok sa n \<longleftrightarrow> n < sc_labnum sa \<and> sc_labnum sa < 2 ^ 31"

lemma label_index_itoh:
  assumes "label_ok sa n" "hexdigit (deref rest) = None"
  shows "label_index sa (itoh (of_nat n) @ rest) = Inr (n, rest)"
proof -
  have n: "n < 2 ^ 31" using assms(1) by (simp add: label_ok_def)
  then have "sint (of_nat n :: cell) = int n" using sint_of_int_cell [of "int n"] by simp
  moreover have "unat (of_nat n :: cell) = n" using n by (simp add: unat_of_nat)
  ultimately show ?thesis using assms by (simp add: label_index_def hex2long_itoh label_ok_def)
qed

lemma sized_jump:
  "opcode_in t p \<Longrightarrow> p = Do_jump \<or> p = Do_switch \<Longrightarrow> label_ok sa n \<Longrightarrow>
   text_sized sa (instr_arg t @ itoh (of_nat n) @ [NL]) (opcodes 1 + opargs 1)"
  by (rule sized_arg_line, assumption)
    (use itoh_ok in \<open>auto simp: do_jump_def do_switch_def label_index_itoh\<close>)

subsection \<open>The size a function reports and the size it writes\<close>

text \<open>No assembler listing is asked for, and the symbols keep their names \<open>nm\<close>.\<close>

definition quiet :: "(nat \<Rightarrow> string) \<Rightarrow> cstate \<Rightarrow> bool" where
  "quiet nm s \<longleftrightarrow> \<not> sc_asmfile s \<and> (\<forall>p sy. syms s p = Some sy \<longrightarrow> sym_name sy = nm p)"

lemma same_but_output_asmfile: "same_but_output s s' \<Longrightarrow> sc_asmfile s' = sc_asmfile s"
proof -
  assume a: "same_but_output s s'"
  show ?thesis by (subst a [unfolded same_but_output_def]) simp
qed

lemma stable_quiet: "stable (quiet nm)"
  by (auto simp: stable_def quiet_def same_but_output_asmfile same_but_outputD)

definition direct :: "(nat \<Rightarrow> string) \<Rightarrow> cstate \<Rightarrow> bool" where
  "direct nm s \<longleftrightarrow> ready s \<and> \<not> staging s \<and> quiet nm s"

definition wrote :: "cstate \<Rightarrow> cell \<Rightarrow> cstate \<Rightarrow> cstate \<Rightarrow> bool" where
  "wrote sa m s s' \<longleftrightarrow> (\<exists>txt. out_text s' = out_text s @ (if sc_status s = statWRITE then txt else []) \<and> text_sized sa txt m)"

definition code_step :: "(nat \<Rightarrow> string) \<Rightarrow> cstate \<Rightarrow> cell \<Rightarrow> cell \<Rightarrow> cstate \<Rightarrow> cstate \<Rightarrow> bool" where
  "code_step nm sa n m s s' \<longleftrightarrow> direct nm s' \<and> frame s s' \<and> code_idx s' = code_idx s + n \<and> wrote sa m s s'"

definition codes :: "(nat \<Rightarrow> string) \<Rightarrow> cstate \<Rightarrow> (cstate \<Rightarrow> fault + cstate) \<Rightarrow> cell \<Rightarrow> cell \<Rightarrow> bool" where
  "codes nm sa f n m \<longleftrightarrow> (\<forall>s s'. direct nm s \<and> f s = Inr s' \<longrightarrow> code_step nm sa n m s s')"

definition tracks :: "(nat \<Rightarrow> string) \<Rightarrow> cstate \<Rightarrow> (cstate \<Rightarrow> fault + cstate) \<Rightarrow> bool" where
  "tracks nm sa f \<longleftrightarrow> (\<forall>s s'. direct nm s \<and> f s = Inr s' \<longrightarrow> (\<exists>n. code_step nm sa n n s s'))"

lemma wrote_trans: "wrote sa m s t \<Longrightarrow> wrote sa n t u \<Longrightarrow> sc_status t = sc_status s \<Longrightarrow> wrote sa (m + n) s u"
  unfolding wrote_def by (auto intro: text_sized_append)

lemma wrote_refl: "out_text s' = out_text s \<Longrightarrow> wrote sa 0 s s'"
  unfolding wrote_def by (intro exI [of _ "[]"]) (simp add: text_sized_Nil)

lemma code_step_trans:
  assumes "code_step nm sa n m s t" "code_step nm sa n' m' t u"
  shows "code_step nm sa (n + n') (m + m') s u"
proof -
  have "sc_status t = sc_status s" using assms(1) by (simp add: code_step_def frame_def)
  then have "wrote sa (m + m') s u" using assms wrote_trans by (auto simp: code_step_def)
  moreover have "frame s u" using assms frame_trans by (auto simp: code_step_def)
  ultimately show ?thesis using assms by (simp add: code_step_def add.assoc)
qed

lemma code_step_refl: "direct nm s \<Longrightarrow> code_step nm sa 0 0 s s"
  by (simp add: code_step_def wrote_refl)

lemma codesD: "codes nm sa f n m \<Longrightarrow> direct nm s \<Longrightarrow> f s = Inr s' \<Longrightarrow> code_step nm sa n m s s'"
  by (simp add: codes_def)

lemma codes_Nil: "codes nm sa (seq []) 0 0"
  by (simp add: codes_def code_step_refl)

lemma codes_bind: "codes nm sa f n m \<Longrightarrow> codes nm sa g n' m' \<Longrightarrow> codes nm sa (\<lambda>s. bind_res (f s) g) (n + n') (m + m')"
proof (subst codes_def, intro allI impI)
  fix s s' assume f: "codes nm sa f n m" and g: "codes nm sa g n' m'" and r: "direct nm s \<and> bind_res (f s) g = Inr s'"
  then obtain t where t: "f s = Inr t" "g t = Inr s'" by auto
  have a: "code_step nm sa n m s t" using codesD [OF f] r t(1) by blast
  then have "direct nm t" by (simp add: code_step_def)
  from code_step_trans [OF a codesD [OF g this t(2)]] show "code_step nm sa (n + n') (m + m') s s'" .
qed

lemma codes_Cons: "codes nm sa f n m \<Longrightarrow> codes nm sa (seq fs) n' m' \<Longrightarrow> codes nm sa (seq (f # fs)) (n + n') (m + m')"
proof -
  have "seq (f # fs) = (\<lambda>s. bind_res (f s) (seq fs))" by (rule ext) simp
  then show "codes nm sa f n m \<Longrightarrow> codes nm sa (seq fs) n' m' \<Longrightarrow> ?thesis" by (simp only: codes_bind)
qed

text \<open>A step that leaves output, index and names alone.\<close>

lemma codes_quiet:
  assumes "\<And>s s'. f s = Inr s' \<Longrightarrow> frame s s' \<and> code_idx s' = code_idx s + n \<and> stgbuf s' = stgbuf s \<and> stgidx s' = stgidx s \<and>
      outf s' = outf s \<and> (quiet nm s \<longrightarrow> quiet nm s')"
  shows "codes nm sa f n 0"
  unfolding codes_def
proof (intro allI impI)
  fix s s' assume r: "direct nm s \<and> f s = Inr s'"
  from assms [of s s'] r have a: "frame s s'" "code_idx s' = code_idx s + n" "stgbuf s' = stgbuf s" "stgidx s' = stgidx s"
      "outf s' = outf s" "quiet nm s'" by (auto simp: direct_def)
  then have "direct nm s'" using r
    by (auto simp: direct_def ready_def stg_wf_def out_ok_def pending_def frame_def)
  moreover have "wrote sa 0 s s'" using a by (intro wrote_refl) (simp add: out_text_def)
  ultimately show "code_step nm sa n 0 s s'" using a by (simp add: code_step_def)
qed

lemma codes_add: "codes nm sa (add_code n) n 0"
  by (rule codes_quiet) (auto simp: add_code_def frame_def quiet_def)

lemma codes_skip: "codes nm sa skip 0 0"
  by (rule codes_quiet) (auto simp: skip_def)

lemma codes_assert: "codes nm sa (c_assert b) 0 0"
  by (rule codes_quiet) (auto simp: c_assert_def split: if_splits)

lemma codes_fail: "codes nm sa (\<lambda>s. Inl e) n m"
  by (simp add: codes_def)

text \<open>A line that is written in pieces.\<close>

lemma codes_line:
  assumes "\<forall>p \<in> set ps. asm_piece p" "asm_text_line p" "text_sized sa (concat ps @ p) m"
  shows "codes nm sa (seq (map stgwrite (ps @ [p]))) 0 m"
  unfolding codes_def
proof (intro allI impI)
  fix s s' assume r: "direct nm s \<and> seq (map stgwrite (ps @ [p])) s = Inr s'"
  then have "ready s" "quiet nm s" "\<not> staging s" by (auto simp: direct_def)
  from emitsD [OF emits_line [OF stable_quiet assms(1,2)] this(1,2), of s'] r this(3)
  show "code_step nm sa 0 m s s'"
    using assms(3) by (auto simp: code_step_def direct_def frame_def wrote_def appended_def)
qed

lemma seq_one: "seq [f] = f"
  by (rule ext) (rule seq_single)

lemma seq_flat: "seq (seq fs # gs) = seq (fs @ gs)"
  by (rule ext) (simp add: seq_append)

lemma seq_pieces_Cons: "seq (map stgwrite ps @ fs) = (\<lambda>s. bind_res (seq (map stgwrite ps) s) (seq fs))"
  by (rule ext) (simp add: seq_append)

lemma codes_instr: "opcode_in t Parm0 \<Longrightarrow> codes nm sa (stgwrite (instr t)) 0 (opcodes 1)"
  using codes_line [of "[]" "instr t" sa "opcodes 1" nm] sized_instr [of t sa]
    good_name_facts(2) [OF opcode_in_good [of t Parm0]]
  by (simp add: asm_text_line_def instr_def seq_one)

text \<open>An instruction with one operand in front of other statements.\<close>

lemma codes_pieces:
  assumes t: "good_name t" and par: "text_sized sa (instr_arg t @ itoh v @ [NL]) m" and fs: "codes nm sa (seq fs) n' m'"
  shows "codes nm sa (seq (stgwrite (instr_arg t) # outval v True # fs)) n' (m + m')"
proof -
  have "asm_piece (itoh v)" using itoh_ok(1) [of v] last_in_set [OF itoh_nonempty [of v]] by (auto simp: asm_piece_def list_all_iff)
  moreover have "asm_piece (instr_arg t)"
    using good_name_facts(2) [OF t] by (auto simp: asm_piece_def instr_arg_def) (auto simp: NL_def NUL_def)
  ultimately have "codes nm sa (seq (map stgwrite ([instr_arg t, itoh v] @ [[NL]]))) 0 m"
    using par by (intro codes_line) (auto simp: asm_text_line_def)
  from codes_bind [OF this fs] have "codes nm sa (seq (map stgwrite ([instr_arg t, itoh v] @ [[NL]]) @ fs)) (0 + n') (m + m')"
    by (simp only: seq_pieces_Cons)
  moreover have "seq (map stgwrite ([instr_arg t, itoh v] @ [[NL]]) @ fs) = seq (stgwrite (instr_arg t) # outval v True # fs)"
    by (rule ext) (simp add: outval_def seq_flat)
  ultimately show ?thesis by simp
qed

lemma codes_arg:
  "opcode_in t Parm1 \<Longrightarrow> codes nm sa (seq fs) n m \<Longrightarrow>
   codes nm sa (seq (stgwrite (instr_arg t) # outval v True # fs)) n (opcodes 1 + opargs 1 + m)"
  by (rule codes_pieces [OF opcode_in_good sized_arg])

lemma codes_jump:
  "opcode_in t p \<Longrightarrow> p = Do_jump \<or> p = Do_switch \<Longrightarrow> label_ok sa l \<Longrightarrow> codes nm sa (seq fs) n m \<Longrightarrow>
   codes nm sa (seq (stgwrite (instr_arg t) # outval (of_nat l) True # fs)) n (opcodes 1 + opargs 1 + m)"
  by (rule codes_pieces [OF opcode_in_good sized_jump])

text \<open>An instruction whose operand is part of the text.\<close>

lemma codes_literal:
  assumes "opcode_in t Parm1" "getparam (par @ [NL]) = Inr (v, rest)"
    and "list_all (\<lambda>c. c \<noteq> NL \<and> c \<noteq> NUL \<and> c \<noteq> CHR '';'') par" "par \<noteq> []" "\<not> isspace (deref par)" "length par < 100"
  shows "codes nm sa (stgwrite (instr (t @ '' '' @ par))) 0 (opcodes 1 + opargs 1)"
proof -
  have "text_sized sa (instr_arg t @ par @ [NL]) (opcodes 1 + opargs 1)"
    by (rule sized_arg_line [OF assms(1) parm1_literal [OF assms(2)] assms(3-6)])
  moreover have "instr (t @ '' '' @ par) = instr_arg t @ par @ [NL]" by (simp add: instr_def instr_arg_def)
  moreover have "cstring par" using assms(3) by (auto simp: cstring_def list_all_iff)
  then have "cstring (instr (t @ '' '' @ par))"
    using good_name_facts(2) [OF opcode_in_good [OF assms(1)]] by (simp add: instr_def) (simp add: NUL_def)
  ultimately show ?thesis using codes_line [of "[]" "instr (t @ '' '' @ par)" sa _ nm]
    by (simp add: asm_text_line_def instr_def instr_arg_def seq_one)
qed

lemma codes_digit:
  assumes "opcode_in t Parm1" "isdigit c"
  shows "codes nm sa (stgwrite (instr (t @ '' '' @ [c]))) 0 (opcodes 1 + opargs 1)"
proof -
  have "\<exists>v. getparam ([c] @ [NL]) = Inr (v, [NL])"
    using assms(2) by (auto simp: getparam_def getparam_from.simps hex2long_def skipblank_def isdigit_def hexdigit_def TAB_def NL_def Let_def)
  then obtain v where "getparam ([c] @ [NL]) = Inr (v, [NL])" by blast
  moreover have "c \<noteq> NL \<and> c \<noteq> NUL \<and> c \<noteq> CHR '';''" "\<not> isspace c" using assms(2) by (auto simp: isdigit_def isspace_def NL_def NUL_def)
  ultimately show ?thesis using codes_literal [OF assms(1), of "[c]" v "[NL]" nm sa] by simp
qed

lemma codes_with_sym:
  assumes "\<And>sy. p \<noteq> None \<Longrightarrow> sym_name sy = nm (the p) \<Longrightarrow> codes nm sa (f sy) n m"
  shows "codes nm sa (with_sym p f) n m"
  unfolding codes_def
proof (intro allI impI)
  fix s s' assume r: "direct nm s \<and> with_sym p f s = Inr s'"
  then obtain a sy where "p = Some a" "syms s a = Some sy" "f sy s = Inr s'"
    by (auto simp: with_sym_def get_sym_def split: if_splits option.splits)
  moreover from this r have "sym_name sy = nm a" by (auto simp: direct_def quiet_def)
  ultimately show "code_step nm sa n m s s'" using assms [of sy] r codesD by auto
qed

subsection \<open>Tracking\<close>

lemma tracksD: "tracks nm sa f \<Longrightarrow> direct nm s \<Longrightarrow> f s = Inr s' \<Longrightarrow> \<exists>n. code_step nm sa n n s s'"
  by (simp add: tracks_def)

lemma tracks_codes: "codes nm sa f n m \<Longrightarrow> n = m \<Longrightarrow> tracks nm sa f"
  by (auto simp: tracks_def codes_def)

lemma tracks_seq: "list_all (tracks nm sa) fs \<Longrightarrow> tracks nm sa (seq fs)"
proof (induction fs)
  case Nil
  show ?case using tracks_codes [OF codes_Nil refl] .
next
  case (Cons f fs)
  show ?case unfolding tracks_def
  proof (intro allI impI)
    fix s s' assume r: "direct nm s \<and> seq (f # fs) s = Inr s'"
    then obtain t where t: "f s = Inr t" "seq fs t = Inr s'" by auto
    obtain n where n: "code_step nm sa n n s t" using tracksD [of nm sa f s t] Cons.prems r t(1) by auto
    then have "direct nm t" by (simp add: code_step_def)
    from tracksD [OF Cons.IH this t(2)] Cons.prems code_step_trans [OF n]
    show "\<exists>n. code_step nm sa n n s s'" by fastforce
  qed
qed

lemma tracks_with_sym:
  assumes "\<And>sy. p \<noteq> None \<Longrightarrow> sym_name sy = nm (the p) \<Longrightarrow> tracks nm sa (f sy)"
  shows "tracks nm sa (with_sym p f)"
  unfolding tracks_def
proof (intro allI impI)
  fix s s' assume r: "direct nm s \<and> with_sym p f s = Inr s'"
  then obtain a sy where "p = Some a" "syms s a = Some sy" "f sy s = Inr s'"
    by (auto simp: with_sym_def get_sym_def split: if_splits option.splits)
  moreover from this r have "sym_name sy = nm a" by (auto simp: direct_def quiet_def)
  ultimately show "\<exists>n. code_step nm sa n n s s'" using assms [of sy] r tracksD by auto
qed

lemma tracks_state: "(\<And>x. tracks nm sa (f x)) \<Longrightarrow> tracks nm sa (\<lambda>s. f (g s) s)"
  by (auto simp: tracks_def)

subsection \<open>The instructions of the code generator\<close>

text \<open>The instructions that are used, with their places in the opcode list.\<close>

definition opcode_at :: "opcode_proc \<Rightarrow> nat \<Rightarrow> string \<Rightarrow> bool" where
  "opcode_at p i t \<longleftrightarrow> 0 < i \<and> i < 138 \<and> (let e = opcodelist ! i in oc_name e = Some t \<and> oc_segment e = sIN_CSEG \<and> oc_func e = p)"

lemma opcode_at_in: "opcode_at p i t \<Longrightarrow> opcode_in t p"
  unfolding opcode_in_def
  by (rule bexI [of _ "tl opcodelist ! (i - 1)"]) (auto simp: opcode_at_def nth_tl opcodelist_length Let_def intro!: nth_mem)

lemma opcodes_at: "list_all (\<lambda>(i, t). opcode_at p i t) xs \<Longrightarrow> list_all (\<lambda>t. opcode_in t p) (map snd xs)"
  by (fastforce simp: list_all_iff intro: opcode_at_in)

lemma opcodes_parm0: "list_all (\<lambda>(i, t). opcode_at Parm0 i t)
  [(62, ''load.i''), (116, ''stor.i''), (136, ''zero.pri''), (135, ''zero.alt''), (72, ''move.pri''),
   (71, ''move.alt''), (85, ''push.pri''), (83, ''push.alt''), (80, ''pop.pri''), (79, ''pop.alt''),
   (124, ''swap.pri''), (123, ''swap.alt''), (1, ''add''), (7, ''and''), (78, ''or''), (133, ''xor''),
   (13, ''casetbl''), (90, ''retn''), (106, ''smul''), (93, ''sdiv.alt''), (122, ''sub.alt''), (132, ''xchg''),
   (96, ''shl''), (112, ''sshr''), (99, ''shr''), (25, ''eq''), (75, ''neq''), (105, ''sless''), (104, ''sleq''),
   (95, ''sgrtr''), (94, ''sgeq''), (77, ''not''), (74, ''neg''), (40, ''invert''), (76, ''nop''), (37, ''inc.i''),
   (38, ''inc.pri''), (21, ''dec.i''), (22, ''dec.pri''), (81, ''proc''), (9, ''break'')]"
  by (simp add: opcode_at_def opcodelist_def)

lemma opcodes_parm1: "list_all (\<lambda>(i, t). opcode_at Parm1 i t)
  [(66, ''lodb.i''), (120, ''strb.i''), (70, ''lref.s.pri''), (68, ''lref.pri''), (65, ''load.s.pri''),
   (63, ''load.pri''), (64, ''load.s.alt''), (4, ''addr.pri''), (3, ''addr.alt''), (17, ''const.pri''),
   (16, ''const.alt''), (111, ''sref.s.pri''), (109, ''sref.pri''), (119, ''stor.s.pri''), (117, ''stor.pri''),
   (115, ''stor.alt''), (73, ''movs''), (28, ''fill''), (84, ''push.c''), (31, ''halt''), (8, ''bounds''),
   (113, ''stack''), (32, ''heap''), (2, ''add.c''), (6, ''align.pri''), (39, ''inc.s''), (35, ''inc''),
   (23, ''dec.s''), (19, ''dec''), (56, ''lctrl''), (91, ''sctrl''), (98, ''shl.c.pri''), (97, ''shl.c.alt''),
   (101, ''shr.c.pri''), (126, ''sysreq.c'')]"
  by (simp add: opcode_at_def opcodelist_def)

lemma opcodes_jump: "list_all (\<lambda>(i, t). opcode_at Do_jump i t)
  [(53, ''jump''), (47, ''jnz''), (55, ''jzer'')]"
  by (simp add: opcode_at_def opcodelist_def)

lemma opcodes_other: "opcode_at Do_switch 125 ''switch''" "opcode_at Do_call 10 ''call''"
  "opcode_at Do_case 12 ''case''"
  by (simp_all add: opcode_at_def opcodelist_def)

lemmas opcode_simps = opcodes_parm0 [THEN opcodes_at, simplified] opcodes_parm1 [THEN opcodes_at, simplified]
  opcodes_jump [THEN opcodes_at, simplified] opcodes_other [THEN opcode_at_in]

named_theorems track \<open>functions of the code generator that track\<close>

lemmas code_rules = codes_arg [rotated] codes_Cons [OF codes_add] codes_Cons [OF codes_instr, rotated] codes_Nil

lemmas code_simps = opcode_simps opcodes_def opargs_def

lemma track_load_i [track]: "tracks nm sa load_i"
  unfolding load_i_def by (rule tracks_codes, (rule code_rules)+) (simp_all add: code_simps)

lemma track_addr_reg [track]: "tracks nm sa (addr_reg v reg)"
  unfolding addr_reg_def if_distrib [of stgwrite, symmetric] if_distrib [of instr_arg, symmetric] by (rule tracks_codes, (rule code_rules)+) (simp_all add: code_simps)

lemma track_load_argcount [track]: "tracks nm sa (load_argcount reg)"
  unfolding load_argcount_def if_distrib [of stgwrite, symmetric] if_distrib [of instr_arg, symmetric] by (rule tracks_codes, (rule code_rules)+) (simp_all add: code_simps)

lemma track_storereg [track]: "tracks nm sa (storereg v reg)"
  unfolding storereg_def if_distrib [of stgwrite, symmetric] if_distrib [of instr_arg, symmetric] by (rule tracks_codes, (rule code_rules)+) (simp_all add: code_simps)

lemma track_memcopy [track]: "tracks nm sa (memcopy v)"
  unfolding memcopy_def by (rule tracks_codes, (rule code_rules)+) (simp_all add: code_simps)

lemma track_moveto1 [track]: "tracks nm sa moveto1"
  unfolding moveto1_def by (rule tracks_codes, (rule code_rules)+) (simp_all add: code_simps)

lemma track_move_alt [track]: "tracks nm sa move_alt"
  unfolding move_alt_def by (rule tracks_codes, (rule code_rules)+) (simp_all add: code_simps)

lemma track_swap1 [track]: "tracks nm sa swap1"
  unfolding swap1_def by (rule tracks_codes, (rule code_rules)+) (simp_all add: code_simps)

lemma track_ob_add [track]: "tracks nm sa ob_add"
  unfolding ob_add_def by (rule tracks_codes, (rule code_rules)+) (simp_all add: code_simps)

lemma track_ffret [track]: "tracks nm sa ffret"
  unfolding ffret_def by (rule tracks_codes, (rule code_rules)+) (simp_all add: code_simps)

lemma track_os_mult [track]: "tracks nm sa os_mult"
  unfolding os_mult_def by (rule tracks_codes, (rule code_rules)+) (simp_all add: code_simps)

lemma track_os_div [track]: "tracks nm sa os_div"
  unfolding os_div_def by (rule tracks_codes, (rule code_rules)+) (simp_all add: code_simps)

lemma track_os_mod [track]: "tracks nm sa os_mod"
  unfolding os_mod_def by (rule tracks_codes, (rule code_rules)+) (simp_all add: code_simps)

lemma track_ob_sub [track]: "tracks nm sa ob_sub"
  unfolding ob_sub_def by (rule tracks_codes, (rule code_rules)+) (simp_all add: code_simps)

lemma track_ob_sal [track]: "tracks nm sa ob_sal"
  unfolding ob_sal_def by (rule tracks_codes, (rule code_rules)+) (simp_all add: code_simps)

lemma track_os_sar [track]: "tracks nm sa os_sar"
  unfolding os_sar_def by (rule tracks_codes, (rule code_rules)+) (simp_all add: code_simps)

lemma track_ou_sar [track]: "tracks nm sa ou_sar"
  unfolding ou_sar_def by (rule tracks_codes, (rule code_rules)+) (simp_all add: code_simps)

lemma track_ob_or [track]: "tracks nm sa ob_or"
  unfolding ob_or_def by (rule tracks_codes, (rule code_rules)+) (simp_all add: code_simps)

lemma track_ob_xor [track]: "tracks nm sa ob_xor"
  unfolding ob_xor_def by (rule tracks_codes, (rule code_rules)+) (simp_all add: code_simps)

lemma track_ob_and [track]: "tracks nm sa ob_and"
  unfolding ob_and_def by (rule tracks_codes, (rule code_rules)+) (simp_all add: code_simps)

lemma track_ob_eq [track]: "tracks nm sa ob_eq"
  unfolding ob_eq_def by (rule tracks_codes, (rule code_rules)+) (simp_all add: code_simps)

lemma track_ob_ne [track]: "tracks nm sa ob_ne"
  unfolding ob_ne_def by (rule tracks_codes, (rule code_rules)+) (simp_all add: code_simps)

lemma track_relop_prefix [track]: "tracks nm sa relop_prefix"
  unfolding relop_prefix_def by (rule tracks_codes, (rule code_rules)+) (simp_all add: code_simps)

lemma track_relop_suffix [track]: "tracks nm sa relop_suffix"
  unfolding relop_suffix_def by (rule tracks_codes, (rule code_rules)+) (simp_all add: code_simps)

lemma track_os_lt [track]: "tracks nm sa os_lt"
  unfolding os_lt_def by (rule tracks_codes, (rule code_rules)+) (simp_all add: code_simps)

lemma track_os_le [track]: "tracks nm sa os_le"
  unfolding os_le_def by (rule tracks_codes, (rule code_rules)+) (simp_all add: code_simps)

lemma track_os_gt [track]: "tracks nm sa os_gt"
  unfolding os_gt_def by (rule tracks_codes, (rule code_rules)+) (simp_all add: code_simps)

lemma track_os_ge [track]: "tracks nm sa os_ge"
  unfolding os_ge_def by (rule tracks_codes, (rule code_rules)+) (simp_all add: code_simps)

lemma track_lneg [track]: "tracks nm sa lneg"
  unfolding lneg_def by (rule tracks_codes, (rule code_rules)+) (simp_all add: code_simps)

lemma track_neg [track]: "tracks nm sa neg"
  unfolding neg_def by (rule tracks_codes, (rule code_rules)+) (simp_all add: code_simps)

lemma track_invert [track]: "tracks nm sa invert"
  unfolding invert_def by (rule tracks_codes, (rule code_rules)+) (simp_all add: code_simps)

lemma track_nooperation [track]: "tracks nm sa nooperation"
  unfolding nooperation_def by (rule tracks_codes, (rule code_rules)+) (simp_all add: code_simps)

lemma track_setheap_pri [track]: "tracks nm sa setheap_pri"
  unfolding setheap_pri_def by (rule tracks_codes, (rule code_rules)+) (simp_all add: code_simps)

lemma track_charalign [track]: "tracks nm sa charalign"
  unfolding charalign_def by (rule tracks_codes, (rule code_rules)+) (simp_all add: code_simps)

lemma track_pushval [track]: "tracks nm sa (pushval v)"
  unfolding pushval_def by (rule tracks_codes, (rule code_rules)+) (simp_all add: code_simps)

lemma track_ffabort [track]: "tracks nm sa (ffabort v)"
  unfolding ffabort_def by (rule tracks_codes, (rule code_rules)+) (simp_all add: code_simps)

lemma codes_bool: "(b \<Longrightarrow> codes nm sa f n m) \<Longrightarrow> (\<not> b \<Longrightarrow> codes nm sa g n m) \<Longrightarrow> codes nm sa (if b then f else g) n m"
  by simp

lemma markusage_view:
  assumes "markusage p u s = Inr s'"
  shows "frame s s' \<and> code_idx s' = code_idx s + 0 \<and> stgbuf s' = stgbuf s \<and> stgidx s' = stgidx s \<and> outf s' = outf s \<and>
    (quiet nm s \<longrightarrow> quiet nm s')"
  using assms
  by (auto simp: markusage_def refer_symbol_def get_sym_def upd_sym_def frame_def quiet_def Let_def split: if_splits option.splits)

lemma codes_markusage: "codes nm sa (markusage p u) 0 0"
  by (rule codes_quiet) (rule markusage_view)

lemma track_pushreg [track]: "tracks nm sa (pushreg reg)"
  unfolding pushreg_def by (cases reg; simp only: regid.case; rule tracks_codes, (rule code_rules)+) (simp_all add: code_simps)

lemma track_popreg [track]: "tracks nm sa (popreg reg)"
  unfolding popreg_def by (cases reg; simp only: regid.case; rule tracks_codes, (rule code_rules)+) (simp_all add: code_simps)

lemma track_if [track]: "tracks nm sa f \<Longrightarrow> tracks nm sa g \<Longrightarrow> tracks nm sa (if b then f else g)"
  by simp

lemma track_ldconst [track]: "tracks nm sa (ldconst v reg)"
  unfolding ldconst_def
  by (cases reg; simp only: regid.case; rule track_if; (rule tracks_codes, (rule code_rules)+, simp_all add: code_simps))

lemma track_load_hidden_arg [track]: "tracks nm sa load_hidden_arg"
  unfolding load_hidden_arg_def by (rule tracks_seq) (simp add: track)

lemma track_skip [track]: "tracks nm sa skip"
  by (rule tracks_codes [OF codes_skip refl])

lemma track_arg: "opcode_in t Parm1 \<Longrightarrow> tracks nm sa (seq [stgwrite (instr_arg t), outval v True, add_code (opcodes 1 + opargs 1)])"
  by (rule tracks_codes, (rule code_rules)+) (simp_all add: code_simps)

lemma track_modstk [track]: "tracks nm sa (modstk v)" "tracks nm sa (modheap v)" "tracks nm sa (addconst v)"
  unfolding modstk_def modheap_def addconst_def by (intro track_if track_skip track_arg; simp add: opcode_simps)+

lemma track_char2addr [track]: "tracks nm sa char2addr"
  by (simp add: char2addr_def track_skip)

subsection \<open>Variables\<close>

lemma tracks_fail: "tracks nm sa (\<lambda>s. Inl e)"
  by (simp add: tracks_def)

lemmas var_rules = code_rules codes_Cons [OF codes_markusage] codes_Cons [OF codes_assert]

lemma track_rvalue [track]: "tracks nm sa (rvalue lval)"
  unfolding rvalue_def
  by (cases "v_ident lval"; simp only: ident.case; (rule track tracks_with_sym)?; (intro track_if tracks_fail)?;
      (rule tracks_codes, (rule var_rules)+, simp_all add: code_simps)?)

lemma track_address [track]: "tracks nm sa (address p reg)"
  unfolding address_def
  by (rule tracks_with_sym, rule tracks_codes, (rule var_rules)+) (simp_all add: code_simps split: regid.split)

lemma track_store [track]: "tracks nm sa (store lval)"
  unfolding store_def
  by (cases "v_ident lval"; simp only: ident.case; (rule track tracks_with_sym)?;
      (rule tracks_codes, (rule var_rules)+, simp_all add: code_simps)?)

lemma track_inc [track]: "tracks nm sa (inc lval)"
  unfolding inc_def
  by (cases "v_ident lval"; simp only: ident.case; (rule track tracks_with_sym)?;
      (rule tracks_codes, (rule var_rules)+, simp_all add: code_simps)?)

lemma track_dec [track]: "tracks nm sa (dec lval)"
  unfolding dec_def
  by (cases "v_ident lval"; simp only: ident.case; (rule track tracks_with_sym)?;
      (rule tracks_codes, (rule var_rules)+, simp_all add: code_simps)?)

lemma codes_array_alt: "codes nm sa (array_alt p sy) 0 (opcodes 1 + opargs 1)"
proof -
  have "codes nm sa (seq [stgwrite (instr_arg (if sym_ident sy = iREFARRAY then ''load.s.alt''
      else if sym_vclass sy = sLOCAL then ''addr.alt'' else ''const.alt'')), outval (sym_addr sy) True, markusage p uWRITTEN])
      (0 + 0) (opcodes 1 + opargs 1 + (0 + 0))"
    by (rule var_rules)+ (simp add: opcode_simps)
  then show ?thesis by (auto simp: array_alt_def codes_def)
qed

lemma codes_memcopy: "codes nm sa (memcopy n) (opcodes 1 + opargs 1) (opcodes 1 + opargs 1)"
proof -
  have "codes nm sa (memcopy n) (opcodes 1 + opargs 1 + 0) (opcodes 1 + opargs 1 + (0 + 0))"
    unfolding memcopy_def by (rule code_rules)+ (simp add: opcode_simps)
  then show ?thesis by simp
qed

lemma track_copyarray [track]: "tracks nm sa (copyarray p n)"
  unfolding copyarray_def
  by (rule tracks_with_sym, rule tracks_codes, (rule code_rules codes_Cons [OF codes_array_alt] codes_Cons [OF codes_memcopy])+) simp

lemma track_fillarray [track]: "tracks nm sa (fillarray p n v)"
  unfolding fillarray_def
  by (rule tracks_seq, simp, intro conjI track, rule tracks_with_sym, rule tracks_codes,
      (rule var_rules codes_Cons [OF codes_array_alt])+) (simp_all add: code_simps)

subsection \<open>Jumps, switches and the frame\<close>

lemma tracks_ite: "(\<And>s. f s = (if b s then g s else h s)) \<Longrightarrow> tracks nm sa g \<Longrightarrow> tracks nm sa h \<Longrightarrow> tracks nm sa f"
  by (auto simp: tracks_def)

lemma tracks_Inr: "tracks nm sa Inr"
  using track_skip [of nm sa] by (simp add: skip_def [abs_def])

lemma track_ffbounds [track]: "tracks nm sa (ffbounds v)"
  by (rule tracks_ite [OF ffbounds_def track_arg tracks_Inr]) (simp add: opcode_simps)

lemma track_jump:
  "opcode_in t p \<Longrightarrow> p = Do_jump \<or> p = Do_switch \<Longrightarrow> label_ok sa n \<Longrightarrow>
   tracks nm sa (seq [stgwrite (instr_arg t), outval (of_nat n) True, add_code (opcodes 1 + opargs 1)])"
  by (rule tracks_codes, rule codes_jump [rotated -1], (rule code_rules)+) (simp_all add: code_simps)

lemma track_jumps [track]: "label_ok sa n \<Longrightarrow> tracks nm sa (jumplabel n)" "label_ok sa n \<Longrightarrow> tracks nm sa (jmp_ne0 n)"
  "label_ok sa n \<Longrightarrow> tracks nm sa (jmp_eq0 n)" "label_ok sa n \<Longrightarrow> tracks nm sa (ffswitch n)"
  unfolding jumplabel_def jmp_ne0_def jmp_eq0_def ffswitch_def
  by (rule track_jump [where p = Do_jump] track_jump [where p = Do_switch], simp add: opcode_simps, simp, assumption)+

lemma codes_shift:
  assumes "opcode_in t Parm1" "isdigit c" "txt = t @ '' '' @ [c]" "codes nm sa (seq fs) n m"
  shows "codes nm sa (seq (stgwrite (instr txt) # fs)) (0 + n) (opcodes 1 + opargs 1 + m)"
  unfolding assms(3) by (rule codes_Cons [OF codes_digit [OF assms(1,2)] assms(4)])

lemmas shift_rules = codes_shift [of "''shl.c.pri''" "CHR ''2''" "''shl.c.pri 2''", rotated -1] codes_shift [of "''shl.c.alt''" "CHR ''2''" "''shl.c.alt 2''", rotated -1]
  codes_shift [of "''shr.c.pri''" "CHR ''2''" "''shr.c.pri 2''", rotated -1] codes_shift [of "''lctrl''" "CHR ''4''" "''lctrl 4''", rotated -1]
  codes_shift [of "''lctrl''" "CHR ''5''" "''lctrl 5''", rotated -1] codes_shift [of "''sctrl''" "CHR ''4''" "''sctrl 4''", rotated -1]
  codes_shift [of "''sctrl''" "CHR ''5''" "''sctrl 5''", rotated -1]

lemma track_cell2addr [track]: "tracks nm sa cell2addr" "tracks nm sa cell2addr_alt" "tracks nm sa addr2cell"
  unfolding cell2addr_def cell2addr_alt_def addr2cell_def
  by (rule tracks_codes, (rule shift_rules code_rules)+, simp_all add: code_simps isdigit_def)+

lemma track_alignframe [track]: "tracks nm sa (alignframe v)"
  by (rule tracks_ite [OF alignframe_def tracks_fail], rule tracks_codes, (rule shift_rules code_rules)+)
    (simp_all add: code_simps isdigit_def)

lemma track_setstk [track]: "tracks nm sa (setstk v)"
proof -
  have a: "codes nm sa (seq [stgwrite (instr_arg ''add.c''), outval v True, add_code (opcodes 1 + opargs 1)]) (opcodes 1 + opargs 1) (opcodes 1 + opargs 1)"
    using codes_arg [OF _ codes_Cons [OF codes_add codes_Nil], of "''add.c''"] by (simp add: opcode_simps)
  show ?thesis
  proof (cases "v <s 0")
    case True
    then show ?thesis unfolding setstk_def if_P [OF True]
      by - (rule tracks_codes, (rule shift_rules code_rules codes_Cons [OF codes_assert] codes_Cons [OF a])+,
        simp_all add: code_simps isdigit_def)
  next
    case False
    show ?thesis unfolding setstk_def if_not_P [OF False]
      by (rule tracks_codes, (rule shift_rules code_rules codes_Cons [OF codes_assert] codes_Cons [OF codes_skip])+)
        (simp_all add: code_simps isdigit_def)
  qed
qed

lemma track_setheap [track]: "tracks nm sa (setheap v)"
proof -
  have "tracks nm sa (seq [seq [stgwrite (instr_arg ''const.pri''), outval v True, add_code (opcodes 1 + opargs 1)], setheap_pri])"
    using track_arg [of "''const.pri''" nm sa v] by (intro tracks_seq) (simp add: opcode_simps track)
  then show ?thesis by (simp add: setheap_def seq_flat)
qed

subsection \<open>Lines whose text depends on the state\<close>

text \<open>The first pieces of a line change the buffer only.\<close>

lemma pieces_keep:
  assumes "direct nm s" "\<forall>p \<in> set ps. asm_piece p" "seq (map stgwrite ps) s = Inr s1"
  shows "code_idx s1 = code_idx s \<and> staging s1 = staging s \<and> sc_asmfile s1 = sc_asmfile s"
proof -
  have r: "ready s" using assms(1) by (simp add: direct_def)
  from stgwrite_pieces [OF r partial_line_refl [OF r] _ assms(2)] assms(3)
  have "partial_line s (concat ps) s1" by auto
  then show ?thesis by (auto simp: partial_line_def)
qed

lemma codes_value_Cons:
  assumes "\<And>s s'. f s = Inr s' \<Longrightarrow> \<exists>i. g i s = Inr s'" "\<And>i. codes nm sa (seq (map stgwrite ps @ g i # fs)) n m"
  shows "codes nm sa (seq (map stgwrite ps @ f # fs)) n m"
  unfolding codes_def
proof (intro allI impI)
  fix s s' assume r: "direct nm s \<and> seq (map stgwrite ps @ f # fs) s = Inr s'"
  then obtain s1 s2 where s1: "seq (map stgwrite ps) s = Inr s1" "f s1 = Inr s2" "seq fs s2 = Inr s'"
    by (auto simp: seq_append)
  with assms(1) obtain i where "g i s1 = Inr s2" by blast
  with s1 have "seq (map stgwrite ps @ g i # fs) s = Inr s'" by (simp add: seq_append)
  then show "code_step nm sa n m s s'" using assms(2) r codesD by blast
qed

lemma codes_flags_Cons:
  assumes "\<forall>p \<in> set ps. asm_piece p" "codes nm sa (seq (map stgwrite ps @ f False # fs)) n m"
  shows "codes nm sa (seq (map stgwrite ps @ (\<lambda>s. f (sc_asmfile s) s) # fs)) n m"
  unfolding codes_def
proof (intro allI impI)
  fix s s' assume r: "direct nm s \<and> seq (map stgwrite ps @ (\<lambda>s. f (sc_asmfile s) s) # fs) s = Inr s'"
  then obtain s1 s2 where s1: "seq (map stgwrite ps) s = Inr s1" "f (sc_asmfile s1) s1 = Inr s2" "seq fs s2 = Inr s'"
    by (auto simp: seq_append)
  moreover have "sc_asmfile s1 = False" using pieces_keep [OF _ assms(1) s1(1)] r by (auto simp: direct_def quiet_def)
  ultimately have "seq (map stgwrite ps @ f False # fs) s = Inr s'" by (simp add: seq_append)
  then show "code_step nm sa n m s s'" using assms(2) r codesD by blast
qed

lemma sized_blank: "text_sized sa [NL] 0"
proof (rule text_sized_line)
  have "CHR '';'' \<noteq> NL" by (simp add: NL_def)
  then show "pass1_line sa [NL] a = Inr (a\<lparr>codeindex := codeindex a + 0\<rparr>)" for a
    by (simp add: pass1_line_def stripcomment_def skipwhitespace_def)
qed (simp_all add: asm_line_def LINE_SIZE_def)

lemma asm_piece_NL: "p \<noteq> [] \<Longrightarrow> cstring p \<Longrightarrow> NL \<notin> set p \<Longrightarrow> asm_piece p"
  by (metis asm_piece_def last_in_set)

lemma asm_line_NL: "asm_line LINE_SIZE [NL]" "asm_text_line [NL]"
  by (simp_all add: asm_line_def asm_text_line_def LINE_SIZE_def)

lemma codes_blank: "codes nm sa (stgwrite [NL]) 0 0"
  using codes_line [of "[]" "[NL]" sa 0 nm] by (simp add: sized_blank asm_line_NL seq_one)

lemma track_endfunc [track]: "tracks nm sa endfunc"
  unfolding endfunc_def by (rule tracks_codes [OF codes_blank refl])

lemma piece_itoh: "asm_piece (itoh v)"
  by (rule asm_piece_NL) simp_all

lemma pass1_parm0:
  assumes "opcode_in t Parm0" "skipwhitespace (stripcomment l) = t @ rest" "isspace (deref rest)" "cstring rest"
  shows "pass1_line sa l a = Inr (a\<lparr>codeindex := codeindex a + opcodes 1\<rparr>)"
  using pass1_instr [OF assms, of sa a] by (auto simp: parm0_def write_cells_none)

text \<open>A comment ends the line.\<close>

lemma stripcomment_comment: "CHR '';'' \<notin> set x \<Longrightarrow> stripcomment (x @ CHR '';'' # y) = x @ [NL]"
  by (simp add: stripcomment_def takeWhile_append2) (induction x; auto)

lemma codes_comment:
  assumes "asm_piece p" "\<And>i. text_sized sa (p @ itoh i @ [NL]) m" "codes nm sa (seq fs) n' m'"
  shows "codes nm sa (seq (stgwrite p # (\<lambda>s. outval (h s) True s) # fs)) n' (m + m')"
proof -
  have "codes nm sa (seq (map stgwrite [p] @ (\<lambda>s. outval (h s) True s) # fs)) n' (m + m')"
  proof (rule codes_value_Cons [where g = "\<lambda>i. outval i True"])
    fix i
    have "codes nm sa (seq (map stgwrite ([p, itoh i] @ [[NL]]))) 0 m"
      using assms(1,2) piece_itoh by (intro codes_line) (auto simp: asm_line_NL)
    from codes_bind [OF this assms(3)] show "codes nm sa (seq (map stgwrite [p] @ outval i True # fs)) n' (m + m')"
      unfolding seq_pieces_Cons [symmetric] by (simp add: outval_def seq_flat codes_def)
  qed blast
  then show ?thesis by simp
qed

lemma track_setline [track]: "tracks nm sa (setline chk)"
proof (rule tracks_ite [OF setline_def _ tracks_Inr])
  let ?p = "TAB # ''break'' @ [TAB] @ ''; ''"
  have piece: "asm_piece ?p" by (rule asm_piece_NL) (simp_all add: NUL_def TAB_def NL_def)
  have sized: "text_sized sa (?p @ itoh i @ [NL]) (opcodes 1)" for i
  proof (rule text_sized_line)
    show "asm_line LINE_SIZE (?p @ itoh i @ [NL])" "cstring (?p @ itoh i @ [NL])"
      using length_itoh [of i] by (simp_all add: asm_line_def LINE_SIZE_def butlast_append) (simp_all add: NL_def NUL_def TAB_def)
    have "stripcomment (?p @ itoh i @ [NL]) = TAB # ''break'' @ [TAB, NL]"
      using stripcomment_comment [of "TAB # ''break'' @ [TAB]" "CHR '' '' # itoh i @ [NL]"] by (simp add: TAB_def)
    then have "skipwhitespace (stripcomment (?p @ itoh i @ [NL])) = ''break'' @ [TAB, NL]"
      using skip_tab [OF opcode_in_good, of "''break''" Parm0 "[TAB, NL]"] by (simp add: opcode_simps)
    then show "pass1_line sa (?p @ itoh i @ [NL]) a = Inr (a\<lparr>codeindex := codeindex a + opcodes 1\<rparr>)" for a
      by (rule pass1_parm0 [of "''break''", rotated]) (simp_all add: opcode_simps)
  qed
  show "tracks nm sa (seq [stgwrite ?p, \<lambda>s. outval (code_idx s) True s, add_code (opcodes 1)])"
    by (rule tracks_codes, rule codes_comment [OF piece sized], (rule code_rules)+) simp
qed

text \<open>The segment lines name no instruction of the code.\<close>

lemma sized_segment:
  assumes "l = seg @ [TAB] @ ''; '' @ itoh i @ [NL]" "seg = ''CODE'' \<or> seg = ''DATA''"
  shows "text_sized sa l 0"
proof (rule text_sized_line)
  show "asm_line LINE_SIZE l" "cstring l"
    using assms length_itoh [of i] by (auto simp: asm_line_def LINE_SIZE_def butlast_append, auto simp: NL_def NUL_def TAB_def)
  have "stripcomment l = seg @ [TAB, NL]"
    using stripcomment_comment [of "seg @ [TAB]" "CHR '' '' # itoh i @ [NL]"] assms by (auto simp: TAB_def)
  then have s: "skipwhitespace (stripcomment l) = seg @ [TAB, NL]" using assms(2) by (auto simp: skipwhitespace_def isspace_def)
  have c: "cstring (seg @ [TAB, NL])" using assms(2) by (auto simp: NUL_def TAB_def NL_def)
  have n: "instr_length (seg @ [TAB, NL]) = 4" using assms(2) by (auto simp: instr_length_def) (simp_all add: isspace_def TAB_def)
  have "stricmp ''CODE'' ''code'' = 0" "stricmp ''DATA'' ''data'' = 0" by code_simp+
  moreover have "opcode_name 15 = ''code''" "opcode_name 18 = ''data''" by (simp_all add: opcode_name_def opcodelist_def)
  ultimately have f: "findopcode (seg @ [TAB, NL]) 4 = 15 \<or> findopcode (seg @ [TAB, NL]) 4 = 18"
    using findopcode_iff(2) [OF c, of 4 15] findopcode_iff(2) [OF c, of 4 18] assms(2) by (auto simp: MAX_INSTR_LEN_def)
  have o: "oc_segment (opcodelist ! 15) = 0" "oc_segment (opcodelist ! 18) = 0" "\<exists>x. oc_name (opcodelist ! 15) = Some x"
      "\<exists>x. oc_name (opcodelist ! 18) = Some x"
    by (simp_all add: opcodelist_def)
  have "\<not> is_label (seg @ [TAB, NL])" "seg @ [TAB, NL] \<noteq> []" using assms(2) by (auto simp: is_label_def tolower_def isupper_def)
  then show "pass1_line sa l a = Inr (a\<lparr>codeindex := codeindex a + 0\<rparr>)" for a
    using f o unfolding pass1_line_def s Let_def n by (elim disjE) (simp_all add: sIN_CSEG_def)
qed

lemma codes_curseg: "codes nm sa (\<lambda>s. Inr (s\<lparr>curseg := seg\<rparr>)) 0 0"
  by (rule codes_quiet) (auto simp: frame_def quiet_def)

lemma track_begcseg [track]: "tracks nm sa begcseg"
proof (rule tracks_ite [OF begcseg_def _ tracks_Inr])
  have "asm_piece (''CODE'' @ [TAB] @ ''; '')" by (rule asm_piece_NL) (simp_all add: NUL_def TAB_def NL_def)
  moreover have "text_sized sa ((''CODE'' @ [TAB] @ ''; '') @ itoh i @ [NL]) 0" for i by (rule sized_segment [of _ "''CODE''" i]) simp_all
  ultimately show "tracks nm sa (seq [stgwrite [NL], stgwrite (''CODE'' @ [TAB] @ ''; ''), \<lambda>s. outval (code_idx s) True s,
      \<lambda>s. Inr (s\<lparr>curseg := sIN_CSEG\<rparr>)])"
    by (intro tracks_codes [OF codes_Cons [OF codes_blank codes_comment [OF _ _ codes_Cons [OF codes_curseg codes_Nil]]]]) simp_all
qed

lemma track_begdseg [track]: "tracks nm sa begdseg"
proof (rule tracks_ite [OF begdseg_def _ tracks_Inr])
  have "asm_piece (''DATA'' @ [TAB] @ ''; '')" by (rule asm_piece_NL) (simp_all add: NUL_def TAB_def NL_def)
  moreover have "text_sized sa ((''DATA'' @ [TAB] @ ''; '') @ itoh i @ [NL]) 0" for i by (rule sized_segment [of _ "''DATA''" i]) simp_all
  ultimately show "tracks nm sa (seq [stgwrite [NL], stgwrite (''DATA'' @ [TAB] @ ''; ''),
      \<lambda>s. outval (glb_declared s - of_nat (litidx s)) True s, \<lambda>s. Inr (s\<lparr>curseg := sIN_DSEG\<rparr>)])"
    by (intro tracks_codes [OF codes_Cons [OF codes_blank codes_comment [OF _ _ codes_Cons [OF codes_curseg codes_Nil]]]]) simp_all
qed

lemma track_startfunc [track]: "tracks nm sa (startfunc fname)"
proof -
  let ?f = "\<lambda>b s. if b then bind_res (funcdisplayname fname s) (\<lambda>symname. seq [stgwrite (TAB # ''; ''), stgwrite symname] s) else Inr s"
  have piece: "asm_piece (TAB # ''proc'')" by (rule asm_piece_NL) (simp_all add: NUL_def TAB_def NL_def)
  have "text_sized sa (concat [TAB # ''proc''] @ [NL]) (opcodes 1)"
    using sized_instr [of "''proc''" sa] by (simp add: opcode_simps instr_def)
  then have "codes nm sa (seq (map stgwrite ([TAB # ''proc''] @ [[NL]]))) 0 (opcodes 1)"
    using piece by (intro codes_line) (simp_all add: asm_line_NL)
  from codes_bind [OF this codes_Cons [OF codes_add codes_Nil], of "opcodes 1"]
  have "codes nm sa (seq (map stgwrite [TAB # ''proc''] @ ?f False # [stgwrite [NL], add_code (opcodes 1)])) (opcodes 1) (opcodes 1)"
    unfolding seq_pieces_Cons [symmetric] by (simp add: codes_def)
  from codes_flags_Cons [where f = ?f and ps = "[TAB # ''proc'']", OF _ this] piece show ?thesis
    unfolding startfunc_def by (intro tracks_codes [OF _ refl]) simp
qed

text \<open>A line that is a comment.\<close>

lemma codes_remark:
  assumes "NL \<notin> set c" "cstring c" "length c < 100"
  shows "codes nm sa (stgwrite (instr (CHR '';'' # c))) 0 0"
proof -
  let ?l = "instr (CHR '';'' # c)"
  have s: "CHR '';'' \<noteq> NUL" "CHR '';'' \<noteq> NL" "CHR '';'' \<noteq> TAB" "NL \<noteq> CHR '';''" by (simp_all add: NUL_def NL_def TAB_def)
  have "asm_line LINE_SIZE ?l" "cstring ?l"
    using assms s by (simp_all add: instr_def asm_line_def butlast_append LINE_SIZE_def)
  moreover have "stripcomment ?l = [TAB, NL]" using stripcomment_comment [of "[TAB]" "c @ [NL]"] s by (simp add: instr_def)
  then have "pass1_line sa ?l a = Inr (a\<lparr>codeindex := codeindex a + 0\<rparr>)" for a by (simp add: pass1_line_def skipwhitespace_def)
  ultimately have "text_sized sa ?l 0" by (rule text_sized_line)
  moreover have "asm_text_line ?l" using assms(2) s by (simp add: asm_text_line_def instr_def)
  ultimately show ?thesis using codes_line [of "[]" ?l sa 0 nm] by (simp add: seq_one)
qed

lemma track_markexpr [track]: "tracks nm sa (markexpr sEXPR name i)" "tracks nm sa (markexpr sPARM name i)"
  unfolding markexpr_def optmark.case
  by (rule tracks_codes [OF codes_remark refl]; simp add: NL_def NUL_def)+

text \<open>The labels of a case are printed label numbers.\<close>

lemma codes_case:
  assumes "label_ok sa l" "codes nm sa (seq fs) n m"
  shows "codes nm sa (seq ([stgwrite (instr_arg ''case''), outval v False, stgwrite '' '', stgwrite (itoh (of_nat l)), stgwrite [NL]] @ fs)) n
    (opcodes 0 + opargs 2 + m)"
proof -
  have a: "hex2long (itoh v @ '' '' @ itoh (of_nat l) @ [NL]) = Inr (v, '' '' @ itoh (of_nat l) @ [NL])"
    by (rule hex2long_itoh) (simp add: hexdigit_def isdigit_def)
  have b: "hex2long (CHR '' '' # itoh (of_nat l) @ [NL]) = Inr (of_nat l, [NL])"
    using hex2long_itoh [of "[NL]" "of_nat l"] by (simp add: hex2long_def skipblank_def)
  have c: "label_index sa (CHR '' '' # itoh (of_nat l) @ [NL]) = Inr (l, [NL])"
    using label_index_itoh [OF assms(1), of "[NL]"] b hex2long_itoh [of "[NL]" "of_nat l"] by (simp add: label_index_def)
  have "list_all (\<lambda>c. c \<noteq> NL \<and> c \<noteq> NUL \<and> c \<noteq> CHR '';'') (itoh v @ '' '' @ itoh (of_nat l))"
    using itoh_ok(1) by (simp add: list_all_append) (simp add: NL_def NUL_def)
  then have "text_sized sa (instr_arg ''case'' @ (itoh v @ '' '' @ itoh (of_nat l)) @ [NL]) (opcodes 0 + opargs 2)"
    using a c itoh_ok(2) [of v] length_itoh [of v] length_itoh [of "of_nat l"]
    by (intro sized_arg_line [where p = Do_case]) (auto simp: opcode_simps do_case_def)
  moreover have "asm_piece (instr_arg ''case'')" "asm_piece '' ''" by (rule asm_piece_NL; simp add: instr_arg_def NL_def NUL_def TAB_def)+
  ultimately have "codes nm sa (seq (map stgwrite ([instr_arg ''case'', itoh v, '' '', itoh (of_nat l)] @ [[NL]]))) 0 (opcodes 0 + opargs 2)"
    using piece_itoh by (intro codes_line) (auto simp: asm_line_NL)
  from codes_bind [OF this assms(2)] show ?thesis
    unfolding seq_pieces_Cons [symmetric] by (simp add: outval_def skip_def codes_def)
qed

lemma track_ffcase [track]:
  assumes "label_ok sa l"
  shows "tracks nm sa (ffcase v (itoh (of_nat l)) newtable)"
proof -
  have "tracks nm sa (if newtable then seq [stgwrite (instr ''casetbl''), add_code (opcodes 1)] else skip)"
    by (rule track_if [OF _ track_skip], rule tracks_codes, (rule code_rules)+) (simp_all add: code_simps)
  moreover have "tracks nm sa (seq ([stgwrite (instr_arg ''case''), outval v False, stgwrite '' '', stgwrite (itoh (of_nat l)), stgwrite [NL]] @ [add_code (opcodes 0 + opargs 2)]))"
    by (rule tracks_codes, rule codes_case [OF assms], (rule code_rules)+) simp
  ultimately have "tracks nm sa (seq [if newtable then seq [stgwrite (instr ''casetbl''), add_code (opcodes 1)] else skip,
      seq ([stgwrite (instr_arg ''case''), outval v False, stgwrite '' '', stgwrite (itoh (of_nat l)), stgwrite [NL]] @ [add_code (opcodes 0 + opargs 2)])])"
    by (intro tracks_seq) simp
  then show ?thesis unfolding ffcase_def tracks_def by (simp add: bind_res_assoc)
qed

subsection \<open>Calls\<close>

lemma tracks_cong: "(\<And>s. direct nm s \<Longrightarrow> f s = g s) \<Longrightarrow> tracks nm sa g \<Longrightarrow> tracks nm sa f"
  unfolding tracks_def by metis

text \<open>A name the assembler finds as a function.\<close>

definition callee_ok :: "cstate \<Rightarrow> string \<Rightarrow> bool" where
  "callee_ok sa name \<longleftrightarrow> name \<noteq> [] \<and> list_all (\<lambda>c. \<not> isspace c \<and> c \<noteq> CHR '';'' \<and> c \<noteq> NUL) name \<and> length name \<le> sNAMEMAX \<and>
     \<not> (deref name = CHR ''l'' \<and> deref (tl name) = CHR ''.'') \<and>
     (\<exists>q sy. findglb name sa = Inr (Some q) \<and> get_sym sa (Some q) = Inr sy \<and>
        (sym_ident sy = iFUNCTN \<or> sym_ident sy = iREFFUNC) \<and> sym_vclass sy = sGLOBAL)"

lemma callee_chars:
  assumes "callee_ok sa name"
  shows "name \<noteq> []" "cstring name" "NL \<notin> set name" "list_all (\<lambda>c. c \<noteq> NL \<and> c \<noteq> NUL \<and> c \<noteq> CHR '';'') name"
    "\<not> isspace (deref name)" "length name < 100" "takeWhile (\<lambda>c. \<not> isspace c) (name @ [NL]) = name"
proof -
  from assms have g: "name \<noteq> []" "\<And>c. c \<in> set name \<Longrightarrow> \<not> isspace c" "\<And>c. c \<in> set name \<Longrightarrow> c \<noteq> CHR '';'' \<and> c \<noteq> NUL" "length name \<le> 63"
    by (auto simp: callee_ok_def list_all_iff sNAMEMAX_def)
  show "name \<noteq> []" "length name < 100" using g by simp_all
  show c: "cstring name" using g(3) by (auto simp: cstring_def)
  show n: "NL \<notin> set name" using g(2) [of NL] by auto
  show "list_all (\<lambda>c. c \<noteq> NL \<and> c \<noteq> NUL \<and> c \<noteq> CHR '';'') name" using g(3) n by (auto simp: list_all_iff)
  show "\<not> isspace (deref name)" using g(1) g(2) [of "deref name"] by (cases name) auto
  show "takeWhile (\<lambda>c. \<not> isspace c) (name @ [NL]) = name" using g(2) by (simp add: takeWhile_append2)
qed

lemma do_call_name:
  assumes "callee_ok sa name"
  shows "call_proc Do_call sa False (name @ [NL]) opc a = Inr (opcodes 1 + opargs 1, a)"
proof -
  note c = callee_chars [OF assms]
  obtain q sy where "findglb name sa = Inr (Some q)" "get_sym sa (Some q) = Inr sy"
      "sym_ident sy = iFUNCTN \<or> sym_ident sy = iREFFUNC" "sym_vclass sy = sGLOBAL"
    using assms unfolding callee_ok_def by blast
  moreover have "\<not> (deref name = CHR ''l'' \<and> deref (tl name) = CHR ''.'')" "length name \<le> sNAMEMAX"
    using assms by (auto simp: callee_ok_def)
  ultimately show ?thesis by (auto simp: do_call_def Let_def c(7) write_cells_none)
qed

lemma do_call_label:
  assumes "label_ok sa l"
  shows "call_proc Do_call sa False ((''l.'' @ itoh (of_nat l)) @ [NL]) opc a = Inr (opcodes 1 + opargs 1, a)"
proof -
  have "takeWhile (\<lambda>c. \<not> isspace c) ((''l.'' @ itoh (of_nat l)) @ [NL]) = ''l.'' @ itoh (of_nat l)"
    using itoh_no_blank [of _ "of_nat l"] by (subst takeWhile_append2) (auto, auto simp: isspace_def)
  moreover have "label_index sa (itoh (of_nat l)) = Inr (l, [])"
    using label_index_itoh [OF assms, of "[]"] by simp
  ultimately show ?thesis using length_itoh [of "of_nat l"]
    by (simp add: do_call_def Let_def write_cells_none sNAMEMAX_def)
qed

lemma codes_call:
  assumes "\<And>opc a. call_proc Do_call sa False (concat ps @ [NL]) opc a = Inr (opcodes 1 + opargs 1, a)"
    "list_all (\<lambda>c. c \<noteq> NL \<and> c \<noteq> NUL \<and> c \<noteq> CHR '';'') (concat ps)" "concat ps \<noteq> []" "\<not> isspace (deref (concat ps))" "length (concat ps) < 100"
    "\<forall>p \<in> set ps. asm_piece p" "codes nm sa (seq fs) n m"
  shows "codes nm sa (seq (map stgwrite (instr_arg ''call'' # ps @ [[NL]]) @ fs)) n (opcodes 1 + opargs 1 + m)"
proof -
  have "asm_piece (instr_arg ''call'')" by (rule asm_piece_NL; simp add: instr_arg_def NL_def NUL_def TAB_def)
  moreover have "text_sized sa (concat (instr_arg ''call'' # ps) @ [NL]) (opcodes 1 + opargs 1)"
    using sized_arg_line [OF _ assms(1-5), of "''call''"] by (simp add: opcode_simps)
  ultimately have "codes nm sa (seq (map stgwrite ((instr_arg ''call'' # ps) @ [[NL]]))) 0 (opcodes 1 + opargs 1)"
    using assms(6) by (intro codes_line) (auto simp: asm_line_NL)
  from codes_bind [OF this assms(7)] show ?thesis unfolding seq_pieces_Cons [symmetric] by simp
qed

lemma reserve_native_view:
  assumes "reserve_native p s = Inr s'"
  shows "frame s s' \<and> code_idx s' = code_idx s + 0 \<and> stgbuf s' = stgbuf s \<and> stgidx s' = stgidx s \<and> outf s' = outf s \<and>
    (quiet nm s \<longrightarrow> quiet nm s')"
  using assms by (auto simp: reserve_native_def get_sym_def upd_sym_def frame_def quiet_def split: if_splits option.splits)

lemma track_native:
  "tracks nm sa (seq [reserve_native q, stgwrite (instr_arg ''sysreq.c''), with_sym p (\<lambda>sy. outval (sym_addr sy) False), skip,
     stgwrite (NL # instr_arg ''stack''), outval n True, add_code (opcodes 2 + opargs 2)])"
proof (rule tracks_codes, rule codes_Cons, rule codes_quiet, rule reserve_native_view, assumption)
  let ?fs = "[skip, stgwrite (NL # instr_arg ''stack''), outval n True, add_code (opcodes 2 + opargs 2)]"
  let ?size = "opcodes 1 + opargs 1 + (opcodes 1 + opargs 1)"
  have "codes nm sa (seq (map stgwrite [instr_arg ''sysreq.c''] @ with_sym p (\<lambda>sy. outval (sym_addr sy) False) # ?fs))
      (opcodes 2 + opargs 2) ?size"
  proof (rule codes_value_Cons [where g = "\<lambda>i. outval i False"])
    fix i
    have "text_sized sa (concat [instr_arg ''sysreq.c'', itoh i, NL # instr_arg ''stack'', itoh n] @ [NL]) ?size"
      using text_sized_append [OF sized_arg [of "''sysreq.c''" sa i] sized_arg [of "''stack''" sa n]] by (simp add: opcode_simps)
    moreover have "asm_piece (instr_arg ''sysreq.c'')" by (rule asm_piece_NL; simp add: instr_arg_def NL_def NUL_def TAB_def)
    moreover have "asm_piece (NL # instr_arg ''stack'')" by (simp add: asm_piece_def instr_arg_def NL_def NUL_def TAB_def)
    ultimately have "codes nm sa (seq (map stgwrite ([instr_arg ''sysreq.c'', itoh i, NL # instr_arg ''stack'', itoh n] @ [[NL]]))) 0 ?size"
      using piece_itoh by (intro codes_line) (auto simp: asm_line_NL)
    from codes_bind [OF this codes_Cons [OF codes_add codes_Nil], of "opcodes 2 + opargs 2"]
    show "codes nm sa (seq (map stgwrite [instr_arg ''sysreq.c''] @ outval i False # ?fs)) (opcodes 2 + opargs 2) ?size"
      unfolding seq_pieces_Cons [symmetric] by (simp add: outval_def skip_def bind_res_assoc codes_def)
  qed (auto simp: with_sym_def split: if_splits)
  then show "codes nm sa (seq (stgwrite (instr_arg ''sysreq.c'') # with_sym p (\<lambda>sy. outval (sym_addr sy) False) # ?fs))
      (opcodes 2 + opargs 2) ?size" by simp
qed (simp add: opcodes_def opargs_def)

lemma track_call:
  assumes "label = None \<Longrightarrow> callee_ok sa name" "\<And>l. label = Some l \<Longrightarrow> \<exists>k. label_ok sa k \<and> l = itoh (of_nat k)"
  shows "tracks nm sa (seq [stgwrite (instr_arg ''call''), case label of Some l \<Rightarrow> seq [stgwrite ''l.'', stgwrite l] | None \<Rightarrow> stgwrite name,
    skip, stgwrite [NL], add_code (opcodes 1 + opargs 1)])"
proof (cases label)
  case None
  note c = assms(1) [OF None] and d = callee_chars [OF assms(1) [OF None]]
  have "codes nm sa (seq (map stgwrite (instr_arg ''call'' # [name] @ [[NL]]) @ [add_code (opcodes 1 + opargs 1)])) (opcodes 1 + opargs 1 + 0)
      (opcodes 1 + opargs 1 + (0 + 0))"
    using do_call_name [OF c] d by (intro codes_call codes_Cons [OF codes_add codes_Nil]) (auto intro: asm_piece_NL)
  then show ?thesis by (intro tracks_codes) (auto simp: None skip_def codes_def)
next
  case (Some l)
  then obtain k where k: "label_ok sa k" "l = itoh (of_nat k)" using assms(2) by blast
  have lp: "asm_piece ''l.''" by (rule asm_piece_NL; simp add: NL_def NUL_def)
  have "list_all (\<lambda>c. c \<noteq> NL \<and> c \<noteq> NUL \<and> c \<noteq> CHR '';'') (concat [''l.'', itoh (of_nat k)])"
    using itoh_ok(1) [of "of_nat k"] by simp (simp add: NL_def NUL_def)
  then have "codes nm sa (seq (map stgwrite (instr_arg ''call'' # [''l.'', itoh (of_nat k)] @ [[NL]]) @ [add_code (opcodes 1 + opargs 1)]))
      (opcodes 1 + opargs 1 + 0) (opcodes 1 + opargs 1 + (0 + 0))"
    using do_call_label [OF k(1)] length_itoh [of "of_nat k"] lp piece_itoh
    by (intro codes_call codes_Cons [OF codes_add codes_Nil]) (auto simp: isspace_def)
  then show ?thesis by (intro tracks_codes) (auto simp: Some k(2) skip_def bind_res_assoc codes_def)
qed

lemma track_ffcall [track]:
  assumes "label = None \<Longrightarrow> callee_ok sa (nm (the p))" "\<And>l. label = Some l \<Longrightarrow> \<exists>k. label_ok sa k \<and> l = itoh (of_nat k)"
  shows "tracks nm sa (ffcall p label n)"
  unfolding ffcall_def
proof (rule tracks_with_sym, rule tracks_cong)
  fix sy s assume nm: "p \<noteq> None" "sym_name sy = nm (the p)" and d: "direct nm s"
  let ?native = "seq [reserve_native (the p), stgwrite (instr_arg ''sysreq.c''), with_sym p (\<lambda>sy. outval (sym_addr sy) False), skip,
     stgwrite (NL # instr_arg ''stack''), outval ((n + 1) * 4) True, add_code (opcodes 2 + opargs 2)]"
  let ?call = "seq [stgwrite (instr_arg ''call''), case label of Some l \<Rightarrow> seq [stgwrite ''l.'', stgwrite l] | None \<Rightarrow> stgwrite (sym_name sy),
    skip, stgwrite [NL], add_code (opcodes 1 + opargs 1)]"
  let ?fail = "\<lambda>s. Inl AssertFail"
  let ?g = "if sym_ident sy \<noteq> iFUNCTN then ?fail else if has_flag (sym_usage sy) uNATIVE then if label \<noteq> None then ?fail else ?native else ?call"
  have "\<not> sc_asmfile s" using d by (simp add: direct_def quiet_def)
  then show "(if sym_ident sy \<noteq> iFUNCTN then Inl AssertFail
     else bind_res (if sc_asmfile s then funcdisplayname (sym_name sy) s else Inr []) (\<lambda>symname.
       (if has_flag (sym_usage sy) uNATIVE
        then if label \<noteq> None then Inl AssertFail
             else seq [reserve_native (the p), stgwrite (instr_arg ''sysreq.c''), with_sym p (\<lambda>sy. outval (sym_addr sy) False),
                       if sc_asmfile s then seq [stgwrite (TAB # ''; ''), stgwrite symname] else skip,
                       stgwrite (NL # instr_arg ''stack''), outval ((n + 1) * 4) True, add_code (opcodes 2 + opargs 2)] s
        else seq [stgwrite (instr_arg ''call''),
                  case label of Some l \<Rightarrow> seq [stgwrite ''l.'', stgwrite l] | None \<Rightarrow> stgwrite (sym_name sy),
                  if sc_asmfile s \<and> (label \<noteq> None \<or> (\<not> isalpha (deref (sym_name sy)) \<and> deref (sym_name sy) \<noteq> CHR ''_''
                       \<and> deref (sym_name sy) \<noteq> sc_ctrlchar s))
                  then seq [stgwrite (TAB # ''; ''), stgwrite symname] else skip,
                  stgwrite [NL], add_code (opcodes 1 + opargs 1)] s))) = ?g s"
    by (simp only: if_False simp_thms bind_res.simps split: if_split) blast
next
  fix sy assume nm: "p \<noteq> None" "sym_name sy = nm (the p)"
  show "tracks nm sa (if sym_ident sy \<noteq> iFUNCTN then \<lambda>s. Inl AssertFail else if has_flag (sym_usage sy) uNATIVE
      then if label \<noteq> None then \<lambda>s. Inl AssertFail else seq [reserve_native (the p), stgwrite (instr_arg ''sysreq.c''),
        with_sym p (\<lambda>sy. outval (sym_addr sy) False), skip,
        stgwrite (NL # instr_arg ''stack''), outval ((n + 1) * 4) True, add_code (opcodes 2 + opargs 2)]
      else seq [stgwrite (instr_arg ''call''), case label of Some l \<Rightarrow> seq [stgwrite ''l.'', stgwrite l] | None \<Rightarrow> stgwrite (sym_name sy),
        skip, stgwrite [NL], add_code (opcodes 1 + opargs 1)])"
    using assms nm by (intro track_if tracks_fail track_native track_call) auto
qed

subsection \<open>Labels\<close>

definition label_line :: "nat \<Rightarrow> cell \<Rightarrow> string" where
  "label_line n i = ''l.'' @ itoh (of_nat n) @ [TAB, TAB] @ ''; '' @ itoh i @ [NL]"

lemma setlabel_spec:
  assumes "direct nm s" "setlabel n s = Inr s'"
  shows "direct nm s' \<and> frame s s' \<and> code_idx s' = code_idx s \<and>
    out_text s' = out_text s @ (if sc_status s = statWRITE then label_line n (code_idx s) else [])"
proof -
  let ?ps = "[''l.'', itoh (of_nat n), [TAB, TAB] @ ''; '', itoh (code_idx s)]"
  have ps: "\<forall>p \<in> set ?ps. asm_piece p" using piece_itoh by (auto intro!: asm_piece_NL, auto simp: NL_def NUL_def TAB_def)
  then have two: "\<forall>p \<in> set (take 2 ?ps). asm_piece p" "\<forall>p \<in> set (take 3 ?ps). asm_piece p" by simp_all
  obtain s2 where s2: "seq (map stgwrite (take 2 ?ps)) s = Inr s2" using assms(2) by (auto simp: setlabel_def)
  with pieces_keep [OF assms(1) two(1)] have "\<not> staging s2" using assms(1) by (auto simp: direct_def)
  with s2 assms(2) obtain s3 where s3: "seq (map stgwrite (take 3 ?ps)) s = Inr s3"
      "seq [outval (code_idx s3) False, stgwrite [NL]] s3 = Inr s'"
    by (auto simp: setlabel_def)
  with pieces_keep [OF assms(1) two(2)] have "code_idx s3 = code_idx s" by blast
  with s3 have r: "seq (map stgwrite (?ps @ [[NL]])) s = Inr s'" by (auto simp: outval_def skip_def)
  have d: "ready s" "quiet nm s" "\<not> staging s" using assms(1) by (auto simp: direct_def)
  from emitsD [OF emits_line [OF stable_quiet ps asm_line_NL(2)] d(1,2) r] d(3)
  show ?thesis by (simp add: direct_def frame_def appended_def label_line_def)
qed

lemma label_line_text: "asm_line LINE_SIZE (label_line n i)" "cstring (label_line n i)"
  using length_itoh [of "of_nat n"] length_itoh [of i]
  by (simp_all add: label_line_def asm_line_def LINE_SIZE_def butlast_append) (simp_all add: NL_def NUL_def TAB_def)

lemma pass1_label:
  assumes "label_ok sa n" "length (lbltab a) = sc_labnum sa"
  shows "pass1_line sa (label_line n i) a = Inr (a\<lparr>lbltab := (lbltab a)[n := Some (codeindex a)]\<rparr>)"
proof -
  have "CHR '';'' \<noteq> TAB" "hexdigit TAB = None" by (simp_all add: TAB_def hexdigit_def isdigit_def)
  then have "stripcomment (label_line n i) = ''l.'' @ itoh (of_nat n) @ [TAB, TAB, NL]"
      and l: "label_index sa (itoh (of_nat n) @ [TAB, TAB, NL]) = Inr (n, [TAB, TAB, NL])"
    using stripcomment_comment [of "''l.'' @ itoh (of_nat n) @ [TAB, TAB]" "CHR '' '' # itoh i @ [NL]"]
      label_index_itoh [OF assms(1), of "[TAB, TAB, NL]"] by (simp_all add: label_line_def)
  then have s: "skipwhitespace (stripcomment (label_line n i)) = ''l.'' @ itoh (of_nat n) @ [TAB, TAB, NL]"
    by (simp add: skipwhitespace_def isspace_def)
  show ?thesis unfolding pass1_line_def s Let_def
    using l assms by (simp add: is_label_def tolower_def isupper_def label_ok_def)
qed

subsection \<open>Generated programs\<close>

text \<open>The functions of the code generator that write complete lines, with the labels and callees they may name.\<close>

inductive emitter :: "cstate \<Rightarrow> (nat \<Rightarrow> string) \<Rightarrow> (cstate \<Rightarrow> fault + cstate) \<Rightarrow> bool" for sa nm where
  "emitter sa nm begcseg" | "emitter sa nm begdseg" | "emitter sa nm (setline chk)"
| "mark = sEXPR \<or> mark = sPARM \<Longrightarrow> emitter sa nm (markexpr mark name i)"
| "emitter sa nm (startfunc name)" | "emitter sa nm endfunc" | "emitter sa nm (alignframe v)"
| "emitter sa nm (rvalue lval)" | "emitter sa nm (address p reg)" | "emitter sa nm (addr_reg v reg)"
| "emitter sa nm (load_argcount reg)" | "emitter sa nm load_hidden_arg" | "emitter sa nm load_i" | "emitter sa nm (store lval)"
| "emitter sa nm (storereg v reg)" | "emitter sa nm (memcopy v)" | "emitter sa nm (copyarray p v)"
| "emitter sa nm (fillarray p v w)" | "emitter sa nm (ldconst v reg)" | "emitter sa nm moveto1" | "emitter sa nm move_alt"
| "emitter sa nm (pushreg reg)" | "emitter sa nm (pushval v)" | "emitter sa nm (popreg reg)" | "emitter sa nm swap1"
| "label_ok sa n \<Longrightarrow> emitter sa nm (ffswitch n)"
| "label_ok sa n \<Longrightarrow> emitter sa nm (ffcase v (itoh (of_nat n)) newtable)"
| "callee_ok sa (nm (the p)) \<Longrightarrow> emitter sa nm (ffcall p None v)"
| "label_ok sa n \<Longrightarrow> emitter sa nm (ffcall p (Some (itoh (of_nat n))) v)"
| "emitter sa nm ffret" | "emitter sa nm (ffabort v)" | "emitter sa nm (ffbounds v)"
| "label_ok sa n \<Longrightarrow> emitter sa nm (jumplabel n)" | "label_ok sa n \<Longrightarrow> emitter sa nm (jmp_ne0 n)"
| "label_ok sa n \<Longrightarrow> emitter sa nm (jmp_eq0 n)"
| "emitter sa nm (modstk v)" | "emitter sa nm (setstk v)" | "emitter sa nm (modheap v)" | "emitter sa nm setheap_pri"
| "emitter sa nm (setheap v)" | "emitter sa nm cell2addr" | "emitter sa nm cell2addr_alt" | "emitter sa nm addr2cell"
| "emitter sa nm char2addr" | "emitter sa nm charalign" | "emitter sa nm (addconst v)"
| "f \<in> {os_mult, os_div, os_mod, ob_add, ob_sub, ob_sal, os_sar, ou_sar, ob_or, ob_xor, ob_and, ob_eq, ob_ne, relop_prefix,
    relop_suffix, os_lt, os_le, os_gt, os_ge, lneg, neg, invert, nooperation} \<Longrightarrow> emitter sa nm f"
| "emitter sa nm (inc lval)" | "emitter sa nm (dec lval)"

lemma emitter_tracks: "emitter sa nm f \<Longrightarrow> tracks nm sa f"
  by (induction rule: emitter.induct) (auto intro: track)

datatype gen_step = Emit "cstate \<Rightarrow> fault + cstate" | Label nat

fun run_step :: "gen_step \<Rightarrow> cstate \<Rightarrow> fault + cstate" where
  "run_step (Emit f) = f"
| "run_step (Label n) = setlabel n"

text \<open>The code index at which each label was last posted.\<close>

fun posted :: "gen_step list \<Rightarrow> cstate \<Rightarrow> cell option list \<Rightarrow> cell option list" where
  "posted [] s tab = tab"
| "posted (st # sts) s tab =
     (case run_step st s of
        Inl e \<Rightarrow> tab
      | Inr s' \<Rightarrow> posted sts s' (case st of Emit f \<Rightarrow> tab | Label n \<Rightarrow> tab[n := Some (code_idx s)]))"

fun step_ok :: "cstate \<Rightarrow> (nat \<Rightarrow> string) \<Rightarrow> gen_step \<Rightarrow> bool" where
  "step_ok sa nm (Emit f) \<longleftrightarrow> emitter sa nm f"
| "step_ok sa nm (Label n) \<longleftrightarrow> label_ok sa n"

text \<open>The first pass over what has been written so far.\<close>

definition assembled :: "cstate \<Rightarrow> (nat \<Rightarrow> string) \<Rightarrow> asmstate \<Rightarrow> cstate \<Rightarrow> cell option list \<Rightarrow> bool" where
  "assembled sa nm a s tab \<longleftrightarrow> direct nm s \<and> sc_status s = statWRITE \<and> length tab = sc_labnum sa \<and>
     (\<exists>ls. out_text s = concat ls \<and> list_all (\<lambda>l. asm_line LINE_SIZE l \<and> cstring l) ls \<and>
        seq (map (pass1_line sa) ls) a = Inr (a\<lparr>codeindex := code_idx s, lbltab := tab\<rparr>))"

lemma assembled_emit:
  assumes "assembled sa nm a s tab" "emitter sa nm f" "f s = Inr s'"
  shows "assembled sa nm a s' tab"
proof -
  from assms(1) obtain ls where s: "direct nm s" "sc_status s = statWRITE" "length tab = sc_labnum sa" "out_text s = concat ls"
      "list_all (\<lambda>l. asm_line LINE_SIZE l \<and> cstring l) ls"
      "seq (map (pass1_line sa) ls) a = Inr (a\<lparr>codeindex := code_idx s, lbltab := tab\<rparr>)"
    by (auto simp: assembled_def)
  obtain n where "code_step nm sa n n s s'" using tracksD [OF emitter_tracks [OF assms(2)] s(1) assms(3)] by blast
  then obtain ms where ms: "direct nm s'" "sc_status s' = statWRITE" "code_idx s' = code_idx s + n" "out_text s' = out_text s @ concat ms"
      "list_all (\<lambda>l. asm_line LINE_SIZE l \<and> cstring l) ms"
      "\<And>a. seq (map (pass1_line sa) ms) a = Inr (a\<lparr>codeindex := codeindex a + n\<rparr>)"
    using s(2) by (auto simp: code_step_def frame_def wrote_def text_sized_def)
  then show ?thesis using s unfolding assembled_def by (intro conjI exI [of _ "ls @ ms"]) (auto simp: seq_append)
qed

lemma assembled_label:
  assumes "assembled sa nm a s tab" "label_ok sa n" "setlabel n s = Inr s'"
  shows "assembled sa nm a s' (tab[n := Some (code_idx s)])"
proof -
  from assms(1) obtain ls where s: "direct nm s" "sc_status s = statWRITE" "length tab = sc_labnum sa" "out_text s = concat ls"
      "list_all (\<lambda>l. asm_line LINE_SIZE l \<and> cstring l) ls"
      "seq (map (pass1_line sa) ls) a = Inr (a\<lparr>codeindex := code_idx s, lbltab := tab\<rparr>)"
    by (auto simp: assembled_def)
  let ?l = "label_line n (code_idx s)"
  have "seq (map (pass1_line sa) (ls @ [?l])) a = Inr (a\<lparr>codeindex := code_idx s, lbltab := tab[n := Some (code_idx s)]\<rparr>)"
    using s(3,6) pass1_label [OF assms(2), of "a\<lparr>codeindex := code_idx s, lbltab := tab\<rparr>" "code_idx s"] by (simp add: seq_append)
  then show ?thesis using s setlabel_spec [OF s(1) assms(3)] label_line_text unfolding assembled_def
    by (intro conjI exI [of _ "ls @ [?l]"]) (auto simp: frame_def)
qed

lemma assembled_run:
  "list_all (step_ok sa nm) sts \<Longrightarrow> assembled sa nm a s tab \<Longrightarrow> seq (map run_step sts) s = Inr s' \<Longrightarrow>
   assembled sa nm a s' (posted sts s tab)"
proof (induction sts arbitrary: s tab)
  case (Cons st sts)
  from Cons.prems(3) obtain t where t: "run_step st s = Inr t" "seq (map run_step sts) t = Inr s'" by auto
  show ?case
  proof (cases st)
    case (Emit f)
    then show ?thesis using Cons.IH [OF _ assembled_emit [OF Cons.prems(2), of f t] t(2)] Cons.prems(1) t(1) by simp
  next
    case (Label n)
    then show ?thesis using Cons.IH [OF _ assembled_label [OF Cons.prems(2), of n t] t(2)] Cons.prems(1) t(1) by simp
  qed
qed simp

text \<open>C5: For code that goes straight to the file, the assembler's first pass succeeds on what the code generator has
  written, its code index is the one the generator has kept, and it enters every label at
  the code index at which the generator posted it.\<close>

theorem generated_labels:
  assumes "list_all (step_ok sa nm) sts" "direct nm s" "sc_status s = statWRITE" "out_text s = []" "code_idx s = 0"
    and "seq (map run_step sts) s = Inr s'" "0 < sc_labnum sa" "granted (mem sa) (sc_labnum sa * 4)"
  shows "\<exists>mf fin b. outf s' = Some mf \<and> first_pass sa mf a = Inr (fin, b) \<and> codeindex b = code_idx s' \<and>
    lbltab b = posted sts s (replicate (sc_labnum sa) None)"
proof -
  let ?tab = "replicate (sc_labnum sa) None"
  let ?a = "a\<lparr>lbltab := ?tab, codeindex := 0\<rparr>"
  have "assembled sa nm ?a s ?tab"
    using assms(2-5) unfolding assembled_def by (intro conjI exI [of _ "[]"]) auto
  from assembled_run [OF assms(1) this assms(6)] obtain ls where ls: "direct nm s'" "out_text s' = concat ls"
      "list_all (\<lambda>l. asm_line LINE_SIZE l \<and> cstring l) ls"
      "seq (map (pass1_line sa) ls) ?a = Inr (?a\<lparr>codeindex := code_idx s', lbltab := posted sts s ?tab\<rparr>)"
    by (auto simp: assembled_def)
  then obtain mf where mf: "outf s' = Some mf" "mf_wf mf" "contents mf = concat ls"
    by (auto simp: direct_def ready_def out_ok_def out_text_def)
  have "cstring (contents mf)" using ls(3) mf(3) by (auto simp: list_all_iff cstring_def)
  moreover have "text_lines LINE_SIZE (contents mf) = ls"
    using text_lines_complete [of LINE_SIZE ls] ls(3) mf(3) by (simp add: LINE_SIZE_def list_all_iff)
  ultimately obtain fin where "asm_pass (pass1_line sa) mf ?a = Inr (fin, ?a\<lparr>codeindex := code_idx s', lbltab := posted sts s ?tab\<rparr>)"
    using asm_pass_lines [OF mf(2), of "pass1_line sa" ?a] ls(4) by auto
  then show ?thesis using assms(7,8) mf(1) by (simp add: first_pass_def)
qed

definition small_state :: cstate where
  "small_state = (initial_state ample_heap)\<lparr>outf := memfile_creat ample_heap ''out'' 8, sc_status := statWRITE, sc_labnum := 1\<rparr>"

definition small_program :: "gen_step list" where
  "small_program = [Emit (startfunc ''main''), Label 0, Emit (pushval 5), Emit (jumplabel 0)]"

lemma small_run: "map_sum id (\<lambda>s. code_idx s) (seq (map run_step small_program) small_state) = Inr 20"
  by code_simp

lemma small_posted: "posted small_program small_state [None] = [Some 4]"
  by code_simp

lemma small_direct: "direct (\<lambda>_. []) small_state"
  using mf_wf_creat [of ample_heap "''out''" 8]
  by (simp add: direct_def quiet_def ready_def stg_wf_def small_state_def initial_state_def out_ok_def ample_heap_def
      memfile_creat_def pending_def)

theorem generated_labels_witness:
  "\<exists>s' mf fin b. seq (map run_step small_program) small_state = Inr s' \<and> outf s' = Some mf \<and>
     first_pass small_state mf loop_asm = Inr (fin, b) \<and> codeindex b = 20 \<and> lbltab b = [Some 4]"
proof -
  obtain s' where s': "seq (map run_step small_program) small_state = Inr s'" "code_idx s' = 20"
    using small_run by (cases "seq (map run_step small_program) small_state") auto
  have l: "label_ok small_state 0" by (simp add: label_ok_def small_state_def)
  have ok: "list_all (step_ok small_state (\<lambda>_. [])) small_program"
    using l by (auto simp: small_program_def intro: emitter.intros)
  have o: "sc_status small_state = statWRITE" "out_text small_state = []" "code_idx small_state = 0" "sc_labnum small_state = 1"
      "granted (mem small_state) (sc_labnum small_state * 4)" "0 < sc_labnum small_state"
    by (simp_all add: small_state_def initial_state_def out_text_def memfile_creat_def ample_heap_def contents_def)
  have p: "posted small_program small_state (replicate (sc_labnum small_state) None) = [Some 4]" using small_posted o(4) by simp
  obtain mf fin b where b: "outf s' = Some mf" "first_pass small_state mf loop_asm = Inr (fin, b)" "codeindex b = code_idx s'"
      "lbltab b = posted small_program small_state (replicate (sc_labnum small_state) None)"
    using generated_labels [OF ok small_direct o(1-3) s'(1) o(6,5), of loop_asm] by blast
  then have "codeindex b = 20" "lbltab b = [Some 4]" using s'(2) p by simp_all
  with b s'(1) show ?thesis by blast
qed

end
