(* ===== verification/Compact.thy ===== *)
theory Compact
  imports AssemblerFacts
begin

text \<open>
  Compact encoding across the two programs: the assembler writes each cell in groups of seven
  bits (\<open>write_encoded\<close> of \<open>sc6.c\<close>) and the loader of the abstract machine expands the
  image in place, from its end backward (\<open>expand\<close> of \<open>amxmodx/amx.cpp\<close>). A cell that would
  fall on bytes that are still to be read waits in a ring of \<open>AMX_COMPACTMARGIN\<close> entries;
  the bound that \<open>write_encoded\<close> keeps on the growth of the code makes the ring suffice.
\<close>

subsection \<open>The loader\<close>

definition COMPACTMARGIN :: nat where "COMPACTMARGIN = 64"

fun read_cell :: "byte list \<Rightarrow> nat \<Rightarrow> cell \<Rightarrow> nat \<Rightarrow> fault + cell \<times> nat \<times> nat" where
  "read_cell code 0 c shift = Inl OutOfBounds"
| "read_cell code (Suc codesize) c shift =
     (if \<not> codesize < length code then Inl OutOfBounds
      else if \<not> shift < 32 \<or> \<not> (shift > 0 \<or> code ! codesize AND 0x80 = 0) then Inl AssertFail
      else let c = c OR push_bit shift (ucast (code ! codesize AND 0x7f)); shift = shift + 7
           in if codesize > 0 \<and> code ! (codesize - 1) AND 0x80 \<noteq> 0
              then read_cell code codesize c shift else Inr (c, shift, codesize))"

function sign_expand :: "cell \<Rightarrow> nat \<Rightarrow> cell" where
  "sign_expand c shift = (if shift < 32 then sign_expand (c OR push_bit shift 0xff) (shift + 8) else c)"
  by pat_completeness auto
termination
  by (relation "measure (\<lambda>(c, shift). 32 - shift)") auto

declare sign_expand.simps [simp del]

text \<open>The ring of cells to be stored later.\<close>

record ring =
  entries :: "(int \<times> cell) list"
  sh :: nat
  st :: nat
  sc :: nat

definition store_cell :: "int \<Rightarrow> cell \<Rightarrow> byte list \<Rightarrow> fault + byte list" where
  "store_cell memloc c code = memcpy code memloc (le_bytes 4 c)"

function flush_spare :: "nat \<Rightarrow> ring \<Rightarrow> byte list \<Rightarrow> fault + ring \<times> byte list" where
  "flush_spare codesize r code =
     (if sc r > 0 \<and> fst (entries r ! sh r) > int codesize
      then (case store_cell (fst (entries r ! sh r)) (snd (entries r ! sh r)) code of
              Inl e \<Rightarrow> Inl e
            | Inr code' \<Rightarrow> flush_spare codesize (r\<lparr>sh := (sh r + 1) mod COMPACTMARGIN, sc := sc r - 1\<rparr>) code')
      else Inr (r, code))"
  by pat_completeness auto
termination
  by (relation "measure (\<lambda>(n, r, code). sc r)") auto

declare flush_spare.simps [simp del]

definition place_cell :: "nat \<Rightarrow> int \<Rightarrow> cell \<Rightarrow> ring \<Rightarrow> byte list \<Rightarrow> fault + ring \<times> byte list" where
  "place_cell codesize memsize c r code =
     (if memsize > int codesize \<or> (memsize = int codesize \<and> memsize = 0)
      then bind_res (store_cell memsize c code) (\<lambda>code. Inr (r, code))
      else if \<not> sc r < COMPACTMARGIN then Inl AssertFail
      else Inr (r\<lparr>entries := (entries r)[st r := (memsize, c)], st := (st r + 1) mod COMPACTMARGIN, sc := sc r + 1\<rparr>, code))"

lemma read_cell_less: "read_cell code n c shift = Inr (v, shift', m) \<Longrightarrow> m < n"
proof (induction code n c shift rule: read_cell.induct)
  case (2 code codesize c shift)
  then show ?case by (force simp: Let_def split: if_splits)
qed simp

function expand_loop :: "nat \<Rightarrow> int \<Rightarrow> ring \<Rightarrow> byte list \<Rightarrow> fault + int \<times> byte list" where
  "expand_loop codesize memsize r code =
     (if codesize > 0
      then case read_cell code codesize 0 0 of
             Inl e \<Rightarrow> Inl e
           | Inr (c, shift, codesize') \<Rightarrow>
               let c = (if code ! codesize' AND 0x40 \<noteq> 0 then sign_expand c shift else c)
               in case flush_spare codesize' r code of
                    Inl e \<Rightarrow> Inl e
                  | Inr (r, code) \<Rightarrow>
                      (let memsize = memsize - 4
                       in if \<not> memsize \<ge> 0 then Inl AssertFail
                          else case place_cell codesize' memsize c r code of
                                 Inl e \<Rightarrow> Inl e
                               | Inr (r, code) \<Rightarrow> expand_loop codesize' memsize r code)
      else Inr (memsize, code))"
  by pat_completeness auto
termination
  by (relation "measure (\<lambda>(n, m, r, code). n)") (auto dest: read_cell_less)

declare expand_loop.simps [simp del]

definition expand :: "(int \<times> cell) list \<Rightarrow> byte list \<Rightarrow> nat \<Rightarrow> int \<Rightarrow> fault + byte list" where
  "expand spare code codesize memsize =
     (if memsize mod 4 \<noteq> 0 then Inl AssertFail
      else bind_res (expand_loop codesize memsize \<lparr>entries = spare, sh = 0, st = 0, sc = 0\<rparr> code) (\<lambda>(memsize, code).
        if memsize \<noteq> 0 then Inl AssertFail else Inr code))"

subsection \<open>The groups of a cell\<close>

lemma length_groups [simp]: "length (groups n c) = n"
  by (induction n arbitrary: c) auto

lemma groups_nth: "i < n \<Longrightarrow> groups n c ! i = drop_bit (7 * i) c AND 0x7f"
proof (induction n arbitrary: c i)
  case (Suc n)
  then show ?case by (cases i) (auto simp: drop_bit_drop_bit add.commute)
qed simp

lemma bit_mask7: "bit (0x7f :: 'a :: len word) i \<longleftrightarrow> i < 7 \<and> i < LENGTH('a)"
proof -
  have "(0x7f :: 'a word) = mask 7" by (simp add: mask_eq_exp_minus_1)
  then show ?thesis by (simp only: bit_mask_iff) auto
qed

lemma bit_group: "i < 5 \<Longrightarrow> bit (groups ENC_MAX c ! i) j \<longleftrightarrow> j < 7 \<and> bit c (7 * i + j)"
  using bit_imp_le_length [of c "7 * i + j"]
  by (simp only: groups_nth ENC_MAX_def bit_and_iff bit_drop_bit_eq bit_mask7 comp_apply) auto

lemma bit6: "(x :: 'a :: len word) AND 0x40 = 0 \<longleftrightarrow> \<not> bit x 6"
  using and_exp_eq_0_iff_not_bit [of x 6] by simp

lemma bit7: "(x :: 'a :: len word) AND 0x80 = 0 \<longleftrightarrow> \<not> bit x 7"
  using and_exp_eq_0_iff_not_bit [of x 7] by simp

lemma skip_zeros_spec:
  "1 \<le> k \<Longrightarrow> 1 \<le> skip_zeros t k \<and> skip_zeros t k \<le> k \<and> (\<forall>i. skip_zeros t k \<le> i \<and> i < k \<longrightarrow> t ! i = 0) \<and>
   (skip_zeros t k < k \<longrightarrow> \<not> bit (t ! (skip_zeros t k - 1)) 6)"
proof (induction k)
  case (Suc k)
  show ?case
  proof (cases "Suc k > 1 \<and> t ! k = 0 \<and> t ! (k - 1) AND 0x40 = 0")
    case True
    then have e: "skip_zeros t (Suc k) = skip_zeros t k" "1 \<le> k" by auto
    show ?thesis using Suc.IH [OF e(2)] True unfolding e(1) bit6
      by (cases "skip_zeros t k = k") (auto simp: less_Suc_eq)
  qed auto
qed simp

lemma skip_ones_spec:
  "1 \<le> k \<Longrightarrow> 1 \<le> skip_ones t k \<and> skip_ones t k \<le> k \<and> (\<forall>i. skip_ones t k \<le> i \<and> i < k \<longrightarrow> t ! i = 0x7f) \<and>
   (skip_ones t k < k \<longrightarrow> bit (t ! (skip_ones t k - 1)) 6)"
proof (induction k)
  case (Suc k)
  show ?case
  proof (cases "Suc k > 1 \<and> t ! k = 0x7f \<and> t ! (k - 1) AND 0x40 \<noteq> 0")
    case True
    then have e: "skip_ones t (Suc k) = skip_ones t k" "1 \<le> k" by auto
    show ?thesis using Suc.IH [OF e(2)] True unfolding e(1) bit6
      by (cases "skip_ones t k = k") (auto simp: less_Suc_eq)
  qed auto
qed simp

lemma group_0: "i < 5 \<Longrightarrow> groups ENC_MAX c ! i = 0 \<Longrightarrow> 7 * i \<le> j \<Longrightarrow> j < 7 * i + 7 \<Longrightarrow> \<not> bit c j"
  using bit_group [of i c "j - 7 * i"] by auto

lemma group_7f: "i < 5 \<Longrightarrow> groups ENC_MAX c ! i = 0x7f \<Longrightarrow> 7 * i \<le> j \<Longrightarrow> j < 7 * i + 7 \<Longrightarrow> bit c j"
  using bit_group [of i c "j - 7 * i"] bit_mask7 [where 'a = 32, of "j - 7 * i"] by auto

lemma group_0f: "groups ENC_MAX c ! 4 = 0x0f \<Longrightarrow> 28 \<le> j \<Longrightarrow> j < 32 \<Longrightarrow> bit c j"
proof -
  assume g: "groups ENC_MAX c ! 4 = 0x0f" "28 \<le> j" "j < 32"
  have "(0x0f :: cell) = mask 4" by (simp add: mask_eq_exp_minus_1)
  then have "bit (groups ENC_MAX c ! 4) (j - 28)" using g by (simp only: bit_mask_iff) auto
  then show ?thesis using bit_group [of 4 c "j - 28"] g by simp
qed

lemma group_of: "7 * n \<le> j \<Longrightarrow> j < (32 :: nat) \<Longrightarrow> \<exists>i. n \<le> i \<and> i < 5 \<and> 7 * i \<le> j \<and> j < 7 * i + 7"
  by (intro exI [of _ "j div 7"]) auto

lemma encode_length_spec:
  "1 \<le> encode_length (groups ENC_MAX c) \<and> encode_length (groups ENC_MAX c) \<le> 5 \<and>
   (\<forall>j. 7 * encode_length (groups ENC_MAX c) \<le> j \<and> j < 32 \<longrightarrow> bit c j = bit c (7 * encode_length (groups ENC_MAX c) - 1))"
proof -
  let ?t = "groups ENC_MAX c"
  define m where "m = skip_zeros ?t 5"
  define k where "k = (if m = 5 \<and> ?t ! 4 = ENC_MASK \<and> ?t ! 3 AND 0x40 \<noteq> 0 then 4 else m)"
  define n where "n = skip_ones ?t k"
  have n: "encode_length ?t = n" using m_def [symmetric] unfolding n_def k_def
    by (cases "m = 5") (auto simp: encode_length_def ENC_MAX_def Let_def)
  have m: "1 \<le> m" "m \<le> 5" "\<forall>i. m \<le> i \<and> i < 5 \<longrightarrow> ?t ! i = 0" "m < 5 \<longrightarrow> \<not> bit (?t ! (m - 1)) 6"
    using skip_zeros_spec [of 5 ?t] by (auto simp: m_def)
  have k: "1 \<le> k" "k \<le> 5" using m by (auto simp: k_def)
  have o: "1 \<le> n" "n \<le> k" "\<forall>i. n \<le> i \<and> i < k \<longrightarrow> ?t ! i = 0x7f" "n < k \<longrightarrow> bit (?t ! (n - 1)) 6"
    using skip_ones_spec [OF k(1), of ?t] by (auto simp: n_def)
  have last: "bit (?t ! (n - 1)) 6 = bit c (7 * n - 1)" if "n \<le> 5"
  proof -
    have "7 * (n - 1) + 6 = 7 * n - 1" using o(1) by linarith
    then show ?thesis using bit_group [of "n - 1" c 6] o(1) that by simp
  qed
  have "bit c j = bit c (7 * n - 1)" if j: "7 * n \<le> j" "j < 32" for j
  proof -
    from group_of [OF j] obtain i where i: "n \<le> i" "i < 5" "7 * i \<le> j" "j < 7 * i + 7" by blast
    have four: "\<not> ?t ! 4 = 0x7f"
    proof
      assume "?t ! 4 = 0x7f"
      then have "bit c 34" using group_7f [of 4 c 34] by simp
      then show False using bit_imp_le_length [of c 34] by simp
    qed
    show ?thesis
    proof (cases "m = 5")
      case False
      then have m5: "m < 5" "k = m" using m by (auto simp: k_def)
      have "n = m"
      proof (rule ccontr)
        assume "n \<noteq> m"
        then have "?t ! (m - 1) = 0x7f" using o(2,3) m5(2) m(1) by auto
        then have "bit (?t ! (m - 1)) 6" using bit_mask7 [where 'a = 32, of 6] by simp
        then show False using m(4) m5(1) by simp
      qed
      then have "\<not> bit c j" "\<not> bit c (7 * n - 1)"
        using group_0 [of i c j] i m(3,4) m5 last by auto
      then show ?thesis by simp
    next
      case True
      show ?thesis
      proof (cases "k = 4")
        case k4: True
        then have c4: "?t ! 4 = 0x0f" "bit (?t ! 3) 6" using True by (auto simp: k_def ENC_MASK_def bit6 split: if_splits)
        have "bit c j"
          using group_0f [OF c4(1), of j] group_7f [of i c j] i j o(3) k4 by (cases "i = 4") auto
        moreover have "bit (?t ! (n - 1)) 6" using o c4(2) k4 by (cases "n = 4") auto
        ultimately show ?thesis using last i by simp
      next
        case False
        then have "k = 5" using True by (auto simp: k_def split: if_splits)
        then have "n = 5 \<or> ?t ! 4 = 0x7f" using o(2,3) by (cases "n = 5") auto
        then show ?thesis using four i by auto
      qed
    qed
  qed
  then show ?thesis using n o k by auto
qed

subsection \<open>Reading one cell back\<close>

definition enc_byte :: "cell \<Rightarrow> nat \<Rightarrow> byte" where
  "enc_byte c index = ucast (if index = 0 then groups ENC_MAX c ! index else groups ENC_MAX c ! index OR 0x80)"

lemma bit_80: "bit (0x80 :: 'a :: len word) j \<longleftrightarrow> j = 7 \<and> j < LENGTH('a)"
proof -
  have "(0x80 :: 'a word) = 2 ^ 7" by simp
  then show ?thesis by (simp only: bit_exp_iff) (auto simp: possible_bit_word)
qed

lemma bit_enc_byte:
  assumes "i < 5"
  shows "bit (enc_byte c i) j \<longleftrightarrow> (j < 7 \<and> bit c (7 * i + j)) \<or> (j = 7 \<and> i > 0)"
  using bit_group [OF assms, of c j] unfolding enc_byte_def bit_ucast_iff
  by (cases "i = 0") (simp_all only: if_True if_False bit_or_iff bit_80, auto)

lemma encode_cell_bytes: "encode_cell c = map (enc_byte c) (rev [0..<encode_length (groups ENC_MAX c)])"
  by (simp add: encode_cell_def enc_byte_def Let_def)

lemma add_group:
  assumes "i < 5"
  shows "take_bit (7 * i) c OR push_bit (7 * i) (ucast (enc_byte c i AND 0x7f)) = take_bit (7 * i + 7) (c :: cell)"
proof (rule bit_word_eqI)
  fix j assume j: "j < LENGTH(32)"
  have b: "bit (enc_byte c i AND 0x7f) k \<longleftrightarrow> k < 7 \<and> bit c (7 * i + k)" for k
    unfolding bit_and_iff bit_mask7 bit_enc_byte [OF assms] by auto
  have u: "bit (ucast (enc_byte c i AND 0x7f) :: cell) k \<longleftrightarrow> k < 7 \<and> bit c (7 * i + k)" for k
    unfolding bit_ucast_iff possible_bit_word b by auto
  show "bit (take_bit (7 * i) c OR push_bit (7 * i) (ucast (enc_byte c i AND 0x7f))) j = bit (take_bit (7 * i + 7) c) j"
  proof (cases "7 * i \<le> j")
    case True
    then obtain k where "j = 7 * i + k" using le_Suc_ex by blast
    then show ?thesis using j unfolding bit_or_iff bit_take_bit_iff bit_push_bit_iff u possible_bit_word by simp
  next
    case False
    then show ?thesis unfolding bit_or_iff bit_take_bit_iff bit_push_bit_iff by simp
  qed
qed

text \<open>The bytes in front of a cell end with the low byte of another cell, or there are none.\<close>

definition cell_border :: "byte list \<Rightarrow> bool" where
  "cell_border pre \<longleftrightarrow> pre = [] \<or> \<not> bit (last pre) 7"

lemma read_cell_groups:
  assumes "n \<le> 5" "cell_border pre"
  shows "i < n \<Longrightarrow> read_cell (pre @ map (enc_byte c) (rev [0..<n]) @ post) (length pre + (n - i)) (take_bit (7 * i) c) (7 * i) =
    Inr (take_bit (7 * n) c, 7 * n, length pre)"
proof (induction "n - i" arbitrary: i)
  case (Suc d)
  let ?code = "pre @ map (enc_byte c) (rev [0..<n]) @ post"
  have at: "?code ! (length pre + (n - Suc k)) = enc_byte c k" if "k < n" for k
    using that unfolding nth_append_length_plus by (simp add: nth_append rev_nth)
  have len: "length pre + (n - i) = Suc (length pre + (n - Suc i))" using Suc.prems by simp
  have less: "length pre + (n - Suc i) < length ?code" using Suc.prems by simp
  have first: "7 * i > 0 \<or> ?code ! (length pre + (n - Suc i)) AND 0x80 = 0"
    using at [OF Suc.prems] assms(1) by (cases "i = 0") (auto simp: bit7 bit_enc_byte)
  have shift: "7 * i < 32" using assms(1) Suc.prems by simp
  have c: "take_bit (7 * i) c OR push_bit (7 * i) (ucast (?code ! (length pre + (n - Suc i)) AND 0x7f)) = take_bit (7 * Suc i) c"
    using add_group [of i c] at [OF Suc.prems] assms(1) Suc.prems by (simp add: add.commute)
  show ?case
  proof (cases "Suc i < n")
    case True
    have p: "length pre + (n - Suc i) - 1 = length pre + (n - Suc (Suc i))" using True by simp
    have "?code ! (length pre + (n - Suc i) - 1) AND 0x80 \<noteq> 0"
      using at [OF True] assms(1) True unfolding p bit7 by (simp add: bit_enc_byte)
    moreover have "0 < length pre + (n - Suc i)" using True by simp
    moreover have "read_cell ?code (length pre + (n - Suc i)) (take_bit (7 * Suc i) c) (7 * Suc i) = Inr (take_bit (7 * n) c, 7 * n, length pre)"
      using Suc.hyps(1) [of "Suc i"] Suc.hyps(2) True by simp
    ultimately show ?thesis using less first shift c unfolding len
      by (simp add: Let_def add.commute)
  next
    case False
    then have n: "n = Suc i" using Suc.prems by simp
    have "\<not> (length pre > 0 \<and> ?code ! (length pre - 1) AND 0x80 \<noteq> 0)"
      using assms(2) by (cases pre rule: rev_cases) (auto simp: cell_border_def bit7 nth_append)
    then show ?thesis using less first shift c unfolding len n by (auto simp: Let_def add.commute)
  qed
qed simp

lemma bit_ff: "bit (0xff :: cell) i \<longleftrightarrow> i < 8"
proof -
  have "(0xff :: cell) = mask 8" by (simp add: mask_eq_exp_minus_1)
  then show ?thesis by (simp only: bit_mask_iff) auto
qed

lemma bit_sign_expand: "bit (sign_expand c shift) j \<longleftrightarrow> bit c j \<or> (shift \<le> j \<and> j < 32)"
proof (induction c shift rule: sign_expand.induct)
  case (1 c shift)
  show ?case
  proof (cases "shift < 32")
    case True
    have "bit (c OR push_bit shift 0xff) j \<longleftrightarrow> bit c j \<or> (shift \<le> j \<and> j < 32 \<and> j < shift + 8)"
      unfolding bit_or_iff bit_push_bit_iff bit_ff possible_bit_word by auto
    then show ?thesis using True "1.IH" [OF True] by (subst sign_expand.simps) auto
  next
    case False
    then show ?thesis by (subst sign_expand.simps) auto
  qed
qed

abbreviation enc_size :: "cell \<Rightarrow> nat" where
  "enc_size c \<equiv> encode_length (groups ENC_MAX c)"

lemma length_encode_cell [simp]: "length (encode_cell c) = enc_size c"
  by (simp add: encode_cell_bytes)

lemma read_back:
  assumes "cell_border pre"
  shows "read_cell (pre @ encode_cell c @ post) (length pre + enc_size c) 0 0 = Inr (take_bit (7 * enc_size c) c, 7 * enc_size c, length pre)"
    and "(if (pre @ encode_cell c @ post) ! length pre AND 0x40 \<noteq> 0
          then sign_expand (take_bit (7 * enc_size c) c) (7 * enc_size c) else take_bit (7 * enc_size c) c) = c"
proof -
  let ?n = "enc_size c"
  have n: "1 \<le> ?n" "?n \<le> 5" "\<And>j. 7 * ?n \<le> j \<Longrightarrow> j < 32 \<Longrightarrow> bit c j = bit c (7 * ?n - 1)"
    using encode_length_spec [of c] by blast+
  show "read_cell (pre @ encode_cell c @ post) (length pre + ?n) 0 0 = Inr (take_bit (7 * ?n) c, 7 * ?n, length pre)"
    using read_cell_groups [OF n(2) assms, of 0 c post] n(1) by (simp add: encode_cell_bytes)
  have "encode_cell c ! 0 = enc_byte c (?n - 1)" using n(1) by (simp add: encode_cell_bytes rev_nth)
  then have "(pre @ encode_cell c @ post) ! length pre = enc_byte c (?n - 1)" using n(1) by (simp add: nth_append)
  moreover have "bit (enc_byte c (?n - 1)) 6 = bit c (7 * ?n - 1)"
  proof -
    have "7 * (?n - 1) + 6 = 7 * ?n - 1" using n(1) by linarith
    then show ?thesis using bit_enc_byte [of "?n - 1" c 6] n by simp
  qed
  ultimately have top: "(pre @ encode_cell c @ post) ! length pre AND 0x40 \<noteq> 0 \<longleftrightarrow> bit c (7 * ?n - 1)" by (simp add: bit6)
  show "(if (pre @ encode_cell c @ post) ! length pre AND 0x40 \<noteq> 0 then sign_expand (take_bit (7 * ?n) c) (7 * ?n) else take_bit (7 * ?n) c) = c"
  proof (rule bit_word_eqI)
    fix j assume j: "j < LENGTH(32)"
    show "bit (if (pre @ encode_cell c @ post) ! length pre AND 0x40 \<noteq> 0 then sign_expand (take_bit (7 * ?n) c) (7 * ?n) else take_bit (7 * ?n) c) j = bit c j"
    proof (cases "7 * ?n \<le> j")
      case True
      then have "bit c j = bit c (7 * ?n - 1)" using n(3) [of j] j by simp
      then show ?thesis using True j unfolding top by (simp add: bit_sign_expand bit_take_bit_iff)
    next
      case False
      then show ?thesis unfolding top by (simp add: bit_sign_expand bit_take_bit_iff)
    qed
  qed
qed

definition enc :: "cell list \<Rightarrow> byte list" where
  "enc cs = concat (map encode_cell cs)"

lemma enc_border: "cell_border (enc cs)"
proof (cases cs rule: rev_cases)
  case (snoc ds c)
  obtain n where n: "enc_size c = Suc n" using encode_length_spec [of c] by (cases "enc_size c") auto
  then have "last (enc cs) = enc_byte c 0" by (simp add: snoc enc_def encode_cell_bytes upt_conv_Cons last_rev del: upt_Suc)
  then show ?thesis by (simp add: cell_border_def bit_enc_byte)
qed (simp add: enc_def cell_border_def)

subsection \<open>Expanding in place\<close>

definition queue :: "ring \<Rightarrow> (int \<times> cell) list" where
  "queue r = map (\<lambda>i. entries r ! ((sh r + i) mod COMPACTMARGIN)) [0..<sc r]"

definition ring_ok :: "ring \<Rightarrow> bool" where
  "ring_ok r \<longleftrightarrow> length (entries r) = COMPACTMARGIN \<and> sh r < COMPACTMARGIN \<and> sc r \<le> COMPACTMARGIN \<and> st r = (sh r + sc r) mod COMPACTMARGIN"

lemma length_queue [simp]: "length (queue r) = sc r"
  by (simp add: queue_def)

lemma queue_pop:
  assumes "ring_ok r" "sc r > 0"
  shows "queue r = (entries r ! sh r) # queue (r\<lparr>sh := (sh r + 1) mod COMPACTMARGIN, sc := sc r - 1\<rparr>)"
    and "ring_ok (r\<lparr>sh := (sh r + 1) mod COMPACTMARGIN, sc := sc r - 1\<rparr>)"
proof -
  obtain n where n: "sc r = Suc n" using assms(2) by (cases "sc r") auto
  have "((sh r + 1) mod COMPACTMARGIN + i) mod COMPACTMARGIN = (sh r + Suc i) mod COMPACTMARGIN" for i
    by (simp add: mod_add_left_eq)
  then show "queue r = (entries r ! sh r) # queue (r\<lparr>sh := (sh r + 1) mod COMPACTMARGIN, sc := sc r - 1\<rparr>)"
    using assms(1) n by (simp add: queue_def ring_ok_def map_upt_Suc del: upt_Suc)
  show "ring_ok (r\<lparr>sh := (sh r + 1) mod COMPACTMARGIN, sc := sc r - 1\<rparr>)"
    using assms n by (simp add: ring_ok_def COMPACTMARGIN_def mod_add_left_eq)
qed

lemma queue_push:
  assumes "ring_ok r" "sc r < COMPACTMARGIN"
  shows "queue (r\<lparr>entries := (entries r)[st r := x], st := (st r + 1) mod COMPACTMARGIN, sc := sc r + 1\<rparr>) = queue r @ [x]"
    and "ring_ok (r\<lparr>entries := (entries r)[st r := x], st := (st r + 1) mod COMPACTMARGIN, sc := sc r + 1\<rparr>)"
proof -
  have "(sh r + sc r) mod COMPACTMARGIN \<noteq> (sh r + i) mod COMPACTMARGIN" if "i < sc r" for i
  proof
    assume "(sh r + sc r) mod COMPACTMARGIN = (sh r + i) mod COMPACTMARGIN"
    then have "COMPACTMARGIN dvd (sh r + sc r) - (sh r + i)" using that by (simp add: mod_eq_dvd_iff_nat)
    then have "COMPACTMARGIN dvd sc r - i" by simp
    then show False using that assms(2) by (auto dest: dvd_imp_le)
  qed
  moreover have "(sh r + sc r) mod COMPACTMARGIN < length (entries r)" using assms(1) by (simp add: ring_ok_def COMPACTMARGIN_def)
  ultimately show "queue (r\<lparr>entries := (entries r)[st r := x], st := (st r + 1) mod COMPACTMARGIN, sc := sc r + 1\<rparr>) = queue r @ [x]"
    using assms(1) by (simp add: queue_def ring_ok_def)
  show "ring_ok (r\<lparr>entries := (entries r)[st r := x], st := (st r + 1) mod COMPACTMARGIN, sc := sc r + 1\<rparr>)"
    using assms by (simp add: ring_ok_def mod_Suc_eq)
qed

text \<open>
  With the cells from \<open>m\<close> on decoded, the last \<open>q\<close> of them wait in the ring and those behind are
  in place.
\<close>

definition expanded :: "cell list \<Rightarrow> nat \<Rightarrow> ring \<Rightarrow> byte list \<Rightarrow> bool" where
  "expanded cs m r code \<longleftrightarrow> ring_ok r \<and> length code = 4 * length cs \<and> m + sc r \<le> length cs \<and>
     queue r = map (\<lambda>j. (4 * int j, cs ! j)) (rev [m..<m + sc r]) \<and>
     (\<forall>j. m + sc r \<le> j \<and> j < length cs \<longrightarrow> take 4 (drop (4 * j) code) = le_bytes 4 (cs ! j))"

lemma store_at:
  assumes "length code = 4 * n" "k < n"
  shows "store_cell (4 * int k) c code = Inr (take (4 * k) code @ le_bytes 4 c @ drop (4 * k + 4) code)"
  using assms by (simp add: store_cell_def memcpy_def nat_mult_distrib)

lemma stored_at:
  assumes "length code = 4 * n" "k < n" "j < n"
  shows "take 4 (drop (4 * j) (take (4 * k) code @ le_bytes 4 c @ drop (4 * k + 4) code)) =
    (if j = k then le_bytes 4 c else take 4 (drop (4 * j) code))"
proof -
  consider "j < k" | "j = k" | "k < j" by linarith
  then show ?thesis
  proof cases
    case 1
    then have "take 4 (drop (4 * j) (take (4 * k) code)) = take 4 (drop (4 * j) code)" by (simp add: take_drop min_def)
    then show ?thesis using 1 assms by (simp add: min_def)
  next
    case 2
    then show ?thesis using assms by (simp add: min_def)
  next
    case 3
    then have "4 * j - 4 * k - 4 + (4 * k + 4) = 4 * j" by simp
    then show ?thesis using 3 assms by (simp add: min_def)
  qed
qed

lemma flush_expanded:
  "expanded cs m r code \<Longrightarrow> \<exists>r' code'. flush_spare codesize r code = Inr (r', code') \<and> expanded cs m r' code' \<and>
     (sc r' > 0 \<longrightarrow> 4 * (m + sc r' - 1) \<le> codesize) \<and> take codesize code' = take codesize code"
proof (induction codesize r code rule: flush_spare.induct)
  case (1 codesize r code)
  show ?case
  proof (cases "sc r > 0")
    case False
    then show ?thesis using "1.prems" by (subst flush_spare.simps) auto
  next
    case pos: True
    define k where "k = m + sc r - 1"
    let ?r = "r\<lparr>sh := (sh r + 1) mod COMPACTMARGIN, sc := sc r - 1\<rparr>"
    have ex: "ring_ok r" "length code = 4 * length cs" "m + sc r \<le> length cs"
        "queue r = map (\<lambda>j. (4 * int j, cs ! j)) (rev [m..<m + sc r])"
        "\<And>j. m + sc r \<le> j \<Longrightarrow> j < length cs \<Longrightarrow> take 4 (drop (4 * j) code) = le_bytes 4 (cs ! j)"
      using "1.prems" by (auto simp: expanded_def)
    have k: "k < length cs" "m \<le> k" "m + sc r = Suc k" using ex(3) pos by (auto simp: k_def)
    have q: "queue r = (4 * int k, cs ! k) # map (\<lambda>j. (4 * int j, cs ! j)) (rev [m..<k])" using ex(4) k by simp
    then have head: "entries r ! sh r = (4 * int k, cs ! k)" "queue ?r = map (\<lambda>j. (4 * int j, cs ! j)) (rev [m..<k])"
      using queue_pop [OF ex(1) pos] by auto
    show ?thesis
    proof (cases "4 * k > codesize")
      case False
      then have "flush_spare codesize r code = Inr (r, code)" using head by (subst flush_spare.simps) simp
      then show ?thesis using False "1.prems" by (auto simp: k_def)
    next
      case True
      let ?code = "take (4 * k) code @ le_bytes 4 (cs ! k) @ drop (4 * k + 4) code"
      have s: "store_cell (4 * int k) (cs ! k) code = Inr ?code" by (rule store_at [OF ex(2) k(1)])
      have e: "expanded cs m ?r ?code"
      proof -
        have mk: "m + sc ?r = k" using k(3) pos by simp
        have "length ?code = 4 * length cs" using ex(2) k(1) by simp
        moreover have "take 4 (drop (4 * j) ?code) = le_bytes 4 (cs ! j)" if "k \<le> j" "j < length cs" for j
          using stored_at [OF ex(2) k(1) that(2)] ex(5) [of j] that k(3) by (cases "j = k") auto
        moreover have "k \<le> length cs" using k(1) by simp
        ultimately show ?thesis unfolding expanded_def mk using queue_pop(2) [OF ex(1) pos] head(2) by blast
      qed
      have f: "flush_spare codesize r code = flush_spare codesize ?r ?code"
        using True pos head s by (subst flush_spare.simps) simp
      have "codesize \<le> 4 * k" "length (take (4 * k) code) = 4 * k" using True ex(2) k(1) by auto
      then have "take codesize ?code = take codesize code" by (simp add: take_append min.absorb1)
      moreover have c: "sc r > 0 \<and> fst (entries r ! sh r) > int codesize" using pos head True by simp
      moreover have "store_cell (fst (entries r ! sh r)) (snd (entries r ! sh r)) code = Inr ?code" using s head by simp
      ultimately show ?thesis using "1.IH" [OF c _ e] unfolding f by metis
    qed
  qed
qed

text \<open>One turn of the loop.\<close>

lemma place_expanded:
  assumes "expanded cs (Suc m) r code" "sc r > 0 \<longrightarrow> 4 * (m + sc r) \<le> codesize" "codesize < 4 * m + 62" "m < length cs"
  shows "\<exists>r' code'. place_cell codesize (4 * int m) (cs ! m) r code = Inr (r', code') \<and> expanded cs m r' code' \<and>
    take codesize code' = take codesize code \<and> (codesize = 0 \<longrightarrow> m = 0 \<longrightarrow> sc r' = 0)"
proof -
  have ex: "ring_ok r" "length code = 4 * length cs" "Suc m + sc r \<le> length cs"
      "queue r = map (\<lambda>j. (4 * int j, cs ! j)) (rev [Suc m..<Suc m + sc r])"
      "\<And>j. Suc m + sc r \<le> j \<Longrightarrow> j < length cs \<Longrightarrow> take 4 (drop (4 * j) code) = le_bytes 4 (cs ! j)"
    using assms(1) by (auto simp: expanded_def)
  show ?thesis
  proof (cases "4 * int m > int codesize \<or> (4 * int m = int codesize \<and> 4 * int m = 0)")
    case True
    then have q: "sc r = 0" using assms(2) by (cases "sc r = 0") auto
    define code' where "code' = take (4 * m) code @ le_bytes 4 (cs ! m) @ drop (4 * m + 4) code"
    have s: "store_cell (4 * int m) (cs ! m) code = Inr code'" unfolding code'_def by (rule store_at [OF ex(2) assms(4)])
    have "length code' = 4 * length cs" using ex(2) assms(4) by (simp add: code'_def)
    moreover have "take 4 (drop (4 * j) code') = le_bytes 4 (cs ! j)" if "m \<le> j" "j < length cs" for j
      using stored_at [OF ex(2) assms(4) that(2), of "cs ! m"] ex(5) [of j] that q unfolding code'_def by (cases "j = m") auto
    ultimately have "expanded cs m r code'" using ex(1) q assms(4) by (simp add: expanded_def queue_def)
    moreover have "take codesize code' = take codesize code"
    proof -
      have "codesize \<le> 4 * m" "length (take (4 * m) code) = 4 * m" using True ex(2) assms(4) by auto
      then show ?thesis unfolding code'_def by (simp add: take_append min.absorb1)
    qed
    ultimately show ?thesis using True s q by (simp add: place_cell_def)
  next
    case False
    then have c: "4 * m \<le> codesize" "codesize = 0 \<longrightarrow> m \<noteq> 0" by auto
    have "4 * sc r < 64" using assms(2,3) by (cases "sc r = 0") auto
    then have room: "sc r < COMPACTMARGIN" by (simp add: COMPACTMARGIN_def)
    define r' where "r' = r\<lparr>entries := (entries r)[st r := (4 * int m, cs ! m)], st := (st r + 1) mod COMPACTMARGIN, sc := sc r + 1\<rparr>"
    have "queue r' = queue r @ [(4 * int m, cs ! m)]" "ring_ok r'" using queue_push [OF ex(1) room] unfolding r'_def by blast+
    moreover have "rev [m..<m + sc r'] = rev [Suc m..<Suc m + sc r] @ [m]" by (simp add: r'_def upt_conv_Cons del: upt_Suc)
    ultimately have "expanded cs m r' code" using ex assms(4) by (simp add: expanded_def r'_def del: upt_Suc)
    moreover have "place_cell codesize (4 * int m) (cs ! m) r code = Inr (r', code)" using False room by (auto simp: place_cell_def r'_def)
    ultimately show ?thesis using c by auto
  qed
qed

lemma enc_snoc: "enc (cs @ [c]) = enc cs @ encode_cell c"
  by (simp add: enc_def)

lemma expand_loop_cells:
  assumes "\<forall>k \<le> length cs. length (enc (take k cs)) < 4 * k + 62"
  shows "m \<le> length cs \<Longrightarrow> expanded cs m r code \<Longrightarrow> take (length (enc (take m cs))) code = enc (take m cs) \<Longrightarrow>
    m = 0 \<longrightarrow> sc r = 0 \<Longrightarrow> length (enc (take m cs)) \<le> length code \<Longrightarrow>
    \<exists>code'. expand_loop (length (enc (take m cs))) (4 * int m) r code = Inr (0, code') \<and> length code' = 4 * length cs \<and>
      (\<forall>j < length cs. take 4 (drop (4 * j) code') = le_bytes 4 (cs ! j))"
proof (induction m arbitrary: r code)
  case 0
  then show ?case by (subst expand_loop.simps) (auto simp: expanded_def enc_def)
next
  case (Suc m)
  define pre where "pre = enc (take m cs)"
  have m: "m < length cs" "take (Suc m) cs = take m cs @ [cs ! m]" using Suc.prems(1) by (auto simp: take_Suc_conv_app_nth)
  have e: "enc (take (Suc m) cs) = pre @ encode_cell (cs ! m)" by (simp add: m(2) enc_snoc pre_def)
  have n: "1 \<le> enc_size (cs ! m)" using encode_length_spec by blast
  define post where "post = drop (length pre + enc_size (cs ! m)) code"
  have code: "code = pre @ encode_cell (cs ! m) @ post"
    using Suc.prems(3) append_take_drop_id [of "length pre + enc_size (cs ! m)" code] unfolding e post_def by simp
  have "cell_border pre" by (simp add: pre_def enc_border)
  note rb = read_back [OF this, of "cs ! m" post, folded code]
  obtain r1 code1 where f: "flush_spare (length pre) r code = Inr (r1, code1)" "expanded cs (Suc m) r1 code1"
      "sc r1 > 0 \<longrightarrow> 4 * (m + sc r1) \<le> length pre" "take (length pre) code1 = take (length pre) code"
    using flush_expanded [OF Suc.prems(2), of "length pre"] by auto
  have "length pre < 4 * m + 62" using assms m(1) by (simp add: pre_def)
  from place_expanded [OF f(2,3) this m(1)] obtain r2 code2 where p: "place_cell (length pre) (4 * int m) (cs ! m) r1 code1 = Inr (r2, code2)"
      "expanded cs m r2 code2" "take (length pre) code2 = take (length pre) code1" "length pre = 0 \<longrightarrow> m = 0 \<longrightarrow> sc r2 = 0"
    by blast
  have step: "expand_loop (length (enc (take (Suc m) cs))) (4 * int (Suc m)) r code = expand_loop (length pre) (4 * int m) r2 code2"
    using rb f(1) p(1) n unfolding e by (subst expand_loop.simps) (simp add: Let_def)
  have "take (length pre) code2 = pre" using p(3) f(4) code by simp
  moreover have "m = 0 \<longrightarrow> sc r2 = 0" using p(4) by (simp add: pre_def enc_def)
  moreover have "length pre \<le> length code2" using calculation(1) by (metis length_take min.cobounded1)
  ultimately show ?case using Suc.IH [OF _ p(2)] m(1) unfolding step pre_def by simp
qed

subsection \<open>The writer and the loader\<close>

definition appending :: "asmstate \<Rightarrow> bool" where
  "appending a \<longleftrightarrow> room a \<and> bin_pos (fbin a) = length (bin_bytes (fbin a))"

lemma put_bytes:
  "appending a \<Longrightarrow> appending (fold put_byte bs a) \<and> bin_bytes (fbin (fold put_byte bs a)) = bin_bytes (fbin a) @ bs \<and>
     bytes_out (fold put_byte bs a) = bytes_out a + int (length bs) \<and> bytes_in (fold put_byte bs a) = bytes_in a"
proof (induction bs arbitrary: a)
  case (Cons b bs)
  have "appending (put_byte b a)" "bin_bytes (fbin (put_byte b a)) = bin_bytes (fbin a) @ [b]"
      "bytes_out (put_byte b a) = bytes_out a + 1" "bytes_in (put_byte b a) = bytes_in a"
    using Cons.prems by (simp_all add: appending_def put_byte_def pc_writebin_def Let_def)
  with Cons.IH show ?case by simp
qed simp

lemma write_compact:
  assumes "appending a" "bytes_in a = 0" "bytes_out a = 0"
  shows "seq (map (write_encoded True) cs) a = Inr a' \<Longrightarrow>
    appending a' \<and> bin_bytes (fbin a') = bin_bytes (fbin a) @ enc cs \<and> bytes_out a' = int (length (enc cs)) \<and>
    bytes_in a' = 4 * int (length cs) \<and> (\<forall>k \<le> length cs. length (enc (take k cs)) < 4 * k + 62)"
proof (induction cs arbitrary: a' rule: rev_induct)
  case (snoc c cs)
  then obtain a1 where a1: "seq (map (write_encoded True) cs) a = Inr a1" "write_encoded True c a1 = Inr a'"
    by (auto simp: seq_append)
  note IH = snoc.IH [OF a1(1)]
  let ?b = "fold put_byte (encode_cell c) a1"
  have b: "a' = ?b\<lparr>bytes_in := bytes_in ?b + 4\<rparr>" "bytes_out ?b - (bytes_in ?b + 4) < 62"
    using a1(2) by (auto simp: write_encoded_def Let_def AMX_COMPACTMARGIN_def split: if_splits)
  note pb = put_bytes [of a1 "encode_cell c"]
  have "appending a'" "bin_bytes (fbin a') = bin_bytes (fbin a) @ enc (cs @ [c])" "bytes_out a' = int (length (enc (cs @ [c])))"
      "bytes_in a' = 4 * int (length (cs @ [c]))"
    using IH pb b(1) by (simp_all add: appending_def enc_snoc)
  moreover have "length (enc (take k (cs @ [c]))) < 4 * k + 62" if "k \<le> length (cs @ [c])" for k
  proof (cases "k \<le> length cs")
    case False
    then have "k = Suc (length cs)" using that by simp
    then show ?thesis using calculation(3,4) b by simp
  qed (use IH in simp)
  ultimately show ?case by blast
qed (use assms in \<open>simp add: enc_def\<close>)

lemma cells_concat:
  "length code = 4 * length cs \<Longrightarrow> \<forall>j < length cs. take 4 (drop (4 * j) code) = le_bytes 4 (cs ! j) \<Longrightarrow> code = concat (map (le_bytes 4) cs)"
proof (induction cs arbitrary: code)
  case (Cons c cs)
  have "take 4 code = le_bytes 4 c" using Cons.prems(2) by auto
  moreover have "drop 4 code = concat (map (le_bytes 4) cs)"
  proof (rule Cons.IH)
    show "\<forall>j < length cs. take 4 (drop (4 * j) (drop 4 code)) = le_bytes 4 (cs ! j)"
      using Cons.prems(2) by (auto simp: add.commute dest: spec [of _ "Suc _"])
  qed (use Cons.prems(1) in simp)
  ultimately show ?case using append_take_drop_id [of 4 code] by simp
qed simp

text \<open>Expansion of an encoding whose growth stays below the margin.\<close>

lemma expand_enc:
  assumes "\<forall>k \<le> length cs. length (enc (take k cs)) < 4 * k + 62" "length (enc cs) + length pad = 4 * length cs"
    and "length spare = COMPACTMARGIN"
  shows "expand spare (enc cs @ pad) (length (enc cs)) (4 * int (length cs)) = Inr (concat (map (le_bytes 4) cs))"
proof -
  let ?r = "\<lparr>entries = spare, sh = 0, st = 0, sc = 0\<rparr>"
  have "expanded cs (length cs) ?r (enc cs @ pad)"
    using assms(2,3) by (auto simp: expanded_def ring_ok_def queue_def COMPACTMARGIN_def)
  moreover have "length cs = 0 \<longrightarrow> sc ?r = 0" by simp
  ultimately obtain code' where "expand_loop (length (enc cs)) (4 * int (length cs)) ?r (enc cs @ pad) = Inr (0, code')"
      "length code' = 4 * length cs" "\<forall>j < length cs. take 4 (drop (4 * j) code') = le_bytes 4 (cs ! j)"
    using expand_loop_cells [OF assms(1), of "length cs" ?r "enc cs @ pad"] by auto
  then show ?thesis using cells_concat [of code' cs] by (simp add: expand_def)
qed

text \<open>C14: What the assembler writes in compact form, the loader expands in place to the cells that were written: when
  no write fails, the encoding is accepted (neither the restart without compression nor the
  final overflow error) and the memory block has the expanded size, \<open>expand\<close> ends without a
  failed assertion or an access out of bounds, whatever the ring holds and whatever follows
  the encoded bytes.\<close>

theorem compact_roundtrip:
  assumes "appending a" "bytes_in a = 0" "bytes_out a = 0"
    and "seq (map (write_encoded True) cs) a = Inr a'" "bytes_out a' - bytes_in a' \<le> 0"
    and "code = drop (length (bin_bytes (fbin a))) (bin_bytes (fbin a'))" "length code + length pad = 4 * length cs"
    and "length spare = COMPACTMARGIN"
  shows "expand spare (code @ pad) (length code) (4 * int (length cs)) = Inr (concat (map (le_bytes 4) cs))"
proof -
  have w: "bin_bytes (fbin a') = bin_bytes (fbin a) @ enc cs" "\<forall>k \<le> length cs. length (enc (take k cs)) < 4 * k + 62"
    using write_compact [OF assms(1-4)] by blast+
  then have "code = enc cs" using assms(6) by simp
  then show ?thesis using expand_enc [OF w(2) _ assms(8)] assms(7) by simp
qed

definition empty_image :: asmstate where
  "empty_image = \<lparr>fbin = \<lparr>bin_bytes = [], bin_pos = 0, bin_room = True\<rparr>, writeerror = False, bytes_in = 0, bytes_out = 0,
     codeindex = 0, lbltab = []\<rparr>"

lemma three_cells: "map_sum id (\<lambda>a. (bytes_out a, bytes_in a, bin_bytes (fbin a))) (seq (map (write_encoded True) [3, 0xFFFFFFFF, 0x12345678]) empty_image) =
  Inr (7, 12, [3, 127, 129, 145, 209, 172, 120])"
  by code_simp

theorem compact_roundtrip_witness:
  "expand (replicate 64 (0, 0)) ([3, 127, 129, 145, 209, 172, 120] @ [9, 9, 9, 9, 9]) 7 12 =
    Inr ([3, 0, 0, 0, 0xFF, 0xFF, 0xFF, 0xFF, 0x78, 0x56, 0x34, 0x12])"
proof -
  obtain a where a: "seq (map (write_encoded True) [3, 0xFFFFFFFF, 0x12345678]) empty_image = Inr a" "bytes_out a = 7" "bytes_in a = 12"
      "bin_bytes (fbin a) = [3, 127, 129, 145, 209, 172, 120]"
    using three_cells by (cases "seq (map (write_encoded True) [3, 0xFFFFFFFF, 0x12345678]) empty_image") auto
  have e: "appending empty_image" "bytes_in empty_image = 0" "bytes_out empty_image = 0" "bin_bytes (fbin empty_image) = []"
    by (simp_all add: appending_def empty_image_def)
  have "concat (map (le_bytes 4) [3, 0xFFFFFFFF, 0x12345678]) = [3, 0, 0, 0, 0xFF, 0xFF, 0xFF, 0xFF, 0x78, 0x56, 0x34, 0x12]"
    by code_simp
  moreover have "expand (replicate 64 (0, 0)) ([3, 127, 129, 145, 209, 172, 120] @ [9, 9, 9, 9, 9]) (length [3 :: byte, 127, 129, 145, 209, 172, 120])
      (4 * int (length [3 :: cell, 0xFFFFFFFF, 0x12345678])) = Inr (concat (map (le_bytes 4) [3, 0xFFFFFFFF, 0x12345678]))"
    by (rule compact_roundtrip [OF e(1-3) a(1)]) (simp_all add: a(2-4) e(4) COMPACTMARGIN_def)
  moreover have "length [3 :: byte, 127, 129, 145, 209, 172, 120] = 7" "4 * int (length [3 :: cell, 0xFFFFFFFF, 0x12345678]) = 12" by simp_all
  ultimately show ?thesis by (simp only:)
qed

end
