(* ===== verification/AmxMemory.thy ===== *)
theory AmxMemory
  imports Compact
begin

text \<open>
  The memory of the abstract machine (\<open>src/amxmodx/amx.cpp\<close>): blocks of bytes in which the
  interpreter reads and writes 32-bit cells, low byte first, through pointers
  \<open>*(cell *)(data+(int)offs)\<close>. A read or write of bytes that are not all inside the block is
  \<open>OutOfBounds\<close>. The laws of such a memory are a locale, interpreted on the byte blocks.
\<close>

subsection \<open>Reading and writing cells\<close>

fun of_le :: "byte list \<Rightarrow> cell" where
  "of_le [] = 0"
| "of_le (b # bs) = ucast b OR push_bit 8 (of_le bs)"

definition read_bytes :: "byte list \<Rightarrow> int \<Rightarrow> nat \<Rightarrow> fault + byte list" where
  "read_bytes blk off n =
     (if 0 \<le> off \<and> off + int n \<le> int (length blk) then Inr (take n (drop (nat off) blk)) else Inl OutOfBounds)"

definition load_cell :: "byte list \<Rightarrow> int \<Rightarrow> fault + cell" where
  "load_cell blk off = bind_res (read_bytes blk off 4) (\<lambda>bs. Inr (of_le bs))"

definition in_block :: "byte list \<Rightarrow> int \<Rightarrow> nat \<Rightarrow> bool" where
  "in_block blk off n \<longleftrightarrow> 0 \<le> off \<and> off + int n \<le> int (length blk)"

lemma bit_of_le: "i < 32 \<Longrightarrow> bit (of_le (le_bytes n v)) i \<longleftrightarrow> i < 8 * n \<and> bit v i"
proof (induction n arbitrary: v i)
  case (Suc n)
  show ?case
  proof (cases "i < 8")
    case True
    then show ?thesis by (simp add: bit_simps)
  next
    case False
    have "bit (of_le (le_bytes n (drop_bit 8 v))) (i - 8) \<longleftrightarrow> i - 8 < 8 * n \<and> bit v i"
      using Suc.IH [of "i - 8" "drop_bit 8 v"] Suc.prems False by (simp add: bit_simps)
    then show ?thesis using False Suc.prems by (auto simp: bit_simps)
  qed
qed simp

lemma le_bytes_inverse [simp]: "of_le (le_bytes 4 v) = v"
proof (rule bit_word_eqI)
  fix i assume "i < LENGTH(32)"
  then show "bit (of_le (le_bytes 4 v)) i = bit v i" using bit_of_le [of i 4 v] by simp
qed

lemma read_bytes_Inr [simp]: "read_bytes blk off n = Inr bs \<longleftrightarrow> in_block blk off n \<and> bs = take n (drop (nat off) blk)"
  by (auto simp: read_bytes_def in_block_def)

lemma load_cell_in: "in_block blk off 4 \<Longrightarrow> load_cell blk off = Inr (of_le (take 4 (drop (nat off) blk)))"
  by (simp add: load_cell_def in_block_def read_bytes_def)

lemma memcpy_in: "in_block blk off (length bs) \<Longrightarrow>
  memcpy blk off bs = Inr (take (nat off) blk @ bs @ drop (nat off + length bs) blk)"
  by (simp add: memcpy_def in_block_def)

lemma store_cell_in: "in_block blk off 4 \<Longrightarrow>
  store_cell off v blk = Inr (take (nat off) blk @ le_bytes 4 v @ drop (nat off + 4) blk)"
  using memcpy_in [of blk off "le_bytes 4 v"] by (simp add: store_cell_def)

lemma store_cell_length: "store_cell off v blk = Inr blk' \<Longrightarrow> length blk' = length blk"
  unfolding store_cell_def by (rule memcpy_length)

lemma store_cell_in_block: "store_cell off v blk = Inr blk' \<Longrightarrow> in_block blk off 4"
  by (auto simp: store_cell_def memcpy_def in_block_def split: if_splits)

lemma load_cell_in_block: "load_cell blk off = Inr v \<Longrightarrow> in_block blk off 4"
  by (auto simp: load_cell_def)

lemma in_block_length: "length blk' = length blk \<Longrightarrow> in_block blk' off n = in_block blk off n"
  by (simp add: in_block_def)

text \<open>A write outside the bytes that are read does not change them.\<close>

lemma take_drop_patch:
  assumes "i + n \<le> j \<or> j + length bs \<le> i" "j + length bs \<le> length blk"
  shows "take n (drop i (take j blk @ bs @ drop (j + length bs) blk)) = take n (drop i blk)"
proof (rule nth_equalityI)
  have len: "length (take j blk @ bs @ drop (j + length bs) blk) = length blk" using assms(2) by simp
  show "length (take n (drop i (take j blk @ bs @ drop (j + length bs) blk))) = length (take n (drop i blk))"
    by (simp only: length_take length_drop len)
  fix k assume "k < length (take n (drop i (take j blk @ bs @ drop (j + length bs) blk)))"
  then have k: "k < n" "i + k < length blk" by (simp_all only: length_take length_drop len min_less_iff_conj less_diff_conv2 less_diff_conv add.commute)
  then show "take n (drop i (take j blk @ bs @ drop (j + length bs) blk)) ! k = take n (drop i blk) ! k"
    using assms by (auto simp: nth_append)
qed

subsection \<open>Signed and unsigned values of cells\<close>

lemma uint_cell_bound: "0 \<le> uint (a :: cell)" "uint (a :: cell) < 2 ^ 32"
  using uint_bounded [of a] by simp_all

lemma sint_cell: "sint (a :: cell) = (if uint a < 2 ^ 31 then uint a else uint a - 2 ^ 32)"
proof -
  have "sint a = (uint a + 2 ^ 31) mod 2 ^ 32 - 2 ^ 31"
    using int_word_sint [of "uint a", where 'a = 32] by simp
  then show ?thesis using uint_cell_bound [of a]
    by (cases "uint a < 2 ^ 31") (auto simp: mod_pos_pos_trivial mod_pos_geq)
qed

lemma uint_plus_cell: "uint ((a :: cell) + b) = (if uint a + uint b < 2 ^ 32 then uint a + uint b else uint a + uint b - 2 ^ 32)"
  by (simp add: uint_plus_if')

lemma sint_plus_cell: "- (2 ^ 31) \<le> sint (a :: cell) + sint b \<Longrightarrow> sint a + sint b < 2 ^ 31 \<Longrightarrow> sint (a + b) = sint a + sint b"
  using uint_cell_bound [of a] uint_cell_bound [of b] by (auto simp: sint_cell uint_plus_cell split: if_splits)

lemma sint_minus_cell: "- (2 ^ 31) \<le> sint (a :: cell) - sint b \<Longrightarrow> sint a - sint b < 2 ^ 31 \<Longrightarrow> sint (a - b) = sint a - sint b"
  using uint_cell_bound [of a] uint_cell_bound [of b] by (auto simp: sint_cell uint_sub_if' split: if_splits)

subsection \<open>Blocks of cells\<close>

definition cells :: "cell list \<Rightarrow> byte list" where
  "cells cs = concat (map (le_bytes 4) cs)"

lemma length_cells [simp]: "length (cells cs) = 4 * length cs"
  by (induction cs) (simp_all add: cells_def)

lemma cells_simps: "cells [] = []" "cells (c # cs) = le_bytes 4 c @ cells cs" "cells (cs @ ds) = cells cs @ cells ds"
  by (simp_all add: cells_def)

lemma load_cells:
  assumes "i < length cs" "a = int (length pre) + 4 * int i"
  shows "load_cell (pre @ cells cs @ post) a = Inr (cs ! i)"
proof -
  have c: "cs = take i cs @ cs ! i # drop (Suc i) cs" using assms(1) by (simp add: id_take_nth_drop)
  have "pre @ cells cs @ post = (pre @ cells (take i cs)) @ le_bytes 4 (cs ! i) @ cells (drop (Suc i) cs) @ post"
    by (subst c) (simp add: cells_simps)
  moreover have "nat a = length (pre @ cells (take i cs))" using assms by simp
  ultimately have "take 4 (drop (nat a) (pre @ cells cs @ post)) = le_bytes 4 (cs ! i)" by simp
  moreover have "in_block (pre @ cells cs @ post) a 4" using assms by (simp add: in_block_def)
  ultimately show ?thesis by (simp add: load_cell_in)
qed

subsection \<open>The laws of a cell memory\<close>

locale cell_memory =
  fixes get :: "'m \<Rightarrow> int \<Rightarrow> fault + cell"
    and put :: "int \<Rightarrow> cell \<Rightarrow> 'm \<Rightarrow> fault + 'm"
    and valid :: "'m \<Rightarrow> int \<Rightarrow> bool"
  assumes get_valid: "valid m a \<Longrightarrow> \<exists>v. get m a = Inr v"
    and put_valid: "valid m a \<Longrightarrow> \<exists>m'. put a v m = Inr m'"
    and valid_put: "put a v m = Inr m' \<Longrightarrow> valid m' b = valid m b"
    and put_needs: "put a v m = Inr m' \<Longrightarrow> valid m a"
    and get_put: "put a v m = Inr m' \<Longrightarrow> get m' a = Inr v"
    and get_other: "put a v m = Inr m' \<Longrightarrow> b + 4 \<le> a \<or> a + 4 \<le> b \<Longrightarrow> get m' b = get m b"
begin

text \<open>Cells written downward from an address, as the machine pushes them, and read upward.\<close>

fun puts :: "int \<Rightarrow> cell list \<Rightarrow> 'm \<Rightarrow> fault + 'm" where
  "puts a [] m = Inr m"
| "puts a (v # vs) m = bind_res (put (a - 4) v m) (puts (a - 4) vs)"

lemma puts_other: "puts a vs m = Inr m' \<Longrightarrow> b + 4 \<le> a - 4 * int (length vs) \<or> a \<le> b \<Longrightarrow> get m' b = get m b"
proof (induction vs arbitrary: a m)
  case (Cons v vs)
  then obtain m1 where "put (a - 4) v m = Inr m1" "puts (a - 4) vs m1 = Inr m'" by auto
  with Cons show ?case by (auto simp: get_other)
qed simp

lemma puts_get: "puts a vs m = Inr m' \<Longrightarrow> i < length vs \<Longrightarrow> get m' (a - 4 * int (Suc i)) = Inr (vs ! i)"
proof (induction vs arbitrary: a m i)
  case (Cons v vs)
  then obtain m1 where m1: "put (a - 4) v m = Inr m1" "puts (a - 4) vs m1 = Inr m'" by auto
  show ?case
  proof (cases i)
    case 0
    have "get m' (a - 4) = get m1 (a - 4)" by (rule puts_other [OF m1(2)]) simp
    with 0 show ?thesis by (simp add: get_put [OF m1(1)])
  next
    case (Suc j)
    then show ?thesis using Cons.IH [OF m1(2), of j] Cons.prems by (simp add: algebra_simps)
  qed
qed simp

lemma puts_valid: "(\<And>i. i < length vs \<Longrightarrow> valid m (a - 4 * int (Suc i))) \<Longrightarrow> \<exists>m'. puts a vs m = Inr m'"
proof (induction vs arbitrary: a m)
  case (Cons v vs)
  have "valid m (a - 4)" using Cons.prems [of 0] by simp
  then obtain m1 where m1: "put (a - 4) v m = Inr m1" using put_valid by blast
  have "\<exists>m'. puts (a - 4) vs m1 = Inr m'"
  proof (rule Cons.IH)
    fix i assume "i < length vs"
    then show "valid m1 (a - 4 - 4 * int (Suc i))"
      using Cons.prems [of "Suc i"] valid_put [OF m1] by (simp add: algebra_simps)
  qed
  with m1 show ?case by auto
qed simp

end

interpretation blk: cell_memory load_cell store_cell "\<lambda>m a. in_block m a 4"
proof unfold_locales
  fix m m' :: "byte list" and a b :: int and v :: cell
  show "in_block m a 4 \<Longrightarrow> \<exists>v. load_cell m a = Inr v" by (simp add: load_cell_in)
  show "in_block m a 4 \<Longrightarrow> \<exists>m'. store_cell a v m = Inr m'" by (simp add: store_cell_in)
  assume p: "store_cell a v m = Inr m'"
  then have i: "in_block m a 4" by (rule store_cell_in_block)
  then show "in_block m a 4" .
  show b: "in_block m' b 4 = in_block m b 4" by (rule in_block_length [OF store_cell_length [OF p]])
  have m': "m' = take (nat a) m @ le_bytes 4 v @ drop (nat a + 4) m" using p by (simp add: store_cell_in [OF i])
  have len: "nat a + 4 \<le> length m" "0 \<le> a" using i by (auto simp: in_block_def)
  have "load_cell m' a = Inr (of_le (take 4 (drop (nat a) m')))"
    using i in_block_length [OF store_cell_length [OF p]] by (simp add: load_cell_in)
  then show "load_cell m' a = Inr v" using len by (simp add: m' le_bytes_inverse)
  assume o: "b + 4 \<le> a \<or> a + 4 \<le> b"
  show "load_cell m' b = load_cell m b"
  proof (cases "in_block m b 4")
    case True
    have "nat b + 4 \<le> nat a \<or> nat a + length (le_bytes 4 v) \<le> nat b"
      using o len True by (auto simp: in_block_def)
    then have "take 4 (drop (nat b) m') = take 4 (drop (nat b) m)"
      using take_drop_patch [of "nat b" 4 "nat a" "le_bytes 4 v" m] len unfolding m' by simp
    then show ?thesis using True b by (simp add: load_cell_in)
  next
    case False
    then have "\<not> in_block m' b 4" using b by simp
    with False show ?thesis by (simp add: load_cell_def read_bytes_def in_block_def)
  qed
qed

end
