(* ===== verification/AmxImage.thy ===== *)
theory AmxImage
  imports AmxMemory
begin

text \<open>
  The program image and the state of an abstract machine (\<open>src/amxmodx/amx.h\<close>): the header,
  the three sections of the memory block (header and tables, code, data with heap and stack)
  and the fields of the \<open>AMX\<close> structure; the tables of entry points and their names, as
  \<open>amx.cpp\<close> reads them.
\<close>

subsection \<open>The structures\<close>

record amx_header =
  hdr_size :: int
  hdr_magic :: int
  file_version :: int
  amx_version :: int
  hdr_flags :: cell
  defsize :: int
  hdr_cod :: int
  hdr_dat :: int
  hdr_hea :: int
  hdr_stp :: int
  hdr_cip :: int
  hdr_publics :: int
  hdr_natives :: int
  hdr_libraries :: int
  hdr_pubvars :: int
  hdr_tags :: int
  hdr_nametable :: int

definition AMX_MAGIC :: int where "AMX_MAGIC = 0xf1e0"

text \<open>
  \<open>img\<close> is the block at \<open>base\<close> below \<open>cod\<close>, \<open>code\<close> the part from \<open>cod\<close> to
  \<open>dat\<close>, \<open>data\<close> the part from \<open>dat\<close> to \<open>stp\<close>, or the separate block of a clone;
  \<open>codebase\<close> is the address of the code. \<open>callback\<close> and \<open>debug\<close> tell whether the
  function pointer is set. \<open>last_native\<close> is \<open>usertags[UT_NATIVE]\<close>, and \<open>optimizer\<close> is the list
  of natives behind \<open>usertags[UT_OPTIMIZER]\<close>, \<open>None\<close> for a null pointer; the other tags and the
  user data are not read by the code modelled.
\<close>

record amx =
  header :: amx_header
  img :: "byte list"
  code :: "byte list"
  data :: "byte list"
  codebase :: cell
  callback :: bool
  debug :: bool
  amx_cip :: cell
  amx_frm :: cell
  amx_hea :: cell
  amx_hlw :: cell
  amx_stk :: cell
  amx_stp :: cell
  amx_flags :: cell
  amx_error :: int
  paramcount :: int
  amx_pri :: cell
  amx_alt :: cell
  amx_reset_stk :: cell
  amx_reset_hea :: cell
  last_native :: cell
  optimizer :: "int list option"

abbreviation (input) AMX_ERR_NONE :: int where "AMX_ERR_NONE \<equiv> 0"
abbreviation (input) AMX_ERR_STACKERR :: int where "AMX_ERR_STACKERR \<equiv> 3"
abbreviation (input) AMX_ERR_BOUNDS :: int where "AMX_ERR_BOUNDS \<equiv> 4"
abbreviation (input) AMX_ERR_MEMACCESS :: int where "AMX_ERR_MEMACCESS \<equiv> 5"
abbreviation (input) AMX_ERR_INVINSTR :: int where "AMX_ERR_INVINSTR \<equiv> 6"
abbreviation (input) AMX_ERR_STACKLOW :: int where "AMX_ERR_STACKLOW \<equiv> 7"
abbreviation (input) AMX_ERR_HEAPLOW :: int where "AMX_ERR_HEAPLOW \<equiv> 8"
abbreviation (input) AMX_ERR_CALLBACK :: int where "AMX_ERR_CALLBACK \<equiv> 9"
abbreviation (input) AMX_ERR_DIVIDE :: int where "AMX_ERR_DIVIDE \<equiv> 11"
abbreviation (input) AMX_ERR_SLEEP :: int where "AMX_ERR_SLEEP \<equiv> 12"
abbreviation (input) AMX_ERR_MEMORY :: int where "AMX_ERR_MEMORY \<equiv> 16"
abbreviation (input) AMX_ERR_FORMAT :: int where "AMX_ERR_FORMAT \<equiv> 17"
abbreviation (input) AMX_ERR_VERSION :: int where "AMX_ERR_VERSION \<equiv> 18"
abbreviation (input) AMX_ERR_NOTFOUND :: int where "AMX_ERR_NOTFOUND \<equiv> 19"
abbreviation (input) AMX_ERR_INDEX :: int where "AMX_ERR_INDEX \<equiv> 20"
abbreviation (input) AMX_ERR_INIT :: int where "AMX_ERR_INIT \<equiv> 22"
abbreviation (input) AMX_ERR_PARAMS :: int where "AMX_ERR_PARAMS \<equiv> 25"

definition AMX_FLAG_COMPACT :: cell where "AMX_FLAG_COMPACT = 0x04"
definition AMX_FLAG_PRENIT :: cell where "AMX_FLAG_PRENIT = 0x100"
definition AMX_FLAG_NTVREG :: cell where "AMX_FLAG_NTVREG = 0x1000"
definition AMX_FLAG_BROWSE :: cell where "AMX_FLAG_BROWSE = 0x4000"
definition AMX_FLAG_RELOC :: cell where "AMX_FLAG_RELOC = 0x8000"

definition MIN_FILE_VERSION :: int where "MIN_FILE_VERSION = 6"
definition CUR_FILE_VERSION :: int where "CUR_FILE_VERSION = 8"

subsection \<open>The tables\<close>

text \<open>\<open>NUMENTRIES\<close>, \<open>GETENTRY\<close> and \<open>GETENTRYNAME\<close>; an entry is its offset in the image.\<close>

definition NUMENTRIES :: "amx_header \<Rightarrow> int \<Rightarrow> int \<Rightarrow> fault + nat" where
  "NUMENTRIES h field nextfield =
     (if defsize h > 0 \<and> field \<le> nextfield then Inr (nat ((nextfield - field) div defsize h)) else Inl OutOfBounds)"

definition GETENTRY :: "amx_header \<Rightarrow> int \<Rightarrow> int \<Rightarrow> int" where
  "GETENTRY h field index = field + index * defsize h"

definition byte_char :: "byte \<Rightarrow> char" where
  "byte_char b = char_of (unat b)"

definition GETENTRYNAME :: "amx \<Rightarrow> int \<Rightarrow> fault + string" where
  "GETENTRYNAME a entry =
     (if defsize (header a) = 8
      then bind_res (load_cell (img a) (entry + 4)) (\<lambda>nameofs. cstr_at (map byte_char (img a)) (unat nameofs))
      else if entry + 4 < 0 then Inl OutOfBounds
      else cstr_at (map byte_char (img a)) (nat (entry + 4)))"

definition entry_address :: "amx \<Rightarrow> int \<Rightarrow> fault + cell" where
  "entry_address a entry = load_cell (img a) entry"

subsection \<open>The opcodes\<close>

abbreviation (input) OP_NONE :: nat where "OP_NONE \<equiv> 0"
abbreviation (input) OP_LOAD_PRI :: nat where "OP_LOAD_PRI \<equiv> 1"
abbreviation (input) OP_LOAD_ALT :: nat where "OP_LOAD_ALT \<equiv> 2"
abbreviation (input) OP_LOAD_S_PRI :: nat where "OP_LOAD_S_PRI \<equiv> 3"
abbreviation (input) OP_LOAD_S_ALT :: nat where "OP_LOAD_S_ALT \<equiv> 4"
abbreviation (input) OP_LREF_PRI :: nat where "OP_LREF_PRI \<equiv> 5"
abbreviation (input) OP_LREF_ALT :: nat where "OP_LREF_ALT \<equiv> 6"
abbreviation (input) OP_LREF_S_PRI :: nat where "OP_LREF_S_PRI \<equiv> 7"
abbreviation (input) OP_LREF_S_ALT :: nat where "OP_LREF_S_ALT \<equiv> 8"
abbreviation (input) OP_LOAD_I :: nat where "OP_LOAD_I \<equiv> 9"
abbreviation (input) OP_LODB_I :: nat where "OP_LODB_I \<equiv> 10"
abbreviation (input) OP_CONST_PRI :: nat where "OP_CONST_PRI \<equiv> 11"
abbreviation (input) OP_CONST_ALT :: nat where "OP_CONST_ALT \<equiv> 12"
abbreviation (input) OP_ADDR_PRI :: nat where "OP_ADDR_PRI \<equiv> 13"
abbreviation (input) OP_ADDR_ALT :: nat where "OP_ADDR_ALT \<equiv> 14"
abbreviation (input) OP_STOR_PRI :: nat where "OP_STOR_PRI \<equiv> 15"
abbreviation (input) OP_STOR_ALT :: nat where "OP_STOR_ALT \<equiv> 16"
abbreviation (input) OP_STOR_S_PRI :: nat where "OP_STOR_S_PRI \<equiv> 17"
abbreviation (input) OP_STOR_S_ALT :: nat where "OP_STOR_S_ALT \<equiv> 18"
abbreviation (input) OP_SREF_PRI :: nat where "OP_SREF_PRI \<equiv> 19"
abbreviation (input) OP_SREF_ALT :: nat where "OP_SREF_ALT \<equiv> 20"
abbreviation (input) OP_SREF_S_PRI :: nat where "OP_SREF_S_PRI \<equiv> 21"
abbreviation (input) OP_SREF_S_ALT :: nat where "OP_SREF_S_ALT \<equiv> 22"
abbreviation (input) OP_STOR_I :: nat where "OP_STOR_I \<equiv> 23"
abbreviation (input) OP_STRB_I :: nat where "OP_STRB_I \<equiv> 24"
abbreviation (input) OP_LIDX :: nat where "OP_LIDX \<equiv> 25"
abbreviation (input) OP_LIDX_B :: nat where "OP_LIDX_B \<equiv> 26"
abbreviation (input) OP_IDXADDR :: nat where "OP_IDXADDR \<equiv> 27"
abbreviation (input) OP_IDXADDR_B :: nat where "OP_IDXADDR_B \<equiv> 28"
abbreviation (input) OP_ALIGN_PRI :: nat where "OP_ALIGN_PRI \<equiv> 29"
abbreviation (input) OP_ALIGN_ALT :: nat where "OP_ALIGN_ALT \<equiv> 30"
abbreviation (input) OP_LCTRL :: nat where "OP_LCTRL \<equiv> 31"
abbreviation (input) OP_SCTRL :: nat where "OP_SCTRL \<equiv> 32"
abbreviation (input) OP_MOVE_PRI :: nat where "OP_MOVE_PRI \<equiv> 33"
abbreviation (input) OP_MOVE_ALT :: nat where "OP_MOVE_ALT \<equiv> 34"
abbreviation (input) OP_XCHG :: nat where "OP_XCHG \<equiv> 35"
abbreviation (input) OP_PUSH_PRI :: nat where "OP_PUSH_PRI \<equiv> 36"
abbreviation (input) OP_PUSH_ALT :: nat where "OP_PUSH_ALT \<equiv> 37"
abbreviation (input) OP_PUSH_R :: nat where "OP_PUSH_R \<equiv> 38"
abbreviation (input) OP_PUSH_C :: nat where "OP_PUSH_C \<equiv> 39"
abbreviation (input) OP_PUSH :: nat where "OP_PUSH \<equiv> 40"
abbreviation (input) OP_PUSH_S :: nat where "OP_PUSH_S \<equiv> 41"
abbreviation (input) OP_POP_PRI :: nat where "OP_POP_PRI \<equiv> 42"
abbreviation (input) OP_POP_ALT :: nat where "OP_POP_ALT \<equiv> 43"
abbreviation (input) OP_STACK :: nat where "OP_STACK \<equiv> 44"
abbreviation (input) OP_HEAP :: nat where "OP_HEAP \<equiv> 45"
abbreviation (input) OP_PROC :: nat where "OP_PROC \<equiv> 46"
abbreviation (input) OP_RET :: nat where "OP_RET \<equiv> 47"
abbreviation (input) OP_RETN :: nat where "OP_RETN \<equiv> 48"
abbreviation (input) OP_CALL :: nat where "OP_CALL \<equiv> 49"
abbreviation (input) OP_CALL_PRI :: nat where "OP_CALL_PRI \<equiv> 50"
abbreviation (input) OP_JUMP :: nat where "OP_JUMP \<equiv> 51"
abbreviation (input) OP_JREL :: nat where "OP_JREL \<equiv> 52"
abbreviation (input) OP_JZER :: nat where "OP_JZER \<equiv> 53"
abbreviation (input) OP_JNZ :: nat where "OP_JNZ \<equiv> 54"
abbreviation (input) OP_JEQ :: nat where "OP_JEQ \<equiv> 55"
abbreviation (input) OP_JNEQ :: nat where "OP_JNEQ \<equiv> 56"
abbreviation (input) OP_JLESS :: nat where "OP_JLESS \<equiv> 57"
abbreviation (input) OP_JLEQ :: nat where "OP_JLEQ \<equiv> 58"
abbreviation (input) OP_JGRTR :: nat where "OP_JGRTR \<equiv> 59"
abbreviation (input) OP_JGEQ :: nat where "OP_JGEQ \<equiv> 60"
abbreviation (input) OP_JSLESS :: nat where "OP_JSLESS \<equiv> 61"
abbreviation (input) OP_JSLEQ :: nat where "OP_JSLEQ \<equiv> 62"
abbreviation (input) OP_JSGRTR :: nat where "OP_JSGRTR \<equiv> 63"
abbreviation (input) OP_JSGEQ :: nat where "OP_JSGEQ \<equiv> 64"
abbreviation (input) OP_SHL :: nat where "OP_SHL \<equiv> 65"
abbreviation (input) OP_SHR :: nat where "OP_SHR \<equiv> 66"
abbreviation (input) OP_SSHR :: nat where "OP_SSHR \<equiv> 67"
abbreviation (input) OP_SHL_C_PRI :: nat where "OP_SHL_C_PRI \<equiv> 68"
abbreviation (input) OP_SHL_C_ALT :: nat where "OP_SHL_C_ALT \<equiv> 69"
abbreviation (input) OP_SHR_C_PRI :: nat where "OP_SHR_C_PRI \<equiv> 70"
abbreviation (input) OP_SHR_C_ALT :: nat where "OP_SHR_C_ALT \<equiv> 71"
abbreviation (input) OP_SMUL :: nat where "OP_SMUL \<equiv> 72"
abbreviation (input) OP_SDIV :: nat where "OP_SDIV \<equiv> 73"
abbreviation (input) OP_SDIV_ALT :: nat where "OP_SDIV_ALT \<equiv> 74"
abbreviation (input) OP_UMUL :: nat where "OP_UMUL \<equiv> 75"
abbreviation (input) OP_UDIV :: nat where "OP_UDIV \<equiv> 76"
abbreviation (input) OP_UDIV_ALT :: nat where "OP_UDIV_ALT \<equiv> 77"
abbreviation (input) OP_ADD :: nat where "OP_ADD \<equiv> 78"
abbreviation (input) OP_SUB :: nat where "OP_SUB \<equiv> 79"
abbreviation (input) OP_SUB_ALT :: nat where "OP_SUB_ALT \<equiv> 80"
abbreviation (input) OP_AND :: nat where "OP_AND \<equiv> 81"
abbreviation (input) OP_OR :: nat where "OP_OR \<equiv> 82"
abbreviation (input) OP_XOR :: nat where "OP_XOR \<equiv> 83"
abbreviation (input) OP_NOT :: nat where "OP_NOT \<equiv> 84"
abbreviation (input) OP_NEG :: nat where "OP_NEG \<equiv> 85"
abbreviation (input) OP_INVERT :: nat where "OP_INVERT \<equiv> 86"
abbreviation (input) OP_ADD_C :: nat where "OP_ADD_C \<equiv> 87"
abbreviation (input) OP_SMUL_C :: nat where "OP_SMUL_C \<equiv> 88"
abbreviation (input) OP_ZERO_PRI :: nat where "OP_ZERO_PRI \<equiv> 89"
abbreviation (input) OP_ZERO_ALT :: nat where "OP_ZERO_ALT \<equiv> 90"
abbreviation (input) OP_ZERO :: nat where "OP_ZERO \<equiv> 91"
abbreviation (input) OP_ZERO_S :: nat where "OP_ZERO_S \<equiv> 92"
abbreviation (input) OP_SIGN_PRI :: nat where "OP_SIGN_PRI \<equiv> 93"
abbreviation (input) OP_SIGN_ALT :: nat where "OP_SIGN_ALT \<equiv> 94"
abbreviation (input) OP_EQ :: nat where "OP_EQ \<equiv> 95"
abbreviation (input) OP_NEQ :: nat where "OP_NEQ \<equiv> 96"
abbreviation (input) OP_LESS :: nat where "OP_LESS \<equiv> 97"
abbreviation (input) OP_LEQ :: nat where "OP_LEQ \<equiv> 98"
abbreviation (input) OP_GRTR :: nat where "OP_GRTR \<equiv> 99"
abbreviation (input) OP_GEQ :: nat where "OP_GEQ \<equiv> 100"
abbreviation (input) OP_SLESS :: nat where "OP_SLESS \<equiv> 101"
abbreviation (input) OP_SLEQ :: nat where "OP_SLEQ \<equiv> 102"
abbreviation (input) OP_SGRTR :: nat where "OP_SGRTR \<equiv> 103"
abbreviation (input) OP_SGEQ :: nat where "OP_SGEQ \<equiv> 104"
abbreviation (input) OP_EQ_C_PRI :: nat where "OP_EQ_C_PRI \<equiv> 105"
abbreviation (input) OP_EQ_C_ALT :: nat where "OP_EQ_C_ALT \<equiv> 106"
abbreviation (input) OP_INC_PRI :: nat where "OP_INC_PRI \<equiv> 107"
abbreviation (input) OP_INC_ALT :: nat where "OP_INC_ALT \<equiv> 108"
abbreviation (input) OP_INC :: nat where "OP_INC \<equiv> 109"
abbreviation (input) OP_INC_S :: nat where "OP_INC_S \<equiv> 110"
abbreviation (input) OP_INC_I :: nat where "OP_INC_I \<equiv> 111"
abbreviation (input) OP_DEC_PRI :: nat where "OP_DEC_PRI \<equiv> 112"
abbreviation (input) OP_DEC_ALT :: nat where "OP_DEC_ALT \<equiv> 113"
abbreviation (input) OP_DEC :: nat where "OP_DEC \<equiv> 114"
abbreviation (input) OP_DEC_S :: nat where "OP_DEC_S \<equiv> 115"
abbreviation (input) OP_DEC_I :: nat where "OP_DEC_I \<equiv> 116"
abbreviation (input) OP_MOVS :: nat where "OP_MOVS \<equiv> 117"
abbreviation (input) OP_CMPS :: nat where "OP_CMPS \<equiv> 118"
abbreviation (input) OP_FILL :: nat where "OP_FILL \<equiv> 119"
abbreviation (input) OP_HALT :: nat where "OP_HALT \<equiv> 120"
abbreviation (input) OP_BOUNDS :: nat where "OP_BOUNDS \<equiv> 121"
abbreviation (input) OP_SYSREQ_PRI :: nat where "OP_SYSREQ_PRI \<equiv> 122"
abbreviation (input) OP_SYSREQ_C :: nat where "OP_SYSREQ_C \<equiv> 123"
abbreviation (input) OP_FILE :: nat where "OP_FILE \<equiv> 124"
abbreviation (input) OP_LINE :: nat where "OP_LINE \<equiv> 125"
abbreviation (input) OP_SYMBOL :: nat where "OP_SYMBOL \<equiv> 126"
abbreviation (input) OP_SRANGE :: nat where "OP_SRANGE \<equiv> 127"
abbreviation (input) OP_JUMP_PRI :: nat where "OP_JUMP_PRI \<equiv> 128"
abbreviation (input) OP_SWITCH :: nat where "OP_SWITCH \<equiv> 129"
abbreviation (input) OP_CASETBL :: nat where "OP_CASETBL \<equiv> 130"
abbreviation (input) OP_SWAP_PRI :: nat where "OP_SWAP_PRI \<equiv> 131"
abbreviation (input) OP_SWAP_ALT :: nat where "OP_SWAP_ALT \<equiv> 132"
abbreviation (input) OP_PUSHADDR :: nat where "OP_PUSHADDR \<equiv> 133"
abbreviation (input) OP_NOP :: nat where "OP_NOP \<equiv> 134"
abbreviation (input) OP_SYSREQ_D :: nat where "OP_SYSREQ_D \<equiv> 135"
abbreviation (input) OP_SYMTAG :: nat where "OP_SYMTAG \<equiv> 136"
abbreviation (input) OP_BREAK :: nat where "OP_BREAK \<equiv> 137"
abbreviation (input) OP_FLOAT_MUL :: nat where "OP_FLOAT_MUL \<equiv> 138"
abbreviation (input) OP_FLOAT_DIV :: nat where "OP_FLOAT_DIV \<equiv> 139"
abbreviation (input) OP_FLOAT_ADD :: nat where "OP_FLOAT_ADD \<equiv> 140"
abbreviation (input) OP_FLOAT_SUB :: nat where "OP_FLOAT_SUB \<equiv> 141"
abbreviation (input) OP_FLOAT_TO :: nat where "OP_FLOAT_TO \<equiv> 142"
abbreviation (input) OP_FLOAT_ROUND :: nat where "OP_FLOAT_ROUND \<equiv> 143"
abbreviation (input) OP_FLOAT_CMP :: nat where "OP_FLOAT_CMP \<equiv> 144"
abbreviation (input) OP_NUM_OPCODES :: nat where "OP_NUM_OPCODES \<equiv> 145"

text \<open>What the compiler writes for a switch: the number of records, the default, the records.\<close>

definition case_table :: "cell \<Rightarrow> (cell \<times> cell) list \<Rightarrow> cell list" where
  "case_table none recs = [of_nat OP_CASETBL, of_nat (length recs), none] @ concat (map (\<lambda>(v, t). [v, t]) recs)"

end
