(* ===== verification/Machine.thy ===== *)
theory Machine
  imports AmxImage "HOL-Library.Signed_Division"
begin

text \<open>
  The interpreter of the abstract machine, \<open>amx_Exec\<close> of \<open>src/amxmodx/amx.cpp\<close> in its
  ANSI C version. The local variables of \<open>amx_Exec\<close> and the \<open>AMX\<close> structure are the
  record \<open>machine\<close>; each \<open>case\<close> of the switch is a definition over the macros
  \<open>GETPARAM\<close>, \<open>PUSH\<close>, \<open>POP\<close>, \<open>ABORT\<close> and \<open>CHK...\<close>, and
  \<open>handlers\<close> lists them in the order of the enumeration \<open>OPCODE\<close>.

  Callbacks, native functions, the debugger and the host's floating-point operations are the
  record \<open>host\<close>, a parameter. Signed arithmetic wraps; other operations that C leaves undefined
  (an access outside the section, a shift by more than 31 bits, the quotient of the least
  integer by minus one, a \<open>memcpy\<close> between blocks that overlap) are \<open>OutOfBounds\<close>.
\<close>

subsection \<open>The registers\<close>

text \<open>
  \<open>cip\<close> is relative to the start of the code. \<open>retval\<close> is what \<open>*retval\<close> was set to.
\<close>

record machine =
  amx :: amx
  pri :: cell
  alt :: cell
  stk :: cell
  frm :: cell
  hea :: cell
  reset_stk :: cell
  reset_hea :: cell
  cip :: int
  retval :: "cell option"

datatype outcome = Next machine | Return int "cell option" amx

type_synonym instr = "machine \<Rightarrow> fault + outcome"

text \<open>
  The host: the callback gets the index and the structure, whose \<open>stk\<close> points at the
  parameters, and gives the error code, the value of \<open>*result\<close> and the structure; a native
  function called directly gives its value; the debugger an error code. The floating-point
  operations work on the bits of their operands.
\<close>

record host =
  call_back :: "cell \<Rightarrow> amx \<Rightarrow> fault + int \<times> cell \<times> amx"
  call_native :: "cell \<Rightarrow> amx \<Rightarrow> fault + cell \<times> amx"
  call_debug :: "amx \<Rightarrow> fault + int \<times> amx"
  float_mul :: "cell \<Rightarrow> cell \<Rightarrow> cell"
  float_div :: "cell \<Rightarrow> cell \<Rightarrow> cell"
  float_add :: "cell \<Rightarrow> cell \<Rightarrow> cell"
  float_sub :: "cell \<Rightarrow> cell \<Rightarrow> cell"
  float_of :: "cell \<Rightarrow> cell"
  floor_half :: "cell \<Rightarrow> cell"
  floor_of :: "cell \<Rightarrow> cell"
  ceil_of :: "cell \<Rightarrow> cell"
  float_eq :: "cell \<Rightarrow> cell \<Rightarrow> bool"
  float_gt :: "cell \<Rightarrow> cell \<Rightarrow> bool"

subsection \<open>The macros\<close>

definition modify :: "(machine \<Rightarrow> machine) \<Rightarrow> instr" where
  "modify f m = Inr (Next (f m))"

text \<open>Reading a register, and changing registers before the rest of the instruction.\<close>

definition reg :: "(machine \<Rightarrow> 'a) \<Rightarrow> ('a \<Rightarrow> instr) \<Rightarrow> instr" where
  "reg f k m = k (f m) m"

definition upd :: "(machine \<Rightarrow> machine) \<Rightarrow> instr \<Rightarrow> instr" where
  "upd f k m = k (f m)"

text \<open>A part of the instruction that may fail on the machine.\<close>

definition attempt :: "(machine \<Rightarrow> fault + 'a) \<Rightarrow> ('a \<Rightarrow> instr) \<Rightarrow> instr" where
  "attempt f k m = bind_res (f m) (\<lambda>x. k x m)"

definition setp :: "(machine \<Rightarrow> cell) \<Rightarrow> instr" where
  "setp f = modify (\<lambda>m. m\<lparr>pri := f m\<rparr>)"

definition seta :: "(machine \<Rightarrow> cell) \<Rightarrow> instr" where
  "seta f = modify (\<lambda>m. m\<lparr>alt := f m\<rparr>)"

definition next_op :: instr where
  "next_op = modify id"

definition undefined_op :: instr where
  "undefined_op m = Inl OutOfBounds"

definition set_cip :: "(machine \<Rightarrow> int) \<Rightarrow> instr" where
  "set_cip f = modify (\<lambda>m. m\<lparr>cip := f m\<rparr>)"

definition GETPARAM :: "(cell \<Rightarrow> instr) \<Rightarrow> instr" where
  "GETPARAM k = attempt (\<lambda>m. load_cell (code (amx m)) (cip m)) (\<lambda>v. upd (\<lambda>m. m\<lparr>cip := cip m + 4\<rparr>) (k v))"

definition SKIPPARAM :: "int \<Rightarrow> instr" where
  "SKIPPARAM n = set_cip (\<lambda>m. cip m + 4 * n)"

text \<open>\<open>*(cell *)(data+a)\<close>, read and written.\<close>

definition rd :: "int \<Rightarrow> (cell \<Rightarrow> instr) \<Rightarrow> instr" where
  "rd a k = attempt (\<lambda>m. load_cell (data (amx m)) a) k"

definition set_data :: "byte list \<Rightarrow> machine \<Rightarrow> machine" where
  "set_data d m = m\<lparr>amx := (amx m)\<lparr>data := d\<rparr>\<rparr>"

definition wr :: "int \<Rightarrow> cell \<Rightarrow> instr \<Rightarrow> instr" where
  "wr a v k = attempt (\<lambda>m. store_cell a v (data (amx m))) (\<lambda>d. upd (set_data d) k)"

definition PUSH :: "cell \<Rightarrow> instr \<Rightarrow> instr" where
  "PUSH v k = upd (\<lambda>m. m\<lparr>stk := stk m - 4\<rparr>) (reg stk (\<lambda>s. wr (sint s) v k))"

definition POP :: "(cell \<Rightarrow> instr) \<Rightarrow> instr" where
  "POP k = reg stk (\<lambda>s. rd (sint s) (\<lambda>v. upd (\<lambda>m. m\<lparr>stk := stk m + 4\<rparr>) (k v)))"

definition return_op :: "int \<Rightarrow> instr" where
  "return_op v m = Inr (Return v (retval m) (amx m))"

definition ABORT :: "int \<Rightarrow> instr" where
  "ABORT v m = return_op v (m\<lparr>amx := (amx m)\<lparr>amx_stk := reset_stk m, amx_hea := reset_hea m,
     amx_cip := codebase (amx m) + of_int (cip m), amx_pri := pri m, amx_alt := alt m\<rparr>\<rparr>)"

definition STKMARGIN :: cell where "STKMARGIN = 16 * 4"

definition CHKMARGIN :: "instr \<Rightarrow> instr" where
  "CHKMARGIN k m = (if sint (hea m + STKMARGIN) > sint (stk m) then return_op AMX_ERR_STACKERR m else k m)"

definition CHKSTACK :: "instr \<Rightarrow> instr" where
  "CHKSTACK k m = (if sint (stk m) > sint (amx_stp (amx m)) then return_op AMX_ERR_STACKLOW m else k m)"

definition CHKHEAP :: "instr \<Rightarrow> instr" where
  "CHKHEAP k m = (if sint (hea m) < sint (amx_hlw (amx m)) then return_op AMX_ERR_HEAPLOW m else k m)"

text \<open>The test of an address, and of the address behind a block.\<close>

definition bad_address :: "cell \<Rightarrow> machine \<Rightarrow> bool" where
  "bad_address a m \<longleftrightarrow> (sint a \<ge> sint (hea m) \<and> sint a < sint (stk m)) \<or> uint a \<ge> uint (amx_stp (amx m))"

definition bad_end :: "cell \<Rightarrow> machine \<Rightarrow> bool" where
  "bad_end a m \<longleftrightarrow> (sint a > sint (hea m) \<and> sint a < sint (stk m)) \<or> uint a > uint (amx_stp (amx m))"

definition verify :: "cell \<Rightarrow> instr \<Rightarrow> instr" where
  "verify a k m = (if bad_address a m then ABORT AMX_ERR_MEMACCESS m else k m)"

definition verify_end :: "cell \<Rightarrow> instr \<Rightarrow> instr" where
  "verify_end a k m = (if bad_end a m then ABORT AMX_ERR_MEMACCESS m else k m)"

text \<open>\<open>JUMPABS(code, ip)\<close>: the operand is an address, made relative to the code again.\<close>

definition JUMPABS :: "int \<Rightarrow> (int \<Rightarrow> instr) \<Rightarrow> instr" where
  "JUMPABS ip k = attempt (\<lambda>m. load_cell (code (amx m)) ip) (\<lambda>v. reg (\<lambda>m. sint (v - codebase (amx m))) k)"

subsection \<open>Loads\<close>

definition op_load_pri :: instr where
  "op_load_pri = GETPARAM (\<lambda>offs. rd (sint offs) (\<lambda>v. setp (\<lambda>_. v)))"

definition op_load_alt :: instr where
  "op_load_alt = GETPARAM (\<lambda>offs. rd (sint offs) (\<lambda>v. seta (\<lambda>_. v)))"

definition op_load_s_pri :: instr where
  "op_load_s_pri = GETPARAM (\<lambda>offs. reg frm (\<lambda>f. rd (sint f + sint offs) (\<lambda>v. setp (\<lambda>_. v))))"

definition op_load_s_alt :: instr where
  "op_load_s_alt = GETPARAM (\<lambda>offs. reg frm (\<lambda>f. rd (sint f + sint offs) (\<lambda>v. seta (\<lambda>_. v))))"

definition op_lref_pri :: instr where
  "op_lref_pri = GETPARAM (\<lambda>offs. rd (sint offs) (\<lambda>offs. rd (sint offs) (\<lambda>v. setp (\<lambda>_. v))))"

definition op_lref_alt :: instr where
  "op_lref_alt = GETPARAM (\<lambda>offs. rd (sint offs) (\<lambda>offs. rd (sint offs) (\<lambda>v. seta (\<lambda>_. v))))"

definition op_lref_s_pri :: instr where
  "op_lref_s_pri = GETPARAM (\<lambda>offs. reg frm (\<lambda>f. rd (sint f + sint offs) (\<lambda>offs. rd (sint offs) (\<lambda>v. setp (\<lambda>_. v)))))"

definition op_lref_s_alt :: instr where
  "op_lref_s_alt = GETPARAM (\<lambda>offs. reg frm (\<lambda>f. rd (sint f + sint offs) (\<lambda>offs. rd (sint offs) (\<lambda>v. seta (\<lambda>_. v)))))"

definition op_load_i :: instr where
  "op_load_i = reg pri (\<lambda>p. verify p (rd (sint p) (\<lambda>v. setp (\<lambda>_. v))))"

text \<open>\<open>LODB.I\<close> and \<open>STRB.I\<close> access 1, 2 or 4 bytes; other sizes do nothing.\<close>

definition load_bytes :: "int \<Rightarrow> nat \<Rightarrow> instr" where
  "load_bytes a n = attempt (\<lambda>m. read_bytes (data (amx m)) a n) (\<lambda>bs. setp (\<lambda>_. of_le bs))"

definition store_bytes :: "int \<Rightarrow> nat \<Rightarrow> cell \<Rightarrow> instr" where
  "store_bytes a n v = attempt (\<lambda>m. memcpy (data (amx m)) a (le_bytes n v)) (\<lambda>d. upd (set_data d) next_op)"

definition op_lodb_i :: instr where
  "op_lodb_i = GETPARAM (\<lambda>offs. reg pri (\<lambda>p. verify p
     (if offs = 1 then load_bytes (sint p) 1
      else if offs = 2 then load_bytes (sint p) 2
      else if offs = 4 then load_bytes (sint p) 4 else next_op)))"

definition op_const_pri :: instr where
  "op_const_pri = GETPARAM (\<lambda>v. setp (\<lambda>_. v))"

definition op_const_alt :: instr where
  "op_const_alt = GETPARAM (\<lambda>v. seta (\<lambda>_. v))"

definition op_addr_pri :: instr where
  "op_addr_pri = GETPARAM (\<lambda>v. setp (\<lambda>m. v + frm m))"

definition op_addr_alt :: instr where
  "op_addr_alt = GETPARAM (\<lambda>v. seta (\<lambda>m. v + frm m))"

subsection \<open>Stores\<close>

definition op_stor_pri :: instr where
  "op_stor_pri = GETPARAM (\<lambda>offs. reg pri (\<lambda>v. wr (sint offs) v next_op))"

definition op_stor_alt :: instr where
  "op_stor_alt = GETPARAM (\<lambda>offs. reg alt (\<lambda>v. wr (sint offs) v next_op))"

definition op_stor_s_pri :: instr where
  "op_stor_s_pri = GETPARAM (\<lambda>offs. reg frm (\<lambda>f. reg pri (\<lambda>v. wr (sint f + sint offs) v next_op)))"

definition op_stor_s_alt :: instr where
  "op_stor_s_alt = GETPARAM (\<lambda>offs. reg frm (\<lambda>f. reg alt (\<lambda>v. wr (sint f + sint offs) v next_op)))"

definition op_sref_pri :: instr where
  "op_sref_pri = GETPARAM (\<lambda>offs. rd (sint offs) (\<lambda>offs. reg pri (\<lambda>v. wr (sint offs) v next_op)))"

definition op_sref_alt :: instr where
  "op_sref_alt = GETPARAM (\<lambda>offs. rd (sint offs) (\<lambda>offs. reg alt (\<lambda>v. wr (sint offs) v next_op)))"

definition op_sref_s_pri :: instr where
  "op_sref_s_pri = GETPARAM (\<lambda>offs. reg frm (\<lambda>f. rd (sint f + sint offs) (\<lambda>offs. reg pri (\<lambda>v. wr (sint offs) v next_op))))"

definition op_sref_s_alt :: instr where
  "op_sref_s_alt = GETPARAM (\<lambda>offs. reg frm (\<lambda>f. rd (sint f + sint offs) (\<lambda>offs. reg alt (\<lambda>v. wr (sint offs) v next_op))))"

definition op_stor_i :: instr where
  "op_stor_i = reg alt (\<lambda>a. verify a (reg pri (\<lambda>v. wr (sint a) v next_op)))"

definition op_strb_i :: instr where
  "op_strb_i = GETPARAM (\<lambda>offs. reg alt (\<lambda>a. verify a (reg pri (\<lambda>v.
     if offs = 1 then store_bytes (sint a) 1 v
     else if offs = 2 then store_bytes (sint a) 2 v
     else if offs = 4 then store_bytes (sint a) 4 v else next_op))))"

subsection \<open>Indexed addresses\<close>

text \<open>A shift count that C defines.\<close>

definition shift_count :: "cell \<Rightarrow> (nat \<Rightarrow> instr) \<Rightarrow> instr" where
  "shift_count n k = (if unat n < 32 then k (unat n) else undefined_op)"

definition op_lidx :: instr where
  "op_lidx = reg (\<lambda>m. pri m * 4 + alt m) (\<lambda>offs. verify offs (rd (sint offs) (\<lambda>v. setp (\<lambda>_. v))))"

definition op_lidx_b :: instr where
  "op_lidx_b = GETPARAM (\<lambda>offs. shift_count offs (\<lambda>n.
     reg (\<lambda>m. push_bit n (pri m) + alt m) (\<lambda>offs. verify offs (rd (sint offs) (\<lambda>v. setp (\<lambda>_. v))))))"

definition op_idxaddr :: instr where
  "op_idxaddr = setp (\<lambda>m. pri m * 4 + alt m)"

definition op_idxaddr_b :: instr where
  "op_idxaddr_b = GETPARAM (\<lambda>offs. shift_count offs (\<lambda>n. setp (\<lambda>m. push_bit n (pri m) + alt m)))"

definition op_align_pri :: instr where
  "op_align_pri = GETPARAM (\<lambda>offs. if unat offs < 4 then setp (\<lambda>m. pri m XOR (4 - offs)) else next_op)"

definition op_align_alt :: instr where
  "op_align_alt = GETPARAM (\<lambda>offs. if unat offs < 4 then seta (\<lambda>m. alt m XOR (4 - offs)) else next_op)"

subsection \<open>Control registers and moves\<close>

definition op_lctrl :: instr where
  "op_lctrl = GETPARAM (\<lambda>offs.
     if offs = 0 then setp (\<lambda>m. of_int (hdr_cod (header (amx m))))
     else if offs = 1 then setp (\<lambda>m. of_int (hdr_dat (header (amx m))))
     else if offs = 2 then setp hea
     else if offs = 3 then setp (\<lambda>m. amx_stp (amx m))
     else if offs = 4 then setp stk
     else if offs = 5 then setp frm
     else if offs = 6 then setp (\<lambda>m. of_int (cip m))
     else next_op)"

definition op_sctrl :: instr where
  "op_sctrl = GETPARAM (\<lambda>offs.
     if offs = 2 then modify (\<lambda>m. m\<lparr>hea := pri m\<rparr>)
     else if offs = 4 then modify (\<lambda>m. m\<lparr>stk := pri m\<rparr>)
     else if offs = 5 then modify (\<lambda>m. m\<lparr>frm := pri m\<rparr>)
     else if offs = 6 then set_cip (\<lambda>m. sint (pri m))
     else next_op)"

definition op_move_pri :: instr where
  "op_move_pri = setp alt"

definition op_move_alt :: instr where
  "op_move_alt = seta pri"

definition op_xchg :: instr where
  "op_xchg = modify (\<lambda>m. m\<lparr>pri := alt m, alt := pri m\<rparr>)"

subsection \<open>The stack and the heap\<close>

definition op_push_pri :: instr where
  "op_push_pri = reg pri (\<lambda>v. PUSH v next_op)"

definition op_push_alt :: instr where
  "op_push_alt = reg alt (\<lambda>v. PUSH v next_op)"

definition op_push_c :: instr where
  "op_push_c = GETPARAM (\<lambda>offs. PUSH offs next_op)"

text \<open>\<open>while (offs--) PUSH(pri);\<close>\<close>

primrec push_r_loop :: "nat \<Rightarrow> instr" where
  "push_r_loop 0 = next_op"
| "push_r_loop (Suc n) = reg pri (\<lambda>v. PUSH v (push_r_loop n))"

definition op_push_r :: instr where
  "op_push_r = GETPARAM (\<lambda>offs. push_r_loop (unat offs))"

definition op_push :: instr where
  "op_push = GETPARAM (\<lambda>offs. rd (sint offs) (\<lambda>v. PUSH v next_op))"

definition op_push_s :: instr where
  "op_push_s = GETPARAM (\<lambda>offs. reg frm (\<lambda>f. rd (sint f + sint offs) (\<lambda>v. PUSH v next_op)))"

definition op_pop_pri :: instr where
  "op_pop_pri = POP (\<lambda>v. setp (\<lambda>_. v))"

definition op_pop_alt :: instr where
  "op_pop_alt = POP (\<lambda>v. seta (\<lambda>_. v))"

definition op_stack :: instr where
  "op_stack = GETPARAM (\<lambda>offs. upd (\<lambda>m. m\<lparr>alt := stk m, stk := stk m + offs\<rparr>) (CHKMARGIN (CHKSTACK next_op)))"

definition op_heap :: instr where
  "op_heap = GETPARAM (\<lambda>offs. upd (\<lambda>m. m\<lparr>alt := hea m, hea := hea m + offs\<rparr>) (CHKMARGIN (CHKHEAP next_op)))"

definition op_swap_pri :: instr where
  "op_swap_pri = reg stk (\<lambda>s. rd (sint s) (\<lambda>offs. reg pri (\<lambda>v. wr (sint s) v (setp (\<lambda>_. offs)))))"

definition op_swap_alt :: instr where
  "op_swap_alt = reg stk (\<lambda>s. rd (sint s) (\<lambda>offs. reg alt (\<lambda>v. wr (sint s) v (seta (\<lambda>_. offs)))))"

definition op_pushaddr :: instr where
  "op_pushaddr = GETPARAM (\<lambda>offs. reg frm (\<lambda>f. PUSH (f + offs) next_op))"

subsection \<open>Calls and jumps\<close>

definition op_proc :: instr where
  "op_proc = reg frm (\<lambda>f. PUSH f (upd (\<lambda>m. m\<lparr>frm := stk m\<rparr>) (CHKMARGIN next_op)))"

definition codesize :: "machine \<Rightarrow> cell" where
  "codesize m = of_int (hdr_dat (header (amx m)) - hdr_cod (header (amx m)))"

definition return_to :: "cell \<Rightarrow> instr \<Rightarrow> instr" where
  "return_to offs k = reg codesize (\<lambda>n.
     if uint offs \<ge> uint n then ABORT AMX_ERR_MEMACCESS else upd (\<lambda>m. m\<lparr>cip := sint offs\<rparr>) k)"

definition op_ret :: instr where
  "op_ret = POP (\<lambda>f. upd (\<lambda>m. m\<lparr>frm := f\<rparr>) (POP (\<lambda>offs. return_to offs next_op)))"

definition op_retn :: instr where
  "op_retn = POP (\<lambda>f. upd (\<lambda>m. m\<lparr>frm := f\<rparr>) (POP (\<lambda>offs. return_to offs
     (reg stk (\<lambda>s. rd (sint s) (\<lambda>v. modify (\<lambda>m. let s = s + (v + 4) in m\<lparr>stk := s, amx := (amx m)\<lparr>amx_stk := s\<rparr>\<rparr>)))))))"

definition op_call :: instr where
  "op_call = reg cip (\<lambda>c. PUSH (of_int c + 4) (JUMPABS c (\<lambda>a. set_cip (\<lambda>_. a))))"

definition op_call_pri :: instr where
  "op_call_pri = reg cip (\<lambda>c. PUSH (of_int c) (set_cip (\<lambda>m. sint (pri m))))"

definition op_jump :: instr where
  "op_jump = reg cip (\<lambda>c. JUMPABS c (\<lambda>a. set_cip (\<lambda>_. a)))"

definition op_jrel :: instr where
  "op_jrel = attempt (\<lambda>m. load_cell (code (amx m)) (cip m)) (\<lambda>offs. set_cip (\<lambda>m. cip m + sint offs + 4))"

definition jump_if :: "(machine \<Rightarrow> bool) \<Rightarrow> instr" where
  "jump_if c = reg c (\<lambda>b. if b then op_jump else set_cip (\<lambda>m. cip m + 4))"

definition op_jzer :: instr where "op_jzer = jump_if (\<lambda>m. pri m = 0)"
definition op_jnz :: instr where "op_jnz = jump_if (\<lambda>m. pri m \<noteq> 0)"
definition op_jeq :: instr where "op_jeq = jump_if (\<lambda>m. pri m = alt m)"
definition op_jneq :: instr where "op_jneq = jump_if (\<lambda>m. pri m \<noteq> alt m)"
definition op_jless :: instr where "op_jless = jump_if (\<lambda>m. uint (pri m) < uint (alt m))"
definition op_jleq :: instr where "op_jleq = jump_if (\<lambda>m. uint (pri m) \<le> uint (alt m))"
definition op_jgrtr :: instr where "op_jgrtr = jump_if (\<lambda>m. uint (pri m) > uint (alt m))"
definition op_jgeq :: instr where "op_jgeq = jump_if (\<lambda>m. uint (pri m) \<ge> uint (alt m))"
definition op_jsless :: instr where "op_jsless = jump_if (\<lambda>m. sint (pri m) < sint (alt m))"
definition op_jsleq :: instr where "op_jsleq = jump_if (\<lambda>m. sint (pri m) \<le> sint (alt m))"
definition op_jsgrtr :: instr where "op_jsgrtr = jump_if (\<lambda>m. sint (pri m) > sint (alt m))"
definition op_jsgeq :: instr where "op_jsgeq = jump_if (\<lambda>m. sint (pri m) \<ge> sint (alt m))"

definition op_jump_pri :: instr where
  "op_jump_pri = set_cip (\<lambda>m. sint (pri m))"

text \<open>
  The loop of \<open>SWITCH\<close> over the records of the case table; it ends at the record with the
  value of \<open>PRI\<close>, or with no record left.
\<close>

primrec switch_loop :: "nat \<Rightarrow> int \<Rightarrow> instr" where
  "switch_loop 0 cptr = next_op"
| "switch_loop (Suc num) cptr = attempt (\<lambda>m. load_cell (code (amx m)) cptr) (\<lambda>v. reg pri (\<lambda>p.
     if v \<noteq> p then switch_loop num (cptr + 8) else JUMPABS (cptr + 4) (\<lambda>a. set_cip (\<lambda>_. a))))"

definition op_switch :: instr where
  "op_switch = reg cip (\<lambda>c. JUMPABS c (\<lambda>tbl. JUMPABS (tbl + 8) (\<lambda>none. upd (\<lambda>m. m\<lparr>cip := none\<rparr>)
     (attempt (\<lambda>m. load_cell (code (amx m)) (tbl + 4)) (\<lambda>num. switch_loop (nat (sint num)) (tbl + 12))))))"

subsection \<open>Arithmetic\<close>

definition op_shl :: instr where
  "op_shl = reg alt (\<lambda>a. shift_count a (\<lambda>n. setp (\<lambda>m. push_bit n (pri m))))"

definition op_shr :: instr where
  "op_shr = reg alt (\<lambda>a. shift_count a (\<lambda>n. setp (\<lambda>m. drop_bit n (pri m))))"

definition op_sshr :: instr where
  "op_sshr = reg alt (\<lambda>a. shift_count a (\<lambda>n. setp (\<lambda>m. signed_drop_bit n (pri m))))"

definition op_shl_c_pri :: instr where
  "op_shl_c_pri = GETPARAM (\<lambda>offs. shift_count offs (\<lambda>n. setp (\<lambda>m. push_bit n (pri m))))"

definition op_shl_c_alt :: instr where
  "op_shl_c_alt = GETPARAM (\<lambda>offs. shift_count offs (\<lambda>n. seta (\<lambda>m. push_bit n (alt m))))"

definition op_shr_c_pri :: instr where
  "op_shr_c_pri = GETPARAM (\<lambda>offs. shift_count offs (\<lambda>n. setp (\<lambda>m. drop_bit n (pri m))))"

definition op_shr_c_alt :: instr where
  "op_shr_c_alt = GETPARAM (\<lambda>offs. shift_count offs (\<lambda>n. seta (\<lambda>m. drop_bit n (alt m))))"

definition op_smul :: instr where
  "op_smul = setp (\<lambda>m. pri m * alt m)"

text \<open>The quotient and the remainder of C's signed division.\<close>

definition c_div :: "cell \<Rightarrow> cell \<Rightarrow> cell" where
  "c_div a b = of_int (sint a sdiv sint b)"

definition c_mod :: "cell \<Rightarrow> cell \<Rightarrow> cell" where
  "c_mod a b = of_int (sint a smod sint b)"

definition floor_div :: "cell \<Rightarrow> cell \<Rightarrow> instr" where
  "floor_div a b =
     (if b = 0 then ABORT AMX_ERR_DIVIDE
      else if b = - 1 \<and> sint a = - (2 ^ 31) then undefined_op
      else let offs = c_mod (c_mod a b + b) b in modify (\<lambda>m. m\<lparr>pri := c_div (a - offs) b, alt := offs\<rparr>))"

definition op_sdiv :: instr where
  "op_sdiv = reg pri (\<lambda>p. reg alt (\<lambda>a. floor_div p a))"

definition op_sdiv_alt :: instr where
  "op_sdiv_alt = reg pri (\<lambda>p. reg alt (\<lambda>a. floor_div a p))"

definition op_umul :: instr where
  "op_umul = setp (\<lambda>m. pri m * alt m)"

definition unsigned_div :: "cell \<Rightarrow> cell \<Rightarrow> instr" where
  "unsigned_div a b =
     (if b = 0 then ABORT AMX_ERR_DIVIDE else modify (\<lambda>m. m\<lparr>pri := a div b, alt := a mod b\<rparr>))"

definition op_udiv :: instr where
  "op_udiv = reg pri (\<lambda>p. reg alt (\<lambda>a. unsigned_div p a))"

definition op_udiv_alt :: instr where
  "op_udiv_alt = reg pri (\<lambda>p. reg alt (\<lambda>a. unsigned_div a p))"

definition op_add :: instr where "op_add = setp (\<lambda>m. pri m + alt m)"
definition op_sub :: instr where "op_sub = setp (\<lambda>m. pri m - alt m)"
definition op_sub_alt :: instr where "op_sub_alt = setp (\<lambda>m. alt m - pri m)"
definition op_and :: instr where "op_and = setp (\<lambda>m. pri m AND alt m)"
definition op_or :: instr where "op_or = setp (\<lambda>m. pri m OR alt m)"
definition op_xor :: instr where "op_xor = setp (\<lambda>m. pri m XOR alt m)"

definition truth :: "bool \<Rightarrow> cell" where
  "truth b = (if b then 1 else 0)"

definition op_not :: instr where "op_not = setp (\<lambda>m. truth (pri m = 0))"
definition op_neg :: instr where "op_neg = setp (\<lambda>m. - pri m)"
definition op_invert :: instr where "op_invert = setp (\<lambda>m. NOT (pri m))"
definition op_add_c :: instr where "op_add_c = GETPARAM (\<lambda>offs. setp (\<lambda>m. pri m + offs))"
definition op_smul_c :: instr where "op_smul_c = GETPARAM (\<lambda>offs. setp (\<lambda>m. pri m * offs))"
definition op_zero_pri :: instr where "op_zero_pri = setp (\<lambda>m. 0)"
definition op_zero_alt :: instr where "op_zero_alt = seta (\<lambda>m. 0)"
definition op_zero :: instr where "op_zero = GETPARAM (\<lambda>offs. wr (sint offs) 0 next_op)"
definition op_zero_s :: instr where "op_zero_s = GETPARAM (\<lambda>offs. reg frm (\<lambda>f. wr (sint f + sint offs) 0 next_op))"

definition sign_extend :: "cell \<Rightarrow> cell" where
  "sign_extend v = (if v AND 0xff \<ge> 0x80 then v OR NOT 0xff else v)"

definition op_sign_pri :: instr where "op_sign_pri = setp (\<lambda>m. sign_extend (pri m))"
definition op_sign_alt :: instr where "op_sign_alt = seta (\<lambda>m. sign_extend (alt m))"

subsection \<open>Comparisons\<close>

definition op_eq :: instr where "op_eq = setp (\<lambda>m. truth (pri m = alt m))"
definition op_neq :: instr where "op_neq = setp (\<lambda>m. truth (pri m \<noteq> alt m))"
definition op_less :: instr where "op_less = setp (\<lambda>m. truth (uint (pri m) < uint (alt m)))"
definition op_leq :: instr where "op_leq = setp (\<lambda>m. truth (uint (pri m) \<le> uint (alt m)))"
definition op_grtr :: instr where "op_grtr = setp (\<lambda>m. truth (uint (pri m) > uint (alt m)))"
definition op_geq :: instr where "op_geq = setp (\<lambda>m. truth (uint (pri m) \<ge> uint (alt m)))"
definition op_sless :: instr where "op_sless = setp (\<lambda>m. truth (sint (pri m) < sint (alt m)))"
definition op_sleq :: instr where "op_sleq = setp (\<lambda>m. truth (sint (pri m) \<le> sint (alt m)))"
definition op_sgrtr :: instr where "op_sgrtr = setp (\<lambda>m. truth (sint (pri m) > sint (alt m)))"
definition op_sgeq :: instr where "op_sgeq = setp (\<lambda>m. truth (sint (pri m) \<ge> sint (alt m)))"
definition op_eq_c_pri :: instr where "op_eq_c_pri = GETPARAM (\<lambda>offs. setp (\<lambda>m. truth (pri m = offs)))"
definition op_eq_c_alt :: instr where "op_eq_c_alt = GETPARAM (\<lambda>offs. setp (\<lambda>m. truth (alt m = offs)))"

subsection \<open>Increments and decrements\<close>

text \<open>\<open>*(cell *)(data+a) += d\<close>\<close>

definition add_at :: "int \<Rightarrow> cell \<Rightarrow> instr" where
  "add_at a d = rd a (\<lambda>v. wr a (v + d) next_op)"

definition op_inc_pri :: instr where "op_inc_pri = setp (\<lambda>m. pri m + 1)"
definition op_inc_alt :: instr where "op_inc_alt = seta (\<lambda>m. alt m + 1)"
definition op_inc :: instr where "op_inc = GETPARAM (\<lambda>offs. add_at (sint offs) 1)"
definition op_inc_s :: instr where "op_inc_s = GETPARAM (\<lambda>offs. reg frm (\<lambda>f. add_at (sint f + sint offs) 1))"
definition op_inc_i :: instr where "op_inc_i = reg pri (\<lambda>p. add_at (sint p) 1)"
definition op_dec_pri :: instr where "op_dec_pri = setp (\<lambda>m. pri m - 1)"
definition op_dec_alt :: instr where "op_dec_alt = seta (\<lambda>m. alt m - 1)"
definition op_dec :: instr where "op_dec = GETPARAM (\<lambda>offs. add_at (sint offs) (- 1))"
definition op_dec_s :: instr where "op_dec_s = GETPARAM (\<lambda>offs. reg frm (\<lambda>f. add_at (sint f + sint offs) (- 1)))"
definition op_dec_i :: instr where "op_dec_i = reg pri (\<lambda>p. add_at (sint p) (- 1))"

subsection \<open>Blocks of memory\<close>

text \<open>\<open>memcpy\<close> inside the data; blocks that overlap are undefined.\<close>

definition copy_block :: "int \<Rightarrow> int \<Rightarrow> nat \<Rightarrow> instr" where
  "copy_block dst src n =
     attempt (\<lambda>m. read_bytes (data (amx m)) src n) (\<lambda>bs.
       if n > 0 \<and> src < dst + int n \<and> dst < src + int n then undefined_op
       else attempt (\<lambda>m. memcpy (data (amx m)) dst bs) (\<lambda>d. upd (set_data d) next_op))"

text \<open>\<open>memcmp\<close>, as the difference of the first bytes that differ.\<close>

fun memcmp :: "byte list \<Rightarrow> byte list \<Rightarrow> int" where
  "memcmp (x # xs) (y # ys) = (if x = y then memcmp xs ys else uint x - uint y)"
| "memcmp _ _ = 0"

definition verify_blocks :: "cell \<Rightarrow> (cell \<Rightarrow> cell \<Rightarrow> instr) \<Rightarrow> instr" where
  "verify_blocks offs k = reg pri (\<lambda>p. reg alt (\<lambda>a.
     verify p (verify_end (p + offs) (verify a (verify_end (a + offs) (k p a))))))"

definition op_movs :: instr where
  "op_movs = GETPARAM (\<lambda>offs. verify_blocks offs (\<lambda>p a. copy_block (sint a) (sint p) (unat offs)))"

definition op_cmps :: instr where
  "op_cmps = GETPARAM (\<lambda>offs. verify_blocks offs (\<lambda>p a.
     attempt (\<lambda>m. read_bytes (data (amx m)) (sint a) (unat offs)) (\<lambda>as.
     attempt (\<lambda>m. read_bytes (data (amx m)) (sint p) (unat offs)) (\<lambda>bs. setp (\<lambda>_. of_int (memcmp as bs))))))"

primrec fill_loop :: "nat \<Rightarrow> int \<Rightarrow> instr" where
  "fill_loop 0 i = next_op"
| "fill_loop (Suc n) i = reg pri (\<lambda>v. wr i v (fill_loop n (i + 4)))"

definition op_fill :: instr where
  "op_fill = GETPARAM (\<lambda>offs. reg alt (\<lambda>a. verify a (verify_end (a + offs)
     (fill_loop (unat offs div 4) (sint a)))))"

subsection \<open>Requests and the end of the program\<close>

text \<open>The registers stored before the host runs, and what a sleeping host leaves.\<close>

definition save_regs :: "machine \<Rightarrow> amx" where
  "save_regs m = (amx m)\<lparr>amx_cip := of_int (cip m), amx_hea := hea m, amx_frm := frm m, amx_stk := stk m,
     amx_pri := pri m, amx_alt := alt m\<rparr>"

definition save_reset :: "machine \<Rightarrow> amx \<Rightarrow> amx" where
  "save_reset m a = a\<lparr>amx_reset_stk := reset_stk m, amx_reset_hea := reset_hea m\<rparr>"

definition after_host :: "int \<Rightarrow> instr" where
  "after_host num =
     (if num \<noteq> AMX_ERR_NONE
      then if num = AMX_ERR_SLEEP
           then upd (\<lambda>m. m\<lparr>amx := save_reset m ((amx m)\<lparr>amx_pri := pri m, amx_alt := alt m\<rparr>)\<rparr>) (return_op num)
           else ABORT num
      else next_op)"

definition op_halt :: instr where
  "op_halt = GETPARAM (\<lambda>offs.
     upd (\<lambda>m. m\<lparr>retval := Some (pri m),
            amx := (amx m)\<lparr>amx_frm := frm m, amx_pri := pri m, amx_alt := alt m, amx_cip := of_int (cip m)\<rparr>\<rparr>)
       (if sint offs = AMX_ERR_SLEEP then upd (\<lambda>m. m\<lparr>amx := save_reset m (amx m)\<rparr>) (return_op (sint offs))
        else ABORT (sint offs)))"

definition op_bounds :: instr where
  "op_bounds = GETPARAM (\<lambda>offs. reg pri (\<lambda>p. if uint p > uint offs then ABORT AMX_ERR_BOUNDS else next_op))"

definition sysreq :: "host \<Rightarrow> cell \<Rightarrow> instr" where
  "sysreq h index = attempt (\<lambda>m. call_back h index (save_regs m)) (\<lambda>(num, result, a).
     upd (\<lambda>m. m\<lparr>amx := a, pri := result\<rparr>) (after_host num))"

definition op_sysreq_pri :: "host \<Rightarrow> instr" where
  "op_sysreq_pri h = reg pri (sysreq h)"

definition op_sysreq_c :: "host \<Rightarrow> instr" where
  "op_sysreq_c h = GETPARAM (sysreq h)"

text \<open>When the native function sleeps, \<open>SYSREQ.D\<close> returns \<open>num\<close>, which nothing has set.\<close>

definition op_sysreq_d :: "host \<Rightarrow> instr" where
  "op_sysreq_d h = GETPARAM (\<lambda>offs. attempt (\<lambda>m. call_native h offs (save_regs m)) (\<lambda>(result, a).
     if amx_error a = AMX_ERR_SLEEP then undefined_op
     else upd (\<lambda>m. m\<lparr>amx := a, pri := result\<rparr>) (after_host (amx_error a))))"

definition op_line :: instr where "op_line = SKIPPARAM 2"
definition op_symbol :: instr where "op_symbol = GETPARAM (\<lambda>offs. set_cip (\<lambda>m. cip m + sint offs))"
definition op_srange :: instr where "op_srange = SKIPPARAM 2"
definition op_symtag :: instr where "op_symtag = SKIPPARAM 1"
definition op_nop :: instr where "op_nop = next_op"

text \<open>A failed assertion; the \<open>default\<close> of the switch is \<open>assert(0)\<close>.\<close>

definition op_default :: instr where
  "op_default m = Inl AssertFail"

definition op_break :: "host \<Rightarrow> instr" where
  "op_break h = reg amx (\<lambda>a.
     if amx_flags a AND AMX_FLAG_BROWSE \<noteq> 0 then op_default
     else if debug a
     then attempt (\<lambda>m. call_debug h (save_regs m)) (\<lambda>(num, a). upd (\<lambda>m. m\<lparr>amx := a\<rparr>) (after_host num))
     else next_op)"

subsection \<open>Floating point\<close>

definition float2 :: "(cell \<Rightarrow> cell \<Rightarrow> cell) \<Rightarrow> instr" where
  "float2 f = reg stk (\<lambda>s. rd (sint s + 4) (\<lambda>offs. rd (sint s + 8) (\<lambda>offs2. setp (\<lambda>_. f offs offs2))))"

definition op_float_mul :: "host \<Rightarrow> instr" where "op_float_mul h = float2 (float_mul h)"
definition op_float_div :: "host \<Rightarrow> instr" where "op_float_div h = float2 (float_div h)"
definition op_float_add :: "host \<Rightarrow> instr" where "op_float_add h = float2 (float_add h)"
definition op_float_sub :: "host \<Rightarrow> instr" where "op_float_sub h = float2 (float_sub h)"

definition op_float_to :: "host \<Rightarrow> instr" where
  "op_float_to h = reg stk (\<lambda>s. rd (sint s + 4) (\<lambda>offs. setp (\<lambda>_. float_of h offs)))"

definition op_float_round :: "host \<Rightarrow> instr" where
  "op_float_round h = float2 (\<lambda>offs offs2.
     if offs2 = 0 then floor_half h offs else if offs2 = 1 then floor_of h offs else ceil_of h offs)"

definition op_float_cmp :: "host \<Rightarrow> instr" where
  "op_float_cmp h = float2 (\<lambda>offs offs2. if float_eq h offs offs2 then 0 else if float_gt h offs offs2 then 1 else - 1)"

subsection \<open>The switch and the loop\<close>

definition handlers :: "host \<Rightarrow> instr list" where
  "handlers h =
   [op_default, op_load_pri, op_load_alt, op_load_s_pri, op_load_s_alt, op_lref_pri, op_lref_alt,
    op_lref_s_pri, op_lref_s_alt, op_load_i, op_lodb_i, op_const_pri, op_const_alt, op_addr_pri,
    op_addr_alt, op_stor_pri, op_stor_alt, op_stor_s_pri, op_stor_s_alt, op_sref_pri, op_sref_alt,
    op_sref_s_pri, op_sref_s_alt, op_stor_i, op_strb_i, op_lidx, op_lidx_b, op_idxaddr, op_idxaddr_b,
    op_align_pri, op_align_alt, op_lctrl, op_sctrl, op_move_pri, op_move_alt, op_xchg, op_push_pri,
    op_push_alt, op_push_r, op_push_c, op_push, op_push_s, op_pop_pri, op_pop_alt, op_stack, op_heap,
    op_proc, op_ret, op_retn, op_call, op_call_pri, op_jump, op_jrel, op_jzer, op_jnz, op_jeq, op_jneq,
    op_jless, op_jleq, op_jgrtr, op_jgeq, op_jsless, op_jsleq, op_jsgrtr, op_jsgeq, op_shl, op_shr,
    op_sshr, op_shl_c_pri, op_shl_c_alt, op_shr_c_pri, op_shr_c_alt, op_smul, op_sdiv, op_sdiv_alt,
    op_umul, op_udiv, op_udiv_alt, op_add, op_sub, op_sub_alt, op_and, op_or, op_xor, op_not, op_neg,
    op_invert, op_add_c, op_smul_c, op_zero_pri, op_zero_alt, op_zero, op_zero_s, op_sign_pri,
    op_sign_alt, op_eq, op_neq, op_less, op_leq, op_grtr, op_geq, op_sless, op_sleq, op_sgrtr, op_sgeq,
    op_eq_c_pri, op_eq_c_alt, op_inc_pri, op_inc_alt, op_inc, op_inc_s, op_inc_i, op_dec_pri, op_dec_alt,
    op_dec, op_dec_s, op_dec_i, op_movs, op_cmps, op_fill, op_halt, op_bounds, op_sysreq_pri h,
    op_sysreq_c h, op_default, op_line, op_symbol, op_srange, op_jump_pri, op_switch, op_default,
    op_swap_pri, op_swap_alt, op_pushaddr, op_nop, op_sysreq_d h, op_symtag, op_break h, op_float_mul h,
    op_float_div h, op_float_add h, op_float_sub h, op_float_to h, op_float_round h, op_float_cmp h]"

text \<open>\<open>op=(OPCODE) *cip++; switch (op)\<close>\<close>

definition step :: "host \<Rightarrow> instr" where
  "step h = GETPARAM (\<lambda>op. if unat op < length (handlers h) then handlers h ! unat op else op_default)"

text \<open>The loop \<open>for ( ;; )\<close>, with a bound on the number of instructions.\<close>

fun run :: "nat \<Rightarrow> host \<Rightarrow> machine \<Rightarrow> fault + int \<times> cell option \<times> amx" where
  "run 0 h m = Inl NoFuel"
| "run (Suc fuel) h m =
     (case step h m of
        Inl e \<Rightarrow> Inl e
      | Inr (Return v r a) \<Rightarrow> Inr (v, r, a)
      | Inr (Next m') \<Rightarrow> run fuel h m')"

subsection \<open>\<open>amx_Exec\<close>\<close>

definition AMX_EXEC_MAIN :: int where "AMX_EXEC_MAIN = - 1"
definition AMX_EXEC_CONT :: int where "AMX_EXEC_CONT = - 2"

text \<open>The registers at the start, or the error.\<close>

definition start_regs :: "amx \<Rightarrow> machine" where
  "start_regs a = \<lparr>amx = a, pri = 0, alt = 0, stk = amx_stk a, frm = 0, hea = amx_hea a,
     reset_stk = amx_stk a, reset_hea = amx_hea a, cip = 0, retval = None\<rparr>"

definition start_address :: "int \<Rightarrow> amx \<Rightarrow> fault + (int + machine)" where
  "start_address index a =
     (let hdr = header a; m = start_regs a
      in if index = AMX_EXEC_MAIN
         then Inr (if hdr_cip hdr < 0 then Inl AMX_ERR_INDEX else Inr (m\<lparr>cip := hdr_cip hdr\<rparr>))
         else if index = AMX_EXEC_CONT
         then Inr (Inr (m\<lparr>frm := amx_frm a, pri := amx_pri a, alt := amx_alt a,
                         reset_stk := amx_reset_stk a, reset_hea := amx_reset_hea a, cip := sint (amx_cip a)\<rparr>))
         else if index < 0 then Inr (Inl AMX_ERR_INDEX)
         else bind_res (NUMENTRIES hdr (hdr_publics hdr) (hdr_natives hdr)) (\<lambda>n.
                if index \<ge> int n then Inr (Inl AMX_ERR_INDEX)
                else bind_res (entry_address a (GETENTRY hdr (hdr_publics hdr) index)) (\<lambda>addr.
                  Inr (Inr (m\<lparr>cip := sint addr\<rparr>)))))"

text \<open>The parameter count and a zero return address go on the stack.\<close>

definition push_count :: "instr \<Rightarrow> instr" where
  "push_count k m =
     (let n = of_int (paramcount (amx m)) * 4
      in upd (\<lambda>m. m\<lparr>reset_stk := reset_stk m + n\<rparr>)
           (PUSH n (upd (\<lambda>m. m\<lparr>amx := (amx m)\<lparr>paramcount := 0\<rparr>\<rparr>) (PUSH 0 k))) m)"

definition exec_start :: "int \<Rightarrow> amx \<Rightarrow> fault + outcome" where
  "exec_start index a =
     (if \<not> callback a then Inr (Return AMX_ERR_CALLBACK None a)
      else if amx_flags a AND AMX_FLAG_PRENIT = 0 \<and> amx_flags a AND AMX_FLAG_NTVREG = 0
      then Inr (Return AMX_ERR_NOTFOUND None a)
      else if amx_flags a AND AMX_FLAG_RELOC = 0 then Inr (Return AMX_ERR_INIT None a)
      else if amx_flags a AND AMX_FLAG_BROWSE \<noteq> 0 \<or> hdr_magic (header a) \<noteq> AMX_MAGIC then Inl AssertFail
      else bind_res (start_address index a) (\<lambda>r.
        case r of
          Inl e \<Rightarrow> Inr (Return e None a)
        | Inr m \<Rightarrow> CHKSTACK (CHKHEAP (if index \<noteq> AMX_EXEC_CONT then push_count (CHKMARGIN next_op) else CHKMARGIN next_op)) m))"

definition amx_Exec :: "nat \<Rightarrow> host \<Rightarrow> int \<Rightarrow> amx \<Rightarrow> fault + int \<times> cell option \<times> amx" where
  "amx_Exec fuel h index a =
     bind_res (exec_start index a) (\<lambda>r.
       case r of Return v x a \<Rightarrow> Inr (v, x, a) | Next m \<Rightarrow> run fuel h m)"

end
