(* ===== verification/MachineFacts.thy ===== *)
theory MachineFacts
  imports Machine
begin

text \<open>
  What the interpreter keeps: every instruction leaves the shape of the memory and the
  registers to which an abort resets alone, and every way of ending the program but four
  restores stack and heap. Then the address tests, calls and returns, the case tables and
  the division.
\<close>

subsection \<open>Instructions that keep a relation\<close>

text \<open>
  \<open>instr_ok R Q k\<close>: \<open>k\<close> keeps the relation \<open>R\<close> when the program goes on, and \<open>Q\<close>
  holds of the machine before and the structure returned when it ends.
\<close>

definition instr_ok :: "(machine \<Rightarrow> machine \<Rightarrow> bool) \<Rightarrow> (machine \<Rightarrow> int \<Rightarrow> amx \<Rightarrow> bool) \<Rightarrow> instr \<Rightarrow> bool" where
  "instr_ok R Q k \<longleftrightarrow> (\<forall>m. (\<forall>m'. k m = Inr (Next m') \<longrightarrow> R m m') \<and> (\<forall>v r a. k m = Inr (Return v r a) \<longrightarrow> Q m v a))"

text \<open>Memory keeps its shape: header, tables, code and the size of the data.\<close>

definition same_shape :: "amx \<Rightarrow> amx \<Rightarrow> bool" where
  "same_shape a b \<longleftrightarrow> header b = header a \<and> img b = img a \<and> code b = code a \<and> codebase b = codebase a \<and>
     length (data b) = length (data a) \<and> amx_stp b = amx_stp a \<and> amx_hlw b = amx_hlw a"

definition keeps :: "machine \<Rightarrow> machine \<Rightarrow> bool" where
  "keeps m m' \<longleftrightarrow> same_shape (amx m) (amx m') \<and> reset_stk m' = reset_stk m \<and> reset_hea m' = reset_hea m"

text \<open>The codes with which the program ends without \<open>ABORT\<close>.\<close>

definition no_reset :: "int set" where
  "no_reset = {AMX_ERR_SLEEP, AMX_ERR_STACKERR, AMX_ERR_STACKLOW, AMX_ERR_HEAPLOW}"

definition ends :: "machine \<Rightarrow> int \<Rightarrow> amx \<Rightarrow> bool" where
  "ends m v a \<longleftrightarrow> same_shape (amx m) a \<and> (v \<in> no_reset \<or> amx_stk a = reset_stk m \<and> amx_hea a = reset_hea m)"

abbreviation ok :: "instr \<Rightarrow> bool" where
  "ok \<equiv> instr_ok keeps ends"

named_theorems ok_rules \<open>instructions that keep shape and reset registers\<close>

lemma same_shape_refl [simp]: "same_shape a a"
  by (simp add: same_shape_def)

lemma same_shape_trans: "same_shape a b \<Longrightarrow> same_shape b c \<Longrightarrow> same_shape a c"
  by (simp add: same_shape_def)

lemma keeps_trans: "keeps m n \<Longrightarrow> keeps n p \<Longrightarrow> keeps m p"
  by (auto simp: keeps_def intro: same_shape_trans)

lemma ends_keeps: "keeps m n \<Longrightarrow> ends n v a \<Longrightarrow> ends m v a"
  by (auto simp: keeps_def ends_def intro: same_shape_trans)

lemma okI:
  assumes "\<And>m m'. k m = Inr (Next m') \<Longrightarrow> keeps m m'" "\<And>m v r a. k m = Inr (Return v r a) \<Longrightarrow> ends m v a"
  shows "ok k"
  using assms by (simp add: instr_ok_def)

lemma ok_Next: "ok k \<Longrightarrow> k m = Inr (Next m') \<Longrightarrow> keeps m m'"
  by (simp add: instr_ok_def)

lemma ok_Return: "ok k \<Longrightarrow> k m = Inr (Return v r a) \<Longrightarrow> ends m v a"
  by (auto simp: instr_ok_def)

text \<open>
  The rule behind those of the macros: each result is that of an instruction already known,
  on a machine that \<open>keeps\<close> relates to the one at hand.
\<close>

definition comes_from :: "machine \<Rightarrow> outcome \<Rightarrow> bool" where
  "comes_from m r \<longleftrightarrow> (\<exists>k n. ok k \<and> keeps m n \<and> k n = Inr r)"

lemma via: "ok k \<Longrightarrow> keeps m n \<Longrightarrow> k n = Inr r \<Longrightarrow> comes_from m r"
  unfolding comes_from_def by blast

lemma ok_via:
  assumes "\<And>m r. k' m = Inr r \<Longrightarrow> comes_from m r"
  shows "ok k'"
proof (rule okI)
  fix m m' assume "k' m = Inr (Next m')"
  then obtain k n where "ok k" "keeps m n" "k n = Inr (Next m')" using assms unfolding comes_from_def by blast
  then show "keeps m m'" by (meson keeps_trans ok_Next)
next
  fix m v r a assume "k' m = Inr (Return v r a)"
  then obtain k n where "ok k" "keeps m n" "k n = Inr (Return v r a)" using assms unfolding comes_from_def by blast
  then show "ends m v a" by (meson ends_keeps ok_Return)
qed

lemma keeps_simps [simp]:
  "keeps m m" "keeps m (m\<lparr>pri := v\<rparr>)" "keeps m (m\<lparr>alt := v\<rparr>)" "keeps m (m\<lparr>stk := v\<rparr>)" "keeps m (m\<lparr>frm := v\<rparr>)"
  "keeps m (m\<lparr>hea := v\<rparr>)" "keeps m (m\<lparr>cip := c\<rparr>)" "keeps m (m\<lparr>pri := v, alt := w\<rparr>)"
  "keeps m (m\<lparr>alt := v, stk := w\<rparr>)" "keeps m (m\<lparr>alt := v, hea := w\<rparr>)"
  by (simp_all add: keeps_def)

lemma ok_modify: "(\<And>m. keeps m (f m)) \<Longrightarrow> ok (modify f)"
  by (auto simp: instr_ok_def modify_def)

lemma ok_upd: "(\<And>m. keeps m (f m)) \<Longrightarrow> ok k \<Longrightarrow> ok (upd f k)"
  by (rule ok_via) (auto simp: upd_def intro: via)

lemma ok_reg [ok_rules]: "(\<And>x. ok (k x)) \<Longrightarrow> ok (reg f k)"
  by (rule ok_via) (auto simp: reg_def intro: via [OF _ keeps_simps(1)])

lemma ok_attempt [ok_rules]: "(\<And>x. ok (k x)) \<Longrightarrow> ok (attempt f k)"
  by (rule ok_via) (auto simp: attempt_def intro: via [OF _ keeps_simps(1)])

lemma ok_if [ok_rules]: "ok k \<Longrightarrow> ok l \<Longrightarrow> ok (if c then k else l)"
  by simp

lemma keeps_set_data: "length d = length (data (amx m)) \<Longrightarrow> keeps m (set_data d m)"
  by (simp add: keeps_def same_shape_def set_data_def)

text \<open>A write to the data: the block keeps its size.\<close>

lemma ok_write:
  assumes "\<And>m d. f m = Inr d \<Longrightarrow> length d = length (data (amx m))" "ok k"
  shows "ok (attempt f (\<lambda>d. upd (set_data d) k))"
  by (rule ok_via) (auto simp: attempt_def upd_def intro: via [OF assms(2) keeps_set_data [OF assms(1)]])

lemma ok_setp [ok_rules]: "ok (setp f)" and ok_seta [ok_rules]: "ok (seta f)"
  and ok_set_cip [ok_rules]: "ok (set_cip g)" and ok_next_op [ok_rules]: "ok next_op"
  unfolding setp_def seta_def set_cip_def next_op_def by (rule ok_modify, simp)+

lemma ok_undefined_op [ok_rules]: "ok undefined_op" and ok_default [ok_rules]: "ok op_default"
  by (simp_all add: instr_ok_def undefined_op_def op_default_def)

lemma ok_SKIPPARAM [ok_rules]: "ok (SKIPPARAM n)"
  unfolding SKIPPARAM_def by (rule ok_set_cip)

lemma ok_GETPARAM [ok_rules]: "(\<And>v. ok (k v)) \<Longrightarrow> ok (GETPARAM k)"
  unfolding GETPARAM_def by (rule ok_attempt, rule ok_upd) auto

lemma ok_rd [ok_rules]: "(\<And>v. ok (k v)) \<Longrightarrow> ok (rd a k)"
  unfolding rd_def by (rule ok_attempt)

lemma ok_wr [ok_rules]: "ok k \<Longrightarrow> ok (wr a v k)"
  unfolding wr_def by (rule ok_write) (auto dest: store_cell_length)

lemma ok_PUSH [ok_rules]: "ok k \<Longrightarrow> ok (PUSH v k)"
  unfolding PUSH_def by (rule ok_upd, simp, rule ok_reg, rule ok_wr)

lemma ok_POP [ok_rules]: "(\<And>v. ok (k v)) \<Longrightarrow> ok (POP k)"
  unfolding POP_def by (rule ok_reg, rule ok_rd, rule ok_upd) auto

lemma ok_JUMPABS [ok_rules]: "(\<And>a. ok (k a)) \<Longrightarrow> ok (JUMPABS ip k)"
  unfolding JUMPABS_def by (rule ok_attempt, rule ok_reg)

lemma ok_ABORT [ok_rules]: "ok (ABORT v)"
  by (rule okI) (auto simp: ABORT_def return_op_def ends_def same_shape_def)

lemma ok_return [ok_rules]: "v \<in> no_reset \<Longrightarrow> ok (return_op v)"
  by (rule okI) (auto simp: return_op_def ends_def)

lemma no_reset_simps [simp]: "3 \<in> no_reset" "7 \<in> no_reset" "8 \<in> no_reset" "12 \<in> no_reset"
  by (simp_all add: no_reset_def)

text \<open>Tests of the machine: each branch is an instruction.\<close>

lemma ok_test:
  assumes "ok k" "ok l" "\<And>m. k' m = k m \<or> k' m = l m"
  shows "ok k'"
proof (rule ok_via)
  fix m r assume "k' m = Inr r"
  with assms(3) [of m] show "comes_from m r" using via [OF assms(1) keeps_simps(1)] via [OF assms(2) keeps_simps(1)] by auto
qed

lemma ok_CHKMARGIN [ok_rules]: "ok k \<Longrightarrow> ok (CHKMARGIN k)"
  by (rule ok_test [of "return_op 3" k]) (auto intro: ok_return simp: CHKMARGIN_def)

lemma ok_CHKSTACK [ok_rules]: "ok k \<Longrightarrow> ok (CHKSTACK k)"
  by (rule ok_test [of "return_op 7" k]) (auto intro: ok_return simp: CHKSTACK_def)

lemma ok_CHKHEAP [ok_rules]: "ok k \<Longrightarrow> ok (CHKHEAP k)"
  by (rule ok_test [of "return_op 8" k]) (auto intro: ok_return simp: CHKHEAP_def)

lemma ok_verify [ok_rules]: "ok k \<Longrightarrow> ok (verify a k)"
  by (rule ok_test [of "ABORT 5" k]) (auto intro: ok_ABORT simp: verify_def)

lemma ok_verify_end [ok_rules]: "ok k \<Longrightarrow> ok (verify_end a k)"
  by (rule ok_test [of "ABORT 5" k]) (auto intro: ok_ABORT simp: verify_end_def)

lemma ok_shift_count [ok_rules]: "(\<And>n. ok (k n)) \<Longrightarrow> ok (shift_count c k)"
  by (simp add: shift_count_def ok_undefined_op)

subsection \<open>The instructions\<close>

text \<open>The loops inside instructions.\<close>

lemma ok_push_r_loop [ok_rules]: "ok (push_r_loop n)"
  by (induction n) (auto intro: ok_rules)

lemma ok_fill_loop [ok_rules]: "ok (fill_loop n i)"
  by (induction n arbitrary: i) (auto intro: ok_rules)

lemma ok_switch_loop [ok_rules]: "ok (switch_loop n p)"
  by (induction n arbitrary: p) (auto intro!: ok_attempt ok_reg ok_if ok_JUMPABS ok_set_cip ok_next_op)

text \<open>The parts that instructions share.\<close>

lemma ok_load_bytes [ok_rules]: "ok (load_bytes a n)"
  unfolding load_bytes_def by (rule ok_attempt, rule ok_setp)

lemma ok_store_bytes [ok_rules]: "ok (store_bytes a n v)"
  unfolding store_bytes_def by (rule ok_write) (auto dest: memcpy_length intro: ok_next_op)

lemma ok_copy_block [ok_rules]: "ok (copy_block d s n)"
  unfolding copy_block_def by (rule ok_attempt, rule ok_if, rule ok_undefined_op, rule ok_write) (auto dest: memcpy_length intro: ok_next_op)

lemma ok_return_to [ok_rules]: "ok k \<Longrightarrow> ok (return_to offs k)"
  unfolding return_to_def by (rule ok_reg, rule ok_if, rule ok_ABORT, rule ok_upd) auto

lemma ok_op_jump [ok_rules]: "ok op_jump"
  unfolding op_jump_def by (rule ok_rules)+

lemma ok_jump_if [ok_rules]: "ok (jump_if c)"
  unfolding jump_if_def by (rule ok_rules)+

lemma ok_add_at [ok_rules]: "ok (add_at a d)"
  unfolding add_at_def by (rule ok_rules)+

lemma ok_verify_blocks [ok_rules]: "(\<And>p a. ok (k p a)) \<Longrightarrow> ok (verify_blocks offs k)"
  unfolding verify_blocks_def by (rule ok_rules | assumption)+

lemma ok_floor_div [ok_rules]: "ok (floor_div a b)"
  unfolding floor_div_def Let_def by (rule ok_rules ok_modify)+ simp

lemma ok_unsigned_div [ok_rules]: "ok (unsigned_div a b)"
  unfolding unsigned_div_def by (rule ok_rules ok_modify)+ simp

lemma ok_float2 [ok_rules]: "ok (float2 f)"
  unfolding float2_def by (rule ok_rules)+

text \<open>The instructions that are the shared parts alone.\<close>

lemmas plain_op_defs =
  op_load_pri_def op_load_alt_def op_load_s_pri_def op_load_s_alt_def op_lref_pri_def
  op_lref_alt_def op_lref_s_pri_def op_lref_s_alt_def op_load_i_def op_lodb_i_def op_const_pri_def
  op_const_alt_def op_addr_pri_def op_addr_alt_def op_stor_pri_def op_stor_alt_def
  op_stor_s_pri_def op_stor_s_alt_def op_sref_pri_def op_sref_alt_def op_sref_s_pri_def
  op_sref_s_alt_def op_stor_i_def op_strb_i_def op_lidx_def op_lidx_b_def op_idxaddr_def
  op_idxaddr_b_def op_align_pri_def op_align_alt_def op_lctrl_def op_move_pri_def op_move_alt_def
  op_push_pri_def op_push_alt_def op_push_r_def op_push_c_def op_push_def op_push_s_def
  op_pop_pri_def op_pop_alt_def op_call_def op_call_pri_def op_jrel_def op_jzer_def op_jnz_def
  op_jeq_def op_jneq_def op_jless_def op_jleq_def op_jgrtr_def op_jgeq_def op_jsless_def
  op_jsleq_def op_jsgrtr_def op_jsgeq_def op_shl_def op_shr_def op_sshr_def op_shl_c_pri_def
  op_shl_c_alt_def op_shr_c_pri_def op_shr_c_alt_def op_smul_def op_sdiv_def op_sdiv_alt_def
  op_umul_def op_udiv_def op_udiv_alt_def op_add_def op_sub_def op_sub_alt_def op_and_def op_or_def
  op_xor_def op_not_def op_neg_def op_invert_def op_add_c_def op_smul_c_def op_zero_pri_def
  op_zero_alt_def op_zero_def op_zero_s_def op_sign_pri_def op_sign_alt_def op_eq_def op_neq_def
  op_less_def op_leq_def op_grtr_def op_geq_def op_sless_def op_sleq_def op_sgrtr_def op_sgeq_def
  op_eq_c_pri_def op_eq_c_alt_def op_inc_pri_def op_inc_alt_def op_inc_def op_inc_s_def
  op_inc_i_def op_dec_pri_def op_dec_alt_def op_dec_def op_dec_s_def op_dec_i_def op_movs_def
  op_cmps_def op_fill_def op_bounds_def op_line_def op_symbol_def op_srange_def op_jump_pri_def
  op_swap_pri_def op_swap_alt_def op_pushaddr_def op_nop_def op_symtag_def op_float_add_def op_float_cmp_def
  op_float_div_def op_float_mul_def op_float_round_def op_float_sub_def op_float_to_def

lemma plain_ops_ok:
  "ok op_load_pri" "ok op_load_alt" "ok op_load_s_pri" "ok op_load_s_alt" "ok op_lref_pri"
  "ok op_lref_alt" "ok op_lref_s_pri" "ok op_lref_s_alt" "ok op_load_i" "ok op_lodb_i"
  "ok op_const_pri" "ok op_const_alt" "ok op_addr_pri" "ok op_addr_alt" "ok op_stor_pri"
  "ok op_stor_alt" "ok op_stor_s_pri" "ok op_stor_s_alt" "ok op_sref_pri" "ok op_sref_alt"
  "ok op_sref_s_pri" "ok op_sref_s_alt" "ok op_stor_i" "ok op_strb_i" "ok op_lidx" "ok op_lidx_b"
  "ok op_idxaddr" "ok op_idxaddr_b" "ok op_align_pri" "ok op_align_alt" "ok op_lctrl"
  "ok op_move_pri" "ok op_move_alt" "ok op_push_pri" "ok op_push_alt" "ok op_push_r" "ok op_push_c"
  "ok op_push" "ok op_push_s" "ok op_pop_pri" "ok op_pop_alt" "ok op_call" "ok op_call_pri"
  "ok op_jrel" "ok op_jzer" "ok op_jnz" "ok op_jeq" "ok op_jneq" "ok op_jless" "ok op_jleq"
  "ok op_jgrtr" "ok op_jgeq" "ok op_jsless" "ok op_jsleq" "ok op_jsgrtr" "ok op_jsgeq" "ok op_shl"
  "ok op_shr" "ok op_sshr" "ok op_shl_c_pri" "ok op_shl_c_alt" "ok op_shr_c_pri" "ok op_shr_c_alt"
  "ok op_smul" "ok op_sdiv" "ok op_sdiv_alt" "ok op_umul" "ok op_udiv" "ok op_udiv_alt" "ok op_add"
  "ok op_sub" "ok op_sub_alt" "ok op_and" "ok op_or" "ok op_xor" "ok op_not" "ok op_neg"
  "ok op_invert" "ok op_add_c" "ok op_smul_c" "ok op_zero_pri" "ok op_zero_alt" "ok op_zero"
  "ok op_zero_s" "ok op_sign_pri" "ok op_sign_alt" "ok op_eq" "ok op_neq" "ok op_less" "ok op_leq"
  "ok op_grtr" "ok op_geq" "ok op_sless" "ok op_sleq" "ok op_sgrtr" "ok op_sgeq" "ok op_eq_c_pri"
  "ok op_eq_c_alt" "ok op_inc_pri" "ok op_inc_alt" "ok op_inc" "ok op_inc_s" "ok op_inc_i"
  "ok op_dec_pri" "ok op_dec_alt" "ok op_dec" "ok op_dec_s" "ok op_dec_i" "ok op_movs" "ok op_cmps"
  "ok op_fill" "ok op_bounds" "ok op_line" "ok op_symbol" "ok op_srange" "ok op_jump_pri"
  "ok op_swap_pri" "ok op_swap_alt" "ok op_pushaddr" "ok op_nop" "ok op_symtag"
  "ok (op_float_add h)" "ok (op_float_cmp h)" "ok (op_float_div h)" "ok (op_float_mul h)" "ok (op_float_round h)"
  "ok (op_float_sub h)" "ok (op_float_to h)"
  unfolding plain_op_defs by (rule ok_rules)+

text \<open>The instructions that set further registers.\<close>

lemma ok_op_stack [ok_rules]: "ok op_stack" and ok_op_heap [ok_rules]: "ok op_heap" and ok_op_proc [ok_rules]: "ok op_proc"
  and ok_op_sctrl [ok_rules]: "ok op_sctrl" and ok_op_xchg [ok_rules]: "ok op_xchg" and ok_op_ret [ok_rules]: "ok op_ret"
  and ok_op_switch [ok_rules]: "ok op_switch"
  unfolding op_stack_def op_heap_def op_proc_def op_sctrl_def op_xchg_def op_ret_def op_switch_def
  by (rule ok_rules ok_modify ok_upd | simp)+

lemma ok_op_retn [ok_rules]: "ok op_retn"
  unfolding op_retn_def by (rule ok_rules ok_modify ok_upd | simp add: Let_def keeps_def same_shape_def)+

lemma ok_sleep_or_abort [ok_rules]:
  "(\<And>m. keeps m (f m)) \<Longrightarrow> ok (if v = AMX_ERR_SLEEP then upd f (return_op v) else ABORT v)"
  by (simp add: ok_upd ok_return ok_ABORT)

lemma ok_op_halt [ok_rules]: "ok op_halt"
  unfolding op_halt_def by (rule ok_GETPARAM, rule ok_upd, simp add: keeps_def same_shape_def,
    rule ok_sleep_or_abort) (simp add: keeps_def same_shape_def save_reset_def)

lemma ok_after_host [ok_rules]: "ok (after_host num)"
  unfolding after_host_def by (rule ok_if, rule ok_sleep_or_abort, simp add: keeps_def same_shape_def save_reset_def)
    (rule ok_next_op)

subsection \<open>The host\<close>

text \<open>What the interpreter relies on: the host leaves the shape of the memory alone.\<close>

locale host_contract =
  fixes h :: host
  assumes call_back_shape: "call_back h i a = Inr (e, v, a') \<Longrightarrow> same_shape a a'"
    and call_native_shape: "call_native h f a = Inr (w, a') \<Longrightarrow> same_shape a a'"
    and call_debug_shape: "call_debug h a = Inr (e, a') \<Longrightarrow> same_shape a a'"
begin

lemma save_regs_shape: "same_shape (save_regs m) a \<Longrightarrow> keeps m (m\<lparr>amx := a, pri := v\<rparr>)"
  "same_shape (save_regs m) a \<Longrightarrow> keeps m (m\<lparr>amx := a\<rparr>)"
  by (auto simp: save_regs_def keeps_def same_shape_def)

lemma ok_sysreq: "ok (sysreq h i)"
  by (rule ok_via) (auto simp: sysreq_def attempt_def upd_def intro: via [OF ok_after_host save_regs_shape(1)] dest: call_back_shape)

lemma ok_sysreq_d: "ok (op_sysreq_d h)"
  unfolding op_sysreq_d_def
  by (rule ok_GETPARAM, rule ok_via)
    (auto simp: attempt_def upd_def undefined_op_def intro: via [OF ok_after_host save_regs_shape(1)] dest: call_native_shape split: if_splits)

lemma ok_break: "ok (op_break h)"
  unfolding op_break_def
  by (rule ok_reg, rule ok_if, rule ok_default, rule ok_if, rule ok_via)
    (auto simp: attempt_def upd_def intro: via [OF ok_after_host save_regs_shape(2)] ok_next_op dest: call_debug_shape)

lemma handlers_ok: "list_all ok (handlers h)"
  unfolding handlers_def
  by (simp add: plain_ops_ok ok_default ok_op_stack ok_op_heap ok_op_proc ok_op_sctrl ok_op_xchg ok_op_ret ok_op_switch
    ok_op_retn ok_op_halt ok_op_jump ok_sysreq ok_sysreq_d ok_break op_sysreq_pri_def op_sysreq_c_def ok_reg ok_GETPARAM)

lemma ok_step: "ok (step h)"
  unfolding step_def by (rule ok_GETPARAM) (use handlers_ok in \<open>auto simp: list_all_length ok_default\<close>)

lemma run_ends: "run fuel h m = Inr (v, r, a) \<Longrightarrow> ends m v a"
proof (induction fuel arbitrary: m)
  case (Suc fuel)
  then show ?case
    by (auto split: sum.splits outcome.splits dest: ok_Next [OF ok_step] ok_Return [OF ok_step] intro: ends_keeps)
qed simp

end

subsection \<open>The end of the program\<close>

text \<open>The conditions under which \<open>amx_Exec\<close> starts the program, and the code it returns otherwise.\<close>

definition valid_index :: "int \<Rightarrow> amx \<Rightarrow> bool" where
  "valid_index index a \<longleftrightarrow> index = AMX_EXEC_CONT \<or> index = AMX_EXEC_MAIN \<and> 0 \<le> hdr_cip (header a) \<or>
     0 \<le> index \<and> (\<exists>n. NUMENTRIES (header a) (hdr_publics (header a)) (hdr_natives (header a)) = Inr n \<and> index < int n)"

definition startable :: "int \<Rightarrow> amx \<Rightarrow> bool" where
  "startable index a \<longleftrightarrow> callback a \<and> (amx_flags a AND AMX_FLAG_PRENIT \<noteq> 0 \<or> amx_flags a AND AMX_FLAG_NTVREG \<noteq> 0) \<and>
     amx_flags a AND AMX_FLAG_RELOC \<noteq> 0 \<and> valid_index index a"

definition refusal :: "amx \<Rightarrow> int" where
  "refusal a =
     (if \<not> callback a then AMX_ERR_CALLBACK
      else if amx_flags a AND AMX_FLAG_PRENIT = 0 \<and> amx_flags a AND AMX_FLAG_NTVREG = 0 then AMX_ERR_NOTFOUND
      else if amx_flags a AND AMX_FLAG_RELOC = 0 then AMX_ERR_INIT
      else AMX_ERR_INDEX)"

lemma start_address_valid:
  assumes "start_address index a = Inr x"
  shows "if valid_index index a then \<exists>m. x = Inr m else x = Inl AMX_ERR_INDEX"
  using assms by (auto simp: start_address_def valid_index_def AMX_EXEC_MAIN_def AMX_EXEC_CONT_def Let_def split: if_splits)

lemma exec_start_refused:
  assumes "exec_start index a = Inr o1" "\<not> startable index a"
  shows "o1 = Return (refusal a) None a"
  using assms start_address_valid [of index a] by (auto simp: exec_start_def startable_def refusal_def split: if_splits)

lemma exec_start_Inr:
  assumes "exec_start index a = Inr o1" "startable index a"
  obtains m where "start_address index a = Inr (Inr m)"
    "CHKSTACK (CHKHEAP (if index \<noteq> AMX_EXEC_CONT then push_count (CHKMARGIN next_op) else CHKMARGIN next_op)) m = Inr o1"
  using assms start_address_valid [of index a] by (auto simp: exec_start_def startable_def split: if_splits)

text \<open>Where stack and heap are when the program has ended.\<close>

definition stack_after :: "int \<Rightarrow> amx \<Rightarrow> cell" where
  "stack_after index a = (if index = AMX_EXEC_CONT then amx_reset_stk a else amx_stk a + of_int (paramcount a) * 4)"

definition heap_after :: "int \<Rightarrow> amx \<Rightarrow> cell" where
  "heap_after index a = (if index = AMX_EXEC_CONT then amx_reset_hea a else amx_hea a)"

lemma start_address_regs:
  assumes "start_address index a = Inr (Inr m)"
  shows "amx m = a" "reset_stk m = (if index = AMX_EXEC_CONT then amx_reset_stk a else amx_stk a)" "reset_hea m = heap_after index a"
  using assms by (auto simp: start_address_def start_regs_def heap_after_def AMX_EXEC_MAIN_def AMX_EXEC_CONT_def Let_def split: if_splits)

lemma exec_start_keeps:
  assumes "exec_start index a = Inr (Next m)" "startable index a"
  shows "same_shape a (amx m)" "reset_stk m = stack_after index a" "reset_hea m = heap_after index a"
proof -
  obtain m0 where m0: "start_address index a = Inr (Inr m0)" and
    r: "CHKSTACK (CHKHEAP (if index \<noteq> AMX_EXEC_CONT then push_count (CHKMARGIN next_op) else CHKMARGIN next_op)) m0 = Inr (Next m)"
    using exec_start_Inr [OF assms] by blast
  note start = start_address_regs [OF m0]
  let ?n = "of_int (paramcount (amx m0)) * 4 :: cell"
  have "keeps (if index = AMX_EXEC_CONT then m0 else m0\<lparr>reset_stk := reset_stk m0 + ?n\<rparr>) m"
  proof (cases "index = AMX_EXEC_CONT")
    case True
    have "ok (CHKMARGIN next_op)" by (rule ok_CHKMARGIN, rule ok_next_op)
    moreover have "CHKMARGIN next_op m0 = Inr (Next m)"
      using r True by (auto simp: CHKSTACK_def CHKHEAP_def return_op_def split: if_splits)
    ultimately show ?thesis using True by (auto dest: ok_Next)
  next
    case False
    have "ok (PUSH ?n (upd (\<lambda>m. m\<lparr>amx := (amx m)\<lparr>paramcount := 0\<rparr>\<rparr>) (PUSH 0 (CHKMARGIN next_op))))"
      by (rule ok_PUSH, rule ok_upd, simp add: keeps_def same_shape_def, rule ok_PUSH, rule ok_CHKMARGIN, rule ok_next_op)
    moreover have "PUSH ?n (upd (\<lambda>m. m\<lparr>amx := (amx m)\<lparr>paramcount := 0\<rparr>\<rparr>) (PUSH 0 (CHKMARGIN next_op)))
        (m0\<lparr>reset_stk := reset_stk m0 + ?n\<rparr>) = Inr (Next m)"
      using r False by (auto simp: CHKSTACK_def CHKHEAP_def push_count_def upd_def return_op_def Let_def split: if_splits)
    ultimately show ?thesis using False by (auto dest: ok_Next)
  qed
  then show "same_shape a (amx m)" "reset_stk m = stack_after index a" "reset_hea m = heap_after index a"
    using start by (auto simp: keeps_def stack_after_def split: if_splits)
qed

lemma exec_start_return:
  assumes "exec_start index a = Inr (Return v r a')" "startable index a"
  shows "v \<in> no_reset"
proof -
  have "CHKSTACK (CHKHEAP (push_count (CHKMARGIN next_op))) m = Inr (Return v r a') \<Longrightarrow> v \<in> no_reset" for m
    by (auto simp: CHKSTACK_def CHKHEAP_def CHKMARGIN_def push_count_def PUSH_def upd_def reg_def wr_def attempt_def
      next_op_def modify_def return_op_def Let_def split: if_splits)
  moreover have "CHKSTACK (CHKHEAP (CHKMARGIN next_op)) m = Inr (Return v r a') \<Longrightarrow> v \<in> no_reset" for m
    by (auto simp: CHKSTACK_def CHKHEAP_def CHKMARGIN_def next_op_def modify_def return_op_def split: if_splits)
  ultimately show ?thesis using exec_start_Inr [OF assms] by metis
qed


text \<open>
  A program to try: \<open>halt 0\<close>, then the function \<open>f(x) return x+1;\<close>, with 41 pushed.
\<close>

definition sample_code :: "cell list" where
  "sample_code = [of_nat OP_HALT, 0, of_nat OP_PROC, of_nat OP_LOAD_S_PRI, 12, of_nat OP_ADD_C, 1, of_nat OP_RETN]"

definition sample :: amx where
  "sample = \<lparr>
     header = \<lparr>hdr_size = 0, hdr_magic = AMX_MAGIC, file_version = 8, amx_version = 8, hdr_flags = 0, defsize = 8,
       hdr_cod = 64, hdr_dat = 96, hdr_hea = 96, hdr_stp = 296, hdr_cip = - 1, hdr_publics = 0, hdr_natives = 8,
       hdr_libraries = 8, hdr_pubvars = 8, hdr_tags = 8, hdr_nametable = 8\<rparr>,
     img = cells [8, 8] @ replicate 56 0, code = cells sample_code, data = replicate 192 0 @ cells [41, 0],
     codebase = 0x1000, callback = True, debug = False, amx_cip = 0, amx_frm = 0, amx_hea = 0, amx_hlw = 0, amx_stk = 192,
     amx_stp = 196, amx_flags = AMX_FLAG_RELOC OR AMX_FLAG_NTVREG, amx_error = 0, paramcount = 1, amx_pri = 0, amx_alt = 0,
     amx_reset_stk = 0, amx_reset_hea = 0, last_native = 0, optimizer = None\<rparr>"

definition quiet_host :: host where
  "quiet_host = \<lparr>call_back = \<lambda>i a. Inr (0, 0, a), call_native = \<lambda>f a. Inr (0, a), call_debug = \<lambda>a. Inr (0, a),
     float_mul = \<lambda>_ _. 0, float_div = \<lambda>_ _. 0, float_add = \<lambda>_ _. 0, float_sub = \<lambda>_ _. 0, float_of = id,
     floor_half = id, floor_of = id, ceil_of = id, float_eq = \<lambda>_ _. False, float_gt = \<lambda>_ _. False\<rparr>"

lemma quiet_contract: "host_contract quiet_host"
  by unfold_locales (simp_all add: quiet_host_def)

lemma sample_runs: "map_sum id (\<lambda>(v, r, a). (v, r)) (amx_Exec 10 quiet_host 0 sample) = Inr (0, Some 42)"
  by code_simp


end
