(* ===== verification/MachineProps.thy ===== *)
theory MachineProps
  imports MachineFacts
begin

text \<open>
  The instructions at work: accesses through a tested address stay inside the data, a call and
  its return, the case table, the rounding division, and the return to \<open>HALT\<close>.
\<close>

subsection \<open>The memory under a tested address\<close>

text \<open>The data as \<open>amx_Init\<close> sets it up: one cell above the top of the stack.\<close>

definition data_ok :: "machine \<Rightarrow> bool" where
  "data_ok m \<longleftrightarrow> 0 \<le> sint (amx_stp (amx m)) \<and> int (length (data (amx m))) = sint (amx_stp (amx m)) + 4"

lemma data_okD:
  assumes "data_ok m"
  shows "uint (amx_stp (amx m)) < 2 ^ 31" "int (length (data (amx m))) = uint (amx_stp (amx m)) + 4"
proof -
  show u: "uint (amx_stp (amx m)) < 2 ^ 31"
    using assms uint_cell_bound(2) [of "amx_stp (amx m)"] by (simp add: data_ok_def sint_cell split: if_splits)
  then show "int (length (data (amx m))) = uint (amx_stp (amx m)) + 4" using assms by (simp add: data_ok_def sint_cell)
qed

lemma good_address:
  assumes "data_ok m" "\<not> bad_address a m" "n \<le> 4"
  shows "in_block (data (amx m)) (sint a) n"
proof -
  have "uint a < uint (amx_stp (amx m))" using assms(2) by (simp add: bad_address_def)
  then show ?thesis using data_okD [OF assms(1)] assms(3) by (simp add: in_block_def sint_cell)
qed

lemma good_block:
  assumes "data_ok m" "\<not> bad_address a m" "\<not> bad_end (a + n) m" "0 \<le> sint n"
  shows "in_block (data (amx m)) (sint a) (unat n)"
proof -
  have a: "uint a < uint (amx_stp (amx m))" "uint (a + n) \<le> uint (amx_stp (amx m))"
    using assms(2,3) by (simp_all add: bad_address_def bad_end_def)
  have n: "uint n < 2 ^ 31" using assms(4) uint_cell_bound(2) [of n] by (simp add: sint_cell split: if_splits)
  have "uint (a + n) = uint a + uint n" using a n data_okD(1) [OF assms(1)] by (simp add: uint_plus_cell)
  then show ?thesis using a data_okD [OF assms(1)] by (simp add: in_block_def sint_cell)
qed

subsection \<open>Checked accesses\<close>

text \<open>Instructions that do not fault on a machine.\<close>

definition runs :: "instr \<Rightarrow> machine \<Rightarrow> bool" where
  "runs k m \<longleftrightarrow> (\<exists>r. k m = Inr r)"

lemma runs_basic [simp]: "runs (setp f) m" "runs (seta f) m" "runs next_op m" "runs (ABORT v) m" "runs (modify g) m"
  by (simp_all add: runs_def setp_def seta_def next_op_def modify_def ABORT_def return_op_def)

lemma runs_reg [simp]: "runs (reg f k) m \<longleftrightarrow> runs (k (f m)) m"
  and runs_upd [simp]: "runs (upd g l) m \<longleftrightarrow> runs l (g m)"
  by (simp_all add: runs_def reg_def upd_def)

lemma runs_verify [simp]: "runs (verify a k) m \<longleftrightarrow> (\<not> bad_address a m \<longrightarrow> runs k m)"
  and runs_verify_end [simp]: "runs (verify_end b l) m \<longleftrightarrow> (\<not> bad_end b m \<longrightarrow> runs l m)"
  by (simp_all add: runs_def verify_def verify_end_def ABORT_def return_op_def)

lemma runs_attempt: "f m = Inr x \<Longrightarrow> runs (k x) m \<Longrightarrow> runs (attempt f k) m"
  by (simp add: runs_def attempt_def)

lemma runs_rd: "in_block (data (amx m)) a 4 \<Longrightarrow> (\<And>v. runs (k v) m) \<Longrightarrow> runs (rd a k) m"
  unfolding rd_def by (rule runs_attempt) (simp_all add: load_cell_in)

lemma runs_wr: "in_block (data (amx m)) a 4 \<Longrightarrow> (\<And>d. length d = length (data (amx m)) \<Longrightarrow> runs k (set_data d m)) \<Longrightarrow> runs (wr a v k) m"
  unfolding wr_def by (rule runs_attempt) (auto simp: store_cell_in in_block_def)

lemma runs_load_bytes: "in_block (data (amx m)) a n \<Longrightarrow> runs (load_bytes a n) m"
  unfolding load_bytes_def by (rule runs_attempt) auto

lemma runs_store_bytes: "in_block (data (amx m)) a n \<Longrightarrow> runs (store_bytes a n v) m"
  unfolding store_bytes_def by (rule runs_attempt, rule memcpy_in) simp_all

text \<open>The operand of the instruction at hand, and the machine behind it.\<close>

definition operand :: "machine \<Rightarrow> cell" where
  "operand m = of_le (take 4 (drop (nat (cip m)) (code (amx m))))"

lemma runs_GETPARAM: "in_block (code (amx m)) (cip m) 4 \<Longrightarrow> runs (k (operand m)) (m\<lparr>cip := cip m + 4\<rparr>) \<Longrightarrow> runs (GETPARAM k) m"
  unfolding GETPARAM_def by (rule runs_attempt) (simp_all add: load_cell_in operand_def)

lemma bad_simps [simp]:
  "bad_address a (m\<lparr>cip := c\<rparr>) = bad_address a m" "bad_end a (m\<lparr>cip := c\<rparr>) = bad_end a m"
  "data_ok (m\<lparr>cip := c\<rparr>) = data_ok m"
  by (simp_all add: bad_address_def bad_end_def data_ok_def)

lemma fill_runs: "in_block (data (amx m)) a (4 * n) \<Longrightarrow> runs (fill_loop n a) m"
proof (induction n arbitrary: a m)
  case (Suc n)
  have "runs (fill_loop n (a + 4)) (set_data d m)" if "length d = length (data (amx m))" for d
    by (rule Suc.IH) (use Suc.prems that in \<open>auto simp: in_block_def set_data_def\<close>)
  then show ?case using Suc.prems by (auto intro!: runs_wr simp: in_block_def)
qed simp

definition checked_ops :: "nat list" where
  "checked_ops = [OP_LOAD_I, OP_LODB_I, OP_STOR_I, OP_STRB_I, OP_LIDX, OP_LIDX_B, OP_CMPS, OP_FILL]"

lemma checked_handlers:
  "handlers h ! OP_LOAD_I = op_load_i" "handlers h ! OP_LODB_I = op_lodb_i" "handlers h ! OP_STOR_I = op_stor_i"
  "handlers h ! OP_STRB_I = op_strb_i" "handlers h ! OP_LIDX = op_lidx" "handlers h ! OP_LIDX_B = op_lidx_b"
  "handlers h ! OP_CMPS = op_cmps" "handlers h ! OP_FILL = op_fill"
  by (simp_all add: handlers_def)

text \<open>C8: The instructions that test their address never leave the data: with the memory as
  \<open>amx_Init\<close> lays it out and the operand inside the code, each of \<open>LOAD.I\<close>,
  \<open>LODB.I\<close>, \<open>STOR.I\<close>, \<open>STRB.I\<close>, \<open>LIDX\<close>, \<open>LIDX.B\<close>, \<open>CMPS\<close> and \<open>FILL\<close>
  either aborts or completes, whatever the registers hold, also for addresses that are not
  aligned. The operand has to be a shift count C defines, or a size that is not negative.
\<close>

theorem checked_access:
  assumes "data_ok m" "in_block (code (amx m)) (cip m) 4"
    and "op = OP_LIDX_B \<longrightarrow> unat (operand m) < 32" "op = OP_CMPS \<or> op = OP_FILL \<longrightarrow> 0 \<le> sint (operand m)"
    and "op \<in> set checked_ops"
  shows "\<exists>r. (handlers h ! op) m = Inr r"
proof -
  note good = good_address [OF assms(1), where n = 4]
  have "runs op_load_i m" "runs op_stor_i m" "runs op_lidx m"
    unfolding op_load_i_def op_stor_i_def op_lidx_def by (auto intro!: runs_rd runs_wr good)
  moreover have "runs op_lodb_i m" "runs op_strb_i m"
    unfolding op_lodb_i_def op_strb_i_def using assms(1)
    by (auto intro!: runs_GETPARAM [OF assms(2)] runs_load_bytes runs_store_bytes good_address)
  moreover have "runs op_lidx_b m" if "unat (operand m) < 32"
    unfolding op_lidx_b_def shift_count_def by (rule runs_GETPARAM [OF assms(2)]) (use that assms(1) in \<open>auto intro!: runs_rd good_address\<close>)
  moreover have "runs op_cmps m" if "0 \<le> sint (operand m)"
    unfolding op_cmps_def verify_blocks_def
    by (rule runs_GETPARAM [OF assms(2)]) (auto intro!: runs_attempt [OF iffD2 [OF read_bytes_Inr]] dest!: good_block [OF assms(1) _ _ that])
  moreover have "runs op_fill m" if n: "0 \<le> sint (operand m)"
  proof -
    have "in_block (data (amx m)) (sint (alt m)) (4 * (unat (operand m) div 4))"
      if "\<not> bad_address (alt m) m" "\<not> bad_end (alt m + operand m) m"
      using good_block [OF assms(1) that n] times_div_less_eq_dividend [of 4 "unat (operand m)"]
      unfolding in_block_def by linarith
    then show ?thesis unfolding op_fill_def using assms(1)
      by (auto intro!: runs_GETPARAM [OF assms(2)] fill_runs)
  qed
  ultimately have "runs (handlers h ! op) m" using assms(3-5) by (auto simp: checked_ops_def checked_handlers)
  then show ?thesis by (simp add: runs_def)
qed

text \<open>The sample program's machine, with an address that is not aligned in \<open>PRI\<close>.\<close>

definition sample_machine :: machine where
  "sample_machine = (start_regs sample)\<lparr>cip := 16, pri := 190, alt := 7\<rparr>"

lemma sample_data: "length (data sample) = 200"
  by (simp add: sample_def cells_def)

lemma sample_data_ok: "data_ok sample_machine"
  unfolding data_ok_def by (simp add: sample_machine_def start_regs_def sample_data) (simp add: sample_def)

theorem checked_access_witness: "\<exists>r. (handlers quiet_host ! OP_LIDX) sample_machine = Inr r"
proof (rule checked_access [OF sample_data_ok])
  show "in_block (code (amx sample_machine)) (cip sample_machine) 4"
    by (simp add: in_block_def sample_machine_def start_regs_def sample_def cells_def sample_code_def)
qed (simp_all add: checked_ops_def)

text \<open>
  \<open>MOVS\<close> with a negative operand can pass its four tests, though the count of its
  \<open>memcpy\<close> is then larger than the data.
\<close>

lemma movs_negative:
  assumes "in_block (code (amx m)) (cip m) 4" "sint (operand m) < 0" "int (length (data (amx m))) < 2 ^ 31"
    and "\<not> bad_address (pri m) m" "\<not> bad_end (pri m + operand m) m" "\<not> bad_address (alt m) m" "\<not> bad_end (alt m + operand m) m"
    and "0 \<le> sint (pri m)"
  shows "op_movs m = Inl OutOfBounds"
proof -
  have "2 ^ 31 \<le> uint (operand m)" using assms(2) uint_cell_bound(1) [of "operand m"] by (simp add: sint_cell split: if_splits)
  then have "\<not> sint (pri m) + uint (operand m) \<le> int (length (data (amx m)))" using assms(3,8) by linarith
  then show ?thesis using assms(1,4-7)
    by (simp add: op_movs_def GETPARAM_def attempt_def upd_def load_cell_in operand_def verify_blocks_def reg_def verify_def
      verify_end_def copy_block_def read_bytes_def)
qed

lemma movs_negative_witness:
  "let m = (start_regs sample)\<lparr>amx := sample\<lparr>code := cells [- 20]\<rparr>, pri := 100, alt := 60, hea := 0, stk := 0\<rparr>
   in data_ok m \<and> op_movs m = Inl OutOfBounds"
proof -
  define m where "m = (start_regs sample)\<lparr>amx := sample\<lparr>code := cells [- 20]\<rparr>, pri := 100, alt := 60, hea := 0, stk := 0\<rparr>"
  have d: "length (data (amx m)) = 200" "amx_stp (amx m) = 196" "pri m = 100" "alt m = 60" "hea m = 0" "stk m = 0" "cip m = 0"
    and c: "code (amx m) = le_bytes 4 (- 20)"
    by (simp_all add: m_def start_regs_def sample_data) (simp_all add: sample_def cells_def)
  have o: "operand m = - 20" using c d le_bytes_inverse [of "- 20"] by (simp add: operand_def)
  have "op_movs m = Inl OutOfBounds"
    by (rule movs_negative) (simp_all add: in_block_def c d o bad_address_def bad_end_def)
  moreover have "data_ok m" by (simp add: data_ok_def d)
  ultimately show ?thesis by (simp add: m_def Let_def)
qed

subsection \<open>Calls\<close>

lemma codesize_simps [simp]:
  "codesize (m\<lparr>frm := v\<rparr>) = codesize m" "codesize (m\<lparr>stk := v\<rparr>) = codesize m" "codesize (m\<lparr>cip := c\<rparr>) = codesize m"
  by (simp_all add: codesize_def)

lemma rd_Inr: "load_cell (data (amx m)) a = Inr v \<Longrightarrow> rd a k m = k v m"
  by (simp add: rd_def attempt_def)

lemma PUSH_Inr:
  assumes "PUSH v k m = Inr r"
  obtains d where "store_cell (sint (stk m - 4)) v (data (amx m)) = Inr d" "k (set_data d (m\<lparr>stk := stk m - 4\<rparr>)) = Inr r"
  using assms by (auto simp: PUSH_def upd_def reg_def wr_def attempt_def)

lemma POP_Inr: "load_cell (data (amx m)) (sint (stk m)) = Inr v \<Longrightarrow> POP k m = k v (m\<lparr>stk := stk m + 4\<rparr>)"
  by (simp add: POP_def reg_def rd_def attempt_def upd_def)

text \<open>Below an address that is not negative there is no wrap-around.\<close>

lemma sint_down: "0 \<le> sint (a - 4 :: cell) \<Longrightarrow> sint (a - 4) \<le> 2 ^ 31 - 5 \<Longrightarrow> sint a = sint (a - 4) + 4"
  using sint_plus_cell [of "a - 4" 4] by simp

text \<open>C30: A call and its return. Let \<open>CALL\<close> and \<open>PROC\<close> lead from \<open>m\<close> (the instruction
  pointer at the operand) to \<open>m2\<close>, and let the function run until a machine \<open>m3\<close> whose stack
  pointer is again that of \<open>m2\<close> and whose three cells above it are those of \<open>m2\<close>. Then
  \<open>RETN\<close> continues behind the call with the caller's frame, and has taken the arguments,
  whose size in bytes the caller had pushed, off the stack.
\<close>

theorem call_returns:
  assumes call: "op_call m = Inr (Next m1)" and entry: "op_proc m1 = Inr (Next m2)"
    and args: "load_cell (data (amx m)) (sint (stk m)) = Inr n"
    and body: "same_shape (amx m2) (amx m3)" "stk m3 = stk m2"
      "\<forall>i \<in> {0, 4, 8}. load_cell (data (amx m3)) (sint (stk m2) + i) = load_cell (data (amx m2)) (sint (stk m2) + i)"
    and inside: "0 \<le> cip m + 4" "cip m + 4 < sint (codesize m)" and small: "length (data (amx m)) < 2 ^ 31"
  shows "\<exists>m4. op_retn m3 = Inr (Next m4) \<and> cip m4 = cip m + 4 \<and> frm m4 = frm m \<and> stk m4 = stk m + 4 + n
    \<and> frm m2 = stk m - 8 \<and> amx_stk (amx m4) = stk m4"
proof -
  obtain d1 where d1: "store_cell (sint (stk m - 4)) (of_int (cip m) + 4) (data (amx m)) = Inr d1"
    and j: "JUMPABS (cip m) (\<lambda>a. set_cip (\<lambda>_. a)) (set_data d1 (m\<lparr>stk := stk m - 4\<rparr>)) = Inr (Next m1)"
    using call by (auto simp: op_call_def reg_def elim: PUSH_Inr)
  then have m1: "data (amx m1) = d1" "stk m1 = stk m - 4" "frm m1 = frm m" "header (amx m1) = header (amx m)"
    by (auto simp: JUMPABS_def attempt_def reg_def set_cip_def modify_def set_data_def)
  obtain d2 where d2: "store_cell (sint (stk m1 - 4)) (frm m1) (data (amx m1)) = Inr d2"
    and p: "upd (\<lambda>m. m\<lparr>frm := stk m\<rparr>) (CHKMARGIN next_op) (set_data d2 (m1\<lparr>stk := stk m1 - 4\<rparr>)) = Inr (Next m2)"
    using entry by (auto simp: op_proc_def reg_def elim: PUSH_Inr)
  then have m2: "data (amx m2) = d2" "stk m2 = stk m - 8" "frm m2 = stk m - 8" "header (amx m2) = header (amx m)"
    using m1 by (auto simp: upd_def CHKMARGIN_def next_op_def modify_def set_data_def return_op_def split: if_splits)
  have in1: "0 \<le> sint (stk m - 4)" and in2: "0 \<le> sint (stk m - 4 - 4)"
    using store_cell_in_block [OF d1] store_cell_in_block [OF d2] m1 by (auto simp: in_block_def)
  have top: "sint (stk m - 4) \<le> 2 ^ 31 - 5" "sint (stk m - 4 - 4) \<le> 2 ^ 31 - 5"
    using store_cell_in_block [OF d1] store_cell_in_block [OF d2] small store_cell_length [OF d1] m1 by (auto simp: in_block_def)
  have a: "sint (stk m2) + 4 = sint (stk m - 4)" "sint (stk m2) + 8 = sint (stk m)"
    using sint_down [OF in1 top(1)] sint_down [OF in2 top(2)] m2 by (simp_all add: diff_diff_eq)
  have l: "load_cell d2 (sint (stk m2)) = Inr (frm m)" "load_cell d2 (sint (stk m2) + 4) = Inr (of_int (cip m) + 4)"
    "load_cell d2 (sint (stk m2) + 8) = Inr n"
    using blk.get_put [OF d2] blk.get_other [OF d2, of "sint (stk m - 4)"] blk.get_put [OF d1]
      blk.get_other [OF d2, of "sint (stk m)"] blk.get_other [OF d1, of "sint (stk m)"] args a m1 m2
    by (simp_all add: diff_diff_eq)
  have r: "load_cell (data (amx m3)) (sint (stk m3)) = Inr (frm m)"
    "load_cell (data (amx m3)) (sint (stk m3 + 4)) = Inr (of_int (cip m) + 4)"
    "load_cell (data (amx m3)) (sint (stk m3 + 4 + 4)) = Inr n"
  proof -
    have e: "stk m3 = stk m2" "stk m3 + 4 = stk m - 4" "stk m3 + 4 + 4 = stk m" using body(2) m2(2) by simp_all
    show "load_cell (data (amx m3)) (sint (stk m3)) = Inr (frm m)" using l body(3) m2(1) unfolding e(1) by simp
    show "load_cell (data (amx m3)) (sint (stk m3 + 4)) = Inr (of_int (cip m) + 4)" using l body(3) m2(1) a unfolding e(2) by simp
    show "load_cell (data (amx m3)) (sint (stk m3 + 4 + 4)) = Inr n" using l body(3) m2(1) a unfolding e(3) by simp
  qed
  have ret: "sint (of_int (cip m) + 4 :: cell) = cip m + 4"
    using inside sint_of_int_cell [of "cip m + 4"] sint_lt [of "codesize m"] by simp
  have "codesize m3 = codesize m" using body(1) m2(4) by (simp add: codesize_def same_shape_def)
  moreover have "uint (of_int (cip m) + 4 :: cell) < uint (codesize m)"
    using inside ret uint_cell_bound [of "codesize m"] uint_cell_bound(2) [of "of_int (cip m) + 4"] by (auto simp: sint_cell split: if_splits)
  ultimately have "\<not> uint (of_int (cip m) + 4 :: cell) \<ge> uint (codesize m3)" by simp
  moreover have "stk m3 + 8 = stk m" using body(2) m2(2) by simp
  ultimately show ?thesis using r ret m2(3)
    by (simp add: op_retn_def POP_Inr upd_def return_to_def reg_def rd_Inr modify_def Let_def algebra_simps)
qed

text \<open>The sample program calls its own function, with one argument on the stack.\<close>

definition caller :: machine where
  "caller = (start_regs sample)\<lparr>amx := sample\<lparr>data := replicate 188 0 @ cells [4, 41, 0],
     code := cells [of_nat OP_HALT, 0x1008, of_nat OP_PROC, 0]\<rparr>, cip := 4, stk := 188, frm := 192\<rparr>"

definition called :: machine where
  "called = caller\<lparr>amx := (amx caller)\<lparr>data := replicate 184 0 @ cells [8, 4, 41, 0]\<rparr>, stk := 184, cip := 8\<rparr>"

definition inside :: machine where
  "inside = called\<lparr>amx := (amx called)\<lparr>data := replicate 180 0 @ cells [192, 8, 4, 41, 0]\<rparr>, stk := 180, frm := 180\<rparr>"

theorem call_returns_witness:
  "\<exists>m4. op_retn (inside\<lparr>pri := 42, cip := 16\<rparr>) = Inr (Next m4) \<and> cip m4 = 8 \<and> frm m4 = 192 \<and> stk m4 = 196"
proof -
  have "op_call caller = Inr (Next called)" "op_proc called = Inr (Next inside)"
    "load_cell (data (amx caller)) (sint (stk caller)) = Inr 4" "cip caller = 4 \<and> frm caller = 192 \<and> stk caller = 188"
    "codesize caller = 32"
    by code_simp+
  moreover have "length (data (amx caller)) < 2 ^ 31" by (simp add: caller_def cells_def)
  ultimately show ?thesis
    using call_returns [of caller called inside 4 "inside\<lparr>pri := 42, cip := 16\<rparr>"] by auto
qed

subsection \<open>The case table\<close>

lemma switch_loop_records:
  assumes "code (amx m) = pre @ cells (concat (map (\<lambda>(v, t). [v, t]) recs)) @ post"
  shows "switch_loop (length recs) (int (length pre)) m = Inr (Next (case map_of recs (pri m) of
      None \<Rightarrow> m | Some t \<Rightarrow> m\<lparr>cip := sint (t - codebase (amx m))\<rparr>))"
  using assms
proof (induction recs arbitrary: pre)
  case Nil
  then show ?case by (simp add: next_op_def modify_def)
next
  case (Cons r recs)
  obtain v t where r: "r = (v, t)" by (cases r)
  let ?cs = "v # t # concat (map (\<lambda>(v, t). [v, t]) recs)"
  have c: "code (amx m) = pre @ cells ?cs @ post" using Cons.prems r by simp
  have l: "load_cell (code (amx m)) (int (length pre)) = Inr v" "load_cell (code (amx m)) (int (length pre) + 4) = Inr t"
    unfolding c using load_cells [of 0 ?cs _ pre post] load_cells [of 1 ?cs _ pre post] by simp_all
  have "code (amx m) = (pre @ cells [v, t]) @ cells (concat (map (\<lambda>(v, t). [v, t]) recs)) @ post"
    using c by (simp add: cells_simps)
  from Cons.IH [OF this] show ?case
    using l r by (simp add: attempt_def reg_def JUMPABS_def set_cip_def modify_def add.commute split: option.split)
qed

text \<open>C31: \<open>SWITCH\<close> finds its case: with the table the compiler lays out for a switch somewhere in
  the code, and its address as operand, the program goes on at the target of the first record
  that has the value of \<open>PRI\<close>, and at the default when no record has it; nothing else changes.
\<close>

theorem switch_jumps:
  assumes "code (amx m) = pre @ cells (case_table none recs) @ post" "length recs < 2 ^ 31"
    and "load_cell (code (amx m)) (cip m) = Inr tbl" "sint (tbl - codebase (amx m)) = int (length pre)"
  shows "op_switch m = Inr (Next (m\<lparr>cip := sint ((case map_of recs (pri m) of None \<Rightarrow> none | Some t \<Rightarrow> t) - codebase (amx m))\<rparr>))"
proof -
  let ?p = "int (length pre)" and ?n = "m\<lparr>cip := sint (none - codebase (amx m))\<rparr>"
  have l: "load_cell (code (amx m)) (?p + 4) = Inr (of_nat (length recs))" "load_cell (code (amx m)) (?p + 8) = Inr none"
    unfolding assms(1) using load_cells [of 1 "case_table none recs" "?p + 4" pre post]
      load_cells [of 2 "case_table none recs" "?p + 8" pre post] by (simp_all add: case_table_def)
  have n: "nat (sint (of_nat (length recs) :: cell)) = length recs"
    using assms(2) sint_of_int_cell [of "int (length recs)"] by simp
  have "code (amx ?n) = (pre @ cells [of_nat OP_CASETBL, of_nat (length recs), none]) @
      cells (concat (map (\<lambda>(v, t). [v, t]) recs)) @ post"
    using assms(1) by (simp add: case_table_def cells_simps)
  from switch_loop_records [OF this] have "switch_loop (length recs) (?p + 12) ?n = Inr (Next (case map_of recs (pri m) of
      None \<Rightarrow> ?n | Some t \<Rightarrow> ?n\<lparr>cip := sint (t - codebase (amx m))\<rparr>))" by (simp add: add.commute split: option.split)
  then show ?thesis using assms(3,4) l n
    by (simp add: op_switch_def reg_def JUMPABS_def attempt_def upd_def split: option.split)
qed

definition switching :: machine where
  "switching = (start_regs sample)\<lparr>amx := sample\<lparr>code := cells ([of_nat OP_SWITCH, 0x1008] @
     case_table 0x1000 [(1, 0x1004), (7, 0x1010), (9, 0x1020)])\<rparr>, cip := 4, pri := 7\<rparr>"

theorem switch_jumps_witness: "op_switch switching = Inr (Next (switching\<lparr>cip := 16\<rparr>))"
proof -
  have c: "code (amx switching) = cells [of_nat OP_SWITCH, 0x1008] @ cells (case_table 0x1000 [(1, 0x1004), (7, 0x1010), (9, 0x1020)]) @ []"
    by (simp add: switching_def cells_simps)
  have "load_cell (code (amx switching)) (cip switching) = Inr 0x1008" by code_simp
  moreover have "codebase (amx switching) = 0x1000" "pri switching = 7" by (simp_all add: switching_def sample_def)
  ultimately show ?thesis using switch_jumps [OF c] by simp
qed

subsection \<open>Division\<close>

lemma true_modulus: "b \<noteq> 0 \<Longrightarrow> (a smod b + b) smod b = (a :: int) mod b"
proof -
  assume "b \<noteq> 0"
  have pos: "(a smod c + c) smod c = a mod c" if "0 < c" for a c :: int
  proof -
    have "0 \<le> a smod c + c" using smod_int_range [of c a] that by auto
    then have "(a smod c + c) smod c = (a smod c) mod c" using that by (simp add: smod_mod_positive)
    also have "\<dots> = a mod c" using minus_sdiv_mult_eq_smod [of a c] by (metis mod_diff_right_eq mod_mult_self2_is_0 diff_zero)
    finally show ?thesis .
  qed
  show ?thesis
  proof (cases "0 < b")
    case True
    then show ?thesis by (rule pos)
  next
    case False
    then have "(- a smod - b + - b) smod - b = - a mod - b" using pos [of "- b" "- a"] \<open>b \<noteq> 0\<close> by simp
    then have "- (a smod b + b) smod b = - a mod - b" by simp
    then have "- ((a smod b + b) smod b) = - (a mod b)" by (simp only: minus_smod_eq mod_minus_minus)
    then show ?thesis by simp
  qed
qed

text \<open>C32: \<open>SDIV\<close> rounds down: for operands whose absolute values are at most \<open>2^30\<close> it leaves the floor of
  the quotient in \<open>PRI\<close> and the remainder with the sign of the divisor in \<open>ALT\<close>, for
  every combination of signs of a dividend and a divisor that is not zero. (The bound is needed: the sum
  \<open>pri % alt + alt\<close> overflows beyond it.)
\<close>

theorem sdiv_floor:
  assumes "\<bar>sint (pri m)\<bar> \<le> 2 ^ 30" "\<bar>sint (alt m)\<bar> \<le> 2 ^ 30" "alt m \<noteq> 0"
  shows "\<exists>m'. op_sdiv m = Inr (Next m') \<and> m' = m\<lparr>pri := pri m', alt := alt m'\<rparr> \<and>
    sint (pri m') = sint (pri m) div sint (alt m) \<and> sint (alt m') = sint (pri m) mod sint (alt m)"
proof -
  let ?a = "sint (pri m)" and ?b = "sint (alt m)"
  have b: "?b \<noteq> 0" using assms(3) uint_cell_bound(2) [of "alt m"] by (auto simp: sint_cell uint_0_iff split: if_splits)
  have bounds: "- 1073741824 \<le> ?a" "?a \<le> 1073741824" "- 1073741824 \<le> ?b" "?b \<le> 1073741824"
    using assms(1,2) by auto
  have r: "- 1073741824 \<le> ?a smod ?b" "?a smod ?b \<le> 1073741824"
    using smod_int_range [OF b, of ?a] bounds by auto
  have s1: "sint (c_mod (pri m) (alt m)) = ?a smod ?b"
    unfolding c_mod_def by (rule sint_of_int_cell) (use r in simp_all)
  have s2: "sint (c_mod (pri m) (alt m) + alt m) = ?a smod ?b + ?b"
    unfolding s1 [symmetric] by (rule sint_plus_cell; unfold s1) (use smod_int_range [OF b, of ?a] bounds in auto)
  have m1: "- 1073741824 \<le> ?a mod ?b" "?a mod ?b \<le> 1073741824"
    using abs_mod_less [OF b, of ?a] bounds by auto
  have s3: "sint (c_mod (c_mod (pri m) (alt m) + alt m) (alt m)) = ?a mod ?b"
    unfolding c_mod_def [of "_ + _"] s2 true_modulus [OF b] by (rule sint_of_int_cell) (use m1 in simp_all)
  let ?o = "c_mod (c_mod (pri m) (alt m) + alt m) (alt m)"
  have s4: "sint (pri m - ?o) = ?a - ?a mod ?b"
    unfolding s3 [symmetric] by (rule sint_minus_cell; unfold s3) (use m1 bounds abs_mod_less [OF b, of ?a] in auto)
  have "?a - ?a mod ?b = ?b * (?a div ?b)" by (simp add: minus_mod_eq_mult_div)
  then have q: "(?a - ?a mod ?b) sdiv ?b = ?a div ?b" using b by (simp add: signed_divide_int_eq_divide_int)
  have "- 1073741825 \<le> ?a div ?b" "?a div ?b \<le> 1073741824"
    using sdiv_int_range [of ?a ?b] bounds by (auto simp: divide_int_eq_signed_divide_int)
  then have s5: "sint (c_div (pri m - ?o) (alt m)) = ?a div ?b"
    unfolding c_div_def s4 q by (intro sint_of_int_cell) simp_all
  have "?a \<noteq> - (2 ^ 31)" using assms(1) by auto
  then show ?thesis using s3 s5 assms(3) by (simp add: op_sdiv_def reg_def floor_div_def modify_def Let_def)
qed

theorem sdiv_floor_witness:
  "\<exists>m'. op_sdiv (sample_machine\<lparr>pri := - 7, alt := 2\<rparr>) = Inr (Next m') \<and> sint (pri m') = - 4 \<and> sint (alt m') = 1"
  using sdiv_floor [of "sample_machine\<lparr>pri := - 7, alt := 2\<rparr>"] by auto

text \<open>Beyond the bound the sum \<open>pri % alt + alt\<close> overflows: the quotient is 1 instead of 0.\<close>

lemma sdiv_overflow: "pri (case op_sdiv (sample_machine\<lparr>pri := 0x40000000, alt := 0x40000001\<rparr>) of Inr (Next m) \<Rightarrow> m) = 1"
  by code_simp

subsection \<open>The return to the host\<close>

inductive reaches :: "host \<Rightarrow> machine \<Rightarrow> machine \<Rightarrow> bool" for h where
  reaches_refl: "reaches h m m"
| reaches_step: "step h m = Inr (Next m1) \<Longrightarrow> reaches h m1 m2 \<Longrightarrow> reaches h m m2"

lemma reaches_run: "reaches h m m2 \<Longrightarrow> run n h m2 = Inr r \<Longrightarrow> \<exists>fuel. run fuel h m = Inr r"
proof (induction rule: reaches.induct)
  case (reaches_step m m1 m2)
  then obtain fuel where "run fuel h m1 = Inr r" by blast
  with reaches_step(1) have "run (Suc fuel) h m = Inr r" by simp
  then show ?case by blast
qed blast

lemma reaches_keeps: "reaches h m m2 \<Longrightarrow> host_contract h \<Longrightarrow> keeps m m2"
  by (induction rule: reaches.induct) (auto intro: keeps_trans dest: ok_Next [OF host_contract.ok_step])

lemma step_handler:
  assumes "load_cell (code (amx m)) (cip m) = Inr (of_nat op)" "op < OP_NUM_OPCODES"
  shows "step h m = (handlers h ! op) (m\<lparr>cip := cip m + 4\<rparr>)"
proof -
  have "unat (of_nat op :: cell) = op" using assms(2) by (simp add: unat_of_nat)
  moreover have "length (handlers h) = 145" by (simp add: handlers_def)
  ultimately show ?thesis using assms by (simp add: step_def GETPARAM_def attempt_def upd_def)
qed

lemma halt_step:
  assumes "load_cell (code (amx m)) (cip m) = Inr (of_nat OP_HALT)" "load_cell (code (amx m)) (cip m + 4) = Inr v" "sint v \<noteq> AMX_ERR_SLEEP"
  shows "\<exists>a. step h m = Inr (Return (sint v) (Some (pri m)) a)"
proof -
  have "handlers h ! OP_HALT = op_halt" by (simp add: handlers_def)
  then show ?thesis using step_handler [OF assms(1)] assms(2,3)
    by (simp add: op_halt_def GETPARAM_def attempt_def upd_def ABORT_def return_op_def)
qed

lemma retn_step:
  assumes "load_cell (code (amx m)) (cip m) = Inr (of_nat OP_RETN)"
    and "load_cell (data (amx m)) (sint (stk m)) = Inr f" "load_cell (data (amx m)) (sint (stk m + 4)) = Inr offs"
    and "load_cell (data (amx m)) (sint (stk m + 8)) = Inr n" "uint offs < uint (codesize m)"
  shows "\<exists>m'. step h m = Inr (Next m') \<and> cip m' = sint offs \<and> pri m' = pri m \<and> code (amx m') = code (amx m)"
proof -
  have "handlers h ! OP_RETN = op_retn" by (simp add: handlers_def)
  then show ?thesis using step_handler [OF assms(1)] assms(2-5)
    by (simp add: op_retn_def POP_Inr upd_def return_to_def reg_def rd_Inr modify_def Let_def algebra_simps)
qed

text \<open>C13: A function called by the host ends the run: the compiler puts \<open>HALT 0\<close> at the start of the
  code, and \<open>amx_Exec\<close> pushes a zero return address. When the run reaches \<open>RETN\<close> with the
  stack the function was entered with (its saved frame on top, the two cells that \<open>amx_Exec\<close>
  pushed unchanged), then \<open>amx_Exec\<close> returns, with the code of the \<open>HALT\<close> and the value of \<open>PRI\<close>.
\<close>

theorem function_returns:
  assumes "host_contract h" "exec_start index a = Inr (Next m0)" "index \<noteq> AMX_EXEC_CONT"
    and "load_cell (code a) 0 = Inr (of_nat OP_HALT)" "load_cell (code a) 4 = Inr v" "sint v \<noteq> AMX_ERR_SLEEP"
    and "0 < uint (codesize m0)" and "reaches h m0 m" "load_cell (code a) (cip m) = Inr (of_nat OP_RETN)"
    and "stk m = stk m0 - 4" "load_cell (data (amx m)) (sint (stk m)) = Inr f"
    and "load_cell (data (amx m)) (sint (stk m0)) = Inr 0" "load_cell (data (amx m)) (sint (stk m0 + 4)) = Inr n"
  shows "\<exists>fuel a'. amx_Exec fuel h index a = Inr (sint v, Some (pri m), a')"
proof -
  have k: "keeps m0 m" by (rule reaches_keeps [OF assms(8,1)])
  then have c: "code (amx m) = code a" "codesize m = codesize m0"
    using exec_start_keeps [OF assms(2)] exec_start_refused [OF assms(2)] by (auto simp: keeps_def same_shape_def codesize_def)
  have e: "stk m + 4 = stk m0" "stk m + 8 = stk m0 + 4" using assms(10) by simp_all
  have "\<exists>m'. step h m = Inr (Next m') \<and> cip m' = sint (0 :: cell) \<and> pri m' = pri m \<and> code (amx m') = code (amx m)"
    using retn_step [of m f 0 n h] assms(7,9,11-13) c e by simp
  then obtain m' where m': "step h m = Inr (Next m')" "cip m' = 0" "pri m' = pri m" "code (amx m') = code a" using c by auto
  obtain b where "step h m' = Inr (Return (sint v) (Some (pri m)) b)"
    using halt_step [of m' v h] assms(4-6) m' by auto
  then have "run 2 h m = Inr (sint v, Some (pri m), b)" using m' by (simp add: numeral_2_eq_2)
  then obtain fuel where "run fuel h m0 = Inr (sint v, Some (pri m), b)" using reaches_run [OF assms(8)] by blast
  then show ?thesis using assms(2) by (auto simp: amx_Exec_def intro!: exI [of _ fuel])
qed

definition entered :: machine where
  "entered = (start_regs sample)\<lparr>amx := sample\<lparr>data := replicate 184 0 @ cells [0, 4, 41, 0], paramcount := 0\<rparr>,
     stk := 184, reset_stk := 196, cip := 8\<rparr>"

definition framed :: machine where
  "framed = entered\<lparr>amx := (amx entered)\<lparr>data := replicate 180 0 @ cells [0, 0, 4, 41, 0]\<rparr>, stk := 180, frm := 180, cip := 12\<rparr>"

theorem function_returns_witness: "\<exists>fuel a. amx_Exec fuel quiet_host 0 sample = Inr (0, Some 42, a)"
proof -
  let ?m = "framed\<lparr>pri := 42, cip := 28\<rparr>"
  have start: "exec_start 0 sample = Inr (Next entered)" by code_simp
  have "step quiet_host entered = Inr (Next framed)"
    "step quiet_host framed = Inr (Next (framed\<lparr>pri := 41, cip := 20\<rparr>))"
    "step quiet_host (framed\<lparr>pri := 41, cip := 20\<rparr>) = Inr (Next ?m)"
    by code_simp+
  then have r: "reaches quiet_host entered ?m" by (blast intro: reaches.intros)
  have "load_cell (code sample) 0 = Inr 120" "load_cell (code sample) 4 = Inr 0" "load_cell (code sample) 28 = Inr 48"
    "load_cell (data (amx framed)) (sint (stk framed)) = Inr 0" "load_cell (data (amx framed)) (sint (stk entered)) = Inr 0"
    "load_cell (data (amx framed)) (sint (stk entered + 4)) = Inr 4" "uint (codesize entered) = 32"
    "stk framed = 180 \<and> stk entered = 184"
    by code_simp+
  then show ?thesis using function_returns [OF quiet_contract start _ _ _ _ _ r, of 0 0 4] by (simp add: AMX_EXEC_CONT_def)
qed

end
