(* ===== verification/Loader.thy ===== *)
theory Loader
  imports AmxImage
begin

text \<open>
  The loader of \<open>src/amxmodx/amx.cpp\<close>: \<open>amx_BrowseRelocate\<close> walks over the code and turns
  the operands of jumps and calls into addresses, and \<open>amx_Init\<close> checks the header, expands
  a compact image, lays out code and data and relocates.
\<close>

subsection \<open>Relocation\<close>

text \<open>The opcodes by their operands, as the \<open>switch\<close> of \<open>amx_BrowseRelocate\<close> lists them.\<close>

definition one_parameter :: "nat list" where
  "one_parameter =
    [OP_LOAD_PRI, OP_LOAD_ALT, OP_LOAD_S_PRI, OP_LOAD_S_ALT, OP_LREF_PRI, OP_LREF_ALT,
     OP_LREF_S_PRI, OP_LREF_S_ALT, OP_LODB_I, OP_CONST_PRI, OP_CONST_ALT, OP_ADDR_PRI,
     OP_ADDR_ALT, OP_STOR_PRI, OP_STOR_ALT, OP_STOR_S_PRI, OP_STOR_S_ALT, OP_SREF_PRI,
     OP_SREF_ALT, OP_SREF_S_PRI, OP_SREF_S_ALT, OP_STRB_I, OP_LIDX_B, OP_IDXADDR_B,
     OP_ALIGN_PRI, OP_ALIGN_ALT, OP_LCTRL, OP_SCTRL, OP_PUSH_R, OP_PUSH_C, OP_PUSH, OP_PUSH_S,
     OP_STACK, OP_HEAP, OP_JREL, OP_SHL_C_PRI, OP_SHL_C_ALT, OP_SHR_C_PRI, OP_SHR_C_ALT,
     OP_ADD_C, OP_SMUL_C, OP_ZERO, OP_ZERO_S, OP_EQ_C_PRI, OP_EQ_C_ALT, OP_INC, OP_INC_S,
     OP_DEC, OP_DEC_S, OP_MOVS, OP_CMPS, OP_FILL, OP_HALT, OP_BOUNDS, OP_PUSHADDR, OP_SYSREQ_D]"

definition no_parameter :: "nat list" where
  "no_parameter =
    [OP_LOAD_I, OP_STOR_I, OP_LIDX, OP_IDXADDR, OP_MOVE_PRI, OP_MOVE_ALT, OP_XCHG, OP_PUSH_PRI,
     OP_PUSH_ALT, OP_POP_PRI, OP_POP_ALT, OP_PROC, OP_RET, OP_RETN, OP_CALL_PRI, OP_SHL, OP_SHR,
     OP_SSHR, OP_SMUL, OP_SDIV, OP_SDIV_ALT, OP_UMUL, OP_UDIV, OP_UDIV_ALT, OP_ADD, OP_SUB,
     OP_SUB_ALT, OP_AND, OP_OR, OP_XOR, OP_NOT, OP_NEG, OP_INVERT, OP_ZERO_PRI, OP_ZERO_ALT,
     OP_SIGN_PRI, OP_SIGN_ALT, OP_EQ, OP_NEQ, OP_LESS, OP_LEQ, OP_GRTR, OP_GEQ, OP_SLESS,
     OP_SLEQ, OP_SGRTR, OP_SGEQ, OP_INC_PRI, OP_INC_ALT, OP_INC_I, OP_DEC_PRI, OP_DEC_ALT,
     OP_DEC_I, OP_SYSREQ_PRI, OP_JUMP_PRI, OP_SWAP_PRI, OP_SWAP_ALT, OP_NOP, OP_BREAK,
     OP_FLOAT_MUL, OP_FLOAT_DIV, OP_FLOAT_ADD, OP_FLOAT_SUB, OP_FLOAT_TO, OP_FLOAT_ROUND,
     OP_FLOAT_CMP]"

definition relocated :: "nat list" where
  "relocated =
    [OP_CALL, OP_JUMP, OP_JZER, OP_JNZ, OP_JEQ, OP_JNEQ, OP_JLESS, OP_JLEQ, OP_JGRTR, OP_JGEQ,
     OP_JSLESS, OP_JSLEQ, OP_JSGRTR, OP_JSGEQ, OP_SWITCH]"

text \<open>\<open>*(ucell *)(code+off) += (ucell)code\<close>\<close>

definition RELOC_ABS :: "cell \<Rightarrow> int \<Rightarrow> byte list \<Rightarrow> fault + byte list" where
  "RELOC_ABS base off c = bind_res (load_cell c off) (\<lambda>v. store_cell off (v + base) c)"

text \<open>\<open>for (i=0; i<=num; i++) RELOC_ABS(code, cip+2*i*sizeof(cell))\<close>, with the number of turns.\<close>

primrec reloc_table :: "cell \<Rightarrow> nat \<Rightarrow> int \<Rightarrow> byte list \<Rightarrow> fault + byte list" where
  "reloc_table base 0 off c = Inr c"
| "reloc_table base (Suc n) off c = bind_res (RELOC_ABS base off c) (reloc_table base n (off + 8))"

text \<open>
  The hook of \<open>usertags[UT_BROWSEHOOK]\<close>, called with the position behind a \<open>SYSREQ.C\<close> and once,
  before the walk, without one.
\<close>

type_synonym browse_hook = "(amx \<Rightarrow> int option \<Rightarrow> fault + amx \<times> int) option"

text \<open>One turn of the loop, after the opcode was read: the error or the new position.\<close>

definition browse_op :: "browse_hook \<Rightarrow> nat \<Rightarrow> int \<Rightarrow> amx \<Rightarrow> fault + amx \<times> int option" where
  "browse_op hook op cip a =
     (if op \<in> set one_parameter then Inr (a, Some (cip + 4))
      else if op = OP_SYSREQ_C
      then (case hook of
              Some f \<Rightarrow> bind_res (f a (Some cip)) (\<lambda>(a, cip). Inr (a, Some cip))
            | None \<Rightarrow> Inr (a, Some (cip + 4)))
      else if op \<in> set no_parameter then Inr (a, Some cip)
      else if op \<in> set relocated
      then bind_res (RELOC_ABS (codebase a) cip (code a)) (\<lambda>c. Inr (a\<lparr>code := c\<rparr>, Some (cip + 4)))
      else if op = OP_FILE \<or> op = OP_SYMBOL
      then bind_res (load_cell (code a) cip) (\<lambda>num. Inr (a, Some (cip + 4 + sint num)))
      else if op = OP_LINE \<or> op = OP_SRANGE then Inr (a, Some (cip + 8))
      else if op = OP_SYMTAG then Inr (a, Some (cip + 4))
      else if op = OP_CASETBL
      then bind_res (load_cell (code a) cip) (\<lambda>num.
           bind_res (reloc_table (codebase a) (nat (sint num + 1)) (cip + 4) (code a)) (\<lambda>c.
             Inr (a\<lparr>code := c\<rparr>, Some (cip + 4 + (2 * sint num + 1) * 4))))
      else Inr (a, None))"

text \<open>
  The loop \<open>for (cip=0; cip<codesize; )\<close>. On code in which every instruction takes at least a
  cell it ends within the length of the code; a negative size in an obsolete instruction can
  keep it running, which is \<open>NoFuel\<close> here.
\<close>

fun browse_loop :: "browse_hook \<Rightarrow> nat \<Rightarrow> int \<Rightarrow> amx \<Rightarrow> fault + int \<times> amx" where
  "browse_loop hook 0 cip a = Inl NoFuel"
| "browse_loop hook (Suc fuel) cip a =
     (if cip < hdr_dat (header a) - hdr_cod (header a)
      then case load_cell (code a) cip of
             Inl e \<Rightarrow> Inl e
           | Inr op \<Rightarrow>
               if \<not> (0 < sint op \<and> sint op < int OP_NUM_OPCODES) then Inl AssertFail
               else (case browse_op hook (unat op) (cip + 4) a of
                       Inl e \<Rightarrow> Inl e
                     | Inr (a', None) \<Rightarrow> Inr (AMX_ERR_INVINSTR, a'\<lparr>amx_flags := amx_flags a' AND NOT AMX_FLAG_BROWSE\<rparr>)
                     | Inr (a', Some cip') \<Rightarrow> browse_loop hook fuel cip' a')
      else Inr (AMX_ERR_NONE, a\<lparr>amx_flags := (amx_flags a AND NOT AMX_FLAG_BROWSE) OR AMX_FLAG_RELOC\<rparr>))"

definition amx_BrowseRelocate :: "browse_hook \<Rightarrow> amx \<Rightarrow> fault + int \<times> amx" where
  "amx_BrowseRelocate hook a =
     (if hdr_magic (header a) \<noteq> AMX_MAGIC then Inl AssertFail
      else browse_loop hook (Suc (length (code a))) 0 (a\<lparr>amx_flags := amx_flags a OR AMX_FLAG_BROWSE\<rparr>))"

subsection \<open>\<open>amx_Init\<close>\<close>

text \<open>The fields of the header in the image, \<open>AMX_HEADER\<close> of \<open>amx.h\<close>.\<close>

definition field :: "byte list \<Rightarrow> nat \<Rightarrow> nat \<Rightarrow> cell" where
  "field p off n = of_le (take n (drop off p))"

definition read_header :: "byte list \<Rightarrow> amx_header" where
  "read_header p = \<lparr>hdr_size = sint (field p 0 4), hdr_magic = uint (field p 4 2), file_version = sint (p ! 6),
     amx_version = sint (p ! 7), hdr_flags = field p 8 2, defsize = sint (ucast (field p 10 2) :: 16 word),
     hdr_cod = sint (field p 12 4), hdr_dat = sint (field p 16 4), hdr_hea = sint (field p 20 4),
     hdr_stp = sint (field p 24 4), hdr_cip = sint (field p 28 4), hdr_publics = sint (field p 32 4),
     hdr_natives = sint (field p 36 4), hdr_libraries = sint (field p 40 4), hdr_pubvars = sint (field p 44 4),
     hdr_tags = sint (field p 48 4), hdr_nametable = sint (field p 52 4)\<rparr>"

text \<open>The tests of the header; \<open>None\<close> when they all pass.\<close>

definition check_header :: "amx_header \<Rightarrow> byte list \<Rightarrow> fault + int option" where
  "check_header hdr program =
     (if hdr_magic hdr \<noteq> AMX_MAGIC then Inr (Some AMX_ERR_FORMAT)
      else if file_version hdr < MIN_FILE_VERSION \<or> amx_version hdr > CUR_FILE_VERSION then Inr (Some AMX_ERR_VERSION)
      else if defsize hdr \<noteq> 24 \<and> defsize hdr \<noteq> 8 then Inr (Some AMX_ERR_FORMAT)
      else bind_res (if defsize hdr = 8
                     then bind_res (read_bytes program (hdr_nametable hdr) 2) (\<lambda>bs. Inr (uint (of_le bs) > 63)) else Inr False)
        (\<lambda>long. Inr (if long \<or> hdr_stp hdr \<le> 0 then Some AMX_ERR_FORMAT else None)))"

text \<open>
  The image \<open>program\<close> is a block of \<open>stp\<close> bytes at least. The hook is called once before the
  walk; the error of the walk is not passed on.
\<close>

definition section_of :: "byte list \<Rightarrow> int \<Rightarrow> int \<Rightarrow> byte list" where
  "section_of p from to = take (nat to - nat from) (drop (nat from) p)"

definition expand_image :: "(int \<times> cell) list \<Rightarrow> amx_header \<Rightarrow> byte list \<Rightarrow> fault + byte list" where
  "expand_image spare hdr program =
     (if hdr_flags hdr AND AMX_FLAG_COMPACT \<noteq> 0
      then bind_res (expand spare (drop (nat (hdr_cod hdr)) program) (nat (hdr_size hdr - hdr_cod hdr)) (hdr_hea hdr - hdr_cod hdr))
             (\<lambda>c. Inr (take (nat (hdr_cod hdr)) program @ c))
      else if hdr_hea hdr = hdr_size hdr then Inr program else Inl AssertFail)"

definition set_base :: "cell \<Rightarrow> amx_header \<Rightarrow> byte list \<Rightarrow> amx \<Rightarrow> amx" where
  "set_base addr hdr program a = a\<lparr>header := hdr, img := section_of program 0 (hdr_cod hdr),
     code := section_of program (hdr_cod hdr) (hdr_dat hdr), data := section_of program (hdr_dat hdr) (hdr_stp hdr),
     codebase := addr + of_int (hdr_cod hdr), amx_hlw := of_int (hdr_hea hdr - hdr_dat hdr),
     amx_stp := of_int (hdr_stp hdr - hdr_dat hdr - 4), amx_hea := of_int (hdr_hea hdr - hdr_dat hdr),
     amx_stk := of_int (hdr_stp hdr - hdr_dat hdr - 4), callback := True\<rparr>"

text \<open>\<open>if (hook) hook(amx, NULL, NULL)\<close>\<close>

definition begin_hook :: "browse_hook \<Rightarrow> amx \<Rightarrow> fault + amx" where
  "begin_hook hook a = (case hook of Some f \<Rightarrow> bind_res (f a None) (\<lambda>(a, _). Inr a) | None \<Rightarrow> Inr a)"

definition amx_Init :: "browse_hook \<Rightarrow> (int \<times> cell) list \<Rightarrow> cell \<Rightarrow> byte list \<Rightarrow> amx \<Rightarrow> fault + int \<times> amx" where
  "amx_Init hook spare addr program a =
     (if amx_flags a AND AMX_FLAG_RELOC \<noteq> 0 then Inr (AMX_ERR_INIT, a)
      else if length program < 56 then Inl OutOfBounds
      else let hdr = read_header program
           in bind_res (check_header hdr program) (\<lambda>err.
             case err of
               Some e \<Rightarrow> Inr (e, a)
             | None \<Rightarrow>
                 bind_res (expand_image spare hdr program) (\<lambda>program.
                 bind_res (store_cell (hdr_stp hdr - 4) 0 program) (\<lambda>program.
                 let a = set_base addr hdr program a
                 in bind_res (begin_hook hook a) (\<lambda>a.
                    bind_res (amx_BrowseRelocate hook a) (\<lambda>(_, a). Inr (AMX_ERR_NONE, a)))))))"

end
