(* ===== verification/LoaderFacts.thy ===== *)
theory LoaderFacts
  imports Loader
begin

text \<open>
  The loader against the assembler: the walk of \<open>amx_BrowseRelocate\<close> over the code that the
  passes of \<open>sc6.c\<close> write visits each instruction and relocates the code addresses alone; and
  \<open>amx_Init\<close> turns the compact image of a program into a machine ready to run it.
\<close>

subsection \<open>The code the assembler writes\<close>

text \<open>
  An instruction as the passes of the assembler write it: an opcode alone, with a number, or
  with the address of a label or function; a case table is the opcode \<open>CASETBL\<close> with the
  records of the \<open>case\<close> lines behind it, the first of which holds their number and the default.
\<close>

datatype asm_instr =
    Plain nat
  | With_number nat cell
  | With_address nat cell
  | Cases cell "(cell \<times> cell) list"

fun asm_cells :: "asm_instr \<Rightarrow> cell list" where
  "asm_cells (Plain op) = [of_nat op]"
| "asm_cells (With_number op v) = [of_nat op, v]"
| "asm_cells (With_address op v) = [of_nat op, v]"
| "asm_cells (Cases none recs) = case_table none recs"

text \<open>The operands that are positions in the code, moved by an offset.\<close>

fun shift_addresses :: "cell \<Rightarrow> asm_instr \<Rightarrow> asm_instr" where
  "shift_addresses base (With_address op v) = With_address op (v + base)"
| "shift_addresses base (Cases none recs) = Cases (none + base) (map (\<lambda>(v, t). (v, t + base)) recs)"
| "shift_addresses base i = i"

text \<open>The instructions of the assembler's list, by the function that writes them.\<close>

definition written_by :: "opcode_proc set \<Rightarrow> nat \<Rightarrow> bool" where
  "written_by procs op \<longleftrightarrow> (\<exists>e \<in> set opcodelist. oc_segment e = sIN_CSEG \<and> oc_opcode e = op \<and> oc_func e \<in> procs)"

fun assembled :: "asm_instr \<Rightarrow> bool" where
  "assembled (Plain op) \<longleftrightarrow> written_by {Parm0} op \<and> op \<noteq> OP_CASETBL"
| "assembled (With_number op v) \<longleftrightarrow> written_by {Parm1} op"
| "assembled (With_address op v) \<longleftrightarrow> written_by {Do_call, Do_jump, Do_switch} op"
| "assembled (Cases none recs) \<longleftrightarrow> length recs < 2 ^ 30"

lemma opcodelist_classes:
  "list_all (\<lambda>e. oc_segment e = sIN_CSEG \<longrightarrow>
     (oc_func e = Parm0 \<longrightarrow> oc_opcode e \<in> set no_parameter \<or> oc_opcode e = OP_CASETBL) \<and>
     (oc_func e = Parm1 \<longrightarrow> oc_opcode e \<in> set one_parameter \<or> oc_opcode e = OP_SYSREQ_C) \<and>
     (oc_func e \<in> {Do_call, Do_jump, Do_switch} \<longrightarrow> oc_opcode e \<in> set relocated)) opcodelist"
  by (simp add: opcodelist_def one_parameter_def no_parameter_def relocated_def)

lemma written_classes:
  "written_by {Parm0} op \<Longrightarrow> op \<in> set no_parameter \<or> op = OP_CASETBL"
  "written_by {Parm1} op \<Longrightarrow> op \<in> set one_parameter \<or> op = OP_SYSREQ_C"
  "written_by {Do_call, Do_jump, Do_switch} op \<Longrightarrow> op \<in> set relocated"
  using opcodelist_classes by (auto simp: written_by_def list_all_iff)

lemma classes_small:
  "list_all (\<lambda>op. 0 < op \<and> op < OP_NUM_OPCODES) (one_parameter @ no_parameter @ relocated)"
  by (simp add: one_parameter_def no_parameter_def relocated_def)

lemma classes_apart:
  "list_all (\<lambda>op. op \<notin> set one_parameter \<and> op \<noteq> OP_SYSREQ_C) no_parameter"
  "list_all (\<lambda>op. op \<notin> set one_parameter \<and> op \<notin> set no_parameter \<and> op \<noteq> OP_SYSREQ_C) relocated"
  by (simp_all add: one_parameter_def no_parameter_def relocated_def)

lemma classes_disjoint:
  "op \<in> set no_parameter \<Longrightarrow> op \<notin> set one_parameter \<and> op \<noteq> OP_SYSREQ_C"
  "op \<in> set relocated \<Longrightarrow> op \<notin> set one_parameter \<and> op \<notin> set no_parameter \<and> op \<noteq> OP_SYSREQ_C"
  using classes_apart by (auto simp: list_all_iff)

text \<open>The first cell of an instruction is its opcode.\<close>

fun asm_opcode :: "asm_instr \<Rightarrow> nat" where
  "asm_opcode (Plain op) = op"
| "asm_opcode (With_number op v) = op"
| "asm_opcode (With_address op v) = op"
| "asm_opcode (Cases none recs) = OP_CASETBL"

lemma asm_cells_opcode: "\<exists>cs. asm_cells i = of_nat (asm_opcode i) # cs"
  by (cases i) (auto simp: case_table_def)

lemma assembled_opcode: "assembled i \<Longrightarrow> 0 < asm_opcode i \<and> asm_opcode i < OP_NUM_OPCODES"
  using classes_small by (cases i) (auto simp: list_all_iff dest!: written_classes)

subsection \<open>Walking over an instruction\<close>

lemma RELOC_ABS_cell: "RELOC_ABS base (int (length pre)) (pre @ le_bytes 4 v @ post) = Inr (pre @ le_bytes 4 (v + base) @ post)"
proof -
  have b: "in_block (pre @ le_bytes 4 v @ post) (int (length pre)) 4" by (simp add: in_block_def)
  show ?thesis by (simp add: RELOC_ABS_def load_cell_in [OF b] store_cell_in [OF b])
qed

lemma reloc_table_records:
  "reloc_table base (length recs) (int (length pre) + 4) (pre @ cells (concat (map (\<lambda>(v, t). [v, t]) recs)) @ post) =
   Inr (pre @ cells (concat (map (\<lambda>(v, t). [v, t]) (map (\<lambda>(v, t). (v, t + base)) recs))) @ post)"
proof (induction recs arbitrary: pre)
  case (Cons r recs)
  obtain v t where r: "r = (v, t)" by (cases r)
  let ?cs = "concat (map (\<lambda>(v, t). [v, t]) recs)"
  have "RELOC_ABS base (int (length pre) + 4) (pre @ cells (v # t # ?cs) @ post) = Inr ((pre @ cells [v, t + base]) @ cells ?cs @ post)"
    using RELOC_ABS_cell [of base "pre @ le_bytes 4 v" t "cells ?cs @ post"] by (simp add: cells_simps)
  moreover have "int (length pre) + 4 + 8 = int (length (pre @ cells [v, t + base])) + 4" by simp
  ultimately show ?case using Cons.IH [of "pre @ cells [v, t + base]"] r by (simp add: cells_simps)
qed (simp add: cells_simps)

lemma reloc_case_table:
  "reloc_table base (Suc (length recs)) (int (length pre) + 8) (pre @ cells (case_table none recs) @ post) =
   Inr (pre @ cells (case_table (none + base) (map (\<lambda>(v, t). (v, t + base)) recs)) @ post)"
proof -
  let ?n = "of_nat (length recs) :: cell" and ?cs = "concat (map (\<lambda>(v, t). [v, t]) recs)"
  have "RELOC_ABS base (int (length pre) + 8) (pre @ cells (case_table none recs) @ post) =
      Inr ((pre @ cells [of_nat OP_CASETBL, ?n, none + base]) @ cells ?cs @ post)"
    using RELOC_ABS_cell [of base "pre @ cells [of_nat OP_CASETBL, ?n]" none "cells ?cs @ post"]
    by (simp add: case_table_def cells_simps)
  moreover have "int (length pre) + 8 + 8 = int (length (pre @ cells [of_nat OP_CASETBL, ?n, none + base])) + 4" by simp
  ultimately show ?thesis using reloc_table_records [of base recs "pre @ cells [of_nat OP_CASETBL, ?n, none + base]" post]
    by (simp add: case_table_def cells_simps)
qed

definition program_cells :: "asm_instr list \<Rightarrow> cell list" where
  "program_cells is = concat (map asm_cells is)"

lemma program_cells_simps: "program_cells [] = []" "program_cells (i # is) = asm_cells i @ program_cells is"
  by (simp_all add: program_cells_def)

lemma length_program: "length is \<le> length (program_cells is)"
proof (induction "is")
  case (Cons i "is")
  have "1 \<le> length (asm_cells i)" using asm_cells_opcode [of i] by auto
  with Cons show ?case by (simp add: program_cells_simps)
qed simp

text \<open>A call of a native function can be replaced by other instructions of its size.\<close>

fun patch_instr :: "(cell \<Rightarrow> asm_instr list) \<Rightarrow> asm_instr \<Rightarrow> asm_instr list" where
  "patch_instr f (With_number op v) = (if op = OP_SYSREQ_C then f v else [With_number op v])"
| "patch_instr f i = [i]"

definition loaded_instrs :: "(cell \<Rightarrow> asm_instr list) \<Rightarrow> cell \<Rightarrow> asm_instr list \<Rightarrow> asm_instr list" where
  "loaded_instrs f base is = concat (map (\<lambda>i. patch_instr f (shift_addresses base i)) is)"

lemma loaded_instrs_simps:
  "loaded_instrs f base [] = []"
  "loaded_instrs f base (i # is) = patch_instr f (shift_addresses base i) @ loaded_instrs f base is"
  by (simp_all add: loaded_instrs_def)

lemma program_cells_append: "program_cells (is @ js) = program_cells is @ program_cells js"
  by (simp add: program_cells_def)

text \<open>
  What the walk relies on when it calls the hook: a machine that is ready for it, and the
  instructions it puts in the place of a call, which take the two cells of the call.
\<close>

locale relocation =
  fixes hook :: browse_hook and calls :: "cell \<Rightarrow> asm_instr list" and ready :: "amx \<Rightarrow> bool"
  assumes hook_call: "\<lbrakk>ready a; code a = pre @ cells [of_nat OP_SYSREQ_C, v] @ post\<rbrakk> \<Longrightarrow>
      browse_op hook OP_SYSREQ_C (int (length pre) + 4) a =
        Inr (a\<lparr>code := pre @ cells (program_cells (calls v)) @ post\<rparr>, Some (int (length pre) + 8))"
    and call_size: "length (program_cells (calls v)) = 2"
    and ready_code: "ready (a\<lparr>code := c\<rparr>) = ready a"
    and ready_flags: "ready (a\<lparr>amx_flags := x\<rparr>) = ready a"
begin

lemma browse_instr:
  assumes "assembled i" "ready a" "code a = pre @ cells (asm_cells i) @ post"
  shows "browse_op hook (asm_opcode i) (int (length pre) + 4) a =
    Inr (a\<lparr>code := pre @ cells (program_cells (patch_instr calls (shift_addresses (codebase a) i))) @ post\<rparr>,
      Some (int (length pre) + 4 * int (length (asm_cells i))))"
proof (cases i)
  case (Plain op)
  then have "op \<in> set no_parameter" using assms(1) written_classes(1) by auto
  then show ?thesis using classes_disjoint(1) [of op] Plain assms(3) by (simp add: browse_op_def program_cells_def)
next
  case (With_number op v)
  show ?thesis
  proof (cases "op = OP_SYSREQ_C")
    case True
    then show ?thesis using hook_call [OF assms(2), of pre v post] With_number assms(3) by simp
  next
    case False
    then show ?thesis using assms With_number written_classes(2) [of op] by (auto simp: browse_op_def program_cells_def)
  qed
next
  case (With_address op v)
  then have op: "op \<in> set relocated" using assms(1) written_classes(3) by simp
  have "RELOC_ABS (codebase a) (int (length pre) + 4) (code a) = Inr (pre @ cells [of_nat op, v + codebase a] @ post)"
    using RELOC_ABS_cell [of "codebase a" "pre @ le_bytes 4 (of_nat op)" v post] With_address assms(3) by (simp add: cells_simps)
  then show ?thesis using classes_disjoint(2) [OF op] op With_address by (simp add: browse_op_def program_cells_def)
next
  case (Cases none recs)
  have c: "OP_CASETBL \<notin> set one_parameter" "OP_CASETBL \<notin> set no_parameter" "OP_CASETBL \<notin> set relocated"
    by (simp_all add: one_parameter_def no_parameter_def relocated_def)
  have len: "length recs < 2 ^ 30" using assms(1) Cases by simp
  then have s: "sint (of_nat (length recs) :: cell) = int (length recs)" using sint_of_int_cell [of "int (length recs)"] by simp
  have "load_cell (code a) (int (length pre) + 4) = Inr (of_nat (length recs))"
    using load_cells [of 1 "case_table none recs" "int (length pre) + 4" pre post] assms(3) Cases by (simp add: case_table_def)
  moreover have "nat (int (length recs) + 1) = Suc (length recs)" by simp
  moreover have "length (asm_cells i) = 3 + 2 * length recs" using Cases by (simp add: case_table_def length_concat comp_def case_prod_beta sum_list_triv)
  ultimately show ?thesis using reloc_case_table [of "codebase a" recs pre none post] assms(3) Cases s c
    by (simp add: browse_op_def program_cells_def add.commute del: reloc_table.simps)
qed

lemma patched_size: "length (program_cells (patch_instr calls (shift_addresses base i))) = length (asm_cells i)"
  by (cases i) (simp_all add: call_size program_cells_def [of "[_]"] case_table_def length_concat comp_def case_prod_beta)

lemma browse_loop_program:
  assumes "list_all assembled is" "ready a" "code a = pre @ cells (program_cells is)"
    and "hdr_dat (header a) - hdr_cod (header a) = int (length (code a))" "length is < fuel"
  shows "browse_loop hook fuel (int (length pre)) a =
    Inr (AMX_ERR_NONE, a\<lparr>code := pre @ cells (program_cells (loaded_instrs calls (codebase a) is)),
      amx_flags := (amx_flags a AND NOT AMX_FLAG_BROWSE) OR AMX_FLAG_RELOC\<rparr>)"
  using assms
proof (induction "is" arbitrary: pre fuel a)
  case Nil
  then obtain f where "fuel = Suc f" by (cases fuel) auto
  then show ?case using Nil by (simp add: program_cells_simps loaded_instrs_simps cells_simps)
next
  case (Cons i "is")
  obtain f where f: "fuel = Suc f" using Cons.prems(5) by (cases fuel) auto
  let ?b = "codebase a" and ?post = "cells (program_cells is)"
  have i: "assembled i" and c: "code a = pre @ cells (asm_cells i) @ ?post"
    using Cons.prems(1,3) by (simp_all add: program_cells_simps cells_simps)
  obtain cs where cs: "asm_cells i = of_nat (asm_opcode i) # cs" using asm_cells_opcode by blast
  have op: "load_cell (code a) (int (length pre)) = Inr (of_nat (asm_opcode i))"
    unfolding c using load_cells [of 0 "asm_cells i" "int (length pre)" pre ?post] cs by simp
  have small: "0 < asm_opcode i" "asm_opcode i < OP_NUM_OPCODES" using assembled_opcode [OF i] by simp_all
  then have s: "sint (of_nat (asm_opcode i) :: cell) = int (asm_opcode i)" "unat (of_nat (asm_opcode i) :: cell) = asm_opcode i"
    using sint_of_int_cell [of "int (asm_opcode i)"] by (simp_all add: unat_of_nat)
  have more: "int (length pre) < hdr_dat (header a) - hdr_cod (header a)" using Cons.prems(4) c cs by simp
  define new where "new = program_cells (patch_instr calls (shift_addresses ?b i))"
  let ?a = "a\<lparr>code := pre @ cells new @ ?post\<rparr>"
  have len: "length new = length (asm_cells i)" by (simp add: new_def patched_size)
  have pos: "int (length pre) + 4 * int (length (asm_cells i)) = int (length (pre @ cells new))"
    by (simp add: len)
  have "browse_loop hook f (int (length (pre @ cells new))) ?a =
      Inr (AMX_ERR_NONE, ?a\<lparr>code := (pre @ cells new) @ cells (program_cells (loaded_instrs calls ?b is)),
        amx_flags := (amx_flags a AND NOT AMX_FLAG_BROWSE) OR AMX_FLAG_RELOC\<rparr>)"
    using Cons.IH [of ?a "pre @ cells new" f] Cons.prems(1,2,4,5) f len
    unfolding c by (simp add: ready_code)
  then show ?case using browse_instr [OF i Cons.prems(2) c, folded new_def] op s small more f
    by (simp add: pos loaded_instrs_simps program_cells_append cells_simps new_def [symmetric])
qed

text \<open>
  The loader and the assembler agree on the code: for any sequence of instructions as the
  assembler writes them, the walk ends without an error, has added the address of the code to
  the operands of jumps, calls and switches and to the targets of case tables, has put the
  hook's instructions in the place of the calls, and has changed nothing else in the code.
\<close>

lemma relocate_assembled:
  assumes "list_all assembled is" "ready a" "code a = cells (program_cells is)"
    and "hdr_dat (header a) - hdr_cod (header a) = int (length (code a))" "hdr_magic (header a) = AMX_MAGIC"
  shows "amx_BrowseRelocate hook a =
    Inr (AMX_ERR_NONE, a\<lparr>code := cells (program_cells (loaded_instrs calls (codebase a) is)),
      amx_flags := (amx_flags a AND NOT AMX_FLAG_BROWSE) OR AMX_FLAG_RELOC\<rparr>)"
proof -
  let ?a = "a\<lparr>amx_flags := amx_flags a OR AMX_FLAG_BROWSE\<rparr>"
  have "length is < Suc (length (code a))" using length_program [of "is"] assms(3) by simp
  then have "browse_loop hook (Suc (length (code a))) (int (length ([] :: byte list))) ?a =
    Inr (AMX_ERR_NONE, ?a\<lparr>code := [] @ cells (program_cells (loaded_instrs calls (codebase ?a) is)),
      amx_flags := (amx_flags ?a AND NOT AMX_FLAG_BROWSE) OR AMX_FLAG_RELOC\<rparr>)"
    by (intro browse_loop_program) (use assms in \<open>simp_all add: ready_flags\<close>)
  moreover have "(x OR b) AND NOT b = x AND NOT b" for x b :: cell
    by (rule bit_eqI) (auto simp: bit_simps)
  ultimately show ?thesis using assms(5) by (simp add: amx_BrowseRelocate_def)
qed

end

text \<open>Without a hook, calls stay as they are.\<close>

definition unpatched :: "cell \<Rightarrow> asm_instr list" where
  "unpatched v = [With_number OP_SYSREQ_C v]"

interpretation no_hook: relocation None unpatched "\<lambda>_. True"
  by unfold_locales (simp_all add: browse_op_def unpatched_def program_cells_def one_parameter_def)

subsection \<open>Expansion inside a larger block\<close>

text \<open>What lies behind the bytes that are expanded stays as it is.\<close>

lemma memcpy_frame: "memcpy b off bs = Inr b' \<Longrightarrow> memcpy (b @ t) off bs = Inr (b' @ t)"
  by (auto simp: memcpy_def split: if_splits)

lemma store_frame: "store_cell off v b = Inr b' \<Longrightarrow> store_cell off v (b @ t) = Inr (b' @ t)"
  unfolding store_cell_def by (rule memcpy_frame)

lemma read_cell_frame: "read_cell b n c shift = Inr r \<Longrightarrow> read_cell (b @ t) n c shift = Inr r"
proof (induction b n c shift rule: read_cell.induct)
  case (2 code codesize c shift)
  then show ?case by (auto simp: nth_append Let_def split: if_splits)
qed simp

lemma flush_frame: "flush_spare n r b = Inr (r', b') \<Longrightarrow> flush_spare n r (b @ t) = Inr (r', b' @ t)"
proof (induction n r b arbitrary: r' b' rule: flush_spare.induct)
  case (1 n r b)
  let ?e = "entries r ! sh r"
  show ?case
  proof (cases "sc r > 0 \<and> fst ?e > int n")
    case True
    then obtain b1 where b1: "store_cell (fst ?e) (snd ?e) b = Inr b1"
      and r: "flush_spare n (r\<lparr>sh := (sh r + 1) mod COMPACTMARGIN, sc := sc r - 1\<rparr>) b1 = Inr (r', b')"
      using "1.prems" by (auto simp: flush_spare.simps [of n r b] split: sum.split_asm)
    show ?thesis using True store_frame [OF b1, of t] "1.IH" [OF True b1 r] by (simp add: flush_spare.simps [of n r "b @ t"])
  next
    case False
    have "flush_spare n r c = Inr (r, c)" for c by (subst flush_spare.simps, subst if_not_P [OF False]) (rule refl)
    then show ?thesis using "1.prems" by simp
  qed
qed

lemma place_frame: "place_cell n m c r b = Inr (r', b') \<Longrightarrow> place_cell n m c r (b @ t) = Inr (r', b' @ t)"
  by (auto simp: place_cell_def dest: store_frame split: if_splits)

lemma read_cell_inside: "read_cell b n c shift = Inr (v, s, k) \<Longrightarrow> k < length b"
  by (induction b n c shift rule: read_cell.induct) (auto simp: Let_def split: if_splits)

lemma expand_loop_frame: "expand_loop n m r b = Inr (m', b') \<Longrightarrow> expand_loop n m r (b @ t) = Inr (m', b' @ t)"
proof (induction n m r b arbitrary: m' b' rule: expand_loop.induct)
  case (1 n m r b)
  show ?case
  proof (cases "n > 0")
    case True
    then obtain c s k where rc: "read_cell b n 0 0 = Inr (c, s, k)"
      using "1.prems" by (auto simp: expand_loop.simps [of n m r b] split: sum.split_asm)
    let ?c = "if b ! k AND 0x40 \<noteq> 0 then sign_expand c s else c"
    obtain r1 b1 where fl: "flush_spare k r b = Inr (r1, b1)"
      using "1.prems" True rc by (auto simp: expand_loop.simps [of n m r b] Let_def split: sum.split_asm)
    obtain r2 b2 where pl: "place_cell k (m - 4) ?c r1 b1 = Inr (r2, b2)" "m - 4 \<ge> 0"
      and lo: "expand_loop k (m - 4) r2 b2 = Inr (m', b')"
      using "1.prems" True rc fl by (auto simp: expand_loop.simps [of n m r b] Let_def split: sum.split_asm if_split_asm)
    have "expand_loop k (m - 4) r2 (b2 @ t) = Inr (m', b' @ t)"
      by (rule "1.IH" [OF True rc refl refl refl fl refl refl _ pl(1) refl lo]) (use pl(2) in simp)
    then show ?thesis using True read_cell_frame [OF rc, of t] flush_frame [OF fl, of t] place_frame [OF pl(1), of t] pl(2)
        read_cell_inside [OF rc]
      by (simp add: expand_loop.simps [of n m r "b @ t"] Let_def nth_append)
  next
    case False
    have "expand_loop n m r c = Inr (m, c)" for c by (subst expand_loop.simps, subst if_not_P [OF False]) (rule refl)
    then show ?thesis using "1.prems" by simp
  qed
qed

lemma expand_frame: "expand spare b n m = Inr b' \<Longrightarrow> expand spare (b @ t) n m = Inr (b' @ t)"
  by (auto simp: expand_def split: if_splits dest!: expand_loop_frame [of _ _ _ _ _ _ t])

subsection \<open>From the assembler's image to a machine\<close>

lemma expand_image_written:
  assumes "\<forall>k \<le> length cs. length (enc (take k cs)) < 4 * k + 62" "length (enc cs) \<le> 4 * length cs"
    and "4 * length cs \<le> length (enc cs @ pad)" "length spare = COMPACTMARGIN"
    and "hdr_flags hdr AND AMX_FLAG_COMPACT \<noteq> 0" "hdr_cod hdr = int (length pre0)"
    and "hdr_size hdr = int (length pre0 + length (enc cs))" "hdr_hea hdr = int (length pre0 + 4 * length cs)"
  shows "expand_image spare hdr (pre0 @ enc cs @ pad) = Inr (pre0 @ cells cs @ drop (4 * length cs - length (enc cs)) pad)"
proof -
  let ?n = "4 * length cs - length (enc cs)"
  have "length (enc cs) + length (take ?n pad) = 4 * length cs" using assms(2,3) by simp
  from expand_frame [OF expand_enc [OF assms(1) this assms(4)], of "drop ?n pad"]
  have "expand spare (enc cs @ pad) (length (enc cs)) (4 * int (length cs)) = Inr (cells cs @ drop ?n pad)"
    by (simp add: cells_def)
  then show ?thesis using assms(5-8) by (simp add: expand_image_def)
qed

lemma store_last:
  assumes "4 \<le> length t" "off = int (length p) + int (length t) - 4"
  shows "store_cell off v (p @ t) = Inr (p @ take (length t - 4) t @ le_bytes 4 v)"
proof -
  obtain i where i: "length t = i + 4" using assms(1) by (metis add.commute le_iff_add)
  then have off: "off = int (length p + i)" using assms(2) by simp
  have b: "in_block (p @ t) off 4" using i off by (simp add: in_block_def)
  have n: "nat off = length p + i" unfolding off by (rule nat_int)
  show ?thesis unfolding store_cell_in [OF b] n using i by simp
qed

text \<open>
  \<open>amx_Init\<close> on an image that the assembler wrote, with a hook whose first call leaves the list \<open>u\<close> of natives.
\<close>

context relocation
begin

lemma init_written:
  assumes "appending w0" "bytes_in w0 = 0" "bytes_out w0 = 0"
    and "seq (map (write_encoded True) (program_cells is @ ds)) w0 = Inr w1" "bytes_out w1 - bytes_in w1 \<le> 0"
    and "z = drop (length (bin_bytes (fbin w0))) (bin_bytes (fbin w1))" "list_all assembled is"
    and "program = pre0 @ z @ pad" "hdr = read_header program" "check_header hdr program = Inr None" "56 \<le> length pre0"
    and "hdr_flags hdr AND AMX_FLAG_COMPACT \<noteq> 0" "hdr_cod hdr = int (length pre0)" "hdr_size hdr = int (length pre0 + length z)"
    and "hdr_dat hdr = int (length pre0 + 4 * length (program_cells is))" "hdr_hea hdr = hdr_dat hdr + 4 * int (length ds)"
    and "hdr_stp hdr = int (length program)" "hdr_hea hdr + 4 \<le> hdr_stp hdr" "length spare = COMPACTMARGIN"
    and "amx_flags a AND AMX_FLAG_RELOC = 0"
    and begun: "\<And>b. header b = hdr \<Longrightarrow> img b = pre0 \<Longrightarrow> optimizer b = optimizer a \<Longrightarrow>
      begin_hook hook b = Inr (b\<lparr>optimizer := u\<rparr>) \<and> ready (b\<lparr>optimizer := u\<rparr>)"
  shows "\<exists>a'. amx_Init hook spare addr program a = Inr (AMX_ERR_NONE, a') \<and>
    code a' = cells (program_cells (loaded_instrs calls (addr + of_nat (length pre0)) is)) \<and> optimizer a' = u \<and>
    take (4 * length ds) (data a') = cells ds \<and> int (length (data a')) = hdr_stp hdr - hdr_dat hdr \<and>
    load_cell (data a') (hdr_stp hdr - hdr_dat hdr - 4) = Inr 0 \<and>
    amx_hea a' = of_nat (4 * length ds) \<and> amx_hlw a' = amx_hea a' \<and>
    amx_stp a' = of_int (hdr_stp hdr - hdr_dat hdr - 4) \<and> amx_stk a' = amx_stp a' \<and> amx_flags a' AND AMX_FLAG_RELOC \<noteq> 0"
proof -
  let ?pc = "program_cells is" and ?cs = "program_cells is @ ds"
  have w: "bin_bytes (fbin w1) = bin_bytes (fbin w0) @ enc ?cs" "\<forall>k \<le> length ?cs. length (enc (take k ?cs)) < 4 * k + 62"
    "length (enc ?cs) \<le> 4 * length ?cs"
    using write_compact [OF assms(1-4)] assms(5) by auto
  then have z: "z = enc ?cs" using assms(6) by simp
  define t where "t = drop (4 * length ?cs - length (enc ?cs)) pad"
  have lent: "4 \<le> length t" "length program = length pre0 + 4 * length ?cs + length t"
    using assms(8,14-18) z w(3) by (auto simp: t_def)
  have "expand_image spare hdr program = Inr (pre0 @ cells ?cs @ t)"
    unfolding assms(8) z t_def by (rule expand_image_written [OF w(2,3)])
      (use assms(12-19) z lent in \<open>auto simp: assms(8) t_def\<close>)
  moreover
  define t' where "t' = take (length t - 4) t @ le_bytes 4 0"
  have "store_cell (hdr_stp hdr - 4) 0 (pre0 @ cells ?cs @ t) = Inr (pre0 @ cells ?cs @ t')"
    using store_last [OF lent(1), of "hdr_stp hdr - 4" "pre0 @ cells ?cs" 0] assms(17) lent by (simp add: t'_def)
  moreover
  have lent': "length t' = length t" using lent by (simp add: t'_def)
  let ?P = "pre0 @ cells ?pc @ cells ds @ t'"
  let ?b = "set_base addr hdr ?P a"
  let ?a = "?b\<lparr>optimizer := u\<rparr>"
  have hook: "begin_hook hook ?b = Inr ?a" and rdy: "ready ?a"
    using begun [of ?b] assms(13) by (simp_all add: set_base_def section_of_def)
  have code: "code ?a = cells ?pc" and data: "data ?a = cells ds @ t'"
    using assms(13-17) lent lent' by (simp_all add: set_base_def section_of_def nat_add_distrib)
  have magic: "hdr_magic hdr = AMX_MAGIC" using assms(10) by (auto simp: check_header_def split: if_splits)
  have "amx_BrowseRelocate hook ?a = Inr (AMX_ERR_NONE, ?a\<lparr>code := cells (program_cells (loaded_instrs calls (codebase ?a) is)),
      amx_flags := (amx_flags ?a AND NOT AMX_FLAG_BROWSE) OR AMX_FLAG_RELOC\<rparr>)"
    by (rule relocate_assembled [OF assms(7) rdy code]) (use code magic assms(13,15) in \<open>simp_all add: set_base_def\<close>)
  ultimately have init: "amx_Init hook spare addr program a = Inr (AMX_ERR_NONE, ?a\<lparr>code := cells (program_cells (loaded_instrs calls (codebase ?a) is)),
      amx_flags := (amx_flags ?a AND NOT AMX_FLAG_BROWSE) OR AMX_FLAG_RELOC\<rparr>)"
    using assms(8-11,20) hook by (simp add: amx_Init_def cells_simps Let_def)
  have last: "load_cell (cells ds @ t') (hdr_stp hdr - hdr_dat hdr - 4) = Inr 0"
    using load_cells [of 0 "[0]" "hdr_stp hdr - hdr_dat hdr - 4" "cells ds @ take (length t - 4) t" "[]"] lent assms(15-17)
    by (simp add: t'_def cells_simps)
  have "(x OR y) AND y = y" for x y :: cell by (rule bit_eqI) (auto simp: bit_simps)
  then have flag: "(x OR AMX_FLAG_RELOC) AND AMX_FLAG_RELOC \<noteq> 0" for x :: cell by (simp add: AMX_FLAG_RELOC_def)
  show ?thesis
    by (rule exI, rule conjI, rule init) (use flag data last lent lent' assms(13-17) in \<open>simp add: set_base_def\<close>)
qed

end

end
