(* ===== verification/AmxTables.thy ===== *)
theory AmxTables
  imports AmxImage
begin

text \<open>
  The tables of a program (\<open>src/amxmodx/amx.cpp\<close>): natives, public functions, public variables,
  tags and libraries, the searches in them, and the registration of native functions.

  A function that fills a buffer of the caller returns what it puts there. The searches copy
  each name to a local buffer \<open>char pname[sNAMEMAX+1]\<close>; a longer name would overflow it,
  which is \<open>OutOfBounds\<close>. Each search is the same loop over its table, \<open>search_table\<close>.
\<close>

subsection \<open>The header\<close>

definition sNAMEMAX :: nat where "sNAMEMAX = 63"
definition INT_MAX :: int where "INT_MAX = 2147483647"

text \<open>The test of the version that the functions on an initialised program make.\<close>

definition header_error :: "amx_header \<Rightarrow> int option" where
  "header_error hdr =
     (if hdr_magic hdr \<noteq> AMX_MAGIC then Some AMX_ERR_FORMAT
      else if file_version hdr > CUR_FILE_VERSION \<or> amx_version hdr < MIN_FILE_VERSION then Some AMX_ERR_VERSION else None)"

definition amx_Flags :: "amx option \<Rightarrow> int \<times> cell" where
  "amx_Flags x =
     (case x of None \<Rightarrow> (AMX_ERR_FORMAT, 0)
      | Some a \<Rightarrow> (case header_error (header a) of Some e \<Rightarrow> (e, 0) | None \<Rightarrow> (AMX_ERR_NONE, hdr_flags (header a))))"

definition amx_MemInfo :: "amx option \<Rightarrow> int + int \<times> int \<times> int" where
  "amx_MemInfo x =
     (case x of None \<Rightarrow> Inl AMX_ERR_FORMAT
      | Some a \<Rightarrow> (let hdr = header a
                   in case header_error hdr of Some e \<Rightarrow> Inl e
                      | None \<Rightarrow> Inr (hdr_dat hdr - hdr_cod hdr, hdr_hea hdr - hdr_dat hdr, hdr_stp hdr - hdr_hea hdr)))"

definition amx_NameLength :: "amx \<Rightarrow> fault + int" where
  "amx_NameLength a =
     (let hdr = header a
      in if hdr_magic hdr \<noteq> AMX_MAGIC then Inl AssertFail
         else if defsize hdr = 8
         then bind_res (read_bytes (img a) (hdr_nametable hdr) 2) (\<lambda>bs.
              if file_version hdr \<ge> 7 then Inr (uint (of_le bs)) else Inl AssertFail)
         else Inr (defsize hdr - 4))"

text \<open>
  \<open>amx_Clone\<close>: the clone shares header and code and gets its own data, \<open>blk\<close>, into which
  the initialised part is copied.
\<close>

definition amx_Clone :: "amx option \<Rightarrow> amx option \<Rightarrow> byte list \<Rightarrow> fault + int \<times> amx option" where
  "amx_Clone clone source blk =
     (case source of None \<Rightarrow> Inr (AMX_ERR_FORMAT, clone)
      | Some s \<Rightarrow>
     (case clone of None \<Rightarrow> Inr (AMX_ERR_PARAMS, clone)
      | Some c \<Rightarrow>
      if amx_flags s AND AMX_FLAG_RELOC = 0 then Inr (AMX_ERR_INIT, clone)
      else let hdr = header s; hlw = of_int (hdr_hea hdr - hdr_dat hdr); stp = of_int (hdr_stp hdr - hdr_dat hdr - 4)
      in case header_error hdr of
           Some e \<Rightarrow> Inr (e, clone)
         | None \<Rightarrow>
             bind_res (if hdr_hea hdr < hdr_dat hdr then Inl OutOfBounds
                       else read_bytes (data s) 0 (nat (hdr_hea hdr - hdr_dat hdr))) (\<lambda>bs.
             bind_res (memcpy blk 0 bs) (\<lambda>d. bind_res (store_cell (sint stp) 0 d) (\<lambda>d.
               Inr (AMX_ERR_NONE, Some (c\<lparr>header := hdr, img := img s, code := code s, data := d, codebase := codebase s,
                 amx_hlw := hlw, amx_stp := stp, amx_hea := hlw, amx_stk := stp,
                 callback := callback c \<or> callback s, debug := debug c \<or> debug s, amx_flags := amx_flags s\<rparr>)))))))"

subsection \<open>Entries\<close>

text \<open>
  \<open>amx_NumNatives\<close>, \<open>amx_GetNative\<close> and their kind work on the table from \<open>field\<close> to
  \<open>nextfield\<close>. An index behind the table is \<open>Inr (Inl AMX_ERR_INDEX)\<close>.
\<close>

definition num_entries :: "amx_header \<Rightarrow> int \<Rightarrow> int \<Rightarrow> fault + int" where
  "num_entries hdr field nextfield =
     (if hdr_magic hdr = AMX_MAGIC \<and> field \<le> nextfield
      then bind_res (NUMENTRIES hdr field nextfield) (\<lambda>n. Inr (int n)) else Inl AssertFail)"

definition get_entry :: "amx \<Rightarrow> int \<Rightarrow> int \<Rightarrow> int \<Rightarrow> (int \<Rightarrow> fault + 'r) \<Rightarrow> fault + (int + 'r)" where
  "get_entry a field nextfield index k =
     bind_res (num_entries (header a) field nextfield) (\<lambda>n.
       if index \<ge> n then Inr (Inl AMX_ERR_INDEX)
       else bind_res (k (GETENTRY (header a) field index)) (\<lambda>r. Inr (Inr r)))"

definition name_and_address :: "amx \<Rightarrow> int \<Rightarrow> fault + string \<times> cell" where
  "name_and_address a entry =
     bind_res (GETENTRYNAME a entry) (\<lambda>name. bind_res (entry_address a entry) (\<lambda>addr. Inr (name, addr)))"

definition amx_NumNatives :: "amx \<Rightarrow> fault + int" where
  "amx_NumNatives a = num_entries (header a) (hdr_natives (header a)) (hdr_libraries (header a))"

definition amx_GetNative :: "amx \<Rightarrow> int \<Rightarrow> fault + (int + string)" where
  "amx_GetNative a index = get_entry a (hdr_natives (header a)) (hdr_libraries (header a)) index (GETENTRYNAME a)"

definition amx_NumPublics :: "amx \<Rightarrow> fault + int" where
  "amx_NumPublics a = num_entries (header a) (hdr_publics (header a)) (hdr_natives (header a))"

definition amx_GetPublic :: "amx \<Rightarrow> int \<Rightarrow> fault + (int + string)" where
  "amx_GetPublic a index = get_entry a (hdr_publics (header a)) (hdr_natives (header a)) index (GETENTRYNAME a)"

definition amx_NumPubVars :: "amx \<Rightarrow> fault + int" where
  "amx_NumPubVars a = num_entries (header a) (hdr_pubvars (header a)) (hdr_tags (header a))"

definition amx_GetPubVar :: "amx \<Rightarrow> int \<Rightarrow> fault + (int + string \<times> cell)" where
  "amx_GetPubVar a index = get_entry a (hdr_pubvars (header a)) (hdr_tags (header a)) index (name_and_address a)"

text \<open>The table of tags ends at the code in old files; the oldest have none.\<close>

definition tags_end :: "amx_header \<Rightarrow> int" where
  "tags_end hdr = (if file_version hdr < 7 then hdr_cod hdr else hdr_nametable hdr)"

definition amx_NumTags :: "amx \<Rightarrow> fault + int \<times> int" where
  "amx_NumTags a =
     (let hdr = header a
      in if hdr_magic hdr \<noteq> AMX_MAGIC then Inl AssertFail
         else if file_version hdr < 5 then Inr (AMX_ERR_VERSION, 0)
         else bind_res (num_entries hdr (hdr_tags hdr) (tags_end hdr)) (\<lambda>n. Inr (AMX_ERR_NONE, n)))"

definition amx_GetTag :: "amx \<Rightarrow> int \<Rightarrow> fault + (int + string \<times> cell)" where
  "amx_GetTag a index =
     (let hdr = header a
      in if hdr_magic hdr \<noteq> AMX_MAGIC then Inl AssertFail
         else if file_version hdr < 5 then Inr (Inl AMX_ERR_VERSION)
         else get_entry a (hdr_tags hdr) (tags_end hdr) index (name_and_address a))"

definition amx_GetLibraries :: "amx \<Rightarrow> fault + int" where
  "amx_GetLibraries a = bind_res (NUMENTRIES (header a) (hdr_libraries (header a)) (hdr_pubvars (header a))) (\<lambda>n. Inr (int n))"

text \<open>\<open>_snprintf(buffer, len, "%s", ...)\<close> of the C99 library: at most \<open>len-1\<close> characters.\<close>

definition amx_GetLibrary :: "amx \<Rightarrow> int \<Rightarrow> nat \<Rightarrow> fault + string" where
  "amx_GetLibrary a index len =
     bind_res (GETENTRYNAME a (GETENTRY (header a) (hdr_libraries (header a)) index)) (\<lambda>name. Inr (take (len - 1) name))"

subsection \<open>Searching\<close>

text \<open>
  The loop \<open>while (first<=last)\<close>: \<open>probe mid\<close> is the comparison of the entry in the middle
  with what is searched, and the entry's data.
\<close>

function search_table :: "(int \<Rightarrow> fault + int \<times> 'r) \<Rightarrow> int \<Rightarrow> int \<Rightarrow> fault + (int \<times> 'r) option" where
  "search_table probe first final =
     (if first \<le> final
      then let mid = (first + final) div 2
           in case probe mid of
                Inl e \<Rightarrow> Inl e
              | Inr (result, r) \<Rightarrow>
                  if result > 0 then search_table probe first (mid - 1)
                  else if result < 0 then search_table probe (mid + 1) final
                  else Inr (Some (mid, r))
      else Inr None)"
  by pat_completeness auto
termination
proof (relation "measure (\<lambda>(_, first, final). nat (final + 1 - first))", goal_cases)
  case (2 probe first final mid x result r)
  then have "mid \<le> final" by simp
  then show ?case using 2(1) by simp
next
  case (3 probe first final mid x result r)
  then have "first \<le> mid" by simp
  then show ?case using 3(1) by simp
qed simp

declare search_table.simps [simp del]

text \<open>
  The name of an entry in the local buffer, compared with the one searched. After an index
  error the loops would compare what the buffer held.
\<close>

definition compare_name :: "string \<Rightarrow> string \<Rightarrow> fault + int" where
  "compare_name name pname = (if length pname \<le> sNAMEMAX then Inr (strcmp pname name) else Inl OutOfBounds)"

definition fetched :: "fault + (int + 'r) \<Rightarrow> fault + 'r" where
  "fetched res = bind_res res (\<lambda>r. case r of Inl e \<Rightarrow> Inl OutOfBounds | Inr x \<Rightarrow> Inr x)"

definition amx_FindPublic :: "amx \<Rightarrow> string \<Rightarrow> fault + int \<times> int" where
  "amx_FindPublic a name =
     bind_res (amx_NumPublics a) (\<lambda>n.
     bind_res (search_table (\<lambda>mid. bind_res (fetched (amx_GetPublic a mid)) (\<lambda>pname.
                 bind_res (compare_name name pname) (\<lambda>result. Inr (result, ())))) 0 (n - 1)) (\<lambda>r.
       case r of Some (mid, _) \<Rightarrow> Inr (AMX_ERR_NONE, mid) | None \<Rightarrow> Inr (AMX_ERR_NOTFOUND, INT_MAX)))"

definition amx_FindPubVar :: "amx \<Rightarrow> string \<Rightarrow> fault + int \<times> cell" where
  "amx_FindPubVar a varname =
     bind_res (amx_NumPubVars a) (\<lambda>n.
     bind_res (search_table (\<lambda>mid. bind_res (fetched (amx_GetPubVar a mid)) (\<lambda>(pname, paddr).
                 bind_res (compare_name varname pname) (\<lambda>result. Inr (result, paddr)))) 0 (n - 1)) (\<lambda>r.
       case r of Some (_, paddr) \<Rightarrow> Inr (AMX_ERR_NONE, paddr) | None \<Rightarrow> Inr (AMX_ERR_NOTFOUND, 0)))"

text \<open>\<open>for (mid=0; mid<=last; mid++)\<close> in the table of natives, with the number of turns.\<close>

fun find_native_loop :: "amx \<Rightarrow> string \<Rightarrow> nat \<Rightarrow> int \<Rightarrow> fault + int \<times> int" where
  "find_native_loop a name 0 mid = Inr (AMX_ERR_NOTFOUND, INT_MAX)"
| "find_native_loop a name (Suc n) mid =
     bind_res (fetched (amx_GetNative a mid)) (\<lambda>pname. bind_res (compare_name name pname) (\<lambda>c.
       if c = 0 then Inr (AMX_ERR_NONE, mid) else find_native_loop a name n (mid + 1)))"

definition amx_FindNative :: "amx \<Rightarrow> string \<Rightarrow> fault + int \<times> int" where
  "amx_FindNative a name = bind_res (amx_NumNatives a) (\<lambda>n. find_native_loop a name (nat n) 0)"

text \<open>Tags are sorted by their number, which \<open>amx_FindTagId\<close> asserts first.\<close>

fun tags_sorted :: "amx \<Rightarrow> nat \<Rightarrow> int \<Rightarrow> cell \<Rightarrow> fault + unit" where
  "tags_sorted a 0 first cur_id = Inr ()"
| "tags_sorted a (Suc n) first cur_id =
     bind_res (fetched (amx_GetTag a first)) (\<lambda>(_, mid_id). if sint cur_id < sint mid_id then tags_sorted a n (first + 1) mid_id else Inl AssertFail)"

definition check_tags :: "amx \<Rightarrow> fault + unit" where
  "check_tags a =
     bind_res (amx_NumTags a) (\<lambda>(_, n).
       if n > 0 then bind_res (fetched (amx_GetTag a 0)) (\<lambda>(_, cur_id). tags_sorted a (nat (n - 1)) 1 cur_id) else Inr ())"

definition amx_FindTagId :: "amx \<Rightarrow> cell \<Rightarrow> fault + int \<times> string" where
  "amx_FindTagId a tag_id =
     bind_res (check_tags a) (\<lambda>_.
     bind_res (amx_NumTags a) (\<lambda>(_, n).
     bind_res (search_table (\<lambda>mid. bind_res (fetched (amx_GetTag a mid)) (\<lambda>(name, mid_id). Inr (sint mid_id - sint tag_id, name))) 0 (n - 1)) (\<lambda>r.
       case r of Some (_, tagname) \<Rightarrow> Inr (AMX_ERR_NONE, tagname) | None \<Rightarrow> Inr (AMX_ERR_NOTFOUND, []))))"

subsection \<open>Registering native functions\<close>

text \<open>
  A list of natives: names with their functions, as cells; a name that is \<open>NULL\<close> ends it. The
  loop tests the name before the count. The result 0 is \<open>NULL\<close>.
\<close>

type_synonym native_list = "(string option \<times> cell) list"

fun findfunction_loop :: "string \<Rightarrow> native_list \<Rightarrow> int \<Rightarrow> int \<Rightarrow> fault + cell" where
  "findfunction_loop name [] number i = Inl OutOfBounds"
| "findfunction_loop name ((None, f) # l) number i = Inr 0"
| "findfunction_loop name ((Some s, f) # l) number i =
     (if i < number \<or> number = - 1
      then if strcmp name s = 0 then Inr f else findfunction_loop name l number (i + 1)
      else Inr 0)"

definition findfunction :: "string \<Rightarrow> native_list \<Rightarrow> int \<Rightarrow> fault + cell" where
  "findfunction name l number = findfunction_loop name l number 0"

text \<open>
  The loops over the table of natives. \<open>visit\<close> is the body for an entry whose address is
  \<open>addr\<close>: what it does to the loop's state, and the new address when it stores one.
\<close>

fun natives_loop :: "(amx \<Rightarrow> int \<Rightarrow> cell \<Rightarrow> 's \<Rightarrow> fault + 's \<times> cell option) \<Rightarrow> nat \<Rightarrow> int \<Rightarrow> amx \<times> 's \<Rightarrow> fault + amx \<times> 's" where
  "natives_loop visit 0 func s = Inr s"
| "natives_loop visit (Suc n) func (a, s) =
     bind_res (entry_address a func) (\<lambda>addr.
     bind_res (visit a func addr s) (\<lambda>(s, new).
     bind_res (case new of None \<Rightarrow> Inr a | Some f \<Rightarrow> bind_res (store_cell func f (img a)) (\<lambda>i. Inr (a\<lparr>img := i\<rparr>))) (\<lambda>a.
       natives_loop visit n (func + defsize (header a)) (a, s))))"

definition over_natives :: "(amx \<Rightarrow> int \<Rightarrow> cell \<Rightarrow> 's \<Rightarrow> fault + 's \<times> cell option) \<Rightarrow> 's \<Rightarrow> amx \<Rightarrow> fault + amx \<times> 's" where
  "over_natives visit s a =
     bind_res (amx_NumNatives a) (\<lambda>n. natives_loop visit (nat n) (GETENTRY (header a) (hdr_natives (header a)) 0) (a, s))"

definition lookup_native :: "native_list option \<Rightarrow> int \<Rightarrow> amx \<Rightarrow> int \<Rightarrow> fault + cell" where
  "lookup_native list number a func =
     (case list of None \<Rightarrow> Inr 0 | Some l \<Rightarrow> bind_res (GETENTRYNAME a func) (\<lambda>name. findfunction name l number))"

text \<open>The state of \<open>amx_Register\<close>'s loop: the error code and the global \<open>no_function\<close>.\<close>

definition register_entry :: "native_list option \<Rightarrow> int \<Rightarrow> amx \<Rightarrow> int \<Rightarrow> cell \<Rightarrow> int \<times> string option
    \<Rightarrow> fault + (int \<times> string option) \<times> cell option" where
  "register_entry list number a func addr s =
     (if addr \<noteq> 0 then Inr (s, None)
      else bind_res (lookup_native list number a func) (\<lambda>f.
        if f \<noteq> 0 then Inr (s, Some f)
        else bind_res (GETENTRYNAME a func) (\<lambda>name. Inr ((AMX_ERR_NOTFOUND, Some name), None))))"

definition amx_Register :: "native_list option \<Rightarrow> int \<Rightarrow> amx \<times> string option \<Rightarrow> fault + int \<times> amx \<times> string option" where
  "amx_Register list number = (\<lambda>(a, no_function).
     bind_res (over_natives (register_entry list number) (AMX_ERR_NONE, no_function) a) (\<lambda>(a, err, no_function).
       Inr (err, (if err = AMX_ERR_NONE then a\<lparr>amx_flags := amx_flags a OR AMX_FLAG_NTVREG\<rparr> else a), no_function)))"

definition reregister_entry :: "native_list option \<Rightarrow> int \<Rightarrow> amx \<Rightarrow> int \<Rightarrow> cell \<Rightarrow> int \<Rightarrow> fault + int \<times> cell option" where
  "reregister_entry list number a func addr count =
     (if addr = 0 then Inr (count, None)
      else bind_res (lookup_native list number a func) (\<lambda>f. if f \<noteq> 0 then Inr (count + 1, Some f) else Inr (count, None)))"

definition amx_Reregister :: "native_list option \<Rightarrow> int \<Rightarrow> amx \<Rightarrow> fault + int \<times> amx" where
  "amx_Reregister list number a =
     bind_res (over_natives (reregister_entry list number) 0 a) (\<lambda>(a, count). Inr (count, a))"

definition amx_RegisterToAny :: "cell \<Rightarrow> amx \<Rightarrow> fault + int \<times> amx" where
  "amx_RegisterToAny f a =
     bind_res (over_natives (\<lambda>a func addr s. Inr (s, if addr = 0 then Some f else None)) () a) (\<lambda>(a, _).
       Inr (AMX_ERR_NONE, a\<lparr>amx_flags := amx_flags a OR AMX_FLAG_NTVREG\<rparr>))"

text \<open>
  \<open>amx_CheckNatives\<close>: the filter \<open>nf\<close> of the host decides on each native that is not
  located; it may change the machine. The result is whether all passed, and \<open>no_function\<close>.
\<close>

fun check_natives_loop :: "(amx \<Rightarrow> int \<Rightarrow> fault + int \<times> amx) \<Rightarrow> nat \<Rightarrow> int \<Rightarrow> int \<Rightarrow> amx \<Rightarrow> fault + (string option \<times> amx)" where
  "check_natives_loop nf 0 i func a = Inr (None, a)"
| "check_natives_loop nf (Suc n) i func a =
     bind_res (entry_address a func) (\<lambda>addr.
       if addr = 0
       then bind_res (nf a i) (\<lambda>(res, a).
              if res = 0 then bind_res (GETENTRYNAME a func) (\<lambda>name. Inr (Some name, a))
              else check_natives_loop nf n (i + 1) (func + defsize (header a)) a)
       else check_natives_loop nf n (i + 1) (func + defsize (header a)) a)"

definition amx_CheckNatives :: "(amx \<Rightarrow> int \<Rightarrow> fault + int \<times> amx) \<Rightarrow> amx \<times> string option \<Rightarrow> fault + int \<times> amx \<times> string option" where
  "amx_CheckNatives nf = (\<lambda>(a, no_function).
     bind_res (amx_NumNatives a) (\<lambda>n.
     bind_res (check_natives_loop nf (nat n) 0 (GETENTRY (header a) (hdr_natives (header a)) 0) a) (\<lambda>(missing, a).
       Inr (case missing of None \<Rightarrow> (1, a, no_function) | Some name \<Rightarrow> (0, a, Some name)))))"

subsection \<open>The callback\<close>

text \<open>
  \<open>amx_Callback\<close>, without the log of the host's binary logger: the native function at the
  address in the table is called, \<open>natives\<close> gives its value and the machine after it.
\<close>

definition amx_Callback :: "(cell \<Rightarrow> amx \<Rightarrow> fault + cell \<times> amx) \<Rightarrow> cell \<Rightarrow> amx \<Rightarrow> fault + int \<times> cell \<times> amx" where
  "amx_Callback natives index a =
     (let hdr = header a
      in bind_res (if hdr_natives hdr \<le> hdr_libraries hdr then NUMENTRIES hdr (hdr_natives hdr) (hdr_libraries hdr) else Inl AssertFail) (\<lambda>n.
         if \<not> (0 \<le> sint index \<and> sint index < int n) then Inl AssertFail
         else bind_res (entry_address a (GETENTRY hdr (hdr_natives hdr) (sint index))) (\<lambda>f.
           if f = 0 then Inl AssertFail
           else bind_res (natives f (a\<lparr>last_native := index, amx_error := AMX_ERR_NONE\<rparr>)) (\<lambda>(result, a).
             Inr (amx_error a, result, a)))))"

definition amx_RaiseError :: "int \<Rightarrow> amx \<Rightarrow> fault + amx" where
  "amx_RaiseError err a = (if err > 0 then Inr (a\<lparr>amx_error := err\<rparr>) else Inl AssertFail)"

definition amx_SetCallback :: "amx \<Rightarrow> int \<times> amx" where
  "amx_SetCallback a = (AMX_ERR_NONE, a\<lparr>callback := True\<rparr>)"

definition amx_SetDebugHook :: "bool \<Rightarrow> amx \<Rightarrow> int \<times> amx" where
  "amx_SetDebugHook hook a = (AMX_ERR_NONE, a\<lparr>debug := hook\<rparr>)"

end
