(* ===== verification/TableFacts.thy ===== *)
theory TableFacts
  imports AmxTables MachineFacts
begin

text \<open>
  The tables of \<open>AmxTables\<close>: a table as the list of its entries, the searches in sorted
  tables, and registration as a function on that list.
\<close>

subsection \<open>The binary search\<close>

lemma search_table_spec:
  assumes "\<And>i. first \<le> i \<Longrightarrow> i \<le> final \<Longrightarrow> probe i = Inr (c i, r i)"
    and "\<And>i j. first \<le> i \<Longrightarrow> i < j \<Longrightarrow> j \<le> final \<Longrightarrow> 0 \<le> c i \<Longrightarrow> 0 < c j"
  shows "(\<exists>k. first \<le> k \<and> k \<le> final \<and> c k = 0 \<and> search_table probe first final = Inr (Some (k, r k))) \<or>
    (\<forall>k. first \<le> k \<and> k \<le> final \<longrightarrow> c k \<noteq> 0) \<and> search_table probe first final = Inr None"
  using assms
proof (induction probe first final rule: search_table.induct)
  case (1 probe first final)
  show ?case
  proof (cases "first \<le> final")
    case True
    define mid where "mid = (first + final) div 2"
    have mid: "first \<le> mid" "mid \<le> final" using True by (auto simp: mid_def)
    have p: "probe mid = Inr (c mid, r mid)" using "1.prems"(1) mid by simp
    have unf: "search_table probe first final =
        (if c mid > 0 then search_table probe first (mid - 1)
         else if c mid < 0 then search_table probe (mid + 1) final else Inr (Some (mid, r mid)))"
      using True p by (subst search_table.simps) (simp add: Let_def mid_def)
    have below: "c k < 0" if "first \<le> k" "k < mid" "c mid \<le> 0" for k
      using "1.prems"(2) [of k mid] that mid by force
    have above: "0 < c k" if "mid < k" "k \<le> final" "0 \<le> c mid" for k
      using "1.prems"(2) [of mid k] that mid by force
    consider "c mid > 0" | "c mid < 0" | "c mid = 0" by linarith
    then show ?thesis
    proof cases
      assume pos: "c mid > 0"
      then have "(\<exists>k. first \<le> k \<and> k \<le> mid - 1 \<and> c k = 0 \<and> search_table probe first (mid - 1) = Inr (Some (k, r k))) \<or>
          (\<forall>k. first \<le> k \<and> k \<le> mid - 1 \<longrightarrow> c k \<noteq> 0) \<and> search_table probe first (mid - 1) = Inr None"
        using True p mid "1.prems" by (intro "1.IH"(1) [OF True mid_def p refl]) auto
      then show ?thesis using pos above mid unfolding unf by (smt (verit))
    next
      assume neg: "c mid < 0"
      have "0 < c j" if "mid + 1 \<le> i" "i < j" "j \<le> final" "0 \<le> c i" for i j
        by (rule "1.prems"(2) [of i j]) (use mid that in auto)
      with neg have "(\<exists>k. mid + 1 \<le> k \<and> k \<le> final \<and> c k = 0 \<and> search_table probe (mid + 1) final = Inr (Some (k, r k))) \<or>
          (\<forall>k. mid + 1 \<le> k \<and> k \<le> final \<longrightarrow> c k \<noteq> 0) \<and> search_table probe (mid + 1) final = Inr None"
        using neg mid "1.prems"(1) by (intro "1.IH"(2) [OF True mid_def p refl]) auto
      then show ?thesis using neg below mid unfolding unf by (smt (verit))
    next
      assume "c mid = 0"
      then show ?thesis using mid unfolding unf by auto
    qed
  next
    case False
    then show ?thesis by (subst search_table.simps) auto
  qed
qed

text \<open>A search by name in a table whose names are sorted.\<close>

lemma sorted_names:
  assumes "sorted_wrt (\<lambda>s t. strcmp s t < 0) ns" "\<forall>s \<in> set ns. cstring s" "cstring name" "i < j" "j < length ns"
    and "0 \<le> strcmp (ns ! i) name"
  shows "0 < strcmp (ns ! j) name"
proof (rule ccontr)
  assume "\<not> 0 < strcmp (ns ! j) name"
  moreover have "strcmp (ns ! i) (ns ! j) < 0" using assms(1,4,5) by (simp add: sorted_wrt_iff_nth_less)
  moreover have "cstring (ns ! i)" "cstring (ns ! j)" using assms(2,4,5) by auto
  ultimately have "strcmp (ns ! i) name < 0" using assms(3) by (intro strcmp_less_trans [of "ns ! i" "ns ! j" name]) auto
  then show False using assms(6) by simp
qed

subsection \<open>A table as a list\<close>

text \<open>The table from \<open>field\<close> to \<open>nextfield\<close> holds the names and addresses \<open>ents\<close>.\<close>

definition table_holds :: "amx \<Rightarrow> int \<Rightarrow> int \<Rightarrow> (string \<times> cell) list \<Rightarrow> bool" where
  "table_holds a field nextfield ents \<longleftrightarrow> hdr_magic (header a) = AMX_MAGIC \<and> 0 < defsize (header a) \<and>
     nextfield - field = int (length ents) * defsize (header a) \<and>
     (\<forall>i < length ents. name_and_address a (GETENTRY (header a) field (int i)) = Inr (ents ! i))"

lemma table_num:
  assumes "table_holds a field nextfield ents"
  shows "num_entries (header a) field nextfield = Inr (int (length ents))"
proof -
  have d: "0 < defsize (header a)" "nextfield - field = int (length ents) * defsize (header a)"
    using assms by (simp_all add: table_holds_def)
  then have "field \<le> nextfield" by (smt (verit) of_nat_0_le_iff zero_le_mult_iff)
  then show ?thesis using assms d by (simp add: num_entries_def NUMENTRIES_def table_holds_def)
qed

lemma table_get:
  assumes "table_holds a field nextfield ents" "0 \<le> i" "i < int (length ents)"
  shows "get_entry a field nextfield i (name_and_address a) = Inr (Inr (ents ! nat i))"
    "get_entry a field nextfield i (GETENTRYNAME a) = Inr (Inr (fst (ents ! nat i)))"
proof -
  have e: "name_and_address a (GETENTRY (header a) field i) = Inr (ents ! nat i)"
    using assms unfolding table_holds_def by (metis nat_less_iff int_nat_eq)
  then have n: "GETENTRYNAME a (GETENTRY (header a) field i) = Inr (fst (ents ! nat i))"
    by (cases "ents ! nat i") (auto simp: name_and_address_def)
  show "get_entry a field nextfield i (name_and_address a) = Inr (Inr (ents ! nat i))"
    "get_entry a field nextfield i (GETENTRYNAME a) = Inr (Inr (fst (ents ! nat i)))"
    using assms(3) e n by (simp_all add: get_entry_def table_num [OF assms(1)])
qed

text \<open>The search by name: the entry with that name, or none.\<close>

definition good_names :: "string list \<Rightarrow> bool" where
  "good_names ns \<longleftrightarrow> sorted_wrt (\<lambda>s t. strcmp s t < 0) ns \<and> (\<forall>s \<in> set ns. cstring s \<and> length s \<le> sNAMEMAX)"

lemma good_name_length: "good_names ns \<Longrightarrow> i < length ns \<Longrightarrow> length (ns ! i) \<le> sNAMEMAX"
  by (simp add: good_names_def)

lemma search_names:
  assumes ns: "good_names ns" and name: "cstring name"
    and probe: "\<And>i. 0 \<le> i \<Longrightarrow> i < int (length ns) \<Longrightarrow> probe i = Inr (strcmp (ns ! nat i) name, r i)"
  shows "(\<exists>k < length ns. ns ! k = name \<and> search_table probe 0 (int (length ns) - 1) = Inr (Some (int k, r (int k)))) \<or>
    name \<notin> set ns \<and> search_table probe 0 (int (length ns) - 1) = Inr None"
proof -
  have eq: "strcmp (ns ! k) name = 0 \<longleftrightarrow> ns ! k = name" if "k < length ns" for k
    using that ns name by (intro strcmp_eq_0) (auto simp: good_names_def)
  have "(\<exists>k. 0 \<le> k \<and> k \<le> int (length ns) - 1 \<and> strcmp (ns ! nat k) name = 0 \<and>
      search_table probe 0 (int (length ns) - 1) = Inr (Some (k, r k))) \<or>
    (\<forall>k. 0 \<le> k \<and> k \<le> int (length ns) - 1 \<longrightarrow> strcmp (ns ! nat k) name \<noteq> 0) \<and>
      search_table probe 0 (int (length ns) - 1) = Inr None"
  proof (rule search_table_spec)
    fix i j assume "0 \<le> i" "i < j" "j \<le> int (length ns) - 1" "0 \<le> strcmp (ns ! nat i) name"
    then show "0 < strcmp (ns ! nat j) name"
      using ns name by (intro sorted_names [of ns name "nat i" "nat j"]) (auto simp: good_names_def)
  qed (use probe in auto)
  then show ?thesis
  proof (elim disjE exE conjE, goal_cases)
    case (1 k)
    then show ?case using eq [of "nat k"] by (intro disjI1 exI [of _ "nat k"]) auto
  next
    case 2
    have "ns ! k \<noteq> name" if "k < length ns" for k
      using 2(1) [rule_format, of "int k"] eq [OF that] that by simp
    then show ?case using 2 by (auto simp: in_set_conv_nth)
  qed
qed

lemma find_public_index:
  assumes "table_holds a (hdr_publics (header a)) (hdr_natives (header a)) ents" "good_names (map fst ents)" "cstring name"
  shows "(\<exists>k < length ents. fst (ents ! k) = name \<and> amx_FindPublic a name = Inr (AMX_ERR_NONE, int k)) \<or>
    name \<notin> fst ` set ents \<and> amx_FindPublic a name = Inr (AMX_ERR_NOTFOUND, INT_MAX)"
proof -
  let ?probe = "\<lambda>mid. bind_res (fetched (amx_GetPublic a mid)) (\<lambda>pname.
    bind_res (compare_name name pname) (\<lambda>result. Inr (result, ())))"
  have "?probe i = Inr (strcmp (map fst ents ! nat i) name, ())" if "0 \<le> i" "i < int (length (map fst ents))" for i
    using that table_get(2) [OF assms(1), of i] good_name_length [OF assms(2), of "nat i"]
    by (simp add: amx_GetPublic_def fetched_def compare_name_def)
  from search_names [OF assms(2,3) this] show ?thesis
    by (auto simp: amx_FindPublic_def amx_NumPublics_def table_num [OF assms(1)])
qed

lemma find_pubvar:
  assumes "table_holds a (hdr_pubvars (header a)) (hdr_tags (header a)) ents" "good_names (map fst ents)" "cstring name"
  shows "(\<exists>addr. (name, addr) \<in> set ents \<and> amx_FindPubVar a name = Inr (AMX_ERR_NONE, addr)) \<or>
    name \<notin> fst ` set ents \<and> amx_FindPubVar a name = Inr (AMX_ERR_NOTFOUND, 0)"
proof -
  let ?probe = "\<lambda>mid. bind_res (fetched (amx_GetPubVar a mid)) (\<lambda>(pname, paddr).
    bind_res (compare_name name pname) (\<lambda>result. Inr (result, paddr)))"
  have "?probe i = Inr (strcmp (map fst ents ! nat i) name, snd (ents ! nat i))"
    if "0 \<le> i" "i < int (length (map fst ents))" for i
    using that table_get(1) [OF assms(1), of i] good_name_length [OF assms(2), of "nat i"]
    by (cases "ents ! nat i") (simp add: amx_GetPubVar_def fetched_def compare_name_def)
  from search_names [OF assms(2,3) this] show ?thesis
    by (auto simp: amx_FindPubVar_def amx_NumPubVars_def table_num [OF assms(1)])
qed

lemma public_start:
  assumes "table_holds a (hdr_publics (header a)) (hdr_natives (header a)) ents" "k < length ents"
  shows "start_address (int k) a = Inr (Inr ((start_regs a)\<lparr>cip := sint (snd (ents ! k))\<rparr>))"
proof -
  have "NUMENTRIES (header a) (hdr_publics (header a)) (hdr_natives (header a)) = Inr (length ents)"
    using table_num [OF assms(1)] by (auto simp: num_entries_def split: if_splits)
  moreover have "entry_address a (GETENTRY (header a) (hdr_publics (header a)) (int k)) = Inr (snd (ents ! k))"
    using assms by (cases "ents ! k") (auto simp: table_holds_def name_and_address_def)
  ultimately show ?thesis using assms(2) by (simp add: start_address_def AMX_EXEC_MAIN_def AMX_EXEC_CONT_def)
qed

text \<open>C11: Looking up a public function and running it: in a table whose names are sorted,
  \<open>amx_FindPublic\<close> finds a name exactly when the table has it, and \<open>amx_Exec\<close> with the
  index it gives starts at that function's address. For a name that is not there the index is one
  that \<open>amx_Exec\<close> rejects.
\<close>

theorem find_public_starts:
  assumes "table_holds a (hdr_publics (header a)) (hdr_natives (header a)) ents" "good_names (map fst ents)" "cstring name"
    and "int (length ents) \<le> INT_MAX"
  shows "(\<exists>k addr. k < length ents \<and> ents ! k = (name, addr) \<and> amx_FindPublic a name = Inr (AMX_ERR_NONE, int k) \<and>
      start_address (int k) a = Inr (Inr ((start_regs a)\<lparr>cip := sint addr\<rparr>))) \<or>
    name \<notin> fst ` set ents \<and> amx_FindPublic a name = Inr (AMX_ERR_NOTFOUND, INT_MAX) \<and>
      start_address INT_MAX a = Inr (Inl AMX_ERR_INDEX)"
proof -
  have n: "NUMENTRIES (header a) (hdr_publics (header a)) (hdr_natives (header a)) = Inr (length ents)"
    using table_num [OF assms(1)] by (auto simp: num_entries_def split: if_splits)
  have "start_address (int k) a = Inr (Inr ((start_regs a)\<lparr>cip := sint (snd (ents ! k))\<rparr>))" if "k < length ents" for k
    by (rule public_start [OF assms(1) that])
  moreover have "start_address INT_MAX a = Inr (Inl AMX_ERR_INDEX)"
    using assms(4) by (simp add: start_address_def AMX_EXEC_MAIN_def AMX_EXEC_CONT_def INT_MAX_def n)
  ultimately show ?thesis using find_public_index [OF assms(1-3)] by (metis prod.collapse)
qed

subsection \<open>Registration\<close>

text \<open>
  An image with a table of natives, in the format with a name table: \<open>pre\<close>, the entries, and
  \<open>post\<close>, which holds the names.
\<close>

type_synonym native_entry = "string \<times> cell \<times> cell"

definition entry_bytes :: "native_entry \<Rightarrow> byte list" where
  "entry_bytes = (\<lambda>(name, f, ofs). le_bytes 4 f @ le_bytes 4 ofs)"

definition name_at :: "byte list \<Rightarrow> nat \<Rightarrow> native_entry \<Rightarrow> bool" where
  "name_at post base = (\<lambda>(name, f, ofs). base \<le> unat ofs \<and> cstr_at (map byte_char post) (unat ofs - base) = Inr name)"

definition natives_in :: "amx \<Rightarrow> byte list \<Rightarrow> native_entry list \<Rightarrow> byte list \<Rightarrow> bool" where
  "natives_in a pre es post \<longleftrightarrow> img a = pre @ concat (map entry_bytes es) @ post \<and>
     hdr_magic (header a) = AMX_MAGIC \<and> defsize (header a) = 8 \<and> hdr_natives (header a) = int (length pre) \<and>
     hdr_libraries (header a) = int (length pre + 8 * length es) \<and> list_all (name_at post (length pre + 8 * length es)) es"

lemma length_entries [simp]: "length (concat (map entry_bytes es)) = 8 * length es"
  by (induction es) (auto simp: entry_bytes_def)

lemma load_cell_at: "a = int (length pre) \<Longrightarrow> load_cell (pre @ le_bytes 4 v @ post) a = Inr v"
  using load_cells [of 0 "[v]" a pre post] by (simp add: cells_simps)

lemma store_cell_at: "a = int (length pre) \<Longrightarrow> store_cell a w (pre @ le_bytes 4 v @ post) = Inr (pre @ le_bytes 4 w @ post)"
  by (simp add: store_cell_in in_block_def)

lemma cstr_at_append: "length p \<le> i \<Longrightarrow> cstr_at (p @ q) i = cstr_at q (i - length p)"
  by (simp add: cstr_at_def)

lemma natives_num:
  assumes "natives_in a pre es post"
  shows "amx_NumNatives a = Inr (int (length es))"
    "GETENTRY (header a) (hdr_natives (header a)) i = int (length pre) + 8 * i"
  using assms by (simp_all add: natives_in_def amx_NumNatives_def num_entries_def NUMENTRIES_def GETENTRY_def)

text \<open>The entry behind \<open>es1\<close>: its address, its name, and a new address stored in it.\<close>

lemma native_entry_at:
  assumes a: "natives_in a pre (es1 @ (name, f, ofs) # es2) post" and func: "func = int (length pre) + 8 * int (length es1)"
  shows "entry_address a func = Inr f" "GETENTRYNAME a func = Inr name"
    "\<exists>i. store_cell func g (img a) = Inr i \<and> natives_in (a\<lparr>img := i\<rparr>) pre (es1 @ (name, g, ofs) # es2) post"
proof -
  let ?p = "pre @ concat (map entry_bytes es1)" and ?q = "concat (map entry_bytes es2) @ post"
  let ?base = "length pre + 8 * length (es1 @ (name, f, ofs) # es2)"
  have img: "img a = ?p @ le_bytes 4 f @ le_bytes 4 ofs @ ?q"
    using a by (simp add: natives_in_def entry_bytes_def)
  have len: "func = int (length ?p)" by (simp add: func)
  show "entry_address a func = Inr f" unfolding entry_address_def img by (rule load_cell_at [OF len])
  have ofs: "load_cell (img a) (func + 4) = Inr ofs"
    using load_cell_at [of "func + 4" "?p @ le_bytes 4 f" ofs ?q] len by (simp add: img)
  have n: "?base \<le> unat ofs" "cstr_at (map byte_char post) (unat ofs - ?base) = Inr name" and d: "defsize (header a) = 8"
    using a by (auto simp: natives_in_def name_at_def)
  define t where "t = pre @ concat (map entry_bytes (es1 @ (name, f, ofs) # es2))"
  have t: "img a = t @ post" "length t = ?base" using a unfolding natives_in_def t_def by (simp_all del: map_append)
  have "cstr_at (map byte_char (img a)) (unat ofs) = Inr name"
    using cstr_at_append [of "map byte_char t" "unat ofs" "map byte_char post"] n t by simp
  then show "GETENTRYNAME a func = Inr name" by (simp add: GETENTRYNAME_def d ofs)
  have "store_cell func g (img a) = Inr (?p @ le_bytes 4 g @ le_bytes 4 ofs @ ?q)"
    unfolding img by (rule store_cell_at [OF len])
  moreover have "natives_in (a\<lparr>img := ?p @ le_bytes 4 g @ le_bytes 4 ofs @ ?q\<rparr>) pre (es1 @ (name, g, ofs) # es2) post"
    using a by (simp add: natives_in_def name_at_def entry_bytes_def)
  ultimately show "\<exists>i. store_cell func g (img a) = Inr i \<and> natives_in (a\<lparr>img := i\<rparr>) pre (es1 @ (name, g, ofs) # es2) post"
    by blast
qed

text \<open>The loop over the natives as a function on the list of entries.\<close>

fun visit_entries :: "(string \<Rightarrow> cell \<Rightarrow> 's \<Rightarrow> 's \<times> cell option) \<Rightarrow> native_entry list \<Rightarrow> 's \<Rightarrow> native_entry list \<times> 's" where
  "visit_entries g [] s = ([], s)"
| "visit_entries g ((name, f, ofs) # es) s =
     (let (s1, new) = g name f s; (es1, s2) = visit_entries g es s1
      in ((name, (case new of None \<Rightarrow> f | Some k \<Rightarrow> k), ofs) # es1, s2))"

definition same_but_img :: "amx \<Rightarrow> amx \<Rightarrow> bool" where
  "same_but_img a b \<longleftrightarrow> (\<exists>i. b = a\<lparr>img := i\<rparr>)"

lemma same_but_img_refl [simp]: "same_but_img a a"
  unfolding same_but_img_def by (rule exI [of _ "img a"]) simp

lemma same_but_img_trans: "same_but_img a b \<Longrightarrow> same_but_img b c \<Longrightarrow> same_but_img a c"
  by (auto simp: same_but_img_def)

lemma natives_loop_entries:
  assumes visit: "\<And>a es1 name f ofs es2 s. natives_in a pre (es1 @ (name, f, ofs) # es2) post \<Longrightarrow>
      visit a (int (length pre) + 8 * int (length es1)) f s = Inr (g name f s)"
    and "natives_in a pre (es1 @ es) post" "func = int (length pre) + 8 * int (length es1)"
  shows "\<exists>a'. natives_loop visit (length es) func (a, s) = Inr (a', snd (visit_entries g es s)) \<and>
    natives_in a' pre (es1 @ fst (visit_entries g es s)) post \<and> same_but_img a a'"
  using assms(2,3)
proof (induction es arbitrary: a es1 func s)
  case Nil
  then show ?case by auto
next
  case (Cons e es)
  obtain name f ofs where e: "e = (name, f, ofs)" by (cases e)
  obtain s1 new where g: "g name f s = (s1, new)" by force
  let ?k = "case new of None \<Rightarrow> f | Some k \<Rightarrow> k"
  have a: "natives_in a pre (es1 @ (name, f, ofs) # es) post" using Cons.prems(1) e by simp
  note at = native_entry_at [OF a Cons.prems(2)]
  obtain b where b: "(case new of None \<Rightarrow> Inr a | Some k \<Rightarrow> bind_res (store_cell func k (img a)) (\<lambda>i. Inr (a\<lparr>img := i\<rparr>))) = Inr b"
    and nb: "natives_in b pre ((es1 @ [(name, ?k, ofs)]) @ es) post" and s: "same_but_img a b"
  proof (cases new)
    case None
    then show ?thesis using that [of a] a by simp
  next
    case (Some k)
    obtain i where "store_cell func k (img a) = Inr i" "natives_in (a\<lparr>img := i\<rparr>) pre (es1 @ (name, k, ofs) # es) post"
      using at(3) by blast
    then show ?thesis using that [of "a\<lparr>img := i\<rparr>"] Some by (auto simp: same_but_img_def)
  qed
  have d: "defsize (header b) = 8" using nb by (simp add: natives_in_def)
  have "func + 8 = int (length pre) + 8 * int (length (es1 @ [(name, ?k, ofs)]))" using Cons.prems(2) by simp
  from Cons.IH [OF nb this, of s1] obtain a' where a': "natives_loop visit (length es) (func + 8) (b, s1) = Inr (a', snd (visit_entries g es s1))"
    "natives_in a' pre ((es1 @ [(name, ?k, ofs)]) @ fst (visit_entries g es s1)) post" "same_but_img b a'" by blast
  have "natives_loop visit (length (e # es)) func (a, s) = Inr (a', snd (visit_entries g (e # es) s))"
    using at(1) visit [OF a, of s] b a'(1) d unfolding Cons.prems(2) [symmetric]
    by (simp add: e g split_beta Let_def del: bind_res_Inr)
  moreover have "natives_in a' pre (es1 @ fst (visit_entries g (e # es) s)) post"
    using a'(2) by (simp add: e g split_beta Let_def)
  ultimately show ?case using same_but_img_trans [OF s a'(3)] by blast
qed

lemma over_natives_entries:
  assumes "\<And>a es1 name f ofs es2 s. natives_in a pre (es1 @ (name, f, ofs) # es2) post \<Longrightarrow>
      visit a (int (length pre) + 8 * int (length es1)) f s = Inr (g name f s)"
    and "natives_in a pre es post"
  shows "\<exists>a'. over_natives visit s a = Inr (a', snd (visit_entries g es s)) \<and>
    natives_in a' pre (fst (visit_entries g es s)) post \<and> same_but_img a a'"
  using natives_loop_entries [of pre post visit g a "[]" es "int (length pre)" s] assms
  by (simp add: over_natives_def natives_num [OF assms(2)])

text \<open>A list of natives that ends with a \<open>NULL\<close> name, given with the count -1.\<close>

definition native_list_of :: "(string \<times> cell) list \<Rightarrow> native_list" where
  "native_list_of l = map (\<lambda>(s, f). (Some s, f)) l @ [(None, 0)]"

definition listed :: "(string \<times> cell) list \<Rightarrow> string \<Rightarrow> cell" where
  "listed l name = (case map_of l name of None \<Rightarrow> 0 | Some f \<Rightarrow> f)"

lemma findfunction_listed:
  assumes "\<forall>(s, f) \<in> set l. cstring s" "cstring name"
  shows "findfunction name (native_list_of l) (- 1) = Inr (listed l name)"
proof -
  have "findfunction_loop name (native_list_of l) (- 1) i = Inr (listed l name)" for i
    using assms(1) by (induction l arbitrary: i) (auto simp: native_list_of_def listed_def strcmp_eq_0 assms(2))
  then show ?thesis by (simp add: findfunction_def)
qed

lemma native_name_cstring: "natives_in a pre es post \<Longrightarrow> (name, f, ofs) \<in> set es \<Longrightarrow> cstring name"
  by (auto simp: natives_in_def list_all_iff name_at_def cstr_at_def cstring_def dest!: bspec split: if_splits dest: set_takeWhileD)

text \<open>What registering does to the entries and, besides, to the error code.\<close>

definition register_step :: "(string \<times> cell) list \<Rightarrow> string \<Rightarrow> cell \<Rightarrow> int \<times> string option \<Rightarrow> (int \<times> string option) \<times> cell option" where
  "register_step l name f s =
     (if f \<noteq> 0 then (s, None)
      else if listed l name \<noteq> 0 then (s, Some (listed l name)) else ((AMX_ERR_NOTFOUND, Some name), None))"

definition registered :: "(string \<times> cell) list \<Rightarrow> native_entry \<Rightarrow> native_entry" where
  "registered l = (\<lambda>(name, f, ofs). (name, if f \<noteq> 0 then f else listed l name, ofs))"

definition missing :: "(string \<times> cell) list \<Rightarrow> native_entry \<Rightarrow> bool" where
  "missing l = (\<lambda>(name, f, ofs). f = 0 \<and> listed l name = 0)"

lemma visit_register:
  "fst (visit_entries (register_step l) es s) = map (registered l) es"
  "fst (snd (visit_entries (register_step l) es s)) = (if list_ex (missing l) es then AMX_ERR_NOTFOUND else fst s)"
  by (induction es arbitrary: s) (auto simp: register_step_def registered_def missing_def split_beta Let_def)

lemma register_entries:
  assumes "natives_in a pre es post" "\<forall>(s, f) \<in> set l. cstring s"
  shows "\<exists>err a' nf'. amx_Register (Some (native_list_of l)) (- 1) (a, nf) = Inr (err, a', nf') \<and>
    natives_in a' pre (map (registered l) es) post \<and>
    (\<not> list_ex (missing l) es \<and> err = AMX_ERR_NONE \<and> a' = a\<lparr>img := img a', amx_flags := amx_flags a OR AMX_FLAG_NTVREG\<rparr> \<or>
     list_ex (missing l) es \<and> err = AMX_ERR_NOTFOUND \<and> a' = a\<lparr>img := img a'\<rparr>)"
proof -
  let ?visit = "register_entry (Some (native_list_of l)) (- 1)" and ?s = "(AMX_ERR_NONE, nf)"
  have visit: "?visit b (int (length pre) + 8 * int (length es1)) f s = Inr (register_step l name f s)"
    if "natives_in b pre (es1 @ (name, f, ofs) # es2) post" for b es1 name f ofs es2 s
    using native_entry_at(2) [OF that refl] native_name_cstring [OF that, of name f ofs] findfunction_listed [OF assms(2), of name]
    by (simp add: register_entry_def register_step_def lookup_native_def)
  have "\<exists>a'. over_natives ?visit ?s a = Inr (a', snd (visit_entries (register_step l) es ?s)) \<and>
      natives_in a' pre (fst (visit_entries (register_step l) es ?s)) post \<and> same_but_img a a'"
    by (rule over_natives_entries [OF _ assms(1)]) (rule visit)
  then obtain a' where r: "over_natives ?visit ?s a = Inr (a', snd (visit_entries (register_step l) es ?s))"
    and a': "natives_in a' pre (map (registered l) es) post" "same_but_img a a'"
    by (auto simp: visit_register)
  obtain err nf' where s: "snd (visit_entries (register_step l) es ?s) = (err, nf')" by force
  have err: "err = (if list_ex (missing l) es then AMX_ERR_NOTFOUND else AMX_ERR_NONE)"
    using visit_register(2) [of l es ?s] s by simp
  have flags: "natives_in (a'\<lparr>amx_flags := v\<rparr>) pre (map (registered l) es) post" for v
    using a'(1) by (simp add: natives_in_def)
  obtain i where i: "a' = a\<lparr>img := i\<rparr>" using a'(2) by (auto simp: same_but_img_def)
  show ?thesis
  proof (cases "list_ex (missing l) es")
    case True
    then show ?thesis using r s err a'(1) i by (simp add: amx_Register_def)
  next
    case False
    then show ?thesis using r s err flags i by (simp add: amx_Register_def)
  qed
qed

text \<open>C10: Registration: \<open>amx_Register\<close> gives every native function of the program that is not yet
  located the function listed under its name, and leaves the located ones, the names and the rest of
  the machine alone. It succeeds, and marks the program as ready to run, exactly when no
  function is missing afterwards.
\<close>

theorem register_natives:
  assumes "natives_in a pre es post" "\<forall>(s, f) \<in> set l. cstring s"
  shows "\<exists>err a' nf'. amx_Register (Some (native_list_of l)) (- 1) (a, nf) = Inr (err, a', nf') \<and>
    natives_in a' pre (map (registered l) es) post \<and>
    (\<not> list_ex (missing l) es \<and> err = AMX_ERR_NONE \<and> a' = a\<lparr>img := img a', amx_flags := amx_flags a OR AMX_FLAG_NTVREG\<rparr> \<or>
     list_ex (missing l) es \<and> err = AMX_ERR_NOTFOUND \<and> a' = a\<lparr>img := img a'\<rparr>)"
  by (rule register_entries [OF assms])

text \<open>
  A small image to try: the public functions \<open>main\<close> and \<open>run\<close> and the native functions
  \<open>max\<close> and \<open>min\<close>.
\<close>

definition names_text :: string where
  "names_text = ''main'' @ [NUL] @ ''run'' @ [NUL] @ ''max'' @ [NUL] @ ''min'' @ [NUL]"

definition two_natives :: "native_entry list" where
  "two_natives = [(''max'', 0, 41), (''min'', 0x77, 45)]"

definition tables :: amx where
  "tables = sample\<lparr>header := (header sample)\<lparr>hdr_publics := 0, hdr_natives := 16, hdr_libraries := 32, hdr_pubvars := 32,
       hdr_tags := 32, hdr_nametable := 32\<rparr>,
     img := cells [8, 32, 24, 37] @ concat (map entry_bytes two_natives) @ map (\<lambda>c. of_char c) names_text\<rparr>"

lemma tables_natives: "natives_in tables (cells [8, 32, 24, 37]) two_natives (map (\<lambda>c. of_char c) names_text)"
  unfolding natives_in_def
  by (intro conjI) (simp_all add: tables_def sample_def two_natives_def, code_simp)

lemma tables_publics: "table_holds tables 0 16 [(''main'', 8), (''run'', 24)]"
  unfolding table_holds_def by (simp add: less_Suc_eq all_conj_distrib) code_simp

theorem find_public_starts_witness:
  "\<exists>k. amx_FindPublic tables ''run'' = Inr (AMX_ERR_NONE, k) \<and>
     start_address k tables = Inr (Inr ((start_regs tables)\<lparr>cip := 24\<rparr>))"
proof -
  have h: "hdr_publics (header tables) = 0" "hdr_natives (header tables) = 16" by (simp_all add: tables_def)
  show ?thesis
    using find_public_starts [of tables "[(''main'', 8), (''run'', 24)]" "''run''", unfolded h, OF tables_publics]
    by (force simp: good_names_def sNAMEMAX_def INT_MAX_def less_Suc_eq NUL_def)
qed

theorem register_natives_witness:
  "\<exists>a' nf. amx_Register (Some (native_list_of [(''max'', 0x88)])) (- 1) (tables, None) = Inr (AMX_ERR_NONE, a', nf) \<and>
    natives_in a' (cells [8, 32, 24, 37]) [(''max'', 0x88, 41), (''min'', 0x77, 45)] (map (\<lambda>c. of_char c) names_text)"
  using register_natives [OF tables_natives, of "[(''max'', 0x88)]" None]
  by (auto simp: two_natives_def missing_def listed_def registered_def NUL_def)

end
