(* ===== verification/Optimizer.thy ===== *)
theory Optimizer
  imports LoaderFacts TableFacts
begin

text \<open>
  The browse hook of \<open>src/amxmodx/optimizer.cpp\<close>, which the loader installs unless the optimizer
  is switched off: calls of the native functions for floating point numbers become instructions
  of their own while the code is relocated. With it, \<open>amx_Init\<close> as a whole.
\<close>

subsection \<open>The hook\<close>

text \<open>The operations in the order of \<open>N_Float_Mul\<close> to \<open>N_Float_Cmp\<close>.\<close>

definition op_trans_table :: "nat list" where
  "op_trans_table = [OP_FLOAT_MUL, OP_FLOAT_DIV, OP_FLOAT_ADD, OP_FLOAT_SUB, OP_FLOAT_TO, OP_FLOAT_ROUND, OP_FLOAT_CMP]"

definition N_Total_FloatOps :: nat where "N_Total_FloatOps = 7"

text \<open>The loop over \<open>opt->natives\<close>: the first operation with the given number.\<close>

fun find_op :: "'a \<Rightarrow> 'a list \<Rightarrow> nat option" where
  "find_op n [] = None"
| "find_op n (x # xs) = (if x = n then Some 0 else map_option Suc (find_op n xs))"

text \<open>\<open>pos\<close> is the position of the operand, behind the \<open>SYSREQ.C\<close>.\<close>

definition OnBrowseRelocate :: "amx \<Rightarrow> int \<Rightarrow> fault + amx \<times> int" where
  "OnBrowseRelocate a pos =
     bind_res (load_cell (code a) pos) (\<lambda>n_offs.
       case optimizer a of
         None \<Rightarrow> Inl OutOfBounds
       | Some natives \<Rightarrow>
           (case find_op (sint n_offs) natives of
              None \<Rightarrow> Inr (a, pos + 4)
            | Some native \<Rightarrow>
                bind_res (store_cell (pos - 4) (of_nat (op_trans_table ! native)) (code a)) (\<lambda>c.
                bind_res (store_cell pos (of_nat OP_NOP) c) (\<lambda>c.
                  Inr (a\<lparr>code := c\<rparr>, pos + 4)))))"

definition FIND_NATIVE :: "amx \<Rightarrow> string \<Rightarrow> nat \<Rightarrow> int list \<Rightarrow> fault + int list" where
  "FIND_NATIVE a name bind natives =
     bind_res (amx_FindNative a name) (\<lambda>(err, index).
       Inr (if err \<noteq> AMX_ERR_NOTFOUND then natives[bind := index] else natives))"

text \<open>
  The natives that the optimization level selects. \<open>cpu\<close> is the result of \<open>amxx_CpuSupport\<close>, which is
  assembler code: whether the processor can compare floating point numbers in the way of the new instruction.
\<close>

definition find_natives :: "cell \<Rightarrow> bool \<Rightarrow> amx \<Rightarrow> fault + int list" where
  "find_natives g_opt_level cpu a =
     bind_res (if g_opt_level AND 1 \<noteq> 0
       then seq [FIND_NATIVE a ''floatmul'' 0, FIND_NATIVE a ''floatdiv'' 1, FIND_NATIVE a ''floatadd'' 2, FIND_NATIVE a ''floatsub'' 3]
              (replicate N_Total_FloatOps (- 1))
       else Inr (replicate N_Total_FloatOps (- 1))) (\<lambda>natives.
     bind_res (if g_opt_level AND 4 \<noteq> 0 then seq [FIND_NATIVE a ''float'' 4, FIND_NATIVE a ''floatround'' 5] natives else Inr natives)
       (\<lambda>natives.
     if g_opt_level AND 2 \<noteq> 0 \<and> cpu then FIND_NATIVE a ''floatcmp'' 6 natives else Inr natives))"

text \<open>The second stage also takes the bit for comparisons out of the level when the processor lacks them.\<close>

definition Setup_Optimizer_Stage2 :: "cell \<Rightarrow> bool \<Rightarrow> amx \<Rightarrow> fault + amx \<times> cell" where
  "Setup_Optimizer_Stage2 g_opt_level cpu a =
     bind_res (find_natives g_opt_level cpu a) (\<lambda>natives.
       Inr (a\<lparr>optimizer := Some natives\<rparr>, if g_opt_level AND 2 \<noteq> 0 \<and> \<not> cpu then g_opt_level AND NOT 2 else g_opt_level))"

text \<open>
  The hook as \<open>amx_Init\<close> finds it: the first call, without a position, is the second stage, which puts
  \<open>OnBrowseRelocate\<close> in its place.
\<close>

definition SetupOptimizer :: "cell \<Rightarrow> bool \<Rightarrow> browse_hook" where
  "SetupOptimizer g_opt_level cpu = Some (\<lambda>a called_at.
     case called_at of
       None \<Rightarrow> bind_res (Setup_Optimizer_Stage2 g_opt_level cpu a) (\<lambda>(a, _). Inr (a, 0))
     | Some pos \<Rightarrow> OnBrowseRelocate a pos)"


subsection \<open>The calls it replaces\<close>

text \<open>What stands in the place of a call of a native, for the list of natives of the optimizer.\<close>

definition float_calls :: "int list \<Rightarrow> cell \<Rightarrow> asm_instr list" where
  "float_calls natives v =
     (case find_op (sint v) natives of
        None \<Rightarrow> [With_number OP_SYSREQ_C v]
      | Some i \<Rightarrow> [Plain (op_trans_table ! i), Plain OP_NOP])"

lemma float_calls_none: "float_calls [] = unpatched"
  by (simp add: fun_eq_iff float_calls_def unpatched_def)

lemma float_calls_size: "length (program_cells (float_calls natives v)) = 2"
  by (simp add: float_calls_def program_cells_def split: option.split)

lemma OnBrowseRelocate_call:
  assumes "optimizer a = Some natives" "code a = pre @ cells [of_nat OP_SYSREQ_C, v] @ post"
  shows "OnBrowseRelocate a (int (length pre) + 4) =
    Inr (a\<lparr>code := pre @ cells (program_cells (float_calls natives v)) @ post\<rparr>, int (length pre) + 8)"
proof -
  have c: "code a = (pre @ le_bytes 4 (of_nat OP_SYSREQ_C)) @ le_bytes 4 v @ post" using assms(2) by (simp add: cells_simps)
  have l: "load_cell (code a) (int (length pre) + 4) = Inr v" unfolding c by (rule load_cell_at) simp
  show ?thesis
  proof (cases "find_op (sint v) natives")
    case None
    then show ?thesis using l assms by (simp add: OnBrowseRelocate_def float_calls_def program_cells_def)
  next
    case (Some i)
    let ?op = "of_nat (op_trans_table ! i) :: cell"
    have 1: "store_cell (int (length pre)) ?op (code a) = Inr (pre @ le_bytes 4 ?op @ le_bytes 4 v @ post)"
      using store_cell_at [OF refl, of pre ?op "of_nat OP_SYSREQ_C" "le_bytes 4 v @ post"] c by simp
    have 2: "store_cell (int (length pre) + 4) (of_nat OP_NOP) (pre @ le_bytes 4 ?op @ le_bytes 4 v @ post) =
        Inr (pre @ le_bytes 4 ?op @ le_bytes 4 (of_nat OP_NOP) @ post)"
      using store_cell_at [of "int (length pre) + 4" "pre @ le_bytes 4 ?op" "of_nat OP_NOP" v post] by simp
    show ?thesis using l 1 2 Some assms(1)
      by (simp add: OnBrowseRelocate_def float_calls_def program_cells_def cells_simps)
  qed
qed

interpretation float_hook: relocation "SetupOptimizer g_opt_level cpu" "float_calls natives" "\<lambda>a. optimizer a = Some natives"
  for g_opt_level cpu natives
proof
  fix a :: amx and pre v post assume a: "optimizer a = Some natives" "code a = pre @ cells [of_nat OP_SYSREQ_C, v] @ post"
  have "OP_SYSREQ_C \<notin> set one_parameter" by (simp add: one_parameter_def)
  then show "browse_op (SetupOptimizer g_opt_level cpu) OP_SYSREQ_C (int (length pre) + 4) a =
      Inr (a\<lparr>code := pre @ cells (program_cells (float_calls natives v)) @ post\<rparr>, Some (int (length pre) + 8))"
    using OnBrowseRelocate_call [OF a] by (simp add: browse_op_def SetupOptimizer_def)
qed (simp_all add: float_calls_size)

subsection \<open>The natives it finds\<close>

lemma FindNative_tables:
  assumes "header b = header a" "img b = img a"
  shows "amx_FindNative b name = amx_FindNative a name"
proof -
  have e: "GETENTRYNAME b = GETENTRYNAME a" unfolding fun_eq_iff GETENTRYNAME_def assms by simp
  have "amx_GetNative b i = amx_GetNative a i" for i unfolding amx_GetNative_def get_entry_def assms e by (rule refl)
  then have "find_native_loop b name n i = find_native_loop a name n i" for n i
    by (induction n arbitrary: i) (simp_all cong: if_cong)
  then show ?thesis using assms by (simp add: amx_FindNative_def amx_NumNatives_def)
qed

lemma find_natives_tables:
  assumes "header b = header a" "img b = img a"
  shows "find_natives g_opt_level cpu b = find_natives g_opt_level cpu a"
  unfolding find_natives_def FIND_NATIVE_def FindNative_tables [OF assms] by (rule refl)

lemma find_op_Some: "find_op x xs = Some i \<longleftrightarrow> i < length xs \<and> xs ! i = x \<and> (\<forall>j < i. xs ! j \<noteq> x)"
proof (induction xs arbitrary: i)
  case (Cons y xs)
  then show ?case by (cases i) (auto simp: All_less_Suc2)
qed simp

lemma find_op_None: "find_op x xs = None \<longleftrightarrow> x \<notin> set xs"
  by (induction xs) auto

lemma find_op_distinct: "distinct xs \<Longrightarrow> i < length xs \<Longrightarrow> find_op (xs ! i) xs = Some i"
  unfolding find_op_Some by (auto simp: nth_eq_iff_index_eq)

definition names_fit :: "string list \<Rightarrow> bool" where
  "names_fit ns \<longleftrightarrow> (\<forall>s \<in> set ns. cstring s \<and> length s \<le> sNAMEMAX)"

lemma FindNative_spec:
  assumes t: "table_holds a (hdr_natives (header a)) (hdr_libraries (header a)) ents" and n: "names_fit (map fst ents)" and c: "cstring name"
  shows "amx_FindNative a name =
    Inr (case find_op name (map fst ents) of None \<Rightarrow> (AMX_ERR_NOTFOUND, INT_MAX) | Some k \<Rightarrow> (AMX_ERR_NONE, int k))"
proof -
  have "i + n = length ents \<Longrightarrow> find_native_loop a name n (int i) =
    Inr (case find_op name (map fst (drop i ents)) of None \<Rightarrow> (AMX_ERR_NOTFOUND, INT_MAX) | Some k \<Rightarrow> (AMX_ERR_NONE, int (i + k)))" for n i
  proof (induction n arbitrary: i)
    case (Suc n)
    then have i: "i < length ents" by simp
    have "amx_GetNative a (int i) = Inr (Inr (fst (ents ! i)))"
      using table_get(2) [OF t, of "int i"] i by (simp add: amx_GetNative_def)
    moreover have s: "cstring (fst (ents ! i))" "length (fst (ents ! i)) \<le> sNAMEMAX" using assms(2) i by (auto simp: names_fit_def)
    ultimately have "find_native_loop a name (Suc n) (int i) =
        (if fst (ents ! i) = name then Inr (AMX_ERR_NONE, int i) else find_native_loop a name n (int (Suc i)))"
      using strcmp_eq_0 [OF s(1) c] by (simp add: fetched_def compare_name_def add.commute)
    moreover have "drop i ents = ents ! i # drop (Suc i) ents" using i by (rule Cons_nth_drop_Suc [symmetric])
    ultimately show ?case using Suc.IH [of "Suc i"] Suc.prems by (auto split: option.split)
  qed simp
  from this [of 0 "length ents"] show ?thesis using table_num [OF t] by (simp add: amx_FindNative_def amx_NumNatives_def split: option.split)
qed

text \<open>
  The natives for floating point numbers with the instructions of the machine for them, and the bit of
  the level that selects each.
\<close>

definition float_natives :: "(string \<times> nat) list" where
  "float_natives = [(''floatmul'', OP_FLOAT_MUL), (''floatdiv'', OP_FLOAT_DIV), (''floatadd'', OP_FLOAT_ADD),
     (''floatsub'', OP_FLOAT_SUB), (''float'', OP_FLOAT_TO), (''floatround'', OP_FLOAT_ROUND), (''floatcmp'', OP_FLOAT_CMP)]"

abbreviation (input) float_names :: "string list" where
  "float_names \<equiv> map fst float_natives"

lemma op_trans_table_natives: "op_trans_table = map snd float_natives"
  by (simp add: op_trans_table_def float_natives_def)

definition selected :: "cell \<Rightarrow> bool \<Rightarrow> nat \<Rightarrow> bool" where
  "selected g_opt_level cpu i \<longleftrightarrow>
     (if i < 4 then g_opt_level AND 1 \<noteq> 0 else if i < 6 then g_opt_level AND 4 \<noteq> 0 else g_opt_level AND 2 \<noteq> 0 \<and> cpu)"

definition native_number :: "string list \<Rightarrow> string \<Rightarrow> int" where
  "native_number ns name = (case find_op name ns of None \<Rightarrow> - 1 | Some k \<Rightarrow> int k)"

lemma find_natives_spec:
  assumes "table_holds a (hdr_natives (header a)) (hdr_libraries (header a)) ents" "names_fit (map fst ents)"
  shows "find_natives g_opt_level cpu a =
    Inr (map (\<lambda>i. if selected g_opt_level cpu i then native_number (map fst ents) (float_names ! i) else - 1) [0..<7])"
proof -
  have f: "FIND_NATIVE a name i natives = Inr (natives[i := native_number (map fst ents) name])"
    if "cstring name" "natives ! i = - 1" for name i natives
    using FindNative_spec [OF assms that(1)] that(2) list_update_id [of natives i]
    by (auto simp: FIND_NATIVE_def native_number_def split: option.split)
  have c: "cstring ''floatmul''" "cstring ''floatdiv''" "cstring ''floatadd''" "cstring ''floatsub''" "cstring ''float''"
    "cstring ''floatround''" "cstring ''floatcmp''" by (simp_all add: cstring_def NUL_def)
  have u: "[0..<7] = [0, 1, 2, 3, 4, 5, 6 :: nat]" by (simp add: upt_rec)
  have r: "replicate 7 x = [x, x, x, x, x, x, x]" for x :: int by (simp add: numeral_eq_Suc)
  note ff = f [OF c(1)] f [OF c(2)] f [OF c(3)] f [OF c(4)] f [OF c(5)] f [OF c(6)] f [OF c(7)]
  show ?thesis
    unfolding find_natives_def u list.map selected_def float_natives_def N_Total_FloatOps_def r
    by (cases "g_opt_level AND 1 = 0"; cases "g_opt_level AND 4 = 0"; cases "g_opt_level AND 2 = 0 \<or> \<not> cpu") (auto simp: ff)
qed


subsection \<open>\<open>amx_Init\<close>\<close>

text \<open>C6: What the assembler writes in compact form, the loader turns into a machine ready to run, with the
  optimizer's hook or, when the optimizer is switched off, without a hook. Let
  the cells of the instructions and of the data be written without a failure and without
  outgrowing the plain form, and let a valid header place them in an image of \<open>stp\<close> bytes; with the hook,
  let its lookup of natives in the tables of the image succeed. Then
  \<open>amx_Init\<close> succeeds whatever the rest of the image holds; the code is that of the assembler with
  the code addresses made absolute and, with the hook, the calls of the natives it has found replaced; the
  data starts with the assembler's, fills the block up to \<open>stp\<close> and ends with a zero cell, heap and
  stack are empty at its two ends, and the program is marked as relocated.
\<close>

theorem init_assembled:
  assumes "appending w0" "bytes_in w0 = 0" "bytes_out w0 = 0"
    and "seq (map (write_encoded True) (program_cells is @ ds)) w0 = Inr w1" "bytes_out w1 - bytes_in w1 \<le> 0"
    and "z = drop (length (bin_bytes (fbin w0))) (bin_bytes (fbin w1))" "list_all assembled is"
    and "program = pre0 @ z @ pad" "hdr = read_header program" "check_header hdr program = Inr None" "56 \<le> length pre0"
    and "hdr_flags hdr AND AMX_FLAG_COMPACT \<noteq> 0" "hdr_cod hdr = int (length pre0)" "hdr_size hdr = int (length pre0 + length z)"
    and "hdr_dat hdr = int (length pre0 + 4 * length (program_cells is))" "hdr_hea hdr = hdr_dat hdr + 4 * int (length ds)"
    and "hdr_stp hdr = int (length program)" "hdr_hea hdr + 4 \<le> hdr_stp hdr" "length spare = COMPACTMARGIN"
    and "amx_flags a AND AMX_FLAG_RELOC = 0"
    and "hook = None \<and> natives = [] \<or>
      hook = SetupOptimizer g_opt_level cpu \<and> find_natives g_opt_level cpu (a\<lparr>header := hdr, img := pre0\<rparr>) = Inr natives"
  shows "\<exists>a'. amx_Init hook spare addr program a = Inr (AMX_ERR_NONE, a') \<and>
    code a' = cells (program_cells (loaded_instrs (float_calls natives) (addr + of_nat (length pre0)) is)) \<and>
    optimizer a' = (if hook = None then optimizer a else Some natives) \<and>
    take (4 * length ds) (data a') = cells ds \<and> int (length (data a')) = hdr_stp hdr - hdr_dat hdr \<and>
    load_cell (data a') (hdr_stp hdr - hdr_dat hdr - 4) = Inr 0 \<and>
    amx_hea a' = of_nat (4 * length ds) \<and> amx_hlw a' = amx_hea a' \<and>
    amx_stp a' = of_int (hdr_stp hdr - hdr_dat hdr - 4) \<and> amx_stk a' = amx_stp a' \<and> amx_flags a' AND AMX_FLAG_RELOC \<noteq> 0"
proof (cases "hook = None")
  case True
  then have n: "natives = []" using assms(21) by (auto simp: SetupOptimizer_def)
  have "begin_hook None b = Inr (b\<lparr>optimizer := optimizer a\<rparr>) \<and> True" if "optimizer b = optimizer a" for b
    using that by (cases b) (simp add: begin_hook_def)
  from no_hook.init_written [OF assms(1-20), where u = "optimizer a", OF this] show ?thesis
    using True n by (simp add: float_calls_none)
next
  case False
  then have h: "hook = SetupOptimizer g_opt_level cpu" "find_natives g_opt_level cpu (a\<lparr>header := hdr, img := pre0\<rparr>) = Inr natives"
    using assms(21) by auto
  have "begin_hook (SetupOptimizer g_opt_level cpu) b = Inr (b\<lparr>optimizer := Some natives\<rparr>) \<and> optimizer (b\<lparr>optimizer := Some natives\<rparr>) = Some natives"
    if "header b = hdr" "img b = pre0" for b
  proof -
    have "find_natives g_opt_level cpu b = Inr natives"
      using h(2) find_natives_tables [of b "a\<lparr>header := hdr, img := pre0\<rparr>"] that by simp
    then show ?thesis by (simp add: begin_hook_def SetupOptimizer_def Setup_Optimizer_Stage2_def)
  qed
  from float_hook.init_written [OF assms(1-20), where u = "Some natives", OF this] show ?thesis
    unfolding if_not_P [OF False] unfolding h(1) .
qed

text \<open>
  An image to try: a native function in the table, four instructions that call it, and one cell of
  data, in 220 bytes.
\<close>

definition float_header :: "byte list" where
  "float_header = cells [85, 0x0808f1e0, 0x00080004, 76, 100, 104, 220, 0, 56, 56, 64, 64, 64, 64] @
     cells [0, 66] @ [63, 0] @ map of_char ''floatmul'' @ [0, 0]"

definition float_instrs :: "asm_instr list" where
  "float_instrs = [With_number OP_HALT 0, Plain OP_PROC, With_number OP_SYSREQ_C 0, Plain OP_RETN]"

definition float_code :: "byte list" where
  "float_code = [0x80, 0x78, 0, 46, 0x80, 0x7b, 0, 48, 7]"

definition blank :: amx where
  "blank = sample\<lparr>amx_flags := 0\<rparr>"

lemma float_written: "map_sum id (\<lambda>w. (bytes_out w, bytes_in w, bin_bytes (fbin w)))
   (seq (map (write_encoded True) (program_cells float_instrs @ [7])) empty_image) = Inr (9, 28, float_code)"
  by code_simp

lemma written_byI: "OPCODE op n sIN_CSEG f \<in> set opcodelist \<Longrightarrow> f \<in> procs \<Longrightarrow> written_by procs op"
  unfolding written_by_def by force

lemma float_opcodes:
  "OPCODE 120 (Some ''halt'') sIN_CSEG Parm1 \<in> set opcodelist" "OPCODE 46 (Some ''proc'') sIN_CSEG Parm0 \<in> set opcodelist"
  "OPCODE 123 (Some ''sysreq.c'') sIN_CSEG Parm1 \<in> set opcodelist" "OPCODE 48 (Some ''retn'') sIN_CSEG Parm0 \<in> set opcodelist"
  by (simp_all add: opcodelist_def)

lemma float_assembled: "list_all assembled float_instrs"
  using float_opcodes [THEN written_byI] by (simp add: float_instrs_def)

abbreviation (input) float_image :: amx where
  "float_image \<equiv> blank\<lparr>header := read_header (float_header @ float_code @ replicate 135 1), img := float_header\<rparr>"

lemma float_table:
  "table_holds float_image 56 64 [(''floatmul'', 0)]"
  unfolding table_holds_def by simp code_simp


theorem init_assembled_witness:
  "\<exists>a'. amx_Init (SetupOptimizer 1 False) (replicate 64 (0, 0)) 0x1000 (float_header @ float_code @ replicate 135 1) blank =
       Inr (AMX_ERR_NONE, a') \<and>
     code a' = cells [120, 0, 46, of_nat OP_FLOAT_MUL, of_nat OP_NOP, 48]"
proof -
  obtain w where w: "seq (map (write_encoded True) (program_cells float_instrs @ [7])) empty_image = Inr w"
    "bytes_out w = 9" "bytes_in w = 28" "bin_bytes (fbin w) = float_code"
    using float_written by (cases "seq (map (write_encoded True) (program_cells float_instrs @ [7])) empty_image") auto
  have e: "appending empty_image" "bytes_in empty_image = 0" "bytes_out empty_image = 0" "bin_bytes (fbin empty_image) = []"
    by (simp_all add: appending_def empty_image_def)
  let ?p = "float_header @ float_code @ replicate 135 1"
  let ?h = "read_header ?p"
  have h: "hdr_flags ?h = 4" "hdr_cod ?h = 76" "hdr_size ?h = 85" "hdr_dat ?h = 100" "hdr_hea ?h = 104" "hdr_stp ?h = 220"
    "check_header ?h ?p = Inr None"
    by code_simp+
  have l: "length float_header = 76" "length float_code = 9" "length (program_cells float_instrs) = 6"
    by (simp_all add: float_header_def float_code_def float_instrs_def program_cells_def)
  have n: "find_natives 1 False (blank\<lparr>header := ?h, img := float_header\<rparr>) = Inr [0, -1, -1, -1, -1, -1, -1]"
  proof -
    have "hdr_natives ?h = 56" "hdr_libraries ?h = 64" by code_simp+
    then show ?thesis
      using find_natives_spec [of float_image "[(''floatmul'', 0)]" 1 False] float_table
      by (simp add: names_fit_def cstring_def NUL_def AmxTables.sNAMEMAX_def selected_def float_natives_def native_number_def upt_rec)
  qed
  have c: "program_cells (loaded_instrs (float_calls [0, -1, -1, -1, -1, -1, -1]) 0x104c float_instrs) =
      [120, 0, 46, of_nat OP_FLOAT_MUL, of_nat OP_NOP, 48]"
    by (simp add: float_instrs_def program_cells_def loaded_instrs_def float_calls_def op_trans_table_def)
  have "\<exists>a'. amx_Init (SetupOptimizer 1 False) (replicate 64 (0, 0)) 0x1000 ?p blank = Inr (AMX_ERR_NONE, a') \<and>
    code a' = cells (program_cells (loaded_instrs (float_calls [0, -1, -1, -1, -1, -1, -1]) (0x1000 + of_nat (length float_header)) float_instrs))"
    using init_assembled [OF e(1-3) w(1) _ _ float_assembled refl refl h(7), of "replicate 64 (0, 0)" blank
        "SetupOptimizer 1 False" "[0, -1, -1, -1, -1, -1, -1]" 1 False "0x1000"] n
    by (auto simp: h l w e COMPACTMARGIN_def AMX_FLAG_COMPACT_def blank_def)
  then show ?thesis by (auto simp: l c)
qed

end
