(* ===== verification/AmxText.thy ===== *)
theory AmxText
  imports AmxTables Machine
begin

text \<open>
  The functions of \<open>src/amxmodx/amx.cpp\<close> with which the host reads and writes the memory of
  the machine: the stack and heap (\<open>amx_Push\<close>, \<open>amx_Allot\<close>, \<open>amx_Release\<close>), addresses
  (\<open>amx_GetAddr\<close>), strings (\<open>amx_StrLen\<close>, \<open>amx_SetString\<close>, \<open>amx_GetString\<close> and the
  older pair) and UTF-8.

  A \<open>cell *\<close> into a block is the block with an offset; \<open>None\<close> is the null pointer. The file
  defines \<open>AMX_ANSIONLY\<close>, so wide characters are left out; \<open>char\<close> is signed.
\<close>

subsection \<open>Addresses, the stack and the heap\<close>

definition amx_GetAddr :: "amx \<Rightarrow> cell \<Rightarrow> fault + int \<times> int option" where
  "amx_GetAddr a addr =
     (if hdr_magic (header a) \<noteq> AMX_MAGIC then Inl AssertFail
      else if (sint addr \<ge> sint (amx_hea a) \<and> sint addr < sint (amx_stk a)) \<or> sint addr < 0 \<or> sint addr \<ge> sint (amx_stp a)
      then Inr (AMX_ERR_MEMACCESS, None)
      else Inr (AMX_ERR_NONE, Some (sint addr)))"

text \<open>
  \<open>cells*sizeof(cell)\<close> is unsigned, so the free space is computed and compared as an unsigned
  number. The result has \<open>*amx_addr\<close>, which is the offset of \<open>*phys_addr\<close> too.
\<close>

definition amx_Allot :: "int \<Rightarrow> amx \<Rightarrow> fault + int \<times> cell option \<times> amx" where
  "amx_Allot n a =
     (if hdr_magic (header a) \<noteq> AMX_MAGIC then Inl AssertFail
      else if uint (amx_stk a - amx_hea a - of_int n * 4) < uint STKMARGIN then Inr (AMX_ERR_MEMORY, None, a)
      else Inr (AMX_ERR_NONE, Some (amx_hea a), a\<lparr>amx_hea := amx_hea a + of_int n * 4\<rparr>))"

definition amx_Release :: "cell \<Rightarrow> amx \<Rightarrow> int \<times> amx" where
  "amx_Release addr a = (AMX_ERR_NONE, if sint (amx_hea a) > sint addr then a\<lparr>amx_hea := addr\<rparr> else a)"

definition amx_Push :: "cell \<Rightarrow> amx \<Rightarrow> fault + int \<times> amx" where
  "amx_Push v a =
     (if sint (amx_hea a + STKMARGIN) > sint (amx_stk a) then Inr (AMX_ERR_STACKERR, a)
      else let s = amx_stk a - 4
           in bind_res (store_cell (sint s) v (data a)) (\<lambda>d.
                Inr (AMX_ERR_NONE, a\<lparr>amx_stk := s, paramcount := paramcount a + 1, data := d\<rparr>)))"

definition amx_PushArray :: "cell list \<Rightarrow> amx \<Rightarrow> fault + int \<times> cell option \<times> amx" where
  "amx_PushArray array a =
     bind_res (amx_Allot (int (length array)) a) (\<lambda>(err, addr, a).
       case addr of
         None \<Rightarrow> Inr (err, None, a)
       | Some p \<Rightarrow> bind_res (memcpy (data a) (sint p) (cells array)) (\<lambda>d.
                   bind_res (amx_Push p (a\<lparr>data := d\<rparr>)) (\<lambda>(err, a). Inr (err, Some p, a))))"

subsection \<open>Strings\<close>

definition UNPACKEDMAX :: int where "UNPACKEDMAX = 0xffffff"
definition UNLIMITED :: int where "UNLIMITED = 0x7fffffff"
definition CHARMASK :: cell where "CHARMASK = 0xff000000"

text \<open>\<open>while ((c & CHARMASK)!=0) len++\<close>, at most once for each of the four bytes.\<close>

fun tail_chars :: "nat \<Rightarrow> cell \<Rightarrow> nat" where
  "tail_chars 0 c = 0"
| "tail_chars (Suc n) c = (if c AND CHARMASK \<noteq> 0 then Suc (tail_chars n (push_bit 8 c)) else 0)"

text \<open>\<open>for (len=0; cstr[len]!=0; len++)\<close>, with as many turns as the block has bytes.\<close>

fun count_cells :: "nat \<Rightarrow> byte list \<Rightarrow> int \<Rightarrow> fault + nat" where
  "count_cells 0 blk p = Inl NoFuel"
| "count_cells (Suc n) blk p =
     bind_res (load_cell blk p) (\<lambda>v. if v \<noteq> 0 then bind_res (count_cells n blk (p + 4)) (\<lambda>l. Inr (Suc l)) else Inr 0)"

definition amx_StrLen :: "byte list \<Rightarrow> int option \<Rightarrow> fault + int \<times> nat" where
  "amx_StrLen blk cstr =
     (case cstr of
        None \<Rightarrow> Inr (AMX_ERR_PARAMS, 0)
      | Some p \<Rightarrow> bind_res (load_cell blk p) (\<lambda>v.
          if uint v > UNPACKEDMAX
          then bind_res (cstr_at (map byte_char blk) (nat p)) (\<lambda>s.
               let len = length s
               in bind_res (load_cell blk (p + int (4 * (len div 4)))) (\<lambda>c.
                    Inr (AMX_ERR_NONE, len - len mod 4 + tail_chars 4 c)))
          else bind_res (count_cells (Suc (length blk)) blk p) (\<lambda>len. Inr (AMX_ERR_NONE, len))))"

definition char_byte :: "char \<Rightarrow> byte" where
  "char_byte c = of_nat (ord c)"

text \<open>\<open>swap32\<close> on the cell at an offset, and the loop over the cells from \<open>n\<close> down to 0.\<close>

definition swap32 :: "cell \<Rightarrow> cell" where
  "swap32 v = of_le (rev (le_bytes 4 v))"

definition swapcell :: "int \<Rightarrow> byte list \<Rightarrow> fault + byte list" where
  "swapcell p blk = bind_res (load_cell blk p) (\<lambda>v. store_cell p (swap32 v) blk)"

fun swap_cells :: "nat \<Rightarrow> int \<Rightarrow> byte list \<Rightarrow> fault + byte list" where
  "swap_cells 0 p blk = Inr blk"
| "swap_cells (Suc n) p blk = bind_res (swapcell (p + 4 * int n) blk) (swap_cells n p)"

text \<open>\<open>for (i=0; i<len; i++) dest[i]=f(source[i])\<close>\<close>

fun put_cells :: "(char \<Rightarrow> cell) \<Rightarrow> string \<Rightarrow> int \<Rightarrow> byte list \<Rightarrow> fault + byte list" where
  "put_cells f [] p blk = Inr blk"
| "put_cells f (c # s) p blk = bind_res (store_cell p (f c) blk) (put_cells f s (p + 4))"

definition signed_char :: "char \<Rightarrow> cell" where
  "signed_char c = scast (char_byte c)"

definition unsigned_char :: "char \<Rightarrow> cell" where
  "unsigned_char c = ucast (char_byte c)"

text \<open>
  \<open>amx_SetString(dest,source,pack,0,size)\<close>. A packed string in a block of size 0 has the
  length -1, which becomes a huge unsigned index.
\<close>

definition amx_SetString :: "string \<Rightarrow> bool \<Rightarrow> int \<Rightarrow> int \<Rightarrow> byte list \<Rightarrow> fault + byte list" where
  "amx_SetString source pack maxlen p blk =
     (if pack
      then let len = (if maxlen < UNLIMITED div 4 \<and> int (length source) \<ge> maxlen * 4 then maxlen * 4 - 1 else int (length source))
           in if len < 0 then Inl OutOfBounds
              else bind_res (store_cell (p + 4 * (len div 4)) 0 blk) (\<lambda>blk.
                   bind_res (memcpy blk p (map char_byte (take (nat len) source))) (\<lambda>blk.
                     swap_cells (nat (len div 4) + 1) p blk))
      else let len = (if maxlen < UNLIMITED \<and> int (length source) \<ge> maxlen then maxlen - 1 else int (length source))
           in bind_res (put_cells signed_char (take (nat len) source) p blk) (\<lambda>blk. store_cell (p + 4 * len) 0 blk))"

text \<open>
  \<open>amx_GetString(dest,source,0,maxlen)\<close> into a buffer; writing behind its end is
  \<open>OutOfBounds\<close>. The packed loop: \<open>i\<close> is the byte in the cell \<open>c\<close>; the bound is the room.
\<close>

definition put_char :: "char \<Rightarrow> nat \<Rightarrow> string \<Rightarrow> fault + string" where
  "put_char c i dest = (if i < length dest then Inr (dest[i := c]) else Inl OutOfBounds)"

definition char_of_cell :: "cell \<Rightarrow> nat \<Rightarrow> char" where
  "char_of_cell c i = byte_char (ucast (drop_bit (8 * i) c))"

fun get_packed :: "nat \<Rightarrow> byte list \<Rightarrow> int \<Rightarrow> cell \<Rightarrow> nat \<Rightarrow> nat \<Rightarrow> int \<Rightarrow> string \<Rightarrow> fault + nat \<times> string" where
  "get_packed 0 blk p c i len maxlen dest = Inl NoFuel"
| "get_packed (Suc fuel) blk p c i len maxlen dest =
     (if \<not> int len < maxlen then Inr (len, dest)
      else bind_res (if i = 3 then bind_res (load_cell blk p) (\<lambda>c. Inr (c, p + 4)) else Inr (c, p)) (\<lambda>(c, p).
           bind_res (put_char (char_of_cell c i) len dest) (\<lambda>dest.
             if char_of_cell c i = NUL then Inr (len + 1, dest)
             else get_packed fuel blk p c ((i + 3) mod 4) (len + 1) maxlen dest)))"

fun get_unpacked :: "nat \<Rightarrow> byte list \<Rightarrow> int \<Rightarrow> nat \<Rightarrow> int \<Rightarrow> string \<Rightarrow> fault + nat \<times> string" where
  "get_unpacked 0 blk p len maxlen dest = Inl NoFuel"
| "get_unpacked (Suc fuel) blk p len maxlen dest =
     bind_res (load_cell blk p) (\<lambda>v.
       if v \<noteq> 0 \<and> int len < maxlen
       then bind_res (put_char (char_of_cell v 0) len dest) (get_unpacked fuel blk (p + 4) (len + 1) maxlen)
       else Inr (len, dest))"

definition amx_GetString :: "byte list \<Rightarrow> int \<Rightarrow> int \<Rightarrow> string \<Rightarrow> fault + string" where
  "amx_GetString blk p maxlen dest =
     bind_res (load_cell blk p) (\<lambda>v.
     bind_res (if uint v > UNPACKEDMAX then get_packed (Suc (length dest)) blk p 0 3 0 maxlen dest
               else get_unpacked (Suc (length dest)) blk p 0 maxlen dest) (\<lambda>(len, dest).
       let len = (if int len \<ge> maxlen then maxlen - 1 else int len)
       in if len \<ge> 0 then put_char NUL (nat len) dest else Inr dest))"

text \<open>The older pair: a packed destination is left alone, and there is no bound.\<close>

definition amx_SetStringOld :: "string \<Rightarrow> bool \<Rightarrow> int \<Rightarrow> byte list \<Rightarrow> fault + byte list" where
  "amx_SetStringOld source pack p blk =
     (if pack then Inr blk
      else bind_res (put_cells unsigned_char source p blk) (\<lambda>blk. store_cell (p + 4 * int (length source)) 0 blk))"

fun get_packed_old :: "nat \<Rightarrow> byte list \<Rightarrow> int \<Rightarrow> cell \<Rightarrow> nat \<Rightarrow> nat \<Rightarrow> string \<Rightarrow> fault + nat \<times> string" where
  "get_packed_old 0 blk p c i len dest = Inl NoFuel"
| "get_packed_old (Suc fuel) blk p c i len dest =
     bind_res (if i = 3 then bind_res (load_cell blk p) (\<lambda>c. Inr (c, p + 4)) else Inr (c, p)) (\<lambda>(c, p).
     bind_res (put_char (char_of_cell c i) len dest) (\<lambda>dest.
       if char_of_cell c i = NUL then Inr (len + 1, dest)
       else get_packed_old fuel blk p c ((i + 3) mod 4) (len + 1) dest))"

fun get_unpacked_old :: "nat \<Rightarrow> byte list \<Rightarrow> int \<Rightarrow> nat \<Rightarrow> string \<Rightarrow> fault + nat \<times> string" where
  "get_unpacked_old 0 blk p len dest = Inl NoFuel"
| "get_unpacked_old (Suc fuel) blk p len dest =
     bind_res (load_cell blk p) (\<lambda>v.
       if v \<noteq> 0 then bind_res (put_char (char_of_cell v 0) len dest) (get_unpacked_old fuel blk (p + 4) (len + 1))
       else Inr (len, dest))"

definition amx_GetStringOld :: "byte list \<Rightarrow> int \<Rightarrow> string \<Rightarrow> fault + string" where
  "amx_GetStringOld blk p dest =
     bind_res (load_cell blk p) (\<lambda>v.
     bind_res (if uint v > UNPACKEDMAX then get_packed_old (Suc (length dest)) blk p 0 3 0 dest
               else get_unpacked_old (Suc (length dest)) blk p 0 dest) (\<lambda>(len, dest). put_char NUL len dest))"

definition amx_PushString :: "string \<Rightarrow> bool \<Rightarrow> amx \<Rightarrow> fault + int \<times> cell option \<times> amx" where
  "amx_PushString s pack a =
     (let n = int (length s) + 1
      in bind_res (amx_Allot (if pack then (n + 3) div 4 else n) a) (\<lambda>(err, addr, a).
        case addr of
          None \<Rightarrow> Inr (err, None, a)
        | Some p \<Rightarrow> bind_res (amx_SetString s pack UNLIMITED (sint p) (data a)) (\<lambda>d.
                    bind_res (amx_Push p (a\<lparr>data := d\<rparr>)) (\<lambda>(err, a). Inr (err, Some p, a)))))"

end
