(* ===== verification/AmxUtf8.thy ===== *)
theory AmxUtf8
  imports AmxText
begin

text \<open>
  UTF-8 in \<open>src/amxmodx/amx.cpp\<close>: \<open>amx_UTF8Get\<close> and \<open>amx_UTF8Put\<close> decode and encode a
  character, \<open>amx_UTF8Check\<close> tests a string and \<open>amx_UTF8Len\<close> measures a wide one. The
  decoder accepts exactly what the encoder writes.
\<close>

subsection \<open>The functions\<close>

definition utf8_count :: "nat list" where
  "utf8_count = [0, 0, 0, 0, 0, 0, 0, 0, 1, 1, 1, 1, 2, 2, 3, 4]"

definition utf8_lowmark :: "int list" where
  "utf8_lowmark = [0x80, 0x800, 0x10000, 0x200000, 0x4000000]"

text \<open>The \<open>switch\<close> that falls through: as many follow-up bytes as are left.\<close>

fun follow_up :: "nat \<Rightarrow> string \<Rightarrow> cell \<Rightarrow> cell option" where
  "follow_up 0 s r = Some r"
| "follow_up (Suc n) s r =
     (let c = char_byte (deref s)
      in if c AND 0xc0 \<noteq> 0x80 then None else follow_up n (tl s) (push_bit 6 r OR ucast (c AND 0x3f)))"

definition reserved :: "int \<Rightarrow> bool" where
  "reserved v \<longleftrightarrow> (v \<ge> 0xd800 \<and> v \<le> 0xdfff) \<or> v = 0xfffe \<or> v = 0xffff"

text \<open>The error code, how far \<open>*endptr\<close> is behind the start, and \<open>*value\<close>.\<close>

definition amx_UTF8Get :: "string \<Rightarrow> int \<times> nat \<times> cell" where
  "amx_UTF8Get s =
     (let c = char_byte (deref s)
      in if c < 0x80 then (AMX_ERR_NONE, 1, ucast c)
         else if c < 0xc0 \<or> c \<ge> 0xfe then (AMX_ERR_PARAMS, 0, 0)
         else let followup = utf8_count ! unat (drop_bit 2 c AND 0x0f)
              in case follow_up (followup + 1) (tl s) (ucast (c AND drop_bit followup 0x1f)) of
                   None \<Rightarrow> (AMX_ERR_PARAMS, 0, 0)
                 | Some r \<Rightarrow>
                     if sint r < utf8_lowmark ! followup \<or> reserved (sint r) then (AMX_ERR_PARAMS, 0, 0)
                     else (AMX_ERR_NONE, followup + 2, r))"

text \<open>\<open>(char)((value>>k) & m | mark)\<close>\<close>

definition utf8_char :: "cell \<Rightarrow> nat \<Rightarrow> cell \<Rightarrow> cell \<Rightarrow> char" where
  "utf8_char v k m mark = byte_char (ucast ((drop_bit k v AND m) OR mark))"

text \<open>The error code and what is stored.\<close>

definition amx_UTF8Put :: "int \<Rightarrow> cell \<Rightarrow> int \<times> string" where
  "amx_UTF8Put maxchars value =
     (let v = sint value; cont = (\<lambda>k. utf8_char value k 0x3f 0x80)
      in if v < 0x80 then
           if maxchars < 1 then (AMX_ERR_PARAMS, []) else (AMX_ERR_NONE, [byte_char (ucast value)])
         else if v < 0x800 then
           if maxchars < 2 then (AMX_ERR_PARAMS, []) else (AMX_ERR_NONE, [utf8_char value 6 0x1f 0xc0, cont 0])
         else if v < 0x10000 then
           if maxchars < 3 then (AMX_ERR_PARAMS, [])
           else if reserved v then (AMX_ERR_PARAMS, [])
           else (AMX_ERR_NONE, [utf8_char value 12 0x0f 0xe0, cont 6, cont 0])
         else if v < 0x200000 then
           if maxchars < 4 then (AMX_ERR_PARAMS, [])
           else (AMX_ERR_NONE, [utf8_char value 18 0x07 0xf0, cont 12, cont 6, cont 0])
         else if v < 0x4000000 then
           if maxchars < 5 then (AMX_ERR_PARAMS, [])
           else (AMX_ERR_NONE, [utf8_char value 24 0x03 0xf8, cont 18, cont 12, cont 6, cont 0])
         else
           if maxchars < 6 then (AMX_ERR_PARAMS, [])
           else (AMX_ERR_NONE, [utf8_char value 30 0x01 0xfc, cont 24, cont 18, cont 12, cont 6, cont 0]))"

text \<open>\<open>while (err==AMX_ERR_NONE && *string!=0)\<close>\<close>

function utf8_check_loop :: "string \<Rightarrow> nat \<Rightarrow> int \<times> nat" where
  "utf8_check_loop s len =
     (if s = [] then (AMX_ERR_NONE, len)
      else let (err, n, v) = amx_UTF8Get s
           in if err = AMX_ERR_NONE then utf8_check_loop (drop n s) (len + 1) else (err, len + 1))"
  by pat_completeness auto
termination
  by (relation "measure (length \<circ> fst)")
    (auto simp: amx_UTF8Get_def Let_def split: if_splits option.splits)

declare utf8_check_loop.simps [simp del]

definition amx_UTF8Check :: "string \<Rightarrow> int \<times> nat" where
  "amx_UTF8Check s = utf8_check_loop s 0"

text \<open>The loop over the cells of an unpacked string, with a buffer of ten characters.\<close>

fun utf8_len_loop :: "nat \<Rightarrow> byte list \<Rightarrow> int \<Rightarrow> nat \<Rightarrow> fault + nat" where
  "utf8_len_loop 0 blk p count = Inr count"
| "utf8_len_loop (Suc n) blk p count =
     bind_res (load_cell blk p) (\<lambda>v. utf8_len_loop n blk (p + 4) (count + length (snd (amx_UTF8Put 10 v))))"

definition amx_UTF8Len :: "byte list \<Rightarrow> int option \<Rightarrow> fault + int \<times> nat" where
  "amx_UTF8Len blk cstr =
     bind_res (amx_StrLen blk cstr) (\<lambda>(err, len).
       case cstr of
         Some p \<Rightarrow>
           if err = AMX_ERR_NONE
           then bind_res (load_cell blk p) (\<lambda>v.
                  if uint v \<le> UNPACKEDMAX then bind_res (utf8_len_loop len blk p 0) (\<lambda>n. Inr (err, n)) else Inr (err, len))
           else Inr (err, len)
       | None \<Rightarrow> Inr (err, len))"

subsection \<open>Bytes\<close>

lemma char_byte_char [simp]: "char_byte (byte_char b) = b"
  using unsigned_less [of b, where 'a = nat] by (simp add: char_byte_def byte_char_def)

lemma byte_char_byte [simp]: "byte_char (char_byte c) = c"
  by (simp add: char_byte_def byte_char_def unat_of_nat)

lemma mask_numerals: "(0x3f :: 'a::len word) = mask 6" "(0x1f :: 'a word) = mask 5" "(0x0f :: 'a word) = mask 4"
  "(0x07 :: 'a word) = mask 3" "(0x03 :: 'a word) = mask 2" "(0x01 :: 'a word) = mask 1"
  by (simp_all add: mask_eq_exp_minus_1)

lemma bit_c0: "bit (0xc0 :: byte) i \<longleftrightarrow> i = 6 \<or> i = 7"
proof -
  have "(0xc0 :: byte) = 2 ^ 7 OR 2 ^ 6" by simp
  then show ?thesis by (simp only: bit_exp_iff bit_or_iff) (auto simp: possible_bit_word)
qed

text \<open>A follow-up byte and the bits it carries.\<close>

lemma follow_byte: "(ucast (take_bit 6 x OR (0x80 :: cell)) :: byte) AND 0xc0 = 0x80"
  "ucast (take_bit 6 (ucast (take_bit 6 x OR (0x80 :: cell)) :: byte)) = take_bit 6 x"
  by (rule bit_word_eqI; auto simp: bit_simps bit_80 bit_c0 simp del: bit_numeral_word_iff)+

lemma join_bits: "push_bit 6 (take_bit k (drop_bit (6 + j) v)) OR take_bit 6 (drop_bit j v) = take_bit (6 + k) (drop_bit j (v :: cell))"
  by (rule bit_word_eqI) (auto simp: bit_simps)

definition follow_chars :: "cell \<Rightarrow> nat \<Rightarrow> string" where
  "follow_chars v n = map (\<lambda>j. utf8_char v (6 * j) 0x3f 0x80) (rev [0..<n])"

lemma follow_chars_simps:
  "follow_chars v 0 = []" "follow_chars v (Suc n) = utf8_char v (6 * n) 0x3f 0x80 # follow_chars v n"
  by (simp_all add: follow_chars_def)

lemma utf8_char_follow: "char_byte (utf8_char v k 0x3f 0x80) = ucast (take_bit 6 (drop_bit k v) OR 0x80)"
  by (simp add: utf8_char_def mask_numerals take_bit_eq_mask)

lemma byte_mask: "(b :: byte) AND 0x3f = take_bit 6 b"
  by (simp add: mask_numerals take_bit_eq_mask)

lemma follow_up_chars:
  "follow_up n (follow_chars v n @ rest) (take_bit k (drop_bit (6 * n) v)) = Some (take_bit (k + 6 * n) v)"
proof (induction n arbitrary: k)
  case (Suc n)
  have "follow_up (Suc n) (follow_chars v (Suc n) @ rest) (take_bit k (drop_bit (6 * Suc n) v)) =
      follow_up n (follow_chars v n @ rest) (push_bit 6 (take_bit k (drop_bit (6 + 6 * n) v)) OR take_bit 6 (drop_bit (6 * n) v))"
    using follow_byte [of "drop_bit (6 * n) v"]
    by (simp add: follow_chars_simps utf8_char_follow Let_def byte_mask)
  also have "\<dots> = Some (take_bit (6 + k + 6 * n) v)" unfolding join_bits by (rule Suc.IH)
  also have "6 + k + 6 * n = k + 6 * Suc n" by simp
  finally show ?case .
qed (simp add: follow_chars_simps)

text \<open>The lead bytes: the number of follow-up bytes less one, the bits of the value in it, the mark.\<close>

definition lead_bits :: "nat list" where "lead_bits = [5, 4, 3, 2, 1]"
definition lead_mark :: "cell list" where "lead_mark = [0xc0, 0xe0, 0xf0, 0xf8, 0xfc]"

definition lead_ok :: "nat \<Rightarrow> cell \<Rightarrow> bool" where
  "lead_ok f x \<longleftrightarrow> (let c = ucast (x OR lead_mark ! f) :: byte
     in 0xc0 \<le> c \<and> c < 0xfe \<and> utf8_count ! unat (drop_bit 2 c AND 0x0f) = f \<and> ucast (c AND drop_bit f 0x1f) = x)"

lemma all_leads: "list_all (\<lambda>f. list_all (\<lambda>n. lead_ok f (of_nat n)) [0..<2 ^ (lead_bits ! f)]) [0..<5]"
  by code_simp

lemma lead_okI:
  assumes "f < 5"
  shows "lead_ok f (take_bit (lead_bits ! f) w)"
proof -
  let ?x = "take_bit (lead_bits ! f) w"
  have x: "unat ?x \<in> set [0..<2 ^ (lead_bits ! f)]" by (simp add: unsigned_take_bit_eq)
  have "list_all (\<lambda>n. lead_ok f (of_nat n)) [0..<2 ^ (lead_bits ! f)]"
    using all_leads assms by (simp add: list_all_iff)
  then have "lead_ok f (of_nat (unat ?x))" using x unfolding list_all_iff by blast
  then show ?thesis by simp
qed

subsection \<open>Encoding and decoding\<close>

definition utf8_ok :: "cell \<Rightarrow> bool" where
  "utf8_ok v \<longleftrightarrow> 0 \<le> sint v \<and> \<not> reserved (sint v)"

definition utf8_seq :: "cell \<Rightarrow> nat \<Rightarrow> string" where
  "utf8_seq v f = utf8_char v (6 * (f + 1)) (mask (lead_bits ! f)) (lead_mark ! f) # follow_chars v (f + 1)"

definition in_range :: "cell \<Rightarrow> nat \<Rightarrow> bool" where
  "in_range v f \<longleftrightarrow> f < 5 \<and> utf8_lowmark ! f \<le> sint v \<and> sint v < [0x800, 0x10000, 0x200000, 0x4000000, 0x80000000] ! f"

lemma length_utf8_seq [simp]: "length (utf8_seq v f) = f + 2"
  by (simp add: utf8_seq_def follow_chars_def)

lemma in_range_bits:
  assumes "in_range v f"
  shows "take_bit (lead_bits ! f + 6 * (f + 1)) v = v"
proof -
  have f: "f = 0 \<or> f = 1 \<or> f = 2 \<or> f = 3 \<or> f = 4" using assms by (auto simp: in_range_def)
  then have "0 \<le> sint v" using assms by (auto simp: in_range_def utf8_lowmark_def)
  then have "uint v = sint v" using uint_cell_bound [of v] by (auto simp: sint_cell split: if_splits)
  then have "uint v < 2 ^ (lead_bits ! f + 6 * (f + 1))" using f assms by (auto simp: in_range_def lead_bits_def)
  then show ?thesis unfolding word_uint_eq_iff unsigned_take_bit_eq by (intro take_bit_int_eq_self) auto
qed

lemma get_seq:
  assumes v: "in_range v f" "\<not> reserved (sint v)"
  shows "amx_UTF8Get (utf8_seq v f @ rest) = (AMX_ERR_NONE, f + 2, v)"
proof -
  let ?x = "take_bit (lead_bits ! f) (drop_bit (6 * (f + 1)) v)" and ?c = "char_byte (hd (utf8_seq v f))"
  have f: "f < 5" using v by (simp add: in_range_def)
  have c: "?c = ucast (?x OR lead_mark ! f)" by (simp add: utf8_seq_def utf8_char_def take_bit_eq_mask)
  have lead: "0xc0 \<le> ?c" "?c < 0xfe" "utf8_count ! unat (drop_bit 2 ?c AND 0x0f) = f" "ucast (?c AND drop_bit f 0x1f) = ?x"
    using lead_okI [OF f, of "drop_bit (6 * (f + 1)) v"] unfolding c by (simp_all only: lead_ok_def Let_def)
  have d: "deref (utf8_seq v f @ rest) = hd (utf8_seq v f)" "tl (utf8_seq v f @ rest) = follow_chars v (f + 1) @ rest"
    by (simp_all add: utf8_seq_def)
  have "\<not> ?c < 0x80" using lead(1) by (simp add: word_less_nat_alt word_le_nat_alt)
  moreover have "follow_up (f + 1) (follow_chars v (f + 1) @ rest) ?x = Some v"
    using follow_up_chars [of "f + 1" v rest "lead_bits ! f"] in_range_bits [OF v(1)] by simp
  moreover have "\<not> ?c < 0xc0" "\<not> 0xfe \<le> ?c" using lead(1,2) by (simp_all add: not_less not_le)
  ultimately show ?thesis using v lead(3,4)
    by (simp add: amx_UTF8Get_def Let_def in_range_def d del: follow_up.simps)
qed

lemma utf8_seq_simps:
  "utf8_seq v 0 = [utf8_char v 6 0x1f 0xc0, utf8_char v 0 0x3f 0x80]"
  "utf8_seq v 1 = [utf8_char v 12 0x0f 0xe0, utf8_char v 6 0x3f 0x80, utf8_char v 0 0x3f 0x80]"
  "utf8_seq v 2 = [utf8_char v 18 0x07 0xf0, utf8_char v 12 0x3f 0x80, utf8_char v 6 0x3f 0x80, utf8_char v 0 0x3f 0x80]"
  "utf8_seq v 3 = [utf8_char v 24 0x03 0xf8, utf8_char v 18 0x3f 0x80, utf8_char v 12 0x3f 0x80, utf8_char v 6 0x3f 0x80,
     utf8_char v 0 0x3f 0x80]"
  "utf8_seq v 4 = [utf8_char v 30 0x01 0xfc, utf8_char v 24 0x3f 0x80, utf8_char v 18 0x3f 0x80, utf8_char v 12 0x3f 0x80,
     utf8_char v 6 0x3f 0x80, utf8_char v 0 0x3f 0x80]"
  by (simp_all add: utf8_seq_def follow_chars_def lead_bits_def lead_mark_def mask_eq_exp_minus_1 upt_rec)

lemma put_seq:
  assumes "utf8_ok v" "0x80 \<le> sint v" "6 \<le> maxchars"
  shows "\<exists>f. in_range v f \<and> amx_UTF8Put maxchars v = (AMX_ERR_NONE, utf8_seq v f)"
proof -
  have b: "sint v < 0x80000000" using uint_cell_bound [of v] by (auto simp: sint_cell)
  note range = in_range_def utf8_lowmark_def and put = amx_UTF8Put_def Let_def
  consider "sint v < 0x800" | "0x800 \<le> sint v" "sint v < 0x10000" | "0x10000 \<le> sint v" "sint v < 0x200000"
    | "0x200000 \<le> sint v" "sint v < 0x4000000" | "0x4000000 \<le> sint v" by linarith
  then show ?thesis
  proof cases
    case 1
    then have "in_range v 0" using assms by (simp add: range)
    moreover have "amx_UTF8Put maxchars v = (AMX_ERR_NONE, utf8_seq v 0)" using 1 assms unfolding utf8_seq_simps by (simp add: put)
    ultimately show ?thesis by blast
  next
    case 2
    then have "in_range v 1" by (simp add: range)
    moreover have "amx_UTF8Put maxchars v = (AMX_ERR_NONE, utf8_seq v 1)"
      using 2 assms unfolding utf8_seq_simps by (simp add: put utf8_ok_def)
    ultimately show ?thesis by blast
  next
    case 3
    then have "in_range v 2" by (simp add: range)
    moreover have "amx_UTF8Put maxchars v = (AMX_ERR_NONE, utf8_seq v 2)" using 3 assms unfolding utf8_seq_simps by (simp add: put)
    ultimately show ?thesis by blast
  next
    case 4
    then have "in_range v 3" by (simp add: range)
    moreover have "amx_UTF8Put maxchars v = (AMX_ERR_NONE, utf8_seq v 3)" using 4 assms unfolding utf8_seq_simps by (simp add: put)
    ultimately show ?thesis by blast
  next
    case 5
    then have "in_range v 4" using b by (simp add: range)
    moreover have "amx_UTF8Put maxchars v = (AMX_ERR_NONE, utf8_seq v 4)" using 5 assms unfolding utf8_seq_simps by (simp add: put)
    ultimately show ?thesis by blast
  qed
qed

subsection \<open>What is decoded was encoded\<close>

lemma follow_byte_inv: "c AND 0xc0 = 0x80 \<Longrightarrow> ucast (take_bit 6 (ucast (c AND 0x3f) :: cell) OR 0x80) = (c :: byte)"
proof (rule bit_word_eqI)
  fix i assume c: "c AND 0xc0 = 0x80" and "i < LENGTH(8)"
  then have "i < 6 \<or> i = 6 \<or> i = 7" by auto
  moreover have "bit c 7" "\<not> bit c 6" using arg_cong [OF c, of "\<lambda>b. bit b 7"] arg_cong [OF c, of "\<lambda>b. bit b 6"]
    by (simp_all add: bit_and_iff bit_80 bit_c0 del: bit_numeral_word_iff)
  ultimately show "bit (ucast (take_bit 6 (ucast (c AND 0x3f) :: cell) OR 0x80) :: byte) i = bit c i"
    by (auto simp: bit_simps bit_80 byte_mask simp del: bit_numeral_word_iff)
qed

lemma follow_up_inv:
  assumes "follow_up n s r = Some v" "take_bit k r = r" "k + 6 * n \<le> 32"
  shows "n \<le> length s \<and> take n s = follow_chars v n \<and> drop_bit (6 * n) v = r"
  using assms
proof (induction n arbitrary: s r k)
  case (Suc n)
  let ?c = "char_byte (deref s)" and ?r = "push_bit 6 r OR ucast (char_byte (deref s) AND 0x3f)"
  have c: "?c AND 0xc0 = 0x80" and nx: "follow_up n (tl s) ?r = Some v"
    using Suc.prems(1) by (auto simp: Let_def split: if_splits)
  then obtain d t where s: "s = d # t" by (cases s) (auto simp: NUL_def char_byte_def)
  have "r = take_bit k r" using Suc.prems(2) by simp
  then have bits: "bit r i \<Longrightarrow> i < k" for i by (metis bit_take_bit_iff)
  have k: "take_bit (6 + k) ?r = ?r"
  proof (rule bit_word_eqI)
    fix i assume "i < LENGTH(32)"
    then show "bit (take_bit (6 + k) ?r) i = bit ?r i" using bits [of "i - 6"] by (auto simp: bit_simps byte_mask)
  qed
  have IH: "n \<le> length t \<and> take n t = follow_chars v n \<and> drop_bit (6 * n) v = ?r"
    using Suc.IH [OF nx k] Suc.prems(3) s by simp
  have "drop_bit 6 ?r = r"
    by (rule bit_word_eqI) (use Suc.prems(3) in \<open>auto simp: bit_simps byte_mask dest: bits\<close>)
  then have r: "drop_bit (6 * Suc n) v = r" using IH by (metis drop_bit_drop_bit mult_Suc_right)
  have "take_bit 6 ?r = take_bit 6 (ucast (?c AND 0x3f))"
    by (rule bit_word_eqI) (auto simp: bit_simps byte_mask)
  then have "char_byte (utf8_char v (6 * n) 0x3f 0x80) = ?c"
    using follow_byte_inv [OF c] IH by (simp add: utf8_char_follow)
  then have "utf8_char v (6 * n) 0x3f 0x80 = d" using s by (metis byte_char_byte deref.simps(2))
  then show ?case using IH r s by (simp add: follow_chars_simps)
qed (simp add: follow_chars_simps)

definition lead_inv :: "byte \<Rightarrow> bool" where
  "lead_inv c \<longleftrightarrow> (let f = utf8_count ! unat (drop_bit 2 c AND 0x0f); x = ucast (c AND drop_bit f 0x1f) :: cell
     in f < 5 \<and> take_bit (lead_bits ! f) x = x \<and> ucast (x OR lead_mark ! f) = c)"

lemma all_lead_inv: "list_all (\<lambda>n. lead_inv (of_nat n)) [0xc0..<0xfe]"
  by code_simp

lemma lead_invI:
  assumes "0xc0 \<le> c" "c < 0xfe"
  shows "lead_inv c"
proof -
  have "unat c \<in> set [0xc0..<0xfe]" unfolding set_upt atLeastLessThan_iff using assms by (simp add: word_le_nat_alt word_less_nat_alt)
  then have "lead_inv (of_nat (unat c))" using all_lead_inv unfolding list_all_iff by blast
  then show ?thesis by simp
qed

lemma in_range_unique: "in_range v f \<Longrightarrow> in_range v g \<Longrightarrow> f = g"
proof -
  assume "in_range v f" "in_range v g"
  moreover from this have "f = 0 \<or> f = 1 \<or> f = 2 \<or> f = 3 \<or> f = 4" "g = 0 \<or> g = 1 \<or> g = 2 \<or> g = 3 \<or> g = 4"
    by (auto simp: in_range_def)
  ultimately show "f = g" by (elim disjE) (simp_all add: in_range_def utf8_lowmark_def)
qed

lemma byte_cell_byte [simp]: "ucast (ucast (b :: byte) :: cell) = b"
  by (rule bit_word_eqI) (simp add: bit_simps)

lemma cell_byte_cell: "0 \<le> sint v \<Longrightarrow> sint v < 0x80 \<Longrightarrow> ucast (ucast v :: byte) = (v :: cell) \<and> (ucast v :: byte) < 0x80"
proof -
  assume "0 \<le> sint v" "sint v < 0x80"
  then have v: "uint v < 128" using uint_cell_bound [of v] by (auto simp: sint_cell split: if_splits)
  then have "take_bit 8 (uint v) = uint v" by (intro take_bit_int_eq_self) auto
  then have u: "uint (ucast v :: byte) = uint v" unfolding unsigned_ucast_eq by simp
  then have "take_bit 32 (uint (ucast v :: byte)) = uint v" using v by (subst u) (intro take_bit_int_eq_self, auto)
  then have "uint (ucast (ucast v :: byte) :: cell) = uint v" unfolding unsigned_ucast_eq [of "ucast v :: byte"] by simp
  then show ?thesis using v u by (simp add: word_less_def word_uint_eq_iff)
qed

lemma joined_less:
  assumes "drop_bit n v = x" "take_bit k x = (x :: cell)"
  shows "uint v < 2 ^ (k + n)"
proof -
  have "bit v i \<Longrightarrow> i < k + n" for i
  proof -
    assume "bit v i"
    then have "bit x (i - n) \<or> i < n" using assms(1) by (auto simp: bit_simps)
    then show "i < k + n" using assms(2) by (metis bit_take_bit_iff less_diff_conv2 not_le trans_less_add2)
  qed
  then have "take_bit (k + n) v = v" by (intro bit_word_eqI) (auto simp: bit_simps)
  then have "uint v = take_bit (k + n) (uint v)" by (metis unsigned_take_bit_eq)
  then show ?thesis by (metis take_bit_int_less_exp)
qed

lemma in_range_low: "in_range v f \<Longrightarrow> 0x80 \<le> sint v"
proof -
  assume v: "in_range v f"
  then have "f = 0 \<or> f = 1 \<or> f = 2 \<or> f = 3 \<or> f = 4" by (auto simp: in_range_def)
  then show "0x80 \<le> sint v" using v by (auto simp: in_range_def utf8_lowmark_def)
qed

lemma get_inv:
  assumes "amx_UTF8Get s = (AMX_ERR_NONE, n, v)" "s \<noteq> []"
  shows "utf8_ok v \<and> n \<le> length s \<and> 0 < n \<and> (sint v < 0x80 \<and> take n s = [byte_char (ucast v)] \<or>
    (\<exists>f. in_range v f \<and> take n s = utf8_seq v f))"
proof -
  obtain d t where s: "s = d # t" using assms(2) by (cases s) auto
  let ?c = "char_byte d"
  show ?thesis
  proof (cases "?c < 0x80")
    case True
    then have n: "n = 1" "v = ucast ?c" using assms(1) by (auto simp: amx_UTF8Get_def s Let_def)
    have "uint ?c < 128" using True by (simp add: word_less_def)
    then have "sint v = uint ?c" using n(2) by (simp add: sint_cell unsigned_ucast_eq take_bit_int_eq_self)
    then show ?thesis using n s \<open>uint ?c < 128\<close> by (simp add: utf8_ok_def reserved_def)
  next
    case False
    define f where "f = utf8_count ! unat (drop_bit 2 ?c AND 0x0f)"
    define x where "x = (ucast (?c AND drop_bit f 0x1f) :: cell)"
    have c: "0xc0 \<le> ?c" "?c < 0xfe" and u: "follow_up (f + 1) t x = Some v" and n: "n = f + 2"
      and v: "utf8_lowmark ! f \<le> sint v" "\<not> reserved (sint v)"
      using assms(1) False by (auto simp: amx_UTF8Get_def s Let_def f_def x_def not_less not_le simp del: follow_up.simps split: if_splits option.splits)
    have lead: "f < 5" "take_bit (lead_bits ! f) x = x" "ucast (x OR lead_mark ! f) = ?c"
      using lead_invI [OF c] unfolding lead_inv_def Let_def f_def [symmetric] x_def [symmetric] by simp_all
    then have f: "f = 0 \<or> f = 1 \<or> f = 2 \<or> f = 3 \<or> f = 4" by auto
    then have k: "lead_bits ! f + 6 * (f + 1) \<le> 32" by (auto simp: lead_bits_def)
    have t: "f + 1 \<le> length t" "take (f + 1) t = follow_chars v (f + 1)" "drop_bit (6 * (f + 1)) v = x"
      using follow_up_inv [OF u lead(2) k] by simp_all
    have "char_byte (utf8_char v (6 * (f + 1)) (mask (lead_bits ! f)) (lead_mark ! f)) = ?c"
      using t(3) lead(2,3) by (simp add: utf8_char_def take_bit_eq_mask)
    then have "utf8_char v (6 * (f + 1)) (mask (lead_bits ! f)) (lead_mark ! f) = d" by (metis byte_char_byte)
    then have "take n s = utf8_seq v f" using t(2) n s by (simp add: utf8_seq_def)
    moreover have "uint v < 2 ^ (lead_bits ! f + 6 * (f + 1))" by (rule joined_less [OF t(3) lead(2)])
    then have "in_range v f" using f v(1) by (auto simp: in_range_def lead_bits_def sint_cell utf8_lowmark_def)
    moreover have "0 \<le> sint v" using v(1) f by (auto simp: utf8_lowmark_def)
    ultimately show ?thesis using v(2) t(1) n s by (auto simp: utf8_ok_def)
  qed
qed

definition utf8_bytes :: "cell \<Rightarrow> string" where
  "utf8_bytes v = snd (amx_UTF8Put 6 v)"

lemma put_ascii: "sint v < 0x80 \<Longrightarrow> 1 \<le> maxchars \<Longrightarrow> amx_UTF8Put maxchars v = (AMX_ERR_NONE, [byte_char (ucast v)])"
  by (simp add: amx_UTF8Put_def)

lemma utf8_encode:
  assumes v: "utf8_ok v" "6 \<le> maxchars"
  shows "amx_UTF8Put maxchars v = (AMX_ERR_NONE, utf8_bytes v) \<and> utf8_bytes v \<noteq> [] \<and> length (utf8_bytes v) \<le> 6 \<and>
    amx_UTF8Get (utf8_bytes v @ rest) = (AMX_ERR_NONE, length (utf8_bytes v), v)"
proof (cases "sint v < 0x80")
  case True
  then show ?thesis using v cell_byte_cell [of v]
    by (simp add: utf8_bytes_def utf8_ok_def amx_UTF8Get_def put_ascii)
next
  case False
  then obtain f g where "in_range v f" "amx_UTF8Put maxchars v = (AMX_ERR_NONE, utf8_seq v f)"
    "in_range v g" "amx_UTF8Put 6 v = (AMX_ERR_NONE, utf8_seq v g)"
    using put_seq [OF v(1), of maxchars] put_seq [OF v(1), of 6] v(2) by auto
  moreover from this have "f = g" by (auto intro: in_range_unique)
  ultimately show ?thesis using get_seq [of v f rest] v(1)
    by (auto simp: utf8_bytes_def utf8_ok_def in_range_def simp flip: length_greater_0_conv)
qed

lemma utf8_decode:
  assumes g: "amx_UTF8Get s = (AMX_ERR_NONE, n, v)" "s \<noteq> []"
  shows "utf8_ok v \<and> n \<le> length s \<and> take n s = utf8_bytes v"
proof (cases "sint v < 0x80")
  case True
  then have "\<not> in_range v f" for f using in_range_low [of v f] by auto
  then show ?thesis using get_inv [OF g] put_ascii [OF True, of 6] by (auto simp: utf8_bytes_def)
next
  case False
  then show ?thesis using get_inv [OF g] put_seq [of v 6] by (auto simp: utf8_bytes_def dest: in_range_unique)
qed

text \<open>C36: Decoding inverts encoding, and only the encoder's sequences are accepted. A character that is not
  negative, a surrogate or one of the two reserved values is encoded in at most six bytes, and the
  decoder, whatever follows them, returns it with their number. And if the decoder accepts the start of a
  text that is not empty, these bytes are the encoding of the value it returns: there are no overlong forms.
\<close>

theorem utf8_roundtrip:
  "(utf8_ok v \<longrightarrow> 6 \<le> maxchars \<longrightarrow> amx_UTF8Put maxchars v = (AMX_ERR_NONE, utf8_bytes v) \<and>
      utf8_bytes v \<noteq> [] \<and> length (utf8_bytes v) \<le> 6 \<and>
      amx_UTF8Get (utf8_bytes v @ rest) = (AMX_ERR_NONE, length (utf8_bytes v), v)) \<and>
    (amx_UTF8Get s = (AMX_ERR_NONE, n, v) \<longrightarrow> s \<noteq> [] \<longrightarrow> utf8_ok v \<and> n \<le> length s \<and> take n s = utf8_bytes v)"
  using utf8_encode [of v maxchars rest] utf8_decode [of s n v] by blast

theorem utf8_roundtrip_witness: "amx_UTF8Get (utf8_bytes 0x20AC @ ''x'') = (AMX_ERR_NONE, 3, 0x20AC)"
  using utf8_roundtrip [of "0x20AC" 6 "''x''"] by (simp add: utf8_ok_def reserved_def utf8_bytes_def amx_UTF8Put_def Let_def)

lemma check_loop_iff:
  "utf8_check_loop s len = (AMX_ERR_NONE, n) \<longleftrightarrow> (\<exists>vs. list_all utf8_ok vs \<and> n = len + length vs \<and> s = concat (map utf8_bytes vs))"
proof (induction s len rule: utf8_check_loop.induct)
  case (1 s len)
  show ?case
  proof (cases "s = []")
    case True
    have "utf8_bytes v \<noteq> []" if "utf8_ok v" for v
      using utf8_encode [of v 6 "[]"] that by simp
    then show ?thesis using True by (subst utf8_check_loop.simps) (auto simp: list_all_iff intro: exI [of _ "[]"])
  next
    case False
    obtain err k v where g: "amx_UTF8Get s = (err, k, v)" by (cases "amx_UTF8Get s")
    have unf: "utf8_check_loop s len = (if err = AMX_ERR_NONE then utf8_check_loop (drop k s) (len + 1) else (err, len + 1))"
      using False g by (subst utf8_check_loop.simps) simp
    have split: "err = AMX_ERR_NONE \<and> w = v \<and> drop k s = concat (map utf8_bytes vs)"
      if "utf8_ok w" "s = utf8_bytes w @ concat (map utf8_bytes vs)" for w vs
      using utf8_encode [of w 6 "concat (map utf8_bytes vs)"] that g by auto
    show ?thesis
    proof (cases "err = AMX_ERR_NONE")
      case True
      have v: "utf8_ok v" "take k s = utf8_bytes v" using utf8_decode [of s k v] g True False by auto
      note IH = "1.IH" [OF False refl g [symmetric] refl True]
      show ?thesis
      proof
        assume "utf8_check_loop s len = (AMX_ERR_NONE, n)"
        then obtain vs where "list_all utf8_ok vs" "n = len + 1 + length vs" "drop k s = concat (map utf8_bytes vs)"
          using IH True unf by auto
        moreover have "s = utf8_bytes v @ drop k s" using v(2) append_take_drop_id [of k s] by simp
        ultimately show "\<exists>vs. list_all utf8_ok vs \<and> n = len + length vs \<and> s = concat (map utf8_bytes vs)"
          using v(1) by (intro exI [of _ "v # vs"]) simp
      next
        assume "\<exists>vs. list_all utf8_ok vs \<and> n = len + length vs \<and> s = concat (map utf8_bytes vs)"
        then obtain ws where ws: "list_all utf8_ok ws" "n = len + length ws" "s = concat (map utf8_bytes ws)" by blast
        then obtain w vs where "ws = w # vs" using False by (cases ws) auto
        then have "utf8_ok w" "list_all utf8_ok vs" "n = len + 1 + length vs" "s = utf8_bytes w @ concat (map utf8_bytes vs)"
          using ws by simp_all
        then show "utf8_check_loop s len = (AMX_ERR_NONE, n)" using split IH True unf by auto
      qed
    next
      case err: False
      have "\<not> (\<exists>vs. list_all utf8_ok vs \<and> s = concat (map utf8_bytes vs))"
      proof
        assume "\<exists>vs. list_all utf8_ok vs \<and> s = concat (map utf8_bytes vs)"
        then obtain ws where ws: "list_all utf8_ok ws" "s = concat (map utf8_bytes ws)" by blast
        then obtain w vs where "ws = w # vs" using False by (cases ws) auto
        then have "utf8_ok w" "s = utf8_bytes w @ concat (map utf8_bytes vs)" using ws by simp_all
        then show False using split err by blast
      qed
      then show ?thesis using err unf by auto
    qed
  qed
qed

text \<open>C37: \<open>amx_UTF8Check\<close> accepts a text exactly when it is a sequence of encoded characters, and
  then counts them.
\<close>

theorem utf8_check_iff:
  "amx_UTF8Check s = (AMX_ERR_NONE, n) \<longleftrightarrow> (\<exists>vs. list_all utf8_ok vs \<and> length vs = n \<and> s = concat (map utf8_bytes vs))"
  unfolding amx_UTF8Check_def check_loop_iff by auto

text \<open>The encoder writes a negative value as one byte, which is not its encoding.\<close>

lemma utf8_put_negative: "amx_UTF8Put 10 (- 1) = (AMX_ERR_NONE, [byte_char 0xff])"
  by code_simp

end
