(* ===== verification/TextFacts.thy ===== *)
theory TextFacts
  imports AmxUtf8 MachineFacts
begin

text \<open>
  Strings in the memory of the machine: what \<open>amx_SetString\<close> stores is measured by
  \<open>amx_StrLen\<close> and read back by \<open>amx_GetString\<close>; the stack and heap of the host's functions.
\<close>

subsection \<open>Bytes of a cell\<close>

lemma le_bytes_zero: "le_bytes n 0 = replicate n 0"
  by (induction n) simp_all

lemma le_bytes_nth: "i < n \<Longrightarrow> le_bytes n v ! i = ucast (drop_bit (8 * i) v)"
proof (induction n arbitrary: i v)
  case (Suc n)
  then show ?case by (cases i) (simp_all add: drop_bit_drop_bit add.commute)
qed simp

lemma bit_of_le_bytes: "bit (of_le bs) j \<longleftrightarrow> j < 8 * length bs \<and> j < 32 \<and> bit (bs ! (j div 8)) (j mod 8)"
proof (induction bs arbitrary: j)
  case (Cons b bs)
  show ?case
  proof (cases "j < 8")
    case True
    then show ?thesis by (simp add: bit_simps)
  next
    case False
    then have "bit (of_le (b # bs)) j \<longleftrightarrow> j < 32 \<and> bit (of_le bs) (j - 8)" by (auto simp: bit_simps dest: bit_imp_le_length)
    moreover have "j div 8 = Suc ((j - 8) div 8)" "j mod 8 = (j - 8) mod 8" using False by (simp_all add: le_div_geq le_mod_geq)
    ultimately show ?thesis using Cons.IH [of "j - 8"] False by auto
  qed
qed simp

lemma of_le_inverse:
  assumes "length bs = 4"
  shows "le_bytes 4 (of_le bs) = bs"
proof (rule nth_equalityI)
  fix i assume "i < length (le_bytes 4 (of_le bs))"
  then have i: "i < 4" by simp
  have "bit (ucast (drop_bit (8 * i) (of_le bs)) :: byte) k \<longleftrightarrow> bit (bs ! i) k" if "k < 8" for k
    using that i assms by (simp add: bit_simps bit_of_le_bytes)
  then have "ucast (drop_bit (8 * i) (of_le bs)) = bs ! i" by (intro bit_word_eqI) auto
  then show "le_bytes 4 (of_le bs) ! i = bs ! i" using i by (simp add: le_bytes_nth)
qed (use assms in simp)

lemma char_of_cell_nth: "i < 4 \<Longrightarrow> char_of_cell c i = byte_char (le_bytes 4 c ! i)"
  by (simp add: char_of_cell_def le_bytes_nth)

lemma char_byte_0 [simp]: "char_byte c = 0 \<longleftrightarrow> c = NUL"
proof -
  have "char_byte NUL = 0" by (simp add: char_byte_def NUL_def)
  then show ?thesis by (metis byte_char_byte)
qed

lemma char_byte_NUL [simp]: "char_byte NUL = 0"
  by simp

subsection \<open>Packed strings\<close>

text \<open>The characters of a packed string in groups of four, the last one filled up with zeros.\<close>

function quads :: "string \<Rightarrow> string list" where
  "quads s = (if length s < 4 then [s @ replicate (4 - length s) NUL] else take 4 s # quads (drop 4 s))"
  by pat_completeness auto
termination by (relation "measure length") auto

declare quads.simps [simp del]

lemma quads_facts:
  "length (quads s) = length s div 4 + 1" "list_all (\<lambda>q. length q = 4) (quads s)"
  "concat (quads s) = s @ replicate (4 - length s mod 4) NUL"
proof (induction s rule: quads.induct)
  case (1 s)
  { case 1 then show ?case using "1.IH"(1) by (subst quads.simps) (auto simp: le_div_geq not_less) }
  { case 2 then show ?case using "1.IH"(2) by (subst quads.simps) auto }
  { case 3 then show ?case using "1.IH"(3)
      by (subst quads.simps) (simp add: le_mod_geq not_less flip: append_assoc) }
qed

definition quad_bytes :: "string list \<Rightarrow> byte list" where
  "quad_bytes qs = concat (map (\<lambda>q. rev (map char_byte q)) qs)"

lemma swap_cell_at:
  assumes "p = int (length pre)" "length q = 4"
  shows "swapcell p (pre @ map char_byte q @ post) = Inr (pre @ rev (map char_byte q) @ post)"
proof -
  have q: "le_bytes 4 (of_le (map char_byte q)) = map char_byte q" by (rule of_le_inverse) (use assms in simp)
  have "load_cell (pre @ le_bytes 4 (of_le (map char_byte q)) @ post) p = Inr (of_le (map char_byte q))"
    by (simp add: load_cell_in in_block_def assms(1))
  moreover have "le_bytes 4 (swap32 (of_le (map char_byte q))) = rev (map char_byte q)"
    unfolding swap32_def by (subst of_le_inverse) (use q assms in simp_all)
  moreover have "store_cell p w (pre @ le_bytes 4 (of_le (map char_byte q)) @ post) = Inr (pre @ le_bytes 4 w @ post)" for w
    by (simp add: store_cell_in in_block_def assms(1))
  ultimately show ?thesis unfolding q by (simp add: swapcell_def)
qed

lemma swap_cells_quads:
  "list_all (\<lambda>q. length q = 4) qs \<Longrightarrow> p = int (length pre) \<Longrightarrow>
   swap_cells (length qs) p (pre @ map char_byte (concat qs) @ post) = Inr (pre @ quad_bytes qs @ post)"
proof (induction qs arbitrary: post rule: rev_induct)
  case (snoc q qs)
  have "length (concat qs) = 4 * length qs" using snoc.prems(1) by (induction qs) auto
  then have "swapcell (p + 4 * int (length qs)) ((pre @ map char_byte (concat qs)) @ map char_byte q @ post) =
      Inr ((pre @ map char_byte (concat qs)) @ rev (map char_byte q) @ post)"
    using snoc.prems by (intro swap_cell_at) auto
  then show ?case using snoc.IH [of "rev (map char_byte q) @ post"] snoc.prems by (simp add: quad_bytes_def)
qed (simp add: quad_bytes_def)

lemma SetString_packed:
  assumes p: "0 \<le> p" "p + 4 * int (length s div 4 + 1) \<le> int (length blk)" and small: "int (length s) < UNLIMITED"
  shows "amx_SetString s True UNLIMITED p blk =
    Inr (take (nat p) blk @ quad_bytes (quads s) @ drop (nat p + 4 * (length s div 4 + 1)) blk)"
proof -
  let ?q = "length s div 4" and ?pre = "take (nat p) blk" and ?post = "drop (nat p + 4 * (length s div 4 + 1)) blk"
  let ?mid = "take (4 * ?q) (drop (nat p) blk)"
  have np: "nat p + 4 * ?q + 4 \<le> length blk" using p by (simp add: nat_le_iff)
  have len: "length s = 4 * ?q + length s mod 4" "length s mod 4 < 4" by simp_all
  have rest: "4 + 4 * ?q - length s = 4 - length s mod 4" "length s - (4 * ?q + 4) = 0" using len by linarith+
  have n: "nat (p + 4 * int ?q) = nat p + 4 * ?q" using p(1) by (simp add: nat_add_distrib)
  have "store_cell (p + 4 * int ?q) 0 blk = Inr (take (nat p + 4 * ?q) blk @ le_bytes 4 0 @ drop (nat p + 4 * ?q + 4) blk)"
    using p n by (simp add: store_cell_in in_block_def)
  also have "take (nat p + 4 * ?q) blk = ?pre @ ?mid" by (simp add: take_add)
  finally have s0: "store_cell (p + 4 * int ?q) 0 blk = Inr (?pre @ ?mid @ replicate 4 0 @ ?post)"
    by (simp add: le_bytes_zero ac_simps)
  have lens: "length ?pre = nat p" "length ?mid = 4 * ?q" using np by simp_all
  have "memcpy (?pre @ ?mid @ replicate 4 0 @ ?post) p (map char_byte s) =
      Inr (take (nat p) (?pre @ ?mid @ replicate 4 0 @ ?post) @ map char_byte s @ drop (nat p + length s) (?pre @ ?mid @ replicate 4 0 @ ?post))"
    using p np lens len by (subst memcpy_in) (auto simp: in_block_def)
  also have "take (nat p) (?pre @ ?mid @ replicate 4 0 @ ?post) = ?pre" using lens by simp
  also have "drop (nat p + length s) (?pre @ ?mid @ replicate 4 0 @ ?post) = replicate (4 - length s mod 4) 0 @ ?post"
    using lens rest by (simp add: drop_replicate)
  finally have s1: "memcpy (?pre @ ?mid @ replicate 4 0 @ ?post) p (map char_byte s) = Inr (?pre @ map char_byte (concat (quads s)) @ ?post)"
    by (simp add: quads_facts(3))
  have s2: "swap_cells (?q + 1) p (?pre @ map char_byte (concat (quads s)) @ ?post) = Inr (?pre @ quad_bytes (quads s) @ ?post)"
    using swap_cells_quads [of "quads s" p ?pre ?post] quads_facts [of s] lens p(1) by simp
  have "int (length s) div 4 = int ?q" by (simp add: zdiv_int)
  then show ?thesis using s0 s1 s2 small
    by (simp add: amx_SetString_def UNLIMITED_def Let_def del: bind_res_Inr swap_cells.simps)
qed

text \<open>What is in memory: the \<open>k\<close>th character is a byte of the \<open>k div 4\<close>th cell, highest first.\<close>

definition packed_at :: "byte list \<Rightarrow> int \<Rightarrow> string \<Rightarrow> bool" where
  "packed_at blk p s \<longleftrightarrow> (\<forall>k \<le> length s. \<exists>c. load_cell blk (p + 4 * int (k div 4)) = Inr c \<and>
     char_of_cell c (3 - k mod 4) = (s @ [NUL]) ! k)"

lemma quad_bytes_at:
  assumes "list_all (\<lambda>q. length q = 4) qs" "j < length qs" "a = int (length pre) + 4 * int j"
  shows "load_cell (pre @ quad_bytes qs @ post) a = Inr (of_le (rev (map char_byte (qs ! j))))"
proof -
  have "quad_bytes qs = cells (map (\<lambda>q. of_le (rev (map char_byte q))) qs)"
    using assms(1) by (induction qs) (simp_all add: quad_bytes_def cells_def of_le_inverse)
  then show ?thesis using load_cells [of j "map (\<lambda>q. of_le (rev (map char_byte q))) qs" a pre post] assms(2,3) by simp
qed

lemma concat_quads_nth:
  assumes "list_all (\<lambda>q. length q = 4) qs" "k < 4 * length qs"
  shows "concat qs ! k = qs ! (k div 4) ! (k mod 4)"
  using assms
proof (induction qs arbitrary: k)
  case (Cons q qs)
  then show ?case by (cases "k < 4") (auto simp: nth_append le_div_geq le_mod_geq)
qed simp

lemma packed_at_quads:
  assumes "p = int (length pre)"
  shows "packed_at (pre @ quad_bytes (quads s) @ post) p s"
  unfolding packed_at_def
proof (intro allI impI)
  fix k assume k: "k \<le> length s"
  let ?q = "quads s ! (k div 4)"
  note q = quads_facts [of s]
  have j: "k div 4 < length (quads s)" using k q(1) by (simp add: div_le_mono less_Suc_eq_le)
  then have len: "length ?q = 4" using q(2) by (simp add: list_all_length)
  have "k < 4 * length (quads s)" using j by linarith
  then have "?q ! (k mod 4) = (s @ replicate (4 - length s mod 4) NUL) ! k"
    using concat_quads_nth [OF q(2)] q(3) by simp
  also have "\<dots> = (s @ [NUL]) ! k" using k by (auto simp: nth_append)
  finally have c: "?q ! (k mod 4) = (s @ [NUL]) ! k" .
  have "rev (map char_byte ?q) ! (3 - k mod 4) = char_byte (?q ! (k mod 4))"
    using len by (subst rev_nth) (simp_all add: Suc_diff_le)
  then have "char_of_cell (of_le (rev (map char_byte ?q))) (3 - k mod 4) = ?q ! (k mod 4)"
    using len by (simp add: char_of_cell_nth of_le_inverse)
  moreover have "load_cell (pre @ quad_bytes (quads s) @ post) (p + 4 * int (k div 4)) = Inr (of_le (rev (map char_byte ?q)))"
    by (rule quad_bytes_at [OF q(2) j]) (simp add: assms)
  ultimately show "\<exists>c. load_cell (pre @ quad_bytes (quads s) @ post) (p + 4 * int (k div 4)) = Inr c \<and>
      char_of_cell c (3 - k mod 4) = (s @ [NUL]) ! k"
    using c by simp
qed

lemma next_byte:
  "(n + 1) mod 4 = (if n mod 4 = 3 then 0 else n mod 4 + 1)" "(n + 1) div 4 = (if n mod 4 = 3 then n div 4 + 1 else n div 4)"
  "(3 - n mod 4 + 3) mod 4 = 3 - (n + 1) mod (4 :: nat)"
proof -
  show "(n + 1) mod 4 = (if n mod 4 = 3 then 0 else n mod 4 + 1)" "(n + 1) div 4 = (if n mod 4 = 3 then n div 4 + 1 else n div 4)"
    by (auto simp: mod_Suc div_Suc)
  moreover have "n mod 4 = 0 \<or> n mod 4 = 1 \<or> n mod 4 = 2 \<or> n mod 4 = 3" by linarith
  ultimately show "(3 - n mod 4 + 3) mod 4 = 3 - (n + 1) mod 4" by auto
qed

lemma write_next:
  assumes "len < length dest" "len < n"
  shows "take (len + 1) (dest[len := x]) = take len dest @ [x]" "drop n (dest[len := x]) = drop n dest"
  using assms by (simp_all add: take_Suc_conv_app_nth)

text \<open>The loop of \<open>amx_GetString\<close> copies the rest of the string and its terminator.\<close>

lemma get_packed_spec:
  assumes "packed_at blk p s" "cstring s" "length s < n" "int n \<le> maxlen" "n \<le> length dest"
    and "len \<le> length s" "length s - len < fuel"
    and "i = 3 - len mod 4" "i = 3 \<longrightarrow> q = p + 4 * int (len div 4)"
    and "i \<noteq> 3 \<longrightarrow> q = p + 4 * int (len div 4) + 4 \<and> load_cell blk (p + 4 * int (len div 4)) = Inr c"
  shows "get_packed fuel blk q c i len maxlen dest =
    Inr (length s + 1, take len dest @ drop len s @ NUL # drop (length s + 1) dest)"
  using assms(5-)
proof (induction fuel arbitrary: len c i q dest)
  case (Suc fuel)
  obtain d where d: "load_cell blk (p + 4 * int (len div 4)) = Inr d" "char_of_cell d (3 - len mod 4) = (s @ [NUL]) ! len"
    using assms(1) Suc.prems(2) unfolding packed_at_def by blast
  let ?q = "p + 4 * int (len div 4) + 4"
  have load: "(if i = 3 then bind_res (load_cell blk q) (\<lambda>c. Inr (c, q + 4)) else Inr (c, q)) = Inr (d, ?q)"
    using Suc.prems(4-6) d(1) by auto
  have room: "int len < maxlen" "len < length dest" using Suc.prems(1,2) assms(3,4) by simp_all
  show ?case
  proof (cases "len = length s")
    case True
    then have "char_of_cell d i = NUL" using d(2) Suc.prems(4) by simp
    then show ?thesis using load room True by (simp add: put_char_def upd_conv_take_nth_drop)
  next
    case False
    then have l: "len < length s" using Suc.prems(2) by simp
    then have "s ! len \<noteq> NUL" using assms(2) unfolding cstring_def by (metis nth_mem)
    then have c: "char_of_cell d i = s ! len" "s ! len \<noteq> NUL"
      using d(2) Suc.prems(4) l by (auto simp: nth_append)
    have "get_packed fuel blk ?q d ((i + 3) mod 4) (len + 1) maxlen (dest[len := s ! len]) =
        Inr (length s + 1, take (len + 1) (dest[len := s ! len]) @ drop (len + 1) s @ NUL # drop (length s + 1) (dest[len := s ! len]))"
    proof (rule Suc.IH)
      show "(i + 3) mod 4 = 3 - (len + 1) mod 4" unfolding Suc.prems(4) by (rule next_byte)
      show "(i + 3) mod 4 = 3 \<longrightarrow> ?q = p + 4 * int ((len + 1) div 4)"
        unfolding Suc.prems(4) next_byte by simp linarith
      show "(i + 3) mod 4 \<noteq> 3 \<longrightarrow> ?q = p + 4 * int ((len + 1) div 4) + 4 \<and> load_cell blk (p + 4 * int ((len + 1) div 4)) = Inr d"
        unfolding Suc.prems(4) next_byte using d(1) by simp
    qed (use Suc.prems l in auto)
    moreover have "drop len s = s ! len # drop (len + 1) s" using l by (simp add: Cons_nth_drop_Suc)
    moreover note w = write_next [OF room(2), of "length s + 1" "s ! len"]
    ultimately show ?thesis using load room c l by (simp only: get_packed.simps put_char_def if_True if_False bind_res.simps prod.case w) simp
  qed
qed simp

text \<open>Its length: the bytes before the first zero byte, then the characters of the last cell.\<close>

lemma strlen_quads:
  "cstring s \<Longrightarrow> length (takeWhile (\<lambda>c. c \<noteq> NUL) (concat (map rev (quads s)) @ t)) = 4 * (length s div 4) \<and>
    NUL \<in> set (concat (map rev (quads s)))"
proof (induction s rule: quads.induct)
  case (1 s)
  show ?case
  proof (cases "length s < 4")
    case True
    then have "4 - length s = Suc (3 - length s)" by linarith
    then have "replicate (4 - length s) NUL = replicate (3 - length s) NUL @ [NUL]"
      by (simp only: replicate_append_same replicate_Suc)
    then have "quads s = [s @ replicate (3 - length s) NUL @ [NUL]]" using True by (subst quads.simps) simp
    then show ?thesis using True by simp
  next
    case False
    then have "length s div 4 = Suc ((length s - 4) div 4)" by (simp add: le_div_geq)
    moreover have "NUL \<notin> set (rev (take 4 s))" using "1.prems" by (auto simp: cstring_def dest: in_set_takeD)
    moreover have "cstring (drop 4 s)" using "1.prems" by (auto simp: cstring_def dest: in_set_dropD)
    moreover have "quads s = take 4 s # quads (drop 4 s)" using False by (subst quads.simps) simp
    ultimately show ?thesis using "1.IH" [OF False] False by (auto simp: takeWhile_append)
  qed
qed

lemma char_of_cell_shift: "0 < i \<Longrightarrow> i < 4 \<Longrightarrow> char_of_cell (push_bit 8 c) i = char_of_cell c (i - 1)"
proof -
  assume i: "0 < i" "i < 4"
  have "(ucast (drop_bit (8 * i) (push_bit 8 c)) :: byte) = ucast (drop_bit (8 * (i - 1)) c)"
    by (rule bit_word_eqI) (use i in \<open>auto simp: bit_simps diff_mult_distrib2\<close>)
  then show ?thesis by (simp add: char_of_cell_def)
qed

lemma byte_char_NUL [simp]: "byte_char b = NUL \<longleftrightarrow> b = 0"
  by (metis char_byte_NUL char_byte_char byte_char_byte)

lemma no_bits: "(w :: 'a :: len word) = 0 \<longleftrightarrow> (\<forall>i. \<not> bit w i)"
  by (auto intro: bit_word_eqI)

lemma byte_char_0 [simp]: "byte_char 0 = NUL"
  by simp

lemma mask_top: "c AND CHARMASK \<noteq> 0 \<longleftrightarrow> char_of_cell c 3 \<noteq> NUL"
proof -
  have C: "CHARMASK = push_bit 24 (mask 8)" by (simp add: CHARMASK_def mask_eq_exp_minus_1)
  have "bit (c AND CHARMASK) i \<longleftrightarrow> bit c i \<and> 24 \<le> i \<and> i < 32" for i unfolding C by (auto simp: bit_simps)
  moreover have "bit (ucast (drop_bit 24 c) :: byte) i \<longleftrightarrow> i < 8 \<and> bit c (24 + i)" for i by (auto simp: bit_simps)
  moreover have "(\<exists>i. bit c i \<and> 24 \<le> i \<and> i < 32) \<longleftrightarrow> (\<exists>i < 8. bit c (24 + i))"
  proof
    assume "\<exists>i. bit c i \<and> 24 \<le> i \<and> i < 32"
    then obtain i where "bit c i" "24 \<le> i" "i < 32" by blast
    then show "\<exists>i < 8. bit c (24 + i)" by (intro exI [of _ "i - 24"]) auto
  next
    assume "\<exists>i < 8. bit c (24 + i)"
    then obtain i where "i < 8" "bit c (24 + i)" by blast
    then show "\<exists>i. bit c i \<and> 24 \<le> i \<and> i < 32" by (intro exI [of _ "24 + i"]) auto
  qed
  ultimately have "c AND CHARMASK = 0 \<longleftrightarrow> (ucast (drop_bit 24 c) :: byte) = 0"
    unfolding no_bits by metis
  then show ?thesis by (simp add: char_of_cell_def)
qed

lemma tail_chars_count:
  "\<forall>i < r. char_of_cell c (3 - i) \<noteq> NUL \<Longrightarrow> char_of_cell c (3 - r) = NUL \<Longrightarrow> r \<le> 3 \<Longrightarrow> r < n \<Longrightarrow> tail_chars n c = r"
proof (induction r arbitrary: c n)
  case 0
  then show ?case by (cases n) (auto simp: mask_top)
next
  case (Suc r)
  obtain m where n: "n = Suc m" using Suc.prems(4) by (cases n) auto
  have "tail_chars m (push_bit 8 c) = r"
  proof (rule Suc.IH)
    show "\<forall>i < r. char_of_cell (push_bit 8 c) (3 - i) \<noteq> NUL"
    proof (intro allI impI)
      fix i assume "i < r"
      then show "char_of_cell (push_bit 8 c) (3 - i) \<noteq> NUL" using Suc.prems(1) [rule_format, of "Suc i"] Suc.prems(3)
        by (subst char_of_cell_shift) auto
    qed
    show "char_of_cell (push_bit 8 c) (3 - r) = NUL" using Suc.prems(2,3) by (subst char_of_cell_shift) auto
  qed (use Suc.prems n in auto)
  moreover have "c AND CHARMASK \<noteq> 0" using Suc.prems(1) [rule_format, of 0] by (simp add: mask_top)
  ultimately show ?case by (simp add: n)
qed

lemma top_char_large:
  assumes "char_of_cell v 3 \<noteq> NUL"
  shows "uint v > UNPACKEDMAX"
proof (rule ccontr)
  assume "\<not> uint v > UNPACKEDMAX"
  then have "uint v div 2 ^ 24 = 0" by (simp add: UNPACKEDMAX_def div_eq_0_iff)
  moreover have "uint (drop_bit 24 v) = uint v div 2 ^ 24" using uint_cell_bound [of v] by (subst unsigned_drop_bit_eq) (simp add: drop_bit_eq_div take_bit_int_eq_self)
  ultimately have "uint (drop_bit 24 v) = 0" by simp
  then have "drop_bit 24 v = 0" by (simp add: word_uint_eq_iff)
  then show False using assms by (simp add: char_of_cell_def)
qed

lemma StrLen_packed:
  assumes s: "cstring s" "s \<noteq> []" and p: "p = int (length pre)"
  shows "amx_StrLen (pre @ quad_bytes (quads s) @ post) (Some p) = Inr (AMX_ERR_NONE, length s)"
proof -
  let ?blk = "pre @ quad_bytes (quads s) @ post" and ?q = "length s div 4"
  have cell: "\<exists>c. load_cell ?blk (p + 4 * int (k div 4)) = Inr c \<and> char_of_cell c (3 - k mod 4) = (s @ [NUL]) ! k" if "k \<le> length s" for k
    using packed_at_quads [OF p, of s post] that unfolding packed_at_def by blast
  have ne: "(s @ [NUL]) ! k \<noteq> NUL" if "k < length s" for k
    using that s(1) unfolding cstring_def by (metis nth_append nth_mem)
  obtain v where v: "load_cell ?blk p = Inr v" "char_of_cell v 3 \<noteq> NUL" using cell [of 0] ne [of 0] s(2) by auto
  obtain c where c: "load_cell ?blk (p + 4 * int ?q) = Inr c" "char_of_cell c (3 - length s mod 4) = NUL"
    using cell [of "length s"] by auto
  have "char_of_cell c (3 - i) \<noteq> NUL" if "i < length s mod 4" for i
  proof -
    have "4 * ?q + i < length s" using that mult_div_mod_eq [of 4 "length s"] by linarith
    moreover have "(4 * ?q + i) div 4 = ?q" "(4 * ?q + i) mod 4 = i" using that by simp_all
    ultimately show ?thesis using cell [of "4 * ?q + i"] ne [of "4 * ?q + i"] c(1) by auto
  qed
  then have tail: "tail_chars 4 c = length s mod 4" using c(2) by (intro tail_chars_count) auto
  have "map byte_char (quad_bytes (quads s)) = concat (map rev (quads s))"
    by (simp add: quad_bytes_def map_concat rev_map comp_def)
  then have d: "drop (nat p) (map byte_char ?blk) = concat (map rev (quads s)) @ map byte_char post" by (simp add: p)
  obtain t where t: "cstr_at (map byte_char ?blk) (nat p) = Inr t" "length t = 4 * ?q"
    using strlen_quads [OF s(1), of "map byte_char post"] unfolding cstr_at_def d by auto
  have "length t - length t mod 4 + tail_chars 4 c = length s" using t(2) tail by simp
  moreover have "p + int (4 * (length t div 4)) = p + 4 * int ?q" using t(2) by simp
  ultimately show ?thesis using v c(1) t(1) top_char_large [OF v(2)]
    by (simp add: amx_StrLen_def Let_def del: tail_chars.simps of_nat_mult)
qed

subsection \<open>Unpacked strings\<close>

lemma put_cells_spec:
  "p = int (length pre) \<Longrightarrow> length mid = 4 * length s \<Longrightarrow>
   put_cells f s p (pre @ mid @ post) = Inr (pre @ cells (map f s) @ post)"
proof (induction s arbitrary: p pre mid)
  case (Cons c s)
  define b where "b = take 4 mid"
  have mid: "mid = b @ drop 4 mid" "length b = 4" using Cons.prems(2) by (simp_all add: b_def)
  have "store_cell p (f c) (pre @ mid @ post) = Inr ((pre @ le_bytes 4 (f c)) @ drop 4 mid @ post)"
    using Cons.prems mid(2) by (subst mid(1)) (simp add: store_cell_in in_block_def)
  then show ?case using Cons.IH [of "p + 4" "pre @ le_bytes 4 (f c)" "drop 4 mid"] Cons.prems
    by (simp add: cells_simps)
qed (simp add: cells_simps)

lemma SetString_unpacked:
  assumes p: "0 \<le> p" "p + 4 * int (length s + 1) \<le> int (length blk)" and small: "int (length s) < UNLIMITED"
  shows "amx_SetString s False UNLIMITED p blk =
    Inr (take (nat p) blk @ cells (map signed_char s @ [0]) @ drop (nat p + 4 * (length s + 1)) blk)"
proof -
  let ?pre = "take (nat p) blk" and ?mid = "take (4 * length s) (drop (nat p) blk)"
  let ?b = "take 4 (drop (nat p + 4 * length s) blk)" and ?post = "drop (nat p + 4 * (length s + 1)) blk"
  have np: "nat p + 4 * length s + 4 \<le> length blk" using p by (simp add: nat_le_iff)
  then have lens: "length ?pre = nat p" "length ?mid = 4 * length s" "length ?b = 4" by simp_all
  have "drop (nat p + 4 * length s) blk = ?b @ ?post"
    using append_take_drop_id [of 4 "drop (nat p + 4 * length s) blk"] by (simp add: ac_simps)
  moreover have "drop (nat p) blk = ?mid @ drop (nat p + 4 * length s) blk"
    using append_take_drop_id [of "4 * length s" "drop (nat p) blk"] by (simp add: ac_simps)
  ultimately have blk: "blk = ?pre @ ?mid @ ?b @ ?post" using append_take_drop_id [of "nat p" blk] by simp
  have s0: "put_cells signed_char s p blk = Inr (?pre @ cells (map signed_char s) @ ?b @ ?post)"
    using put_cells_spec [of p ?pre ?mid s signed_char "?b @ ?post"] lens p(1) blk by simp
  have "store_cell (p + 4 * int (length s)) 0 (?pre @ cells (map signed_char s) @ ?b @ ?post) =
      Inr (?pre @ cells (map signed_char s) @ le_bytes 4 0 @ ?post)"
    using lens p(1) by (simp add: store_cell_in in_block_def nat_add_distrib nat_mult_distrib)
  then show ?thesis using s0 small by (simp add: amx_SetString_def cells_simps)
qed

definition unpacked_at :: "byte list \<Rightarrow> int \<Rightarrow> string \<Rightarrow> bool" where
  "unpacked_at blk p s \<longleftrightarrow> (\<forall>k < length s. load_cell blk (p + 4 * int k) = Inr (signed_char (s ! k))) \<and>
     load_cell blk (p + 4 * int (length s)) = Inr 0"

lemma unpacked_at_cells: "p = int (length pre) \<Longrightarrow> unpacked_at (pre @ cells (map signed_char s @ [0]) @ post) p s"
proof -
  assume "p = int (length pre)"
  then have "load_cell (pre @ cells (map signed_char s @ [0]) @ post) (p + 4 * int k) = Inr ((map signed_char s @ [0]) ! k)"
    if "k \<le> length s" for k
    using that by (intro load_cells) auto
  then show ?thesis unfolding unpacked_at_def by (auto simp: nth_append)
qed

lemma signed_char_facts [simp]: "char_of_cell (signed_char c) 0 = c" "signed_char c = 0 \<longleftrightarrow> c = NUL"
proof -
  have "ucast (signed_char c) = char_byte c"
    unfolding signed_char_def by (rule bit_word_eqI) (auto simp: bit_simps)
  then show c: "char_of_cell (signed_char c) 0 = c" by (simp add: char_of_cell_def)
  show "signed_char c = 0 \<longleftrightarrow> c = NUL"
  proof
    assume "signed_char c = 0"
    then show "c = NUL" using c by (simp add: char_of_cell_def)
  qed (simp add: signed_char_def)
qed

lemma signed_char_small: "ord c < 128 \<Longrightarrow> uint (signed_char c) \<le> UNPACKEDMAX"
proof -
  assume c: "ord c < 128"
  then have "\<not> bit (char_byte c) 7" using bit_iff_odd [of "ord c" 7] by (simp add: char_byte_def bit_simps)
  then have "signed_char c = ucast (char_byte c)" unfolding signed_char_def
    by (intro bit_word_eqI) (auto simp: bit_simps min_def not_less le_eq_less_or_eq dest: bit_imp_le_length)
  moreover have b: "uint (char_byte c) < 256" using uint_bounded [of "char_byte c"] by simp
  ultimately have "uint (signed_char c) = uint (char_byte c)" by (simp add: unsigned_ucast_eq take_bit_int_eq_self)
  also note b
  finally show ?thesis by (simp add: UNPACKEDMAX_def)
qed

lemma unpacked_at_Cons: "unpacked_at blk p (c # s) \<longleftrightarrow> load_cell blk p = Inr (signed_char c) \<and> unpacked_at blk (p + 4) s"
  unfolding unpacked_at_def by (simp add: All_less_Suc2 algebra_simps)

lemma count_cells_spec: "unpacked_at blk p s \<Longrightarrow> cstring s \<Longrightarrow> length s < fuel \<Longrightarrow> count_cells fuel blk p = Inr (length s)"
proof (induction s arbitrary: p fuel)
  case Nil
  then show ?case by (cases fuel) (simp_all add: unpacked_at_def)
next
  case (Cons c s)
  then show ?case by (cases fuel) (auto simp: unpacked_at_Cons)
qed

lemma get_unpacked_spec:
  "unpacked_at blk p s \<Longrightarrow> cstring s \<Longrightarrow> length s < fuel \<Longrightarrow> int (len + length s) < maxlen \<Longrightarrow> len + length s \<le> length dest \<Longrightarrow>
   get_unpacked fuel blk p len maxlen dest = Inr (len + length s, take len dest @ s @ drop (len + length s) dest)"
proof (induction s arbitrary: p fuel len dest)
  case Nil
  then show ?case by (cases fuel) (simp_all add: unpacked_at_def)
next
  case (Cons c s)
  then obtain n where n: "fuel = Suc n" by (cases fuel) auto
  have len: "len < length dest" using Cons.prems(5) by simp
  note w = write_next [OF len, of "len + length (c # s)" c]
  have "get_unpacked n blk (p + 4) (len + 1) maxlen (dest[len := c]) =
      Inr (len + 1 + length s, take (len + 1) (dest[len := c]) @ s @ drop (len + 1 + length s) (dest[len := c]))"
    using Cons.prems n by (intro Cons.IH) (auto simp: unpacked_at_Cons)
  then show ?case using Cons.prems w n len by (auto simp: unpacked_at_Cons put_char_def)
qed

text \<open>C34: Strings survive the machine's memory: a string without a zero that fits where it is stored is
  stored without touching other bytes, has the same length there, and is read back with its
  terminator, packed or unpacked. (An unpacked string has to start with an ASCII character: the first
  cell of another one is negative, which marks a packed string. The packed reader writes a second
  terminator behind the first, so its buffer needs two bytes more than the string.)
\<close>

theorem string_roundtrip:
  assumes "cstring s" "0 \<le> p" "p + 4 * int (if pack then length s div 4 + 1 else length s + 1) \<le> int (length blk)"
    and "length blk < 2 ^ 31" "length s + 2 \<le> length dest" "\<not> pack \<longrightarrow> s = [] \<or> ord (hd s) < 128"
  shows "\<exists>mid. length mid = 4 * (if pack then length s div 4 + 1 else length s + 1) \<and>
    (let blk' = take (nat p) blk @ mid @ drop (nat p + length mid) blk
     in amx_SetString s pack UNLIMITED p blk = Inr blk' \<and> amx_StrLen blk' (Some p) = Inr (AMX_ERR_NONE, length s) \<and>
        (\<exists>t. amx_GetString blk' p UNLIMITED dest = Inr (s @ NUL # t)))"
proof -
  let ?pre = "take (nat p) blk"
  have p: "p = int (length ?pre)" using assms(2,3) by (auto simp: min_def)
  let ?m = "if pack then length s div 4 + 1 else length s + 1"
  have "length s + 1 \<le> 4 * ?m"
    using mult_div_mod_eq [of 4 "length s"] mod_less_divisor [of 4 "length s"] by auto
  moreover have "int (length blk) \<le> 2147483647" using assms(4) by simp
  moreover from this have "4 * int ?m \<le> 2147483647" using assms(2,3) by linarith
  moreover have "k \<le> 536870911" if "4 * k \<le> 2147483647" for k :: int using that by presburger
  ultimately have "length s + 1 \<le> 4 * ?m" "int ?m \<le> 536870911" by blast+
  then have limit: "int (length s) + 1 < UNLIMITED" unfolding UNLIMITED_def by linarith
  then have small: "int (length s) < UNLIMITED" by simp
  show ?thesis
  proof (cases pack)
    case True
    let ?mid = "quad_bytes (quads s)"
    have len: "length ?mid = 4 * (length s div 4 + 1)"
    proof -
      have "length (quad_bytes qs) = 4 * length qs" if "list_all (\<lambda>q. length q = 4) qs" for qs
        using that by (induction qs) (auto simp: quad_bytes_def)
      then show ?thesis using quads_facts [of s] by simp
    qed
    let ?blk = "?pre @ ?mid @ drop (nat p + length ?mid) blk"
    have set: "amx_SetString s pack UNLIMITED p blk = Inr ?blk"
      using SetString_packed [of p s blk] assms(2,3) small True by (simp only: len if_True)
    have at: "packed_at ?blk p s" by (rule packed_at_quads [OF p])
    show ?thesis
    proof (cases "s = []")
      case False
      obtain v where v: "load_cell ?blk p = Inr v" "char_of_cell v 3 = (s @ [NUL]) ! 0"
        using at [unfolded packed_at_def, rule_format, of 0] by auto
      then have "char_of_cell v 3 \<noteq> NUL" using False assms(1) by (cases s) auto
      then have big: "uint v > UNPACKEDMAX" by (rule top_char_large)
      have "get_packed (Suc (length dest)) ?blk p 0 3 0 UNLIMITED dest =
          Inr (length s + 1, take 0 dest @ drop 0 s @ NUL # drop (length s + 1) dest)"
        using assms(5) small by (intro get_packed_spec [OF at assms(1), of "length s + 1"]) auto
      then have "amx_GetString ?blk p UNLIMITED dest = put_char NUL (length s + 1) (s @ NUL # drop (length s + 1) dest)"
        using v(1) big limit by (simp add: amx_GetString_def Let_def nat_add_distrib del: get_packed.simps)
      then have "\<exists>t. amx_GetString ?blk p UNLIMITED dest = Inr (s @ NUL # t)"
        using assms(5) by (auto simp: put_char_def list_update_append)
      then show ?thesis using set StrLen_packed [OF assms(1) False p] len True
        by (intro exI [of _ ?mid]) (simp add: Let_def)
    next
      case empty: True
      then have "quads s = [replicate 4 NUL]" by (subst quads.simps) simp
      then have mid: "?mid = cells [0]" by (simp add: quad_bytes_def cells_def le_bytes_zero)
      have u: "unpacked_at ?blk p []" using unpacked_at_cells [OF p, of "[]"] by (simp add: mid)
      then have v: "load_cell ?blk p = Inr 0" by (simp add: unpacked_at_def)
      have "amx_StrLen ?blk (Some p) = Inr (AMX_ERR_NONE, 0)"
        using v by (simp add: amx_StrLen_def UNPACKEDMAX_def)
      moreover have "amx_GetString ?blk p UNLIMITED dest = Inr (NUL # drop 1 dest)"
        using v assms(5) by (cases dest) (simp_all add: amx_GetString_def UNPACKEDMAX_def UNLIMITED_def put_char_def)
      ultimately show ?thesis using set len True empty by (intro exI [of _ ?mid]) (simp add: Let_def)
    qed
  next
    case False
    let ?mid = "cells (map signed_char s @ [0])"
    let ?blk = "?pre @ ?mid @ drop (nat p + length ?mid) blk"
    have set: "amx_SetString s pack UNLIMITED p blk = Inr ?blk"
      using SetString_unpacked [of p s blk] assms(2,3) small False by simp
    have at: "unpacked_at ?blk p s" by (rule unpacked_at_cells [OF p])
    obtain v where v: "load_cell ?blk p = Inr v" "uint v \<le> UNPACKEDMAX"
    proof (cases s)
      case Nil
      then show ?thesis using that [of 0] at by (simp add: unpacked_at_def UNPACKEDMAX_def)
    next
      case (Cons c t)
      then show ?thesis using that [of "signed_char c"] at assms(6) False signed_char_small [of c] by (simp add: unpacked_at_Cons)
    qed
    have "length s < Suc (length ?blk)" by simp
    then have c: "count_cells (Suc (length ?blk)) ?blk p = Inr (length s)" by (rule count_cells_spec [OF at assms(1)])
    have g: "get_unpacked (Suc (length dest)) ?blk p 0 UNLIMITED dest = Inr (length s, s @ drop (length s) dest)"
      using get_unpacked_spec [OF at assms(1), of "Suc (length dest)" 0 UNLIMITED dest] assms(5) small by simp
    have "drop (length s) dest \<noteq> []" using assms(5) by simp
    then obtain d t where d: "drop (length s) dest = d # t" by (cases "drop (length s) dest") auto
    have "amx_GetString ?blk p UNLIMITED dest = Inr (s @ NUL # t)"
      using v g d small by (simp add: amx_GetString_def put_char_def not_less [symmetric] list_update_append del: get_unpacked.simps)
    moreover have "amx_StrLen ?blk (Some p) = Inr (AMX_ERR_NONE, length s)"
      using v c by (simp add: amx_StrLen_def not_less [symmetric] del: count_cells.simps)
    ultimately show ?thesis using set False by (intro exI [of _ ?mid]) (simp add: Let_def)
  qed
qed

theorem string_roundtrip_witness:
  "\<exists>blk. amx_SetString ''Pawn'' True UNLIMITED 4 (replicate 20 0xff) = Inr blk \<and> amx_StrLen blk (Some 4) = Inr (AMX_ERR_NONE, 4)"
  using string_roundtrip [of "''Pawn''" 4 True "replicate 20 0xff" "replicate 8 NUL"] by (auto simp: NUL_def Let_def)

subsection \<open>Allocation\<close>

text \<open>C35: \<open>amx_Allot\<close> keeps the stack margin free for every request that fits, and a release of the
  address it returned undoes it; but a request for more than the whole space between heap
  and stack is granted too, because the difference is computed without a sign.
\<close>

theorem allot_unsigned:
  assumes "hdr_magic (header a) = AMX_MAGIC" "0 \<le> sint (amx_hea a)" "sint (amx_hea a) \<le> sint (amx_stk a)"
    and "0 \<le> n" "4 * n < 2 ^ 31" "free = sint (amx_stk a) - sint (amx_hea a)"
    and "b = a\<lparr>amx_hea := amx_hea a + of_int n * 4\<rparr>"
  shows "amx_Allot n a = (if free - 4 * n \<ge> 64 \<or> 4 * n > free then Inr (AMX_ERR_NONE, Some (amx_hea a), b)
      else Inr (AMX_ERR_MEMORY, None, a)) \<and>
    (4 * n \<le> free \<longrightarrow> amx_Release (amx_hea a) b = (AMX_ERR_NONE, a))"
proof -
  have n: "uint (of_int n * 4 :: cell) = 4 * n"
  proof -
    have "of_int n * 4 = (of_int (4 * n) :: cell)" by simp
    then have "uint (of_int n * 4 :: cell) = take_bit 32 (4 * n)" by (simp only: uint_word_of_int_eq) simp
    then show ?thesis using assms(4,5) by (simp add: take_bit_int_eq_self)
  qed
  have "sint (amx_stk a) < 2 ^ 31" using uint_cell_bound [of "amx_stk a"] by (auto simp: sint_cell)
  then have f: "0 \<le> free" "free < 2 ^ 31" using assms(2,3,6) by linarith+
  have "amx_stk a - amx_hea a - of_int n * 4 = (of_int (free - 4 * n) :: cell)" using assms(6) by simp
  then have u: "uint (amx_stk a - amx_hea a - of_int n * 4) = (free - 4 * n) mod 2 ^ 32"
    by (simp only: uint_word_of_int_eq) (simp add: take_bit_eq_mod)
  have "(free - 4 * n) mod 2 ^ 32 = (if 4 * n > free then free - 4 * n + 2 ^ 32 else free - 4 * n)"
  proof (cases "4 * n > free")
    case True
    have "(free - 4 * n) mod 2 ^ 32 = (free - 4 * n + 2 ^ 32) mod 2 ^ 32" by simp
    also have "\<dots> = free - 4 * n + 2 ^ 32" using True f assms(5) by (intro mod_pos_pos_trivial) auto
    finally show ?thesis using True by simp
  next
    case False
    then show ?thesis using f assms(4) by (simp add: mod_pos_pos_trivial)
  qed
  then have "uint (amx_stk a - amx_hea a - of_int n * 4) < uint STKMARGIN \<longleftrightarrow> \<not> (free - 4 * n \<ge> 64 \<or> 4 * n > free)"
    using u f assms(4,5) by (auto simp: STKMARGIN_def)
  then have "amx_Allot n a = (if free - 4 * n \<ge> 64 \<or> 4 * n > free then Inr (AMX_ERR_NONE, Some (amx_hea a), b)
      else Inr (AMX_ERR_MEMORY, None, a))"
    using assms(1,7) by (simp add: amx_Allot_def)
  moreover have "amx_Release (amx_hea a) b = (AMX_ERR_NONE, a)" if "4 * n \<le> free"
  proof -
    have s: "sint (of_int n * 4 :: cell) = 4 * n" using n assms(5) by (simp add: sint_cell)
    have "sint (amx_hea a + of_int n * 4) = sint (amx_hea a) + sint (of_int n * 4 :: cell)"
      using that s assms(2-6) f \<open>sint (amx_stk a) < 2 ^ 31\<close> by (intro sint_plus_cell) linarith+
    then show ?thesis using assms(4,7) s by (auto simp: amx_Release_def)
  qed
  ultimately show ?thesis by blast
qed

theorem allot_unsigned_witness: "\<exists>b. amx_Allot 1000 sample = Inr (AMX_ERR_NONE, Some 0, b) \<and> amx_hea b = 4000"
proof -
  define b where "b = sample\<lparr>amx_hea := amx_hea sample + of_int 1000 * 4\<rparr>"
  have h: "hdr_magic (header sample) = AMX_MAGIC" "amx_hea sample = 0" "amx_stk sample = 192" by (simp_all add: sample_def)
  have s: "sint (192 :: cell) = 192" by (simp add: sint_cell)
  have "amx_Allot 1000 sample = Inr (AMX_ERR_NONE, Some 0, b)"
    using allot_unsigned [OF h(1) _ _ _ _ refl b_def] by (simp add: h s)
  moreover have "amx_hea b = 4000" by (simp add: b_def h)
  ultimately show ?thesis by blast
qed

end
