(* ===== verification/CoreNatives.thy ===== *)
theory CoreNatives
  imports TableFacts TextFacts
begin

text \<open>
  The core native functions, \<open>src/amxmodx/amxcore.cpp\<close> as it is built here (without the
  property list). A native function gets the machine, whose \<open>stk\<close> is the address of
  \<open>params\<close>, and gives its value and the machine; \<open>core_random\<close> also has the seed, a static
  variable, and the time. \<open>core_host\<close> is a host with \<open>amx_Callback\<close> as its callback and
  these functions as its natives.
\<close>

subsection \<open>The functions\<close>

type_synonym native = "amx \<Rightarrow> fault + cell \<times> amx"

definition param :: "int \<Rightarrow> (cell \<Rightarrow> native) \<Rightarrow> native" where
  "param k f a = bind_res (load_cell (data a) (sint (amx_stk a) + 4 * k)) (\<lambda>v. f v a)"

definition give :: "cell \<Rightarrow> native" where
  "give v a = Inr (v, a)"

definition AMX_ERR_NATIVE :: int where "AMX_ERR_NATIVE = 10"

definition numargs :: native where
  "numargs a = bind_res (load_cell (data a) (sint (amx_frm a + 2 * 4))) (\<lambda>bytes. Inr (bytes div 4, a))"

text \<open>The address in the argument \<open>params[1]\<close> of the calling function, for the element \<open>params[2]\<close>.\<close>

definition arg_address :: "(cell \<Rightarrow> native) \<Rightarrow> native" where
  "arg_address f = param 1 (\<lambda>arg. \<lambda>a. bind_res (load_cell (data a) (sint (amx_frm a + (arg + 3) * 4))) (\<lambda>v.
     param 2 (\<lambda>index. f (v + index * 4)) a))"

definition getarg :: native where
  "getarg = arg_address (\<lambda>v a. bind_res (load_cell (data a) (sint v)) (\<lambda>v. Inr (v, a)))"

definition setarg :: native where
  "setarg = arg_address (\<lambda>v a.
     if sint v < 0 \<or> (sint v \<ge> sint (amx_hea a) \<and> sint v < sint (amx_stk a)) then Inr (0, a)
     else param 3 (\<lambda>x a. bind_res (store_cell (sint v) x (data a)) (\<lambda>d. Inr (1, a\<lparr>data := d\<rparr>))) a)"

definition heapspace :: native where
  "heapspace a = Inr (amx_stk a - amx_hea a, a)"

text \<open>The buffer \<open>char name[64]\<close> starts with arbitrary contents \<open>stale\<close>; the string behind a null pointer cannot be read.\<close>

definition funcidx :: "string \<Rightarrow> native" where
  "funcidx stale = param 1 (\<lambda>addr a.
     bind_res (amx_GetAddr a addr) (\<lambda>(_, cstr).
     bind_res (amx_StrLen (data a) cstr) (\<lambda>(_, len).
       if len \<ge> 64 then bind_res (amx_RaiseError AMX_ERR_NATIVE a) (\<lambda>a. Inr (0, a))
       else case cstr of
              None \<Rightarrow> Inl OutOfBounds
            | Some p \<Rightarrow>
                bind_res (amx_GetString (data a) p UNLIMITED stale) (\<lambda>buf.
                bind_res (cstr_at buf 0) (\<lambda>name.
                bind_res (amx_FindPublic a name) (\<lambda>(err, index).
                  Inr (if err \<noteq> AMX_ERR_NONE then - 1 else of_int index, a)))))))"

definition swapchars :: native where
  "swapchars = param 0 (\<lambda>n. if n \<noteq> 4 then (\<lambda>a. Inl AssertFail) else param 1 (\<lambda>v. give (swap32 v)))"

text \<open>\<open>tolower\<close> and \<open>toupper\<close> of the C library, which are defined for characters and \<open>EOF\<close>.\<close>

definition toupper :: "char \<Rightarrow> char" where
  "toupper c = (if islower c then char_of (ord c - 32) else c)"

definition ctype_native :: "(char \<Rightarrow> char) \<Rightarrow> cell \<Rightarrow> native" where
  "ctype_native f v a =
     (if v = - 1 then Inr (v, a) else if unat v < 256 then Inr (of_nat (ord (f (char_of (unat v)))), a) else Inl OutOfBounds)"

definition core_tolower :: native where "core_tolower = param 1 (ctype_native tolower)"
definition core_toupper :: native where "core_toupper = param 1 (ctype_native toupper)"

definition core_min :: native where
  "core_min = param 1 (\<lambda>x. param 2 (\<lambda>y. give (if sint x \<le> sint y then x else y)))"

definition core_max :: native where
  "core_max = param 1 (\<lambda>x. param 2 (\<lambda>y. give (if sint x \<ge> sint y then x else y)))"

definition core_clamp :: native where
  "core_clamp = param 1 (\<lambda>v. param 2 (\<lambda>low. param 3 (\<lambda>high a.
     bind_res (if sint low > sint high then amx_RaiseError AMX_ERR_NATIVE a else Inr a) (\<lambda>a.
       Inr (if sint v < sint low then low else if sint v > sint high then high else v, a)))))"

definition INITIAL_SEED :: cell where "INITIAL_SEED = 0xcaa938db"
definition IL_RMULT :: cell where "IL_RMULT = 1103515245"

definition random_result :: "cell \<Rightarrow> cell" where
  "random_result seed =
     (let lo = seed AND 0xffff; hi = drop_bit 16 seed;
          ll = lo * (IL_RMULT AND 0xffff); lh = lo * drop_bit 16 IL_RMULT;
          hl = hi * (IL_RMULT AND 0xffff); hh = hi * drop_bit 16 IL_RMULT
      in (drop_bit 16 (ll + 12345) + lh + hl + push_bit 16 hh) AND NOT 0x80000000)"

definition random_seed :: "cell \<Rightarrow> cell \<Rightarrow> cell" where
  "random_seed time seed = (if seed = INITIAL_SEED then time else seed)"

text \<open>\<open>result %= params[1]\<close> is unsigned.\<close>

definition core_random :: "cell \<Rightarrow> cell \<Rightarrow> amx \<Rightarrow> fault + cell \<times> cell" where
  "core_random time seed a =
     (let s = random_seed time seed; r = random_result s
      in bind_res (load_cell (data a) (sint (amx_stk a) + 4)) (\<lambda>n.
           Inr (if n \<noteq> 0 then r mod n else r, s * IL_RMULT + 12345)))"

subsection \<open>The table and the host\<close>

definition core_Natives :: "string \<Rightarrow> native \<Rightarrow> (string \<times> native) list" where
  "core_Natives stale random =
     [(''numargs'', numargs), (''getarg'', getarg), (''setarg'', setarg), (''heapspace'', heapspace),
      (''funcidx'', funcidx stale), (''swapchars'', swapchars), (''tolower'', core_tolower), (''toupper'', core_toupper),
      (''min'', core_min), (''max'', core_max), (''clamp'', core_clamp), (''random'', random)]"

text \<open>
  The linker's addresses of the functions are the parameter \<open>addr\<close>: the list that
  \<open>amx_Register\<close> gets, and the call of the function at an address.
\<close>

definition core_list :: "(string \<Rightarrow> cell) \<Rightarrow> string \<Rightarrow> native \<Rightarrow> (string \<times> cell) list" where
  "core_list addr stale random = map (\<lambda>(s, _). (s, addr s)) (core_Natives stale random)"

definition amx_CoreInit :: "(string \<Rightarrow> cell) \<Rightarrow> string \<Rightarrow> native \<Rightarrow> amx \<times> string option \<Rightarrow> fault + int \<times> amx \<times> string option" where
  "amx_CoreInit addr stale random = amx_Register (Some (native_list_of (core_list addr stale random))) (- 1)"

definition call_at :: "(string \<Rightarrow> cell) \<Rightarrow> string \<Rightarrow> native \<Rightarrow> cell \<Rightarrow> native" where
  "call_at addr stale random f a =
     (case find (\<lambda>(s, _). addr s = f) (core_Natives stale random) of None \<Rightarrow> Inl OutOfBounds | Some (_, g) \<Rightarrow> g a)"

definition core_host :: "(string \<Rightarrow> cell) \<Rightarrow> string \<Rightarrow> native \<Rightarrow> host \<Rightarrow> host" where
  "core_host addr stale random h =
     h\<lparr>call_back := amx_Callback (call_at addr stale random), call_native := call_at addr stale random\<rparr>"

subsection \<open>Natives that keep the shape of the memory\<close>

definition keeps_shape :: "native \<Rightarrow> bool" where
  "keeps_shape f \<longleftrightarrow> (\<forall>a v a'. f a = Inr (v, a') \<longrightarrow> same_shape a a')"

named_theorems shape_rules \<open>native functions that keep the shape of the memory\<close>

lemma shape_param [shape_rules]: "(\<And>v. keeps_shape (f v)) \<Longrightarrow> keeps_shape (param k f)"
  by (auto simp: keeps_shape_def param_def)

lemma shape_give [shape_rules]: "keeps_shape (give v)"
  by (auto simp: keeps_shape_def give_def)

lemma shape_ctype [shape_rules]: "keeps_shape (ctype_native f v)"
  by (auto simp: keeps_shape_def ctype_native_def split: if_splits)

lemma shape_numargs [shape_rules]: "keeps_shape numargs" "keeps_shape heapspace"
  by (auto simp: keeps_shape_def numargs_def heapspace_def)

lemma shape_arg [shape_rules]: "(\<And>v. keeps_shape (f v)) \<Longrightarrow> keeps_shape (arg_address f)"
  unfolding arg_address_def by (rule shape_param) (force simp: keeps_shape_def param_def)

lemma shape_getarg [shape_rules]: "keeps_shape getarg"
  unfolding getarg_def by (rule shape_arg) (auto simp: keeps_shape_def)

lemma shape_setarg [shape_rules]: "keeps_shape setarg"
  unfolding setarg_def
  by (rule shape_arg) (auto simp: keeps_shape_def param_def same_shape_def dest!: store_cell_length split: if_splits)

lemma shape_raise: "amx_RaiseError e a = Inr a' \<Longrightarrow> same_shape a a'"
  by (auto simp: amx_RaiseError_def same_shape_def split: if_splits)

lemma shape_funcidx [shape_rules]: "keeps_shape (funcidx stale)"
  unfolding funcidx_def
  by (rule shape_param) (auto simp: keeps_shape_def dest: shape_raise split: if_splits option.splits)

lemma shape_clamp [shape_rules]: "keeps_shape core_clamp"
  unfolding core_clamp_def
  by (rule shape_param)+ (auto simp: keeps_shape_def dest: shape_raise split: if_splits)

lemma shape_if [shape_rules]: "keeps_shape f \<Longrightarrow> keeps_shape g \<Longrightarrow> keeps_shape (if b then f else g)"
  by simp

lemma shape_fail [shape_rules]: "keeps_shape (\<lambda>a. Inl e)"
  by (simp add: keeps_shape_def)

lemma shape_core: "keeps_shape random \<Longrightarrow> list_all (\<lambda>(s, f). keeps_shape f) (core_Natives stale random)"
  unfolding core_Natives_def list.pred_inject
  by (simp add: swapchars_def core_tolower_def core_toupper_def core_min_def core_max_def shape_rules)

lemma shape_call_at:
  assumes "keeps_shape random"
  shows "keeps_shape (call_at addr stale random f)"
proof (cases "find (\<lambda>(s, _). addr s = f) (core_Natives stale random)")
  case None
  then have "call_at addr stale random f a = Inl OutOfBounds" for a unfolding call_at_def by simp
  then show ?thesis by (simp add: keeps_shape_def)
next
  case (Some x)
  then have "x \<in> set (core_Natives stale random)" unfolding find_Some_iff by (metis nth_mem)
  then have "keeps_shape (snd x)" using shape_core [OF assms, of stale] unfolding list_all_iff by (metis case_prod_beta)
  moreover have "call_at addr stale random f a = snd x a" for a
    unfolding call_at_def Some by (simp add: case_prod_beta)
  ultimately show ?thesis by (simp add: keeps_shape_def)
qed

lemma callback_shape:
  assumes "\<And>f. keeps_shape (natives f)" "amx_Callback natives i a = Inr (e, v, a')"
  shows "same_shape a a'"
proof -
  obtain f where "natives f (a\<lparr>last_native := i, amx_error := AMX_ERR_NONE\<rparr>) = Inr (v, a')"
    using assms(2) by (auto simp: amx_Callback_def Let_def split: if_splits)
  then have "same_shape (a\<lparr>last_native := i, amx_error := AMX_ERR_NONE\<rparr>) a'" using assms(1) unfolding keeps_shape_def by blast
  then show ?thesis by (simp add: same_shape_def)
qed

text \<open>
  A host whose debugger and random numbers leave the memory in shape: with the core natives and
  \<open>amx_Callback\<close> it fulfils the contract of the interpreter.
\<close>

locale core_contract =
  fixes addr :: "string \<Rightarrow> cell" and stale :: string and random :: native and h :: host
  assumes random_shape: "keeps_shape random"
    and debug_shape: "call_debug h a = Inr (e, a') \<Longrightarrow> same_shape a a'"

sublocale core_contract \<subseteq> core: host_contract "core_host addr stale random h"
proof
  fix i a e v a'
  have k: "keeps_shape (call_at addr stale random f)" for f by (rule shape_call_at) (rule random_shape)
  show "call_back (core_host addr stale random h) i a = Inr (e, v, a') \<Longrightarrow> same_shape a a'"
    by (rule callback_shape [OF k]) (simp add: core_host_def)
  show "call_native (core_host addr stale random h) i a = Inr (v, a') \<Longrightarrow> same_shape a a'"
    using k by (auto simp: core_host_def keeps_shape_def)
  show "call_debug (core_host addr stale random h) a = Inr (e, a') \<Longrightarrow> same_shape a a'"
    by (simp add: core_host_def debug_shape)
qed

interpretation plain: core_contract addr stale "give 0" quiet_host for addr stale
  by unfold_locales (auto simp: quiet_host_def intro: shape_give)

subsection \<open>The results\<close>

lemma high_half: "drop_bit 16 (w :: cell) = of_int (uint w div 2 ^ 16)"
proof -
  have "0 \<le> uint w div 2 ^ 16" "uint w div 2 ^ 16 < 2 ^ 32"
    using uint_cell_bound [of w] by (simp_all add: pos_imp_zdiv_nonneg_iff)
  then show ?thesis using uint_cell_bound [of w] unfolding word_uint_eq_iff unsigned_drop_bit_eq
    by (subst uint_word_of_int_eq, subst (1 2) take_bit_int_eq_self) (auto simp: drop_bit_eq_div)
qed

text \<open>C38: The random numbers, which the code computes from products of halves, are the bits 16 to 46 of the
  linear congruential generator: of \<open>seed * 1103515245 + 12345\<close>, not cut to the width of a cell.
\<close>

theorem random_reference:
  "uint (random_result seed) = (uint seed * 1103515245 + 12345) div 2 ^ 16 mod 2 ^ 31"
proof -
  define L H where "L = uint seed mod 2 ^ 16" and "H = uint seed div 2 ^ 16"
  define X where "X = (L * 20077 + 12345) div 2 ^ 16 + L * 16838 + H * 20077 + H * 16838 * 2 ^ 16"
  have seed: "uint seed = H * 2 ^ 16 + L" by (simp add: L_def H_def)
  have L: "0 \<le> L" "L < 2 ^ 16" by (simp_all add: L_def)
  have m: "(0xffff :: cell) = mask 16" "(0x80000000 :: cell) = 2 ^ 31" by (simp_all add: mask_eq_exp_minus_1)
  have top: "bit (0x80000000 :: cell) n \<longleftrightarrow> n = 31" for n unfolding m(2) by (simp only: bit_exp_iff) (auto simp: possible_bit_word)
  have lo: "seed AND 0xffff = of_int L"
    using L unfolding m(1) take_bit_eq_mask [symmetric] word_uint_eq_iff unsigned_take_bit_eq
    by (subst uint_word_of_int_eq, subst take_bit_int_eq_self) (auto simp: L_def take_bit_eq_mod)
  have hi: "drop_bit 16 seed = of_int H" unfolding H_def by (rule high_half)
  have R: "IL_RMULT AND 0xffff = 20077" "drop_bit 16 IL_RMULT = 16838" by (simp_all add: IL_RMULT_def)
  have b: "0 \<le> L * 20077 + 12345" "L * 20077 + 12345 < 2 ^ 32" using L by simp_all
  have "(of_int L * 20077 + 12345 :: cell) = of_int (L * 20077 + 12345)" by simp
  then have "uint (of_int L * 20077 + 12345 :: cell) = take_bit 32 (L * 20077 + 12345)" by (simp only: uint_word_of_int_eq) simp
  also have "\<dots> = L * 20077 + 12345" using b by (rule take_bit_int_eq_self)
  finally have "uint (of_int L * 20077 + 12345 :: cell) = L * 20077 + 12345" .
  then have ll: "drop_bit 16 (of_int L * 20077 + 12345 :: cell) = of_int ((L * 20077 + 12345) div 2 ^ 16)"
    by (simp only: high_half)
  have "random_result seed = of_int X AND NOT 0x80000000"
    unfolding random_result_def Let_def lo hi R ll X_def by (simp add: push_bit_eq_mult)
  also have "\<dots> = take_bit 31 (of_int X)"
    by (rule bit_word_eqI) (auto simp: bit_simps top simp del: bit_numeral_word_iff)
  finally have "uint (random_result seed) = X mod 2 ^ 31"
    by (simp add: unsigned_take_bit_eq uint_word_of_int_eq take_bit_take_bit) (simp add: take_bit_eq_mod)
  moreover have "X = (uint seed * 1103515245 + 12345) div 2 ^ 16"
  proof -
    have "uint seed * 1103515245 + 12345 = L * 20077 + 12345 + (L * 16838 + H * 20077 + H * 16838 * 2 ^ 16) * 2 ^ 16"
      unfolding seed by (simp add: algebra_simps)
    then show ?thesis by (simp add: X_def)
  qed
  ultimately show ?thesis by simp
qed

text \<open>C33: Registration and calls together: when \<open>amx_Register\<close> has succeeded with a list of natives,
  \<open>SYSREQ.C i\<close> calls, through \<open>amx_Callback\<close>, the function that the program had located before or
  else the one listed under the name of the \<open>i\<close>th native; its value goes to \<open>PRI\<close>
  and the program goes on behind the instruction, if the function raises no error. An error aborts.
\<close>

theorem sysreq_registered:
  assumes "natives_in a pre es post" "\<forall>(s, f) \<in> set l. cstring s"
    and "amx_Register (Some (native_list_of l)) (- 1) (a, nf) = Inr (AMX_ERR_NONE, a', nf')"
    and "header (amx m) = header a'" "img (amx m) = img a'" "length es < 2 ^ 31"
    and "load_cell (code (amx m)) (cip m) = Inr (of_nat i)" "i < length es" "es ! i = (name, f, ofs)"
    and "g = (if f \<noteq> 0 then f else listed l name)"
    and "natives g ((save_regs (m\<lparr>cip := cip m + 4\<rparr>))\<lparr>last_native := of_nat i, amx_error := AMX_ERR_NONE\<rparr>) = Inr (v, b)"
  shows "op_sysreq_c (h\<lparr>call_back := amx_Callback natives\<rparr>) m =
    (if amx_error b = AMX_ERR_NONE then Inr (Next (m\<lparr>cip := cip m + 4, amx := b, pri := v\<rparr>))
     else after_host (amx_error b) (m\<lparr>cip := cip m + 4, amx := b, pri := v\<rparr>))"
proof -
  let ?a = "save_regs (m\<lparr>cip := cip m + 4\<rparr>)"
  obtain err b' nf2 where r: "amx_Register (Some (native_list_of l)) (- 1) (a, nf) = Inr (err, b', nf2)"
    and n: "natives_in b' pre (map (registered l) es) post" and miss: "err = AMX_ERR_NONE \<longrightarrow> \<not> list_ex (missing l) es"
    using register_entries [OF assms(1,2), of nf] by auto
  have n: "natives_in ?a pre (map (registered l) es) post" and "\<not> list_ex (missing l) es"
    using n miss r assms(3-5) by (auto simp: natives_in_def save_regs_def)
  then have "\<not> missing l (es ! i)" using nth_mem [OF assms(8)] by (simp add: list_ex_iff)
  then have g: "g \<noteq> 0" using assms(9,10) by (auto simp: missing_def split: if_splits)
  have e: "map (registered l) es = map (registered l) (take i es) @ (name, g, ofs) # map (registered l) (drop (Suc i) es)"
    using arg_cong [OF id_take_nth_drop [OF assms(8)], of "map (registered l)"] assms(9,10) by (simp add: registered_def)
  have entry: "entry_address ?a (int (length pre) + 8 * int i) = Inr g"
    by (rule native_entry_at(1) [OF n [unfolded e]]) (use assms(8) in simp)
  have "int i < 2 ^ 31" using assms(6,8) by simp
  then have i: "sint (of_nat i :: cell) = int i" using sint_of_int_cell [of "int i"] by simp
  have num: "NUMENTRIES (header ?a) (hdr_natives (header ?a)) (hdr_libraries (header ?a)) = Inr (length es)"
    "hdr_natives (header ?a) \<le> hdr_libraries (header ?a)"
    using n by (simp_all add: natives_in_def NUMENTRIES_def)
  have "amx_Callback natives (of_nat i) ?a = Inr (amx_error b, v, b)"
    using assms(8,11) g entry num i natives_num(2) [OF n]
    by (simp add: amx_Callback_def Let_def)
  then show ?thesis using assms(7)
    by (simp add: op_sysreq_c_def GETPARAM_def attempt_def upd_def sysreq_def after_host_def next_op_def modify_def)
qed

theorem sysreq_registered_witness:
  "\<exists>m m'. op_sysreq_c (quiet_host\<lparr>call_back := amx_Callback (\<lambda>f b. Inr (f + 1, b))\<rparr>) m = Inr (Next m') \<and> pri m' = 0x89"
proof -
  obtain a' nf where r: "amx_Register (Some (native_list_of [(''max'', 0x88)])) (- 1) (tables, None) = Inr (AMX_ERR_NONE, a', nf)"
    using register_entries [OF tables_natives, of "[(''max'', 0x88)]" None]
    by (auto simp: two_natives_def missing_def listed_def NUL_def)
  let ?m = "(start_regs a')\<lparr>amx := a'\<lparr>code := cells [0]\<rparr>\<rparr>"
  have "load_cell (code (amx ?m)) (cip ?m) = Inr (of_nat 0)"
    using load_cells [of 0 "[0]" 0 "[]" "[]"] by (simp add: start_regs_def)
  then have "\<exists>m'. op_sysreq_c (quiet_host\<lparr>call_back := amx_Callback (\<lambda>f b. Inr (f + 1, b))\<rparr>) ?m = Inr (Next m') \<and> pri m' = 0x89"
    using sysreq_registered [OF tables_natives _ r, of ?m 0 "''max''" 0 41 "0x88" "\<lambda>f b. Inr (f + 1, b)" "0x89" _ quiet_host]
    by (auto simp: two_natives_def listed_def NUL_def save_regs_def start_regs_def)
  then show ?thesis by blast
qed

lemma clamp_range:
  assumes "load_cell (data a) (sint (amx_stk a) + 4) = Inr v" "load_cell (data a) (sint (amx_stk a) + 8) = Inr low"
    and "load_cell (data a) (sint (amx_stk a) + 12) = Inr high" "sint low \<le> sint high"
  shows "\<exists>r. core_clamp a = Inr (r, a) \<and> sint low \<le> sint r \<and> sint r \<le> sint high \<and>
    (sint low \<le> sint v \<and> sint v \<le> sint high \<longrightarrow> r = v)"
  using assms by (auto simp: core_clamp_def param_def)

end
