(* ===== verification/RuleMeaning.thy ===== *)
theory RuleMeaning
  imports PeepholeFacts AssemblerFacts MachineProps
begin

text \<open>
  What the rules of the optimiser mean: the instructions of a pattern and of its replacement,
  as the assembler's list of instructions and the machine's table give them, run on the
  abstract machine. A rule is sound when its replacement does what the pattern does, except
  for registers and a stack cell that the code behind it does not use.
\<close>

subsection \<open>The instructions of a pattern\<close>

datatype operand = Num cell | Sym nat | Minus nat | Plus nat nat

text \<open>
  The lines of a pattern: an instruction with its opcode, the ends of an expression and of a
  parameter, and the declaration of a local variable at an offset from the frame.
\<close>

datatype line = Ins nat "operand option" | Expr_end | Par_end | Local operand

definition operand_of :: "string \<Rightarrow> operand" where
  "operand_of s =
     (if deref s = CHR ''%''
      then if deref (drop 2 s) = CHR ''+'' then Plus (atoi_digit (tl s)) (atoi_digit (drop 4 s)) else Sym (atoi_digit (tl s))
      else if deref s = CHR ''-''
      then if deref (tl s) = CHR ''%'' then Minus (atoi_digit (drop 2 s)) else Num (- fst (hexdigits 0 (tl s)))
      else Num (fst (hexdigits 0 s)))"

definition opcode_of :: "string \<Rightarrow> nat" where
  "opcode_of s = oc_opcode (opcodelist ! findopcode s (length s))"

definition line_of :: "string \<Rightarrow> line" where
  "line_of s =
     (if s = '';$exp'' then Expr_end
      else if s = '';$par'' then Par_end
      else if take 6 s = '';$lcl '' then Local (operand_of (drop 9 s))
      else let name = takeWhile (\<lambda>c. c \<noteq> CHR '' '') s
           in Ins (opcode_of name) (if name = s then None else Some (operand_of (drop (length name + 1) s))))"

fun lines_from :: "string \<Rightarrow> string \<Rightarrow> line list" where
  "lines_from [] line = []"
| "lines_from (c # s) line = (if c = CHR ''!'' then line_of (rev line) # lines_from s [] else lines_from s (c # line))"

definition lines_of :: "string \<Rightarrow> line list" where
  "lines_of s = lines_from s []"

text \<open>The opcodes of the names in the table.\<close>

lemma opcode_of_name:
  assumes "1 \<le> i" "i < 138" "length (opcode_name i) < 30"
  shows "opcode_of (opcode_name i) = oc_opcode (opcodelist ! i)"
  using findopcode_iff(2) [of "opcode_name i" "length (opcode_name i)" i] opcode_name_cstring [of i] assms
  by (simp add: opcode_of_def MAX_INSTR_LEN_def stricmp_def)

lemma opcodes_of_names: "map (\<lambda>e. opcode_of (the (oc_name e))) (tl opcodelist) = map oc_opcode (tl opcodelist)"
proof (rule nth_equalityI)
  fix i assume i: "i < length (map (\<lambda>e. opcode_of (the (oc_name e))) (tl opcodelist))"
  have len: "list_all (\<lambda>e. length (the (oc_name e)) < 30) (tl opcodelist)" by (simp add: opcodelist_def)
  have "length (tl opcodelist) = 137" by (simp add: opcodelist_def)
  moreover from this have "opcode_name (Suc i) = the (oc_name (tl opcodelist ! i))" using i by (simp add: opcode_name_tl)
  ultimately show "map (\<lambda>e. opcode_of (the (oc_name e))) (tl opcodelist) ! i = map oc_opcode (tl opcodelist) ! i"
    using opcode_of_name [of "Suc i"] len i by (simp add: list_all_length nth_tl)
qed simp

lemmas rule_opcodes = opcodes_of_names [unfolded opcodelist_def list.sel list.map opcode_entry.sel option.sel, simplified]

lemma loadi_unknown: "opcode_of ''loadi'' = 0"
  by code_simp

definition rule_lines :: "SEQUENCE \<Rightarrow> line list \<times> line list" where
  "rule_lines q = (lines_of (find_pat q), lines_of (replace_pat q))"

lemmas parse_simps = rule_opcodes loadi_unknown rule_lines_def lines_of_def line_of_def operand_of_def atoi_digit_def isdigit_def NUL_def hexdigits.simps hexdigit_def

lemma meaning_a: "map rule_lines sequences_a =
  [([Ins 3 (Some (Sym 1)), Ins 36 None, Ins 3 (Some (Sym 2)), Ins 43 None],
     [Ins 3 (Some (Sym 2)), Ins 4 (Some (Sym 1))]),
   ([Ins 1 (Some (Sym 1)), Ins 36 None, Ins 3 (Some (Sym 2)), Ins 43 None],
     [Ins 3 (Some (Sym 2)), Ins 2 (Some (Sym 1))]),
   ([Ins 3 (Some (Sym 1)), Ins 36 None, Ins 1 (Some (Sym 2)), Ins 43 None],
     [Ins 1 (Some (Sym 2)), Ins 4 (Some (Sym 1))]),
   ([Ins 1 (Some (Sym 1)), Ins 36 None, Ins 1 (Some (Sym 2)), Ins 43 None],
     [Ins 1 (Some (Sym 2)), Ins 2 (Some (Sym 1))]),
   ([Ins 13 (Some (Sym 1)), Ins 36 None, Ins 3 (Some (Sym 2)), Ins 43 None],
     [Ins 14 (Some (Sym 1)), Ins 3 (Some (Sym 2))]),
   ([Ins 13 (Some (Sym 1)), Ins 36 None, Ins 1 (Some (Sym 2)), Ins 43 None],
     [Ins 14 (Some (Sym 1)), Ins 1 (Some (Sym 2))]),
   ([Ins 11 (Some (Sym 1)), Ins 36 None, Ins 3 (Some (Sym 2)), Ins 43 None],
     [Ins 3 (Some (Sym 2)), Ins 12 (Some (Sym 1))]),
   ([Ins 11 (Some (Sym 1)), Ins 36 None, Ins 1 (Some (Sym 2)), Ins 43 None],
     [Ins 1 (Some (Sym 2)), Ins 12 (Some (Sym 1))]),
   ([Ins 3 (Some (Sym 1)), Ins 36 None, Ins 11 (Some (Sym 2)), Ins 43 None],
     [Ins 11 (Some (Sym 2)), Ins 4 (Some (Sym 1))]),
   ([Ins 1 (Some (Sym 1)), Ins 36 None, Ins 11 (Some (Sym 2)), Ins 43 None],
     [Ins 11 (Some (Sym 2)), Ins 2 (Some (Sym 1))]),
   ([Ins 13 (Some (Sym 1)), Ins 36 None, Ins 11 (Some (Sym 2)), Ins 43 None],
     [Ins 14 (Some (Sym 1)), Ins 11 (Some (Sym 2))]),
   ([Ins 13 (Some (Sym 1)), Ins 36 None, Ins 89 None, Ins 43 None], [Ins 14 (Some (Sym 1)), Ins 89 None]),
   ([Ins 33 None, Ins 36 None, Ins 3 (Some (Sym 1)), Ins 43 None], [Ins 3 (Some (Sym 1))]),
   ([Ins 33 None, Ins 36 None, Ins 1 (Some (Sym 1)), Ins 43 None], [Ins 1 (Some (Sym 1))]),
   ([Ins 33 None, Ins 36 None, Ins 11 (Some (Sym 1)), Ins 43 None], [Ins 11 (Some (Sym 1))]),
   ([Ins 35 None, Ins 103 None, Ins 132 None, Ins 81 None, Ins 43 None, Expr_end],
     [Ins 101 None, Ins 43 None, Ins 81 None, Expr_end]),
   ([Ins 35 None, Ins 101 None, Ins 132 None, Ins 81 None, Ins 43 None, Expr_end],
     [Ins 103 None, Ins 43 None, Ins 81 None, Expr_end]),
   ([Ins 35 None, Ins 104 None, Ins 132 None, Ins 81 None, Ins 43 None, Expr_end],
     [Ins 102 None, Ins 43 None, Ins 81 None, Expr_end]),
   ([Ins 35 None, Ins 102 None, Ins 132 None, Ins 81 None, Ins 43 None, Expr_end],
     [Ins 104 None, Ins 43 None, Ins 81 None, Expr_end]),
   ([Ins 35 None, Ins 103 None, Ins 132 None, Ins 81 None, Ins 43 None, Ins 53 (Some (Sym 1))],
     [Ins 101 None, Ins 43 None, Ins 81 None, Ins 53 (Some (Sym 1))])]"
  by (simp add: sequences_a_def parse_simps Let_def)

lemma meaning_b: "map rule_lines sequences_b =
  [([Ins 35 None, Ins 101 None, Ins 132 None, Ins 81 None, Ins 43 None, Ins 53 (Some (Sym 1))],
     [Ins 103 None, Ins 43 None, Ins 81 None, Ins 53 (Some (Sym 1))]),
   ([Ins 35 None, Ins 104 None, Ins 132 None, Ins 81 None, Ins 43 None, Ins 53 (Some (Sym 1))],
     [Ins 102 None, Ins 43 None, Ins 81 None, Ins 53 (Some (Sym 1))]),
   ([Ins 35 None, Ins 102 None, Ins 132 None, Ins 81 None, Ins 43 None, Ins 53 (Some (Sym 1))],
     [Ins 104 None, Ins 43 None, Ins 81 None, Ins 53 (Some (Sym 1))]),
   ([Ins 35 None, Ins 103 None, Ins 53 (Some (Sym 1)), Expr_end], [Ins 64 (Some (Sym 1)), Expr_end]),
   ([Ins 35 None, Ins 101 None, Ins 53 (Some (Sym 1)), Expr_end], [Ins 62 (Some (Sym 1)), Expr_end]),
   ([Ins 35 None, Ins 104 None, Ins 53 (Some (Sym 1)), Expr_end], [Ins 63 (Some (Sym 1)), Expr_end]),
   ([Ins 35 None, Ins 102 None, Ins 53 (Some (Sym 1)), Expr_end], [Ins 61 (Some (Sym 1)), Expr_end]),
   ([Ins 35 None, Ins 103 None, Expr_end], [Ins 101 None, Expr_end]),
   ([Ins 35 None, Ins 101 None, Expr_end], [Ins 103 None, Expr_end]),
   ([Ins 35 None, Ins 104 None, Expr_end], [Ins 102 None, Expr_end]),
   ([Ins 35 None, Ins 102 None, Expr_end], [Ins 104 None, Expr_end]),
   ([Ins 3 (Some (Sym 1)), Ins 4 (Some (Sym 2)), Ins 35 None], [Ins 3 (Some (Sym 2)), Ins 4 (Some (Sym 1))]),
   ([Ins 3 (Some (Sym 1)), Ins 2 (Some (Sym 2)), Ins 35 None], [Ins 1 (Some (Sym 2)), Ins 4 (Some (Sym 1))]),
   ([Ins 3 (Some (Sym 1)), Ins 12 (Some (Sym 2)), Ins 35 None],
     [Ins 11 (Some (Sym 2)), Ins 4 (Some (Sym 1))]),
   ([Ins 1 (Some (Sym 1)), Ins 4 (Some (Sym 2)), Ins 35 None], [Ins 3 (Some (Sym 2)), Ins 2 (Some (Sym 1))]),
   ([Ins 1 (Some (Sym 1)), Ins 2 (Some (Sym 2)), Ins 35 None], [Ins 1 (Some (Sym 2)), Ins 2 (Some (Sym 1))]),
   ([Ins 1 (Some (Sym 1)), Ins 12 (Some (Sym 2)), Ins 35 None],
     [Ins 11 (Some (Sym 2)), Ins 2 (Some (Sym 1))]),
   ([Ins 11 (Some (Sym 1)), Ins 4 (Some (Sym 2)), Ins 35 None],
     [Ins 3 (Some (Sym 2)), Ins 12 (Some (Sym 1))]),
   ([Ins 11 (Some (Sym 1)), Ins 2 (Some (Sym 2)), Ins 35 None],
     [Ins 1 (Some (Sym 2)), Ins 12 (Some (Sym 1))])]"
  by (simp add: sequences_b_def parse_simps Let_def)

lemma meaning_c: "map rule_lines sequences_c =
  [([Ins 13 (Some (Sym 1)), Ins 36 None, Ins 3 (Some (Sym 2)), Ins 121 (Some (Sym 3)), Ins 68 (Some (Num 2)), Ins 43 None, Ins 78 None, Ins 9 None],
     [Ins 14 (Some (Sym 1)), Ins 3 (Some (Sym 2)), Ins 121 (Some (Sym 3)), Ins 25 None]),
   ([Ins 11 (Some (Sym 1)), Ins 36 None, Ins 3 (Some (Sym 2)), Ins 121 (Some (Sym 3)), Ins 68 (Some (Num 2)), Ins 43 None, Ins 78 None, Ins 9 None],
     [Ins 12 (Some (Sym 1)), Ins 3 (Some (Sym 2)), Ins 121 (Some (Sym 3)), Ins 25 None]),
   ([Ins 13 (Some (Sym 1)), Ins 36 None, Ins 3 (Some (Sym 2)), Ins 68 (Some (Num 2)), Ins 43 None, Ins 78 None, Ins 9 None],
     [Ins 14 (Some (Sym 1)), Ins 3 (Some (Sym 2)), Ins 25 None]),
   ([Ins 11 (Some (Sym 1)), Ins 36 None, Ins 3 (Some (Sym 2)), Ins 68 (Some (Num 2)), Ins 43 None, Ins 78 None, Ins 9 None],
     [Ins 12 (Some (Sym 1)), Ins 3 (Some (Sym 2)), Ins 25 None]),
   ([Ins 13 (Some (Sym 1)), Ins 36 None, Ins 3 (Some (Sym 2)), Ins 121 (Some (Sym 3)), Ins 68 (Some (Sym 4)), Ins 43 None, Ins 78 None, Ins 9 None],
     [Ins 14 (Some (Sym 1)), Ins 3 (Some (Sym 2)), Ins 121 (Some (Sym 3)), Ins 26 (Some (Sym 4))]),
   ([Ins 11 (Some (Sym 1)), Ins 36 None, Ins 3 (Some (Sym 2)), Ins 121 (Some (Sym 3)), Ins 68 (Some (Sym 4)), Ins 43 None, Ins 78 None, Ins 9 None],
     [Ins 12 (Some (Sym 1)), Ins 3 (Some (Sym 2)), Ins 121 (Some (Sym 3)), Ins 26 (Some (Sym 4))]),
   ([Ins 13 (Some (Sym 1)), Ins 36 None, Ins 3 (Some (Sym 2)), Ins 68 (Some (Sym 3)), Ins 43 None, Ins 78 None, Ins 9 None],
     [Ins 14 (Some (Sym 1)), Ins 3 (Some (Sym 2)), Ins 26 (Some (Sym 3))]),
   ([Ins 11 (Some (Sym 1)), Ins 36 None, Ins 3 (Some (Sym 2)), Ins 68 (Some (Sym 3)), Ins 43 None, Ins 78 None, Ins 9 None],
     [Ins 12 (Some (Sym 1)), Ins 3 (Some (Sym 2)), Ins 26 (Some (Sym 3))]),
   ([Ins 13 (Some (Sym 1)), Ins 36 None, Ins 3 (Some (Sym 2)), Ins 121 (Some (Sym 3)), Ins 68 (Some (Num 2)), Ins 43 None, Ins 78 None],
     [Ins 14 (Some (Sym 1)), Ins 3 (Some (Sym 2)), Ins 121 (Some (Sym 3)), Ins 27 None]),
   ([Ins 11 (Some (Sym 1)), Ins 36 None, Ins 3 (Some (Sym 2)), Ins 121 (Some (Sym 3)), Ins 68 (Some (Num 2)), Ins 43 None, Ins 78 None],
     [Ins 12 (Some (Sym 1)), Ins 3 (Some (Sym 2)), Ins 121 (Some (Sym 3)), Ins 27 None]),
   ([Ins 13 (Some (Sym 1)), Ins 36 None, Ins 3 (Some (Sym 2)), Ins 68 (Some (Num 2)), Ins 43 None, Ins 78 None],
     [Ins 14 (Some (Sym 1)), Ins 3 (Some (Sym 2)), Ins 27 None]),
   ([Ins 11 (Some (Sym 1)), Ins 36 None, Ins 3 (Some (Sym 2)), Ins 68 (Some (Num 2)), Ins 43 None, Ins 78 None],
     [Ins 12 (Some (Sym 1)), Ins 3 (Some (Sym 2)), Ins 27 None]),
   ([Ins 13 (Some (Sym 1)), Ins 36 None, Ins 3 (Some (Sym 2)), Ins 121 (Some (Sym 3)), Ins 68 (Some (Sym 4)), Ins 43 None, Ins 78 None],
     [Ins 14 (Some (Sym 1)), Ins 3 (Some (Sym 2)), Ins 121 (Some (Sym 3)), Ins 28 (Some (Sym 4))]),
   ([Ins 11 (Some (Sym 1)), Ins 36 None, Ins 3 (Some (Sym 2)), Ins 121 (Some (Sym 3)), Ins 68 (Some (Sym 4)), Ins 43 None, Ins 78 None],
     [Ins 12 (Some (Sym 1)), Ins 3 (Some (Sym 2)), Ins 121 (Some (Sym 3)), Ins 28 (Some (Sym 4))]),
   ([Ins 13 (Some (Sym 1)), Ins 36 None, Ins 3 (Some (Sym 2)), Ins 68 (Some (Sym 3)), Ins 43 None, Ins 78 None],
     [Ins 14 (Some (Sym 1)), Ins 3 (Some (Sym 2)), Ins 28 (Some (Sym 3))]),
   ([Ins 11 (Some (Sym 1)), Ins 36 None, Ins 3 (Some (Sym 2)), Ins 68 (Some (Sym 3)), Ins 43 None, Ins 78 None],
     [Ins 12 (Some (Sym 1)), Ins 3 (Some (Sym 2)), Ins 28 (Some (Sym 3))]),
   ([Ins 68 (Some (Num 2)), Ins 43 None, Ins 78 None, Ins 0 None], [Ins 43 None, Ins 25 None]),
   ([Ins 68 (Some (Num 2)), Ins 43 None, Ins 78 None], [Ins 43 None, Ins 27 None]),
   ([Ins 68 (Some (Sym 1)), Ins 43 None, Ins 78 None, Ins 0 None], [Ins 43 None, Ins 26 (Some (Sym 1))]),
   ([Ins 68 (Some (Sym 1)), Ins 43 None, Ins 78 None], [Ins 43 None, Ins 28 (Some (Sym 1))]),
   ([Ins 13 (Some (Sym 1)), Ins 36 None, Ins 3 (Some (Sym 2)), Ins 121 (Some (Sym 3)), Ins 43 None],
     [Ins 14 (Some (Sym 1)), Ins 3 (Some (Sym 2)), Ins 121 (Some (Sym 3))]),
   ([Ins 11 (Some (Sym 1)), Ins 36 None, Ins 3 (Some (Sym 2)), Ins 121 (Some (Sym 3)), Ins 43 None],
     [Ins 12 (Some (Sym 1)), Ins 3 (Some (Sym 2)), Ins 121 (Some (Sym 3))]),
   ([Local (Sym 2), Ins 44 (Some (Num (- 4))), Ins 11 (Some (Sym 3)), Ins 17 (Some (Sym 2)), Expr_end],
     [Local (Sym 2), Ins 39 (Some (Sym 3)), Expr_end])]"
  by (simp add: sequences_c_def parse_simps Let_def)

lemma meaning_d: "map rule_lines sequences_d =
  [([Local (Sym 2), Ins 44 (Some (Num (- 4))), Ins 89 None, Ins 17 (Some (Sym 2)), Expr_end],
     [Local (Sym 2), Ins 39 (Some (Num 0)), Expr_end]),
   ([Ins 36 None, Ins 3 (Some (Sym 1)), Ins 43 None], [Ins 34 None, Ins 3 (Some (Sym 1))]),
   ([Ins 36 None, Ins 1 (Some (Sym 1)), Ins 43 None], [Ins 34 None, Ins 1 (Some (Sym 1))]),
   ([Ins 36 None, Ins 11 (Some (Sym 1)), Ins 43 None], [Ins 34 None, Ins 11 (Some (Sym 1))]),
   ([Ins 36 None, Ins 89 None, Ins 43 None], [Ins 34 None, Ins 89 None]),
   ([Ins 36 None, Ins 9 None, Ins 43 None], [Ins 34 None, Ins 9 None]),
   ([Ins 36 None, Ins 43 None], [Ins 34 None]),
   ([Ins 11 (Some (Sym 1)), Ins 12 (Some (Sym 2)), Ins 36 None, Ins 37 None],
     [Ins 39 (Some (Sym 1)), Ins 39 (Some (Sym 2))]),
   ([Ins 11 (Some (Sym 1)), Ins 12 (Some (Sym 2)), Ins 37 None, Ins 36 None],
     [Ins 39 (Some (Sym 2)), Ins 39 (Some (Sym 1))]),
   ([Ins 11 (Some (Sym 1)), Ins 2 (Some (Sym 2)), Ins 36 None, Ins 37 None],
     [Ins 39 (Some (Sym 1)), Ins 40 (Some (Sym 2))]),
   ([Ins 11 (Some (Sym 1)), Ins 2 (Some (Sym 2)), Ins 37 None, Ins 36 None],
     [Ins 40 (Some (Sym 2)), Ins 39 (Some (Sym 1))]),
   ([Ins 1 (Some (Sym 1)), Ins 12 (Some (Sym 2)), Ins 36 None, Ins 37 None],
     [Ins 40 (Some (Sym 1)), Ins 39 (Some (Sym 2))]),
   ([Ins 1 (Some (Sym 1)), Ins 12 (Some (Sym 2)), Ins 37 None, Ins 36 None],
     [Ins 39 (Some (Sym 2)), Ins 40 (Some (Sym 1))]),
   ([Ins 1 (Some (Sym 1)), Ins 2 (Some (Sym 2)), Ins 36 None, Ins 37 None],
     [Ins 40 (Some (Sym 1)), Ins 40 (Some (Sym 2))]),
   ([Ins 1 (Some (Sym 1)), Ins 2 (Some (Sym 2)), Ins 37 None, Ins 36 None],
     [Ins 40 (Some (Sym 2)), Ins 40 (Some (Sym 1))])]"
  by (simp add: sequences_d_def parse_simps Let_def)

lemma meaning_e: "map rule_lines sequences_e =
  [([Ins 3 (Some (Sym 1)), Ins 36 None, Par_end], [Ins 41 (Some (Sym 1)), Par_end]),
   ([Ins 1 (Some (Sym 1)), Ins 36 None, Par_end], [Ins 40 (Some (Sym 1)), Par_end]),
   ([Ins 11 (Some (Sym 1)), Ins 36 None, Par_end], [Ins 39 (Some (Sym 1)), Par_end]),
   ([Ins 89 None, Ins 36 None, Par_end], [Ins 39 (Some (Num 0)), Par_end]),
   ([Ins 13 (Some (Sym 1)), Ins 36 None, Par_end], [Ins 133 (Some (Sym 1)), Par_end]),
   ([Ins 33 None, Ins 36 None], [Ins 37 None]),
   ([Ins 12 (Some (Sym 1)), Ins 78 None], [Ins 87 (Some (Sym 1))]),
   ([Ins 12 (Some (Sym 1)), Ins 79 None], [Ins 87 (Some (Minus 1))]),
   ([Ins 12 (Some (Sym 1)), Ins 72 None], [Ins 88 (Some (Sym 1))]),
   ([Ins 12 (Some (Sym 1)), Ins 95 None], [Ins 105 (Some (Sym 1))]),
   ([Ins 11 (Some (Sym 1)), Ins 4 (Some (Sym 2)), Ins 80 None],
     [Ins 3 (Some (Sym 2)), Ins 87 (Some (Minus 1))]),
   ([Ins 11 (Some (Sym 1)), Ins 2 (Some (Sym 2)), Ins 80 None],
     [Ins 1 (Some (Sym 2)), Ins 87 (Some (Minus 1))]),
   ([Ins 87 (Some (Sym 1)), Ins 87 (Some (Sym 2))], [Ins 87 (Some (Plus 1 2))]),
   ([Ins 95 None, Ins 53 (Some (Sym 1))], [Ins 56 (Some (Sym 1))]),
   ([Ins 95 None, Ins 54 (Some (Sym 1))], [Ins 55 (Some (Sym 1))])]"
  by (simp add: sequences_e_def parse_simps Let_def)

lemma meaning_f: "map rule_lines sequences_f =
  [([Ins 96 None, Ins 53 (Some (Sym 1))], [Ins 55 (Some (Sym 1))]),
   ([Ins 96 None, Ins 54 (Some (Sym 1))], [Ins 56 (Some (Sym 1))]),
   ([Ins 97 None, Ins 53 (Some (Sym 1))], [Ins 60 (Some (Sym 1))]),
   ([Ins 98 None, Ins 53 (Some (Sym 1))], [Ins 59 (Some (Sym 1))]),
   ([Ins 99 None, Ins 53 (Some (Sym 1))], [Ins 58 (Some (Sym 1))]),
   ([Ins 100 None, Ins 53 (Some (Sym 1))], [Ins 57 (Some (Sym 1))]),
   ([Ins 101 None, Ins 53 (Some (Sym 1))], [Ins 64 (Some (Sym 1))]),
   ([Ins 102 None, Ins 53 (Some (Sym 1))], [Ins 63 (Some (Sym 1))]),
   ([Ins 103 None, Ins 53 (Some (Sym 1))], [Ins 62 (Some (Sym 1))]),
   ([Ins 104 None, Ins 53 (Some (Sym 1))], [Ins 61 (Some (Sym 1))]),
   ([Ins 90 None, Ins 55 (Some (Sym 1))], [Ins 53 (Some (Sym 1))]),
   ([Ins 90 None, Ins 56 (Some (Sym 1))], [Ins 54 (Some (Sym 1))]),
   ([Ins 109 (Some (Sym 1)), Ins 1 (Some (Sym 1)), Expr_end], [Ins 109 (Some (Sym 1)), Expr_end]),
   ([Ins 1 (Some (Sym 1)), Ins 109 (Some (Sym 1)), Expr_end], [Ins 109 (Some (Sym 1)), Expr_end]),
   ([Ins 110 (Some (Sym 1)), Ins 3 (Some (Sym 1)), Expr_end], [Ins 110 (Some (Sym 1)), Expr_end]),
   ([Ins 3 (Some (Sym 1)), Ins 110 (Some (Sym 1)), Expr_end], [Ins 110 (Some (Sym 1)), Expr_end]),
   ([Ins 114 (Some (Sym 1)), Ins 1 (Some (Sym 1)), Expr_end], [Ins 114 (Some (Sym 1)), Expr_end]),
   ([Ins 1 (Some (Sym 1)), Ins 114 (Some (Sym 1)), Expr_end], [Ins 114 (Some (Sym 1)), Expr_end]),
   ([Ins 115 (Some (Sym 1)), Ins 3 (Some (Sym 1)), Expr_end], [Ins 115 (Some (Sym 1)), Expr_end]),
   ([Ins 3 (Some (Sym 1)), Ins 115 (Some (Sym 1)), Expr_end], [Ins 115 (Some (Sym 1)), Expr_end])]"
  by (simp add: sequences_f_def parse_simps Let_def)

lemma meaning_g: "map rule_lines sequences_g =
  [([Ins 11 (Some (Num 0)), Ins 15 (Some (Sym 1)), Expr_end], [Ins 91 (Some (Sym 1)), Expr_end]),
   ([Ins 11 (Some (Num 0)), Ins 17 (Some (Sym 1)), Expr_end], [Ins 92 (Some (Sym 1)), Expr_end]),
   ([Ins 89 None, Ins 15 (Some (Sym 1)), Expr_end], [Ins 91 (Some (Sym 1)), Expr_end]),
   ([Ins 89 None, Ins 17 (Some (Sym 1)), Expr_end], [Ins 92 (Some (Sym 1)), Expr_end]),
   ([Ins 11 (Some (Num 0))], [Ins 89 None]),
   ([Ins 12 (Some (Num 0))], [Ins 90 None])]"
  by (simp add: sequences_g_def parse_simps Let_def)

subsection \<open>Running the lines\<close>

fun operand_value :: "(nat \<Rightarrow> cell) \<Rightarrow> operand \<Rightarrow> cell" where
  "operand_value v (Num c) = c"
| "operand_value v (Sym k) = v k"
| "operand_value v (Minus k) = - v k"
| "operand_value v (Plus j k) = v j + v k"

fun line_cells :: "(nat \<Rightarrow> cell) \<Rightarrow> line \<Rightarrow> cell list" where
  "line_cells v (Ins op None) = [of_nat op]"
| "line_cells v (Ins op (Some x)) = [of_nat op, operand_value v x]"
| "line_cells v _ = []"

text \<open>The code at the instruction pointer is that of the lines, with values for the symbols.\<close>

fun code_at :: "machine \<Rightarrow> int \<Rightarrow> cell list \<Rightarrow> bool" where
  "code_at m c [] \<longleftrightarrow> True"
| "code_at m c (x # xs) \<longleftrightarrow> load_cell (code (amx m)) c = Inr x \<and> code_at m (c + 4) xs"

definition lines_at :: "(nat \<Rightarrow> cell) \<Rightarrow> line list \<Rightarrow> machine \<Rightarrow> bool" where
  "lines_at v ls m \<longleftrightarrow> code_at m (cip m) (concat (map (line_cells v) ls))"

definition lines_size :: "line list \<Rightarrow> int" where
  "lines_size ls = 4 * int (length (concat (map (line_cells (\<lambda>_. 0)) ls)))"

text \<open>One step of the machine for each instruction.\<close>

fun exec_lines :: "host \<Rightarrow> line list \<Rightarrow> instr" where
  "exec_lines h [] m = Inr (Next m)"
| "exec_lines h (Ins op x # ls) m = bind_res (step h m) (\<lambda>r. case r of Next m' \<Rightarrow> exec_lines h ls m' | Return e v a \<Rightarrow> Inr (Return e v a))"
| "exec_lines h (l # ls) m = exec_lines h ls m"

subsection \<open>Soundness of a rule\<close>

text \<open>
  Registers that the code behind a pattern does not use: both behind the end of an expression
  or a parameter, a conditional jump and a push; \<open>ALT\<close> behind an operation on both.
\<close>

definition jumps :: "nat set" where "jumps = {53..64}"
definition pushes :: "nat set" where "pushes = {36, 37, 39, 40, 41, 133}"
definition binary_ops :: "nat set" where "binary_ops = {72, 78, 79, 80, 95}"

fun pri_dead :: "line \<Rightarrow> bool" where
  "pri_dead (Ins op x) = (op \<in> jumps \<union> pushes)"
| "pri_dead _ = True"

fun alt_dead :: "line \<Rightarrow> bool" where
  "alt_dead (Ins op x) = (op \<in> jumps \<union> pushes \<union> binary_ops)"
| "alt_dead _ = True"

text \<open>
  The data are the same, but for the cell under the top of the stack.
\<close>

definition same_data :: "machine \<Rightarrow> machine \<Rightarrow> bool" where
  "same_data m w \<longleftrightarrow> data (amx w) = data (amx m) \<or>
     (\<exists>x. store_cell (sint (stk m - 4)) x (data (amx w)) = Inr (data (amx m)))"

text \<open>The machines differ in the code and in the position there.\<close>

definition other_code :: "machine \<Rightarrow> machine \<Rightarrow> bool" where
  "other_code m w \<longleftrightarrow> w = m\<lparr>cip := cip w, amx := (amx m)\<lparr>code := code (amx w)\<rparr>\<rparr>"

definition agree :: "line \<Rightarrow> machine \<Rightarrow> machine \<Rightarrow> bool" where
  "agree l m w \<longleftrightarrow> (pri_dead l \<or> pri w = pri m) \<and> (alt_dead l \<or> alt w = alt m) \<and> same_data m w \<and>
     (\<exists>p a. w = m\<lparr>pri := p, alt := a, cip := cip w, amx := (amx m)\<lparr>code := code (amx w), data := data (amx w)\<rparr>\<rparr>)"

text \<open>
  What the rules take for granted: between a push and the next pop nothing reads the cell
  pushed, and a variable is declared on top of the stack. The heap ends below the stack with the
  margin that the machine checks.
\<close>

definition apart :: "int \<Rightarrow> int \<Rightarrow> bool" where
  "apart x y \<longleftrightarrow> x + 4 \<le> y \<or> y + 4 \<le> x"

definition read_address :: "(nat \<Rightarrow> cell) \<Rightarrow> machine \<Rightarrow> nat \<Rightarrow> operand option \<Rightarrow> int option" where
  "read_address v m op x =
     (case x of
        None \<Rightarrow> if op = OP_LOAD_I then Some (sint (pri m)) else None
      | Some y \<Rightarrow> if op = OP_LOAD_S_PRI \<or> op = OP_PUSH_S then Some (sint (frm m) + sint (operand_value v y))
                  else if op = OP_LOAD_PRI \<or> op = OP_PUSH then Some (sint (operand_value v y)) else None)"

fun reads_apart :: "(nat \<Rightarrow> cell) \<Rightarrow> machine \<Rightarrow> bool \<Rightarrow> line list \<Rightarrow> bool" where
  "reads_apart v m pushed [] \<longleftrightarrow> True"
| "reads_apart v m pushed (Ins op x # ls) \<longleftrightarrow>
     (pushed \<longrightarrow> (case read_address v m op x of None \<Rightarrow> True | Some a \<Rightarrow> apart a (sint (stk m - 4)))) \<and>
     reads_apart v m (op \<in> pushes \<or> pushed \<and> op \<noteq> OP_POP_ALT) ls"
| "reads_apart v m pushed (Local x # ls) \<longleftrightarrow>
     sint (frm m) + sint (operand_value v x) = sint (stk m - 4) \<and> reads_apart v m pushed ls"
| "reads_apart v m pushed (l # ls) \<longleftrightarrow> reads_apart v m pushed ls"

text \<open>
  A rule is sound: when the pattern runs through, the replacement runs through from the same
  registers and data, agrees with it in the end, and goes on behind itself where the pattern
  does, or at the same address.
\<close>

definition sound :: "line list \<times> line list \<Rightarrow> bool" where
  "sound r \<longleftrightarrow> (\<forall>h v m w m1. let (P, R) = r in
     lines_at v P m \<longrightarrow> lines_at v R w \<longrightarrow> other_code m w \<longrightarrow> sint (hea m) + 64 \<le> sint (stk m) \<longrightarrow>
     reads_apart v m False P \<longrightarrow> reads_apart v m False R \<longrightarrow>
     exec_lines h P m = Inr (Next m1) \<longrightarrow>
     (\<exists>w1. exec_lines h R w = Inr (Next w1) \<and> agree (List.last P) m1 w1 \<and>
        (cip m1 = cip m + lines_size P \<and> cip w1 = cip w + lines_size R \<or> cip w1 = cip m1)))"

end
