(* ===== verification/RuleFacts.thy ===== *)
theory RuleFacts
  imports RuleMeaning
begin

text \<open>
  Every rule of the optimiser's table is sound: the instructions of the table as functions of
  the registers and the data, the symbolic execution of pattern and replacement, and the
  result for the whole table.
\<close>

subsection \<open>The instructions on explicit registers\<close>

definition st :: "machine \<Rightarrow> cell \<Rightarrow> cell \<Rightarrow> cell \<Rightarrow> byte list \<Rightarrow> int \<Rightarrow> machine" where
  "st m p a s d c = m\<lparr>pri := p, alt := a, stk := s, cip := c, amx := (amx m)\<lparr>data := d\<rparr>\<rparr>"

lemma st_self: "m = st m (pri m) (alt m) (stk m) (data (amx m)) (cip m)"
  by (simp add: st_def)

lemma st_sel [simp]:
  "pri (st m p a s d c) = p" "alt (st m p a s d c) = a" "stk (st m p a s d c) = s" "cip (st m p a s d c) = c"
  "frm (st m p a s d c) = frm m" "hea (st m p a s d c) = hea m" "data (amx (st m p a s d c)) = d"
  "code (amx (st m p a s d c)) = code (amx m)" "codebase (amx (st m p a s d c)) = codebase (amx m)"
  "amx_stp (amx (st m p a s d c)) = amx_stp (amx m)"
  by (simp_all add: st_def)

lemma st_upd [simp]:
  "(st m p a s d c)\<lparr>pri := x\<rparr> = st m x a s d c" "(st m p a s d c)\<lparr>alt := x\<rparr> = st m p x s d c"
  "(st m p a s d c)\<lparr>stk := x\<rparr> = st m p a x d c" "(st m p a s d c)\<lparr>cip := i\<rparr> = st m p a s d i"
  "set_data e (st m p a s d c) = st m p a s e c"
  by (simp_all add: st_def set_data_def)

lemma step_st:
  "load_cell (code (amx m)) c = Inr k \<Longrightarrow> unat k < 145 \<Longrightarrow> step h (st m p a s d c) = (handlers h ! unat k) (st m p a s d (c + 4))"
  by (simp add: step_def GETPARAM_def attempt_def upd_def handlers_def)

named_theorems ops

lemma bind_bind [simp]: "bind_res (bind_res x f) g = bind_res x (\<lambda>y. bind_res (f y) g)"
  by (cases x) simp_all

lemma reg_st: "reg f k m = k (f m) m" by (simp add: reg_def)
lemma upd_st: "upd f k m = k (f m)" by (simp add: upd_def)
lemma rd_st: "rd x k (st m p a s d c) = bind_res (load_cell d x) (\<lambda>v. k v (st m p a s d c))"
  by (simp add: rd_def attempt_def)
lemma wr_st: "wr x v k (st m p a s d c) = bind_res (store_cell x v d) (\<lambda>d. k (st m p a s d c))"
  by (simp add: wr_def attempt_def upd_def)
lemma param_st: "load_cell (code (amx m)) c = Inr v \<Longrightarrow> GETPARAM k (st m p a s d c) = k v (st m p a s d (c + 4))"
  by (simp add: GETPARAM_def attempt_def upd_def)
lemma set_st: "setp f m = Inr (Next (m\<lparr>pri := f m\<rparr>))" "seta f m = Inr (Next (m\<lparr>alt := f m\<rparr>))" "next_op m = Inr (Next m)"
  "modify g m = Inr (Next (g m))" "set_cip i m = Inr (Next (m\<lparr>cip := i m\<rparr>))"
  by (simp_all add: setp_def seta_def next_op_def modify_def set_cip_def)
lemma jump_st: "load_cell (code (amx m)) c = Inr v \<Longrightarrow>
  jump_if b (st m p a s d c) = Inr (Next (st m p a s d (if b (st m p a s d c) then sint (v - codebase (amx m)) else c + 4)))"
  by (simp add: jump_if_def op_jump_def JUMPABS_def attempt_def reg_def set_st)
lemma bad_st: "bad_address x (st m p a s d c) \<longleftrightarrow> (sint x \<ge> sint (hea m) \<and> sint x < sint s) \<or> uint x \<ge> uint (amx_stp (amx m))"
  by (simp add: bad_address_def)

lemmas op_st = reg_st upd_st rd_st wr_st param_st set_st jump_st PUSH_def POP_def add_at_def

definition bad :: "machine \<Rightarrow> cell \<Rightarrow> cell \<Rightarrow> bool" where
  "bad m s x \<longleftrightarrow> (sint x \<ge> sint (hea m) \<and> sint x < sint s) \<or> uint x \<ge> uint (amx_stp (amx m))"

text \<open>Tests: the instruction goes on when they hold.\<close>

definition goes :: "fault + outcome \<Rightarrow> (machine \<Rightarrow> fault + outcome) \<Rightarrow> machine \<Rightarrow> bool" where
  "goes r f n \<longleftrightarrow> bind_res r (\<lambda>r. case r of Next m' \<Rightarrow> f m' | Return e v a \<Rightarrow> Inr (Return e v a)) = Inr (Next n)"

lemma exec_goes: "exec_lines h (Ins op x # ls) m = Inr (Next n) \<longleftrightarrow> goes (step h m) (exec_lines h ls) n"
  by (simp add: goes_def)

lemma goes_st:
  "goes (Inr (Next m)) f n \<longleftrightarrow> f m = Inr (Next n)"
  "goes (bind_res r k) f n \<longleftrightarrow> (\<exists>y. r = Inr y \<and> goes (k y) f n)"
  "goes (verify x i (st m p a s d c)) f n \<longleftrightarrow> \<not> bad m s x \<and> goes (i (st m p a s d c)) f n"
  "goes (CHKMARGIN i (st m p a s d c)) f n \<longleftrightarrow> \<not> sint (hea m + STKMARGIN) > sint s \<and> goes (i (st m p a s d c)) f n"
  "goes (CHKSTACK i (st m p a s d c)) f n \<longleftrightarrow> \<not> sint s > sint (amx_stp (amx m)) \<and> goes (i (st m p a s d c)) f n"
  "goes (shift_count x j (st m p a s d c)) f n \<longleftrightarrow> unat x < 32 \<and> goes (j (unat x) (st m p a s d c)) f n"
  "goes ((if b then ABORT e else i) (st m p a s d c)) f n \<longleftrightarrow> \<not> b \<and> goes (i (st m p a s d c)) f n"
  "goes (Inl err) f n \<longleftrightarrow> False" "goes (op_default l) f n \<longleftrightarrow> False"
  by (cases r; auto simp: goes_def verify_def ABORT_def return_op_def CHKMARGIN_def CHKSTACK_def shift_count_def undefined_op_def
    bad_address_def bad_def op_default_def)+

lemma bad_pushed: "apart (sint p) (sint (s - 4)) \<Longrightarrow> \<not> bad m (s - 4) p \<Longrightarrow> \<not> bad m s p"
  using uint_cell_bound [of s] by (auto simp: bad_def apart_def sint_cell uint_sub_if' split: if_splits)

lemma bad_popped:
  assumes "sint (hea m) + 64 \<le> sint s" "\<not> bad m s x"
  shows "apart (sint x) (sint (s - 4))"
proof -
  have b: "- (2 ^ 31) \<le> sint c \<and> sint c < 2 ^ 31" for c :: cell
    using sint_greater_eq [of c] sint_less [of c] by simp
  have "sint (s - 4) = sint s - sint (4 :: cell)" by (rule sint_minus_cell) (use assms(1) b [of s] b [of "hea m"] in simp_all)
  then show ?thesis using assms by (auto simp: bad_def apart_def)
qed

lemma push_bit_2 [simp]: "push_bit 2 x = (x * 4 :: cell)"
  by (simp add: push_bit_eq_mult)

lemma pushaddr_st: "load_cell (code (amx m)) c = Inr v \<Longrightarrow>
  op_pushaddr (st m p a s d c) = bind_res (store_cell (sint (s - 4)) (v + frm m) d) (\<lambda>d. Inr (Next (st m p a (s - 4) d (c + 4))))"
  unfolding op_pushaddr_def by (simp add: op_st add.commute)

text \<open>Equal addresses behind a store, and others.\<close>

lemma load_stored: "store_cell x v d = Inr d' \<Longrightarrow> load_cell d' x = Inr v"
  "store_cell x v d = Inr d' \<Longrightarrow> apart y x \<Longrightarrow> load_cell d' y = load_cell d y"
  by (auto simp: blk.get_put apart_def intro: blk.get_other)

subsection \<open>Soundness on explicit registers\<close>

lemma soundI:
  assumes "\<And>h v m w p a s d c c' m1. \<lbrakk>code_at m c (concat (map (line_cells v) P)); code_at w c' (concat (map (line_cells v) R));
      frm w = frm m; codebase (amx w) = codebase (amx m); bad w = bad m;
      sint (hea m) + 64 \<le> sint s; reads_apart v (st m p a s d c) False P; reads_apart v (st m p a s d c) False R; exec_lines h P (st m p a s d c) = Inr (Next m1)\<rbrakk> \<Longrightarrow>
    \<exists>w1. exec_lines h R (st w p a s d c') = Inr (Next w1) \<and>
      m1 = st m (pri m1) (alt m1) (stk m1) (data (amx m1)) (cip m1) \<and>
      w1 = st w (pri w1) (alt w1) (stk m1) (data (amx w1)) (cip w1) \<and>
      (pri_dead (List.last P) \<or> pri w1 = pri m1) \<and> (alt_dead (List.last P) \<or> alt w1 = alt m1) \<and> same_data m1 w1 \<and>
      (cip m1 = c + lines_size P \<and> cip w1 = c' + lines_size R \<or> cip w1 = cip m1)"
  shows "sound (P, R)"
proof -
  have key: "\<exists>w1. exec_lines h R w = Inr (Next w1) \<and> agree (List.last P) m1 w1 \<and>
      (cip m1 = cip m + lines_size P \<and> cip w1 = cip w + lines_size R \<or> cip w1 = cip m1)"
    if a: "lines_at v P m" "lines_at v R w" "other_code m w" "sint (hea m) + 64 \<le> sint (stk m)" "reads_apart v m False P" "reads_apart v m False R" "exec_lines h P m = Inr (Next m1)"
    for h v m w m1
  proof -
    have w: "w = st (m\<lparr>amx := (amx m)\<lparr>code := code (amx w)\<rparr>\<rparr>) (pri m) (alt m) (stk m) (data (amx m)) (cip w)"
      using a(3) unfolding other_code_def by (simp add: st_def)
    let ?w = "m\<lparr>amx := (amx m)\<lparr>code := code (amx w)\<rparr>\<rparr>"
    have bad: "bad ?w = bad m" by (simp add: bad_def fun_eq_iff)
    have c: "code_at n c cs = code_at n' c cs" if "code (amx n) = code (amx n')" for n n' c cs
      using that by (induction cs arbitrary: c) simp_all
    have "code_at ?w (cip w) (concat (map (line_cells v) R))" using a(2) c [of ?w w] by (simp add: lines_at_def)
    from assms [OF a(1) [unfolded lines_at_def] this _ _ bad, where p = "pri m" and a = "alt m" and s = "stk m" and d = "data (amx m)" and h = h and ?m1.0 = m1]
    obtain w1 where w1: "exec_lines h R w = Inr (Next w1)"
      "m1 = st m (pri m1) (alt m1) (stk m1) (data (amx m1)) (cip m1)"
      "w1 = st ?w (pri w1) (alt w1) (stk m1) (data (amx w1)) (cip w1)"
      "(pri_dead (List.last P) \<or> pri w1 = pri m1) \<and> (alt_dead (List.last P) \<or> alt w1 = alt m1) \<and> same_data m1 w1"
      "cip m1 = cip m + lines_size P \<and> cip w1 = cip w + lines_size R \<or> cip w1 = cip m1"
      using a(4-7) w st_self [of m] by auto
    obtain p1 a1 s1 d1 c1 where m1: "m1 = st m p1 a1 s1 d1 c1" using w1(2) by blast
    obtain p2 a2 d2 c2 where "w1 = st ?w p2 a2 s1 d2 c2" using w1(3) m1 by (metis st_sel(3))
    then have "w1 = m1\<lparr>pri := pri w1, alt := alt w1, cip := cip w1, amx := (amx m1)\<lparr>code := code (amx w1), data := data (amx w1)\<rparr>\<rparr>"
      unfolding m1 by (simp add: st_def)
    then have "agree (List.last P) m1 w1" using w1(4) unfolding agree_def by blast
    with w1(1,5) show ?thesis by blast
  qed
  show ?thesis unfolding sound_def Let_def prod.case by (intro allI impI) (rule key)
qed


lemma dead_simps: "pri_dead (Ins 43 x) = False" "pri_dead (Ins 35 x) = False" by (simp_all add: jumps_def pushes_def)

lemmas rule_simps = exec_goes step_st handlers_def op_st goes_st pushaddr_st bad_pushed bad_popped lines_size_def same_data_def read_address_def load_stored jumps_def pushes_def binary_ops_def
  op_load_pri_def op_load_alt_def op_load_s_pri_def op_load_s_alt_def op_load_i_def op_const_pri_def op_const_alt_def
  op_addr_pri_def op_addr_alt_def op_stor_pri_def op_stor_s_pri_def op_lidx_def op_lidx_b_def op_idxaddr_def op_idxaddr_b_def
  op_move_pri_def op_move_alt_def op_xchg_def op_push_pri_def op_push_alt_def op_push_c_def op_push_def op_push_s_def
  op_pop_alt_def exec_lines.simps(1,3-5) op_swap_alt_def op_stack_def op_jzer_def op_jnz_def op_jeq_def op_jneq_def op_jless_def
  op_jleq_def op_jgrtr_def op_jgeq_def op_jsless_def op_jsleq_def op_jsgrtr_def op_jsgeq_def op_shl_c_pri_def op_smul_def
  op_add_def op_sub_def op_sub_alt_def op_and_def op_add_c_def op_smul_c_def op_zero_pri_def op_zero_alt_def op_zero_def
  op_zero_s_def op_eq_def op_neq_def op_less_def op_leq_def op_grtr_def op_geq_def op_sless_def op_sleq_def op_sgrtr_def
  op_sgeq_def op_eq_c_pri_def op_inc_def op_inc_s_def op_dec_def op_dec_s_def op_bounds_def truth_def

lemma sound_a: "list_all sound (map rule_lines sequences_a)"
  unfolding meaning_a list.pred_inject
  by (intro conjI TrueI soundI; clarsimp simp del: exec_lines.simps simp: rule_simps; force simp: load_stored bad_popped)

lemma sound_b: "list_all sound (map rule_lines sequences_b)"
  unfolding meaning_b list.pred_inject
  by (intro conjI TrueI soundI; clarsimp simp del: exec_lines.simps simp: rule_simps; force simp: load_stored bad_popped)

lemma sound_c: "list_all sound (map rule_lines sequences_c)"
  unfolding meaning_c list.pred_inject
  by (intro conjI TrueI soundI; clarsimp simp del: exec_lines.simps simp: rule_simps; force simp: load_stored bad_popped)

lemma sound_d: "list_all sound (map rule_lines sequences_d)"
  unfolding meaning_d list.pred_inject
  by (intro conjI TrueI soundI; clarsimp simp del: exec_lines.simps simp: rule_simps; force simp: load_stored bad_popped)

lemma sound_e: "list_all sound (map rule_lines sequences_e)"
  unfolding meaning_e list.pred_inject
  by (intro conjI TrueI soundI; clarsimp simp del: exec_lines.simps simp: rule_simps; force simp: load_stored bad_popped)

lemma sound_f: "list_all sound (map rule_lines sequences_f)"
  unfolding meaning_f list.pred_inject
  by (intro conjI TrueI soundI; clarsimp simp del: exec_lines.simps simp: rule_simps; force simp: load_stored bad_popped)

lemma sound_g: "list_all sound (map rule_lines sequences_g)"
  unfolding meaning_g list.pred_inject
  by (intro conjI TrueI soundI; clarsimp simp del: exec_lines.simps simp: rule_simps; force simp: load_stored bad_popped)

text \<open>C2: The rules of the optimiser keep the meaning of the code: take any entry of the table, values for its
  symbols, and a machine at the instructions of the pattern. If they run through, then the
  instructions of the replacement, in another program with the same registers and data, run
  through as well; stack, heap, frame and data are the same in the end, but for the cell under the top of
  the stack, and so are \<open>PRI\<close> and \<open>ALT\<close> where the code behind may use them. Both go on
  behind the replaced instructions, or both at the same address. (The instructions must not
  read the cell that the pattern pushes. The two patterns with \<open>loadi\<close>, which is not an
  instruction, never run.)
\<close>

theorem rules_sound:
  assumes "q \<in> set sequences_cmp"
    and "lines_at v (lines_of (find_pat q)) m" "lines_at v (lines_of (replace_pat q)) w" "other_code m w"
    and "sint (hea m) + 64 \<le> sint (stk m)"
    and "reads_apart v m False (lines_of (find_pat q))" "reads_apart v m False (lines_of (replace_pat q))"
    and "exec_lines h (lines_of (find_pat q)) m = Inr (Next m1)"
  shows "\<exists>w1. exec_lines h (lines_of (replace_pat q)) w = Inr (Next w1) \<and> agree (List.last (lines_of (find_pat q))) m1 w1 \<and>
    (cip m1 = cip m + lines_size (lines_of (find_pat q)) \<and> cip w1 = cip w + lines_size (lines_of (replace_pat q)) \<or> cip w1 = cip m1)"
proof -
  have "list_all sound (map rule_lines sequences_cmp)"
    unfolding sequences_cmp_def by (simp only: map_append list_all_append sound_a sound_b sound_c sound_d sound_e sound_f sound_g)
  then have "sound (lines_of (find_pat q), lines_of (replace_pat q))"
    using assms(1) by (auto simp: list_all_iff rule_lines_def)
  then show ?thesis using assms(2-8) unfolding sound_def Let_def prod.case by blast
qed

definition adding :: "cell list \<Rightarrow> machine" where
  "adding cs = (start_regs sample)\<lparr>amx := sample\<lparr>code := cells cs\<rparr>, pri := 37\<rparr>"

theorem rules_sound_witness:
  "\<exists>w1. exec_lines quiet_host [Ins 87 (Some (Sym 1))] (adding [87, 5]) = Inr (Next w1) \<and> pri w1 = 42"
proof -
  let ?q = "SEQ ''const.alt %1!add!'' ''add.c %1!'' (seqsize 2 1 - seqsize 1 1)"
  have l: "lines_of (find_pat ?q) = [Ins 12 (Some (Sym 1)), Ins 78 None]" "lines_of (replace_pat ?q) = [Ins 87 (Some (Sym 1))]"
    by (simp_all add: parse_simps Let_def)
  have m: "exec_lines quiet_host [Ins 12 (Some (Sym 1)), Ins 78 None] (adding [12, 5, 78]) =
      Inr (Next ((adding [12, 5, 78])\<lparr>pri := 42, alt := 5, cip := 12\<rparr>))"
    by code_simp
  have "lines_at (\<lambda>_. 5) [Ins 12 (Some (Sym 1)), Ins 78 None] (adding [12, 5, 78])"
    "lines_at (\<lambda>_. 5) [Ins 87 (Some (Sym 1))] (adding [87, 5])"
    "sint (hea (adding [12, 5, 78])) + 64 \<le> sint (stk (adding [12, 5, 78]))"
    by code_simp+
  moreover have "other_code (adding [12, 5, 78]) (adding [87, 5])" by (simp add: other_code_def adding_def)
  moreover have "?q \<in> set sequences_cmp" by (simp add: sequences_cmp_def sequences_e_def)
  moreover have "\<not> pri_dead (Ins 78 None)" by (simp add: jumps_def pushes_def)
  ultimately show ?thesis
    using rules_sound [of ?q "\<lambda>_. 5" "adding [12, 5, 78]" "adding [87, 5]" quiet_host, unfolded l, OF _ _ _ _ _ _ _ m]
    by (auto simp: agree_def read_address_def)
qed

end
