(* ===== verification/StringLists.thy ===== *)
theory StringLists
  imports SymbolFacts Operators
begin

text \<open>
  The string lists of \<open>sclist.c\<close>: lists of strings, in the order of insertion, tables of
  pairs sorted on their first string, and the tables the compiler keeps with them. The
  substitution table (\<open>#define\<close>) has an index of the first node for each first character.
  A text and a table's node are allocated; \<open>duplicatestring\<close> does not test for that.
\<close>

subsection \<open>Lists of strings\<close>

definition duplicatestring :: "heap \<Rightarrow> string \<Rightarrow> fault + string" where
  "duplicatestring h s = (if granted h (length s + 1) then Inr s else Inl OutOfBounds)"

definition insert_string :: "string \<Rightarrow> heap \<Rightarrow> string list \<Rightarrow> fault + string list" where
  "insert_string s h root =
     (if \<not> granted h 8 then Inl (Fatal 103) else bind_res (duplicatestring h s) (\<lambda>line. Inr (root @ [line])))"

fun get_string :: "string list \<Rightarrow> int \<Rightarrow> string option" where
  "get_string [] index = None"
| "get_string (line # cur) index = (if index > 0 then get_string cur (index - 1) else Some line)"

fun delete_string :: "string list \<Rightarrow> int \<Rightarrow> bool \<times> string list" where
  "delete_string [] index = (False, [])"
| "delete_string (line # cur) index =
     (if index > 0 then (let (r, rest) = delete_string cur (index - 1) in (r, line # rest)) else (True, cur))"

definition delete_stringtable :: "string list \<Rightarrow> string list" where
  "delete_stringtable root = []"

subsection \<open>Tables of pairs\<close>

definition schar :: "char \<Rightarrow> int" where
  "schar c = (if ord c < 128 then int (ord c) else int (ord c) - 256)"

definition strncmp :: "string \<Rightarrow> string \<Rightarrow> nat \<Rightarrow> int" where
  "strncmp s t n = strcmp (take n s) (take n t)"

text \<open>\<open>for (pred=root; pred->next!=NULL && strcmp(pred->next->first,first)<0; pred=pred->next)\<close>\<close>

fun link_pair :: "nat \<times> stringpair \<Rightarrow> pairs \<Rightarrow> pairs" where
  "link_pair cur [] = [cur]"
| "link_pair cur (n # ns) = (if strcmp (sp_first (snd n)) (sp_first (snd cur)) < 0 then n # link_pair cur ns else cur # n # ns)"

text \<open>
  The fields that \<open>insert_stringpair\<close> does not set are what the fresh block holds: the flags
  at byte 16, the documentation pointer at byte 20. \<open>None\<close> stands for \<open>NULL\<close>.
\<close>

definition new_pair :: "heap \<Rightarrow> string \<Rightarrow> string \<Rightarrow> nat \<Rightarrow> stringpair" where
  "new_pair h first second matchlength =
     \<lparr>sp_first = first, sp_second = second, sp_matchlength = matchlength, sp_flags = ord (junk h 16),
      sp_documentation = (if list_all (\<lambda>i. junk h i = NUL) [20..<24] then Null else Garbage)\<rparr>"

definition insert_stringpair :: "heap \<Rightarrow> nat \<Rightarrow> pairs \<Rightarrow> string \<Rightarrow> string \<Rightarrow> nat \<Rightarrow> fault + pairs option" where
  "insert_stringpair h node root first second matchlength =
     (if \<not> granted h 24 then Inr None
      else bind_res (duplicatestring h first) (\<lambda>first. bind_res (duplicatestring h second) (\<lambda>second.
        Inr (Some (link_pair (node, new_pair h first second matchlength) root)))))"

definition delete_stringpairtable :: "pairs \<Rightarrow> pairs" where
  "delete_stringpairtable root = []"

fun find_pair_loop :: "pairs \<Rightarrow> string \<Rightarrow> nat \<Rightarrow> (nat \<times> stringpair) option" where
  "find_pair_loop [] first matchlength = None"
| "find_pair_loop (cur # next) first matchlength =
     (let result = schar (deref (sp_first (snd cur))) - schar (deref first)
      in if result = 0 \<and> matchlength = sp_matchlength (snd cur)
         then let result = strncmp (sp_first (snd cur)) first matchlength
              in if result = 0 then Some cur else if result \<le> 0 then find_pair_loop next first matchlength else None
         else if result \<le> 0 then find_pair_loop next first matchlength else None)"

definition find_stringpair :: "pairs \<Rightarrow> string \<Rightarrow> nat \<Rightarrow> fault + (nat \<times> stringpair) option" where
  "find_stringpair cur first matchlength =
     (if matchlength > 0 then Inr (find_pair_loop cur first matchlength) else Inl AssertFail)"

fun delete_stringpair :: "pairs \<Rightarrow> nat \<Rightarrow> bool \<times> pairs" where
  "delete_stringpair [] item = (False, [])"
| "delete_stringpair (cur # next) item =
     (if fst cur = item then (True, next) else (let (r, rest) = delete_stringpair next item in (r, cur # rest)))"

subsection \<open>The alias table\<close>

definition put_lists :: "(listtabs \<Rightarrow> listtabs) \<Rightarrow> cstate \<Rightarrow> cstate" where
  "put_lists f s = s\<lparr>lists := f (lists s)\<rparr>"

definition insert_alias :: "string \<Rightarrow> string \<Rightarrow> cstate \<Rightarrow> fault + cstate" where
  "insert_alias name alias s =
     (if length name > sNAMEMAX \<or> length alias > sNAMEMAX then Inl AssertFail
      else bind_res (insert_stringpair (mem s) (next_pair (lists s)) (alias_tab (lists s)) name alias (length name)) (\<lambda>r.
        case r of None \<Rightarrow> Inl (Fatal 103)
        | Some tab \<Rightarrow> Inr (put_lists (\<lambda>l. l\<lparr>alias_tab := tab, next_pair := next_pair l + 1\<rparr>) s)))"

text \<open>The alias found, which is copied to \<open>target\<close>.\<close>

definition lookup_alias :: "string \<Rightarrow> cstate \<Rightarrow> fault + string option" where
  "lookup_alias name s =
     bind_res (find_stringpair (alias_tab (lists s)) name (length name)) (\<lambda>r.
       case r of None \<Rightarrow> Inr None
       | Some (_, cur) \<Rightarrow> if length (sp_second cur) \<le> sNAMEMAX then Inr (Some (sp_second cur)) else Inl AssertFail)"

definition delete_aliastable :: "cstate \<Rightarrow> cstate" where
  "delete_aliastable = put_lists (\<lambda>l. l\<lparr>alias_tab := delete_stringpairtable (alias_tab l)\<rparr>)"

subsection \<open>Paths, files and documentation\<close>

definition insert_path :: "string \<Rightarrow> cstate \<Rightarrow> fault + cstate" where
  "insert_path path s = bind_res (insert_string path (mem s) (includepaths (lists s))) (\<lambda>x. Inr (put_lists (\<lambda>l. l\<lparr>includepaths := x\<rparr>) s))"

definition get_path :: "int \<Rightarrow> cstate \<Rightarrow> string option" where
  "get_path index s = get_string (includepaths (lists s)) index"

definition delete_pathtable :: "cstate \<Rightarrow> cstate" where
  "delete_pathtable = put_lists (\<lambda>l. l\<lparr>includepaths := delete_stringtable (includepaths l)\<rparr>)"

definition insert_sourcefile :: "string \<Rightarrow> cstate \<Rightarrow> fault + cstate" where
  "insert_sourcefile name s = bind_res (insert_string name (mem s) (sourcefiles (lists s))) (\<lambda>x. Inr (put_lists (\<lambda>l. l\<lparr>sourcefiles := x\<rparr>) s))"

definition get_sourcefile :: "int \<Rightarrow> cstate \<Rightarrow> string option" where
  "get_sourcefile index s = get_string (sourcefiles (lists s)) index"

definition delete_sourcefiletable :: "cstate \<Rightarrow> cstate" where
  "delete_sourcefiletable = put_lists (\<lambda>l. l\<lparr>sourcefiles := delete_stringtable (sourcefiles l)\<rparr>)"

definition insert_inputfile :: "string \<Rightarrow> cstate \<Rightarrow> fault + cstate" where
  "insert_inputfile name s =
     (if sc_status s \<noteq> statFIRST
      then bind_res (insert_string name (mem s) (inputfiles (lists s))) (\<lambda>x. Inr (put_lists (\<lambda>l. l\<lparr>inputfiles := x\<rparr>) s))
      else Inr s)"

definition get_inputfile :: "int \<Rightarrow> cstate \<Rightarrow> string option" where
  "get_inputfile index s = get_string (inputfiles (lists s)) index"

definition delete_inputfiletable :: "cstate \<Rightarrow> cstate" where
  "delete_inputfiletable = put_lists (\<lambda>l. l\<lparr>inputfiles := delete_stringtable (inputfiles l)\<rparr>)"

definition insert_docstring :: "string \<Rightarrow> cstate \<Rightarrow> fault + cstate" where
  "insert_docstring text s = bind_res (insert_string text (mem s) (docstrings (lists s))) (\<lambda>x. Inr (put_lists (\<lambda>l. l\<lparr>docstrings := x\<rparr>) s))"

definition get_docstring :: "int \<Rightarrow> cstate \<Rightarrow> string option" where
  "get_docstring index s = get_string (docstrings (lists s)) index"

definition delete_docstring :: "int \<Rightarrow> cstate \<Rightarrow> cstate" where
  "delete_docstring index = put_lists (\<lambda>l. l\<lparr>docstrings := snd (delete_string (docstrings l) index)\<rparr>)"

definition delete_docstringtable :: "cstate \<Rightarrow> cstate" where
  "delete_docstringtable = put_lists (\<lambda>l. l\<lparr>docstrings := delete_stringtable (docstrings l)\<rparr>)"

definition insert_autolist :: "string \<Rightarrow> cstate \<Rightarrow> fault + cstate" where
  "insert_autolist text s = bind_res (insert_string text (mem s) (autolist (lists s))) (\<lambda>x. Inr (put_lists (\<lambda>l. l\<lparr>autolist := x\<rparr>) s))"

definition get_autolist :: "int \<Rightarrow> cstate \<Rightarrow> string option" where
  "get_autolist index s = get_string (autolist (lists s)) index"

definition delete_autolisttable :: "cstate \<Rightarrow> cstate" where
  "delete_autolisttable = put_lists (\<lambda>l. l\<lparr>autolist := delete_stringtable (autolist l)\<rparr>)"

subsection \<open>The list of heap adjustments\<close>

definition push_heaplist :: "int \<Rightarrow> int \<Rightarrow> cstate \<Rightarrow> fault + cstate" where
  "push_heaplist first second s =
     (if granted (mem s) 12 then Inr (put_lists (\<lambda>l. l\<lparr>heaplist := heaplist l @ [(first, second)]\<rparr>) s) else Inl (Fatal 103))"

definition popfront_heaplist :: "cstate \<Rightarrow> (int \<times> int) option \<times> cstate" where
  "popfront_heaplist s =
     (case heaplist (lists s) of [] \<Rightarrow> (None, s) | front # next \<Rightarrow> (Some front, put_lists (\<lambda>l. l\<lparr>heaplist := next\<rparr>) s))"

definition delete_heaplisttable :: "cstate \<Rightarrow> cstate" where
  "delete_heaplisttable = put_lists (\<lambda>l. l\<lparr>heaplist := []\<rparr>)"

subsection \<open>Text substitution\<close>

definition flgDEPRECATED :: nat where "flgDEPRECATED = 1"

definition adjustindex :: "char \<Rightarrow> cstate \<Rightarrow> fault + cstate" where
  "adjustindex c s =
     (if \<not> alpha c then Inl AssertFail
      else let cur = find (\<lambda>n. deref (sp_first (snd n)) = c) (substpair (lists s))
           in Inr (put_lists (\<lambda>l. l\<lparr>substindex := (substindex l)(c := map_option fst cur)\<rparr>) s))"

text \<open>What \<open>insert_subst\<close> does to the node's flags and documentation.\<close>

definition deprecate_pair :: "status \<Rightarrow> string option \<Rightarrow> stringpair \<Rightarrow> fault + stringpair" where
  "deprecate_pair status deprecate cur =
     (case deprecate of
        None \<Rightarrow> Inr (cur\<lparr>sp_flags := 0, sp_documentation := Null\<rparr>)
      | Some d \<Rightarrow>
          let cur = cur\<lparr>sp_flags := sp_flags cur OR flgDEPRECATED\<rparr>
          in if status \<noteq> statWRITE then Inr cur
             else if sp_documentation cur = Garbage then Inl OutOfBounds
             else Inr (cur\<lparr>sp_documentation := Doc d\<rparr>))"

definition update_pair :: "nat \<Rightarrow> stringpair \<Rightarrow> pairs \<Rightarrow> pairs" where
  "update_pair node p = map (\<lambda>n. if fst n = node then (node, p) else n)"

definition insert_subst :: "string \<Rightarrow> string \<Rightarrow> nat \<Rightarrow> cstate \<Rightarrow> fault + cstate" where
  "insert_subst pattern substitution prefixlen s =
     (let node = next_pair (lists s); h = mem s
      in bind_res (insert_stringpair h node (substpair (lists s)) pattern substitution prefixlen) (\<lambda>r.
         case r of None \<Rightarrow> Inl (Fatal 103)
         | Some tab \<Rightarrow>
             bind_res (adjustindex (deref pattern) (put_lists (\<lambda>l. l\<lparr>substpair := tab, next_pair := next_pair l + 1\<rparr>) s)) (\<lambda>s.
             bind_res (deprecate_pair (sc_status s) (pc_deprecate s) (new_pair h pattern substitution prefixlen)) (\<lambda>cur.
               Inr (put_lists (\<lambda>l. l\<lparr>substpair := update_pair node cur (substpair l)\<rparr>) s\<lparr>pc_deprecate := None\<rparr>)))))"

text \<open>The list from the node that the index holds; the node must not have been freed.\<close>

definition from_index :: "char \<Rightarrow> cstate \<Rightarrow> fault + pairs" where
  "from_index c s =
     (if \<not> alpha c then Inl AssertFail
      else case substindex (lists s) c of
             None \<Rightarrow> Inr []
           | Some node \<Rightarrow> (let rest = dropWhile (\<lambda>n. fst n \<noteq> node) (substpair (lists s)) in if rest = [] then Inl OutOfBounds else Inr rest))"

definition index_find :: "string \<Rightarrow> nat \<Rightarrow> cstate \<Rightarrow> fault + (nat \<times> stringpair) option" where
  "index_find name len s =
     (if len = 0 then Inl AssertFail
      else bind_res (from_index (deref name) s) (\<lambda>item. if item = [] then Inr None else find_stringpair item name len))"

text \<open>
  The name of a deprecated macro in the warning: 127 characters, up to the first opening
  parenthesis when it stands before the first percent sign.
\<close>

definition macro_name :: "string \<Rightarrow> string" where
  "macro_name first =
     (let macro = take 127 first; name = takeWhile (\<lambda>c. c \<noteq> CHR ''('') macro
      in if length name < length macro \<and> CHR ''%'' \<in> set macro \<and> CHR ''%'' \<notin> set name then name else macro)"

text \<open>A pointer that was never set is printed only when warnings are.\<close>

definition find_subst :: "string \<Rightarrow> nat \<Rightarrow> cstate \<Rightarrow> fault + (nat \<times> stringpair) option \<times> cstate" where
  "find_subst name len s =
     bind_res (index_find name len s) (\<lambda>item.
       case item of
         None \<Rightarrow> Inr (None, s)
       | Some (node, cur) \<Rightarrow>
           if sp_flags cur AND flgDEPRECATED = 0 then Inr (item, s)
           else if sp_documentation cur = Garbage \<and> sc_status s = statWRITE then Inl OutOfBounds
           else Inr (item, report 233 [macro_name (sp_first cur), case sp_documentation cur of Doc d \<Rightarrow> d | _ \<Rightarrow> []] s))"

definition delete_subst :: "string \<Rightarrow> nat \<Rightarrow> cstate \<Rightarrow> fault + bool \<times> cstate" where
  "delete_subst name len s =
     bind_res (index_find name len s) (\<lambda>item.
       case item of
         None \<Rightarrow> Inr (False, s)
       | Some (node, cur) \<Rightarrow>
           bind_res (adjustindex (deref name) (put_lists (\<lambda>l. l\<lparr>substpair := snd (delete_stringpair (substpair l) node)\<rparr>) s))
             (\<lambda>s. Inr (True, s)))"

definition delete_substtable :: "cstate \<Rightarrow> cstate" where
  "delete_substtable = put_lists (\<lambda>l. l\<lparr>substpair := delete_stringpairtable (substpair l), substindex := (\<lambda>_. None)\<rparr>)"

subsection \<open>The invariant of the substitution table\<close>

definition matches :: "string \<Rightarrow> nat \<Rightarrow> nat \<times> stringpair \<Rightarrow> bool" where
  "matches name len n \<longleftrightarrow> sp_matchlength (snd n) = len \<and> take len (sp_first (snd n)) = take len name"

definition first_le :: "nat \<times> stringpair \<Rightarrow> nat \<times> stringpair \<Rightarrow> bool" where
  "first_le m n \<longleftrightarrow> strcmp (sp_first (snd m)) (sp_first (snd n)) \<le> 0"

text \<open>
  The searches compare first characters as signed numbers, the insertion compares strings as
  \<open>strcmp\<close> does: the two agree on characters below 128.
\<close>

definition ascii :: "char \<Rightarrow> bool" where
  "ascii c \<longleftrightarrow> c \<noteq> NUL \<and> ord c < 128"

definition node_ok :: "nat \<Rightarrow> nat \<times> stringpair \<Rightarrow> bool" where
  "node_ok k n \<longleftrightarrow> fst n < k \<and> cstring (sp_first (snd n)) \<and> ascii (deref (sp_first (snd n)))"

definition pairs_ok :: "nat \<Rightarrow> pairs \<Rightarrow> bool" where
  "pairs_ok k l \<longleftrightarrow> sorted_wrt first_le l \<and> distinct (map fst l) \<and> (\<forall>n \<in> set l. node_ok k n)"

definition starts :: "char \<Rightarrow> nat \<times> stringpair \<Rightarrow> bool" where
  "starts c n \<longleftrightarrow> deref (sp_first (snd n)) = c"

definition subst_ok :: "cstate \<Rightarrow> bool" where
  "subst_ok s \<longleftrightarrow> pairs_ok (next_pair (lists s)) (substpair (lists s)) \<and>
     (\<forall>c. substindex (lists s) c = map_option fst (find (starts c) (substpair (lists s))))"

lemma strcmp_take: "strcmp s t \<le> 0 \<Longrightarrow> strcmp (take n s) (take n t) \<le> 0"
proof (induction s t arbitrary: n rule: strcmp.induct)
  case (2 y ys)
  then show ?case by (cases n) auto
next
  case (3 x xs)
  then show ?case by (cases n) auto
next
  case (4 x xs y ys)
  then show ?case by (cases n) (auto split: if_splits)
qed simp

lemma first_le_trans:
  "node_ok k m \<Longrightarrow> node_ok k n \<Longrightarrow> node_ok k p \<Longrightarrow> first_le m n \<Longrightarrow> first_le n p \<Longrightarrow> first_le m p"
  unfolding first_le_def node_ok_def by (blast intro: strcmp_trans)

lemma first_le_total: "first_le m n \<or> first_le n m"
  unfolding first_le_def using strcmp_antisym [of "sp_first (snd m)" "sp_first (snd n)"] by linarith

lemma set_link_pair [simp]: "set (link_pair n l) = insert n (set l)"
  by (induction l) auto

lemma link_pair_ids: "distinct (map fst (link_pair n l)) \<longleftrightarrow> distinct (map fst (n # l))"
  by (induction l) auto

lemma find_link_pair: "\<not> P n \<Longrightarrow> find P (link_pair n l) = find P l"
  by (induction l) auto

lemma sorted_link_pair:
  "sorted_wrt first_le l \<Longrightarrow> \<forall>x \<in> set (n # l). node_ok k x \<Longrightarrow> sorted_wrt first_le (link_pair n l)"
proof (induction l)
  case (Cons x l)
  show ?case
  proof (cases "strcmp (sp_first (snd x)) (sp_first (snd n)) < 0")
    case True
    then have x: "first_le x n" by (simp add: first_le_def)
    have "sorted_wrt first_le l" "\<forall>y \<in> set (n # l). node_ok k y" "\<forall>y \<in> set l. first_le x y" using Cons.prems by simp_all
    then show ?thesis using Cons.IH x unfolding link_pair.simps if_P [OF True] sorted_wrt.simps set_link_pair by blast
  next
    case False
    then have "first_le n x" using strcmp_antisym [of "sp_first (snd n)" "sp_first (snd x)"] by (simp add: first_le_def)
    then have "first_le n y" if "y \<in> set l" for y
      using Cons.prems that \<open>first_le n x\<close> by (intro first_le_trans [of k n x y]) auto
    then show ?thesis using Cons.prems(1) \<open>first_le n x\<close> unfolding link_pair.simps if_not_P [OF False] by simp
  qed
qed simp

lemma node_ok_mono: "node_ok k n \<Longrightarrow> node_ok (k + 1) n"
  by (simp add: node_ok_def)

lemma link_pair_ok:
  assumes l: "pairs_ok k l" and p: "cstring (sp_first p)" "ascii (deref (sp_first p))"
  shows "pairs_ok (k + 1) (link_pair (k, p) l)"
proof -
  have n: "\<forall>x \<in> set ((k, p) # l). node_ok (k + 1) x" using l p node_ok_mono by (auto simp: pairs_ok_def node_ok_def)
  have "k \<notin> fst ` set l" using l by (auto simp: pairs_ok_def node_ok_def)
  then show ?thesis
    using l n sorted_link_pair [OF _ n] unfolding pairs_ok_def link_pair_ids by simp
qed

lemma delete_pair_set: "set (snd (delete_stringpair l a)) \<subseteq> set l"
  by (induction l) (auto simp: case_prod_beta)

lemma delete_pair_ok: "pairs_ok k l \<Longrightarrow> pairs_ok k (snd (delete_stringpair l a))"
proof (induction l)
  case (Cons x l)
  have s: "set (snd (delete_stringpair l a)) \<subseteq> set l" by (rule delete_pair_set)
  have "pairs_ok k l" using Cons.prems by (simp add: pairs_ok_def)
  with Cons show ?case using s by (auto simp: pairs_ok_def case_prod_beta)
qed (simp add: pairs_ok_def)

lemma find_delete_pair:
  "distinct (map fst l) \<Longrightarrow> \<forall>n \<in> set l. fst n = a \<longrightarrow> \<not> P n \<Longrightarrow> find P (snd (delete_stringpair l a)) = find P l"
  by (induction l) (auto simp: case_prod_beta)

subsection \<open>Finding a substitution\<close>

lemma alpha_ascii: "alpha c \<Longrightarrow> ascii c"
  by (auto simp: ascii_def alpha_def isalpha_def isupper_def islower_def PUBLIC_CHAR_def NUL_def)

lemma schar_ascii: "ascii c \<Longrightarrow> schar c = int (ord c)"
  by (simp add: schar_def ascii_def)

lemma first_le_deref: "first_le m n \<Longrightarrow> sp_first (snd m) \<noteq> [] \<Longrightarrow> sp_first (snd n) \<noteq> [] \<Longrightarrow>
  ord (deref (sp_first (snd m))) \<le> ord (deref (sp_first (snd n)))"
  by (cases "sp_first (snd m)"; cases "sp_first (snd n)") (auto simp: first_le_def split: if_splits)

lemma ascii_NUL [simp]: "\<not> ascii NUL"
  by (simp add: ascii_def)

lemma alpha_NUL [simp]: "\<not> alpha NUL"
  by (simp add: alpha_def isalpha_def isupper_def islower_def PUBLIC_CHAR_def NUL_def)

lemma node_ok_nonempty: "node_ok k n \<Longrightarrow> sp_first (snd n) \<noteq> []"
  by (auto simp: node_ok_def)

lemma matches_deref:
  assumes "matches name len n" "0 < len" "name \<noteq> []" "node_ok k n"
  shows "deref (sp_first (snd n)) = deref name"
  using assms node_ok_nonempty [OF assms(4)]
  by (cases "sp_first (snd n)"; cases name; cases len) (auto simp: matches_def)

lemma find_pair_loop:
  assumes "sorted_wrt first_le l" "\<forall>n \<in> set l. node_ok k n" "0 < len" "ascii (deref name)" "cstring name"
  shows "find_pair_loop l name len = find (matches name len) l"
  using assms(1,2)
proof (induction l)
  case (Cons x l)
  let ?s = "sp_first (snd x)" and ?c = "deref name"
  have IH: "find_pair_loop l name len = find (matches name len) l" using Cons by simp
  have name: "name \<noteq> []" using assms(4) by auto
  have x: "node_ok k x" and rest: "\<And>n. n \<in> set l \<Longrightarrow> first_le x n \<and> node_ok k n" using Cons.prems by auto
  have none: "find (matches name len) l = None" if "\<And>n. n \<in> set l \<Longrightarrow> \<not> matches name len n"
    using that by (auto simp: find_None_iff)
  have diff: "schar (deref ?s) - schar ?c = int (ord (deref ?s)) - int (ord ?c)"
    using x assms(4) by (simp add: schar_ascii node_ok_def)
  consider (greater) "ord (deref ?s) > ord ?c" | (less) "ord (deref ?s) < ord ?c" | (equal) "deref ?s = ?c"
    by (metis linorder_neqE_nat of_char_eq_iff)
  then show ?case
  proof cases
    case greater
    have "\<not> matches name len n" if "n \<in> set l" for n
    proof
      assume m: "matches name len n"
      have "ord (deref ?s) \<le> ord (deref (sp_first (snd n)))"
        using rest [OF that] x by (intro first_le_deref) (auto dest: node_ok_nonempty)
      then show False using greater matches_deref [OF m assms(3) name, of k] rest [OF that] by simp
    qed
    moreover have "\<not> matches name len x" using greater matches_deref [OF _ assms(3) name x] by auto
    moreover have "deref ?s \<noteq> ?c" using greater by auto
    ultimately show ?thesis using greater none by (simp add: diff Let_def)
  next
    case less
    then have "\<not> matches name len x" using matches_deref [OF _ assms(3) name x] by auto
    moreover have "deref ?s \<noteq> ?c" using less by auto
    ultimately show ?thesis using less by (simp add: diff Let_def IH)
  next
    case equal
    let ?r = "strcmp (take len ?s) (take len name)"
    have eq: "?r = 0 \<longleftrightarrow> take len ?s = take len name"
      using x assms(5) by (intro strcmp_eq_0) (auto simp: node_ok_def cstring_def dest: in_set_takeD)
    have "\<not> matches name len n" if "n \<in> set l" "?r > 0" for n
      using strcmp_take [of ?s "sp_first (snd n)" len] rest [OF that(1)] that(2) by (auto simp: first_le_def matches_def)
    then have gt: "?r > 0 \<Longrightarrow> find (matches name len) l = None" using none by blast
    have mx: "matches name len x \<longleftrightarrow> len = sp_matchlength (snd x) \<and> ?r = 0" using eq by (auto simp: matches_def)
    show ?thesis
    proof (cases "len = sp_matchlength (snd x)")
      case True
      consider "?r = 0" | "?r < 0" | "?r > 0" by linarith
      then show ?thesis using True [symmetric] mx gt equal by cases (simp_all add: strncmp_def IH)
    next
      case False
      then show ?thesis using equal by (simp add: mx IH)
    qed
  qed
qed simp

lemma find_from: "find (starts c) l = Some n \<Longrightarrow> (\<And>m. P m \<Longrightarrow> m \<in> set l \<Longrightarrow> starts c m) \<Longrightarrow> distinct (map fst l) \<Longrightarrow>
  \<exists>r. dropWhile (\<lambda>m. fst m \<noteq> fst n) l = n # r \<and> find P (n # r) = find P l \<and> (\<exists>q. l = q @ n # r)"
proof (induction l)
  case (Cons x l)
  show ?case
  proof (cases "starts c x")
    case True
    then have "n = x" using Cons.prems(1) by simp
    then show ?thesis by force
  next
    case False
    then have n: "find (starts c) l = Some n" using Cons.prems(1) by simp
    then have "n \<in> set l" by (metis find_Some_iff nth_mem)
    then have "fst x \<noteq> fst n" using Cons.prems(3) by (metis distinct.simps(2) image_eqI list.set_map list.simps(9))
    moreover have "\<not> P x" using Cons.prems(2) [of x] False by auto
    moreover obtain r where r: "dropWhile (\<lambda>m. fst m \<noteq> fst n) l = n # r" "find P (n # r) = find P l" "\<exists>q. l = q @ n # r"
      using Cons.IH [OF n] Cons.prems(2,3) by auto
    moreover have "\<exists>q. x # l = q @ n # r" using r(3) by (metis append_Cons)
    ultimately show ?thesis by auto
  qed
qed simp

lemma index_find_correct:
  assumes "subst_ok s" "0 < len" "alpha (deref name)" "cstring name"
  shows "index_find name len s = Inr (find (matches name len) (substpair (lists s)))"
proof -
  let ?l = "substpair (lists s)" and ?c = "deref name"
  have ok: "sorted_wrt first_le ?l" "distinct (map fst ?l)" "\<forall>n \<in> set ?l. node_ok (next_pair (lists s)) n"
    and ix: "substindex (lists s) ?c = map_option fst (find (starts ?c) ?l)"
    using assms(1) by (auto simp: subst_ok_def pairs_ok_def)
  have name: "name \<noteq> []" using assms(3) by auto
  have m: "starts ?c n" if "matches name len n" "n \<in> set ?l" for n
    using matches_deref [OF that(1) assms(2) name] ok(3) that(2) by (auto simp: starts_def)
  show ?thesis
  proof (cases "find (starts ?c) ?l")
    case None
    then have "find (matches name len) ?l = None" using m by (auto simp: find_None_iff)
    with None ix assms(2,3) show ?thesis by (simp add: index_find_def from_index_def)
  next
    case (Some n)
    obtain r q where r: "dropWhile (\<lambda>m. fst m \<noteq> fst n) ?l = n # r" "find (matches name len) (n # r) = find (matches name len) ?l" "?l = q @ n # r"
      using find_from [OF Some m ok(2)] by blast
    have "sorted_wrt first_le (n # r)" "\<forall>n \<in> set (n # r). node_ok (next_pair (lists s)) n"
      using ok(1,3) unfolding r(3) by (auto simp: sorted_wrt_append)
    from find_pair_loop [OF this assms(2) alpha_ascii [OF assms(3)] assms(4)] show ?thesis
      using Some ix r(1,2) assms(2,3) by (simp add: index_find_def from_index_def find_stringpair_def)
  qed
qed

lemma insert_stringpair_Inr:
  "insert_stringpair h k l p t n = Inr (Some tab) \<Longrightarrow> tab = link_pair (k, new_pair h p t n) l"
  by (auto simp: insert_stringpair_def duplicatestring_def split: if_splits)

lemma adjustindex_Inr:
  "adjustindex c s = Inr s' \<Longrightarrow> alpha c \<and>
     s' = put_lists (\<lambda>l. l\<lparr>substindex := (substindex l)(c := map_option fst (find (starts c) (substpair l)))\<rparr>) s"
  by (auto simp: adjustindex_def put_lists_def starts_def [abs_def] Let_def split: if_splits)

lemma deprecate_pair_first: "deprecate_pair st d p = Inr q \<Longrightarrow> sp_first q = sp_first p"
  by (auto simp: deprecate_pair_def Let_def split: option.splits if_splits)

lemma insert_subst_cases:
  assumes "insert_subst p t n s = Inr s'"
  obtains cur where "alpha (deref p)" "sp_first cur = p"
    "lists s' = (lists s)\<lparr>substpair := update_pair (next_pair (lists s)) cur (link_pair (next_pair (lists s), new_pair (mem s) p t n) (substpair (lists s))),
       next_pair := next_pair (lists s) + 1,
       substindex := (substindex (lists s))(deref p :=
         map_option fst (find (starts (deref p)) (link_pair (next_pair (lists s), new_pair (mem s) p t n) (substpair (lists s)))))\<rparr>"
proof -
  let ?new = "new_pair (mem s) p t n"
  obtain r where r: "insert_stringpair (mem s) (next_pair (lists s)) (substpair (lists s)) p t n = Inr r"
    and rest: "(case r of None \<Rightarrow> Inl (Fatal 103) | Some tab \<Rightarrow>
        bind_res (adjustindex (deref p) (put_lists (\<lambda>l. l\<lparr>substpair := tab, next_pair := next_pair l + 1\<rparr>) s)) (\<lambda>s1.
        bind_res (deprecate_pair (sc_status s1) (pc_deprecate s1) ?new) (\<lambda>cur.
          Inr (put_lists (\<lambda>l. l\<lparr>substpair := update_pair (next_pair (lists s)) cur (substpair l)\<rparr>) s1\<lparr>pc_deprecate := None\<rparr>)))) = Inr s'"
    using assms unfolding insert_subst_def Let_def bind_res_Inr by blast
  obtain tab where tab: "r = Some tab" using rest by (cases r) auto
  obtain s1 cur where s1: "adjustindex (deref p) (put_lists (\<lambda>l. l\<lparr>substpair := tab, next_pair := next_pair l + 1\<rparr>) s) = Inr s1"
    and cur: "deprecate_pair (sc_status s1) (pc_deprecate s1) ?new = Inr cur"
    and s': "s' = put_lists (\<lambda>l. l\<lparr>substpair := update_pair (next_pair (lists s)) cur (substpair l)\<rparr>) s1\<lparr>pc_deprecate := None\<rparr>"
    using rest unfolding tab option.case bind_res_Inr by auto
  have "sp_first cur = p" using deprecate_pair_first [OF cur] by (simp add: new_pair_def)
  with adjustindex_Inr [OF s1] insert_stringpair_Inr [OF r [unfolded tab]] s' show ?thesis
    by (intro that) (auto simp: put_lists_def)
qed

lemma update_pair_key: "\<lbrakk>(k, p) \<in> set l; distinct (map fst l); sp_first q = sp_first p\<rbrakk> \<Longrightarrow>
  map (\<lambda>n. (fst n, sp_first (snd n))) (update_pair k q l) = map (\<lambda>n. (fst n, sp_first (snd n))) l"
  by (auto simp: update_pair_def dest: eq_key_imp_eq_value)

lemma pairs_ok_keys:
  "map (\<lambda>n. (fst n, sp_first (snd n))) l = map (\<lambda>n. (fst n, sp_first (snd n))) l' \<Longrightarrow> pairs_ok k l = pairs_ok k l'"
proof -
  let ?key = "\<lambda>n :: nat \<times> stringpair. (fst n, sp_first (snd n))"
  let ?ok = "\<lambda>k ks. sorted_wrt (\<lambda>m n. strcmp (snd m) (snd n) \<le> 0) ks \<and> distinct (map fst ks) \<and>
    (\<forall>n \<in> set ks. fst n < k \<and> cstring (snd n) \<and> ascii (deref (snd n)))"
  have key: "pairs_ok k l = ?ok k (map ?key l)" for l
    unfolding pairs_ok_def sorted_wrt_map first_le_def node_ok_def map_map o_def fst_conv snd_conv set_map ball_simps by (rule refl)
  show "pairs_ok k l = pairs_ok k l'" if "map ?key l = map ?key l'"
    unfolding key that by (rule refl)
qed

lemma find_starts_keys:
  "map (\<lambda>n. (fst n, sp_first (snd n))) l = map (\<lambda>n. (fst n, sp_first (snd n))) l' \<Longrightarrow>
   map_option fst (find (starts c) l) = map_option fst (find (starts c) l')"
proof (induction l arbitrary: l')
  case (Cons x l)
  then show ?case by (cases l') (auto simp: starts_def)
qed simp

lemma subst_insert:
  assumes "subst_ok s" "cstring p" "insert_subst p t n s = Inr s'"
  shows "subst_ok s'"
proof -
  let ?k = "next_pair (lists s)" and ?p = "new_pair (mem s) p t n"
  let ?t = "link_pair (?k, ?p) (substpair (lists s))"
  obtain cur where a: "alpha (deref p)" and c: "sp_first cur = p"
    and l': "lists s' = (lists s)\<lparr>substpair := update_pair ?k cur ?t, next_pair := ?k + 1,
      substindex := (substindex (lists s))(deref p := map_option fst (find (starts (deref p)) ?t))\<rparr>"
    using insert_subst_cases [OF assms(3)] by blast
  have old: "pairs_ok ?k (substpair (lists s))"
    and ix: "\<And>c. substindex (lists s) c = map_option fst (find (starts c) (substpair (lists s)))"
    using assms(1) by (auto simp: subst_ok_def)
  have ok: "pairs_ok (?k + 1) ?t" using old assms(2) alpha_ascii [OF a] by (intro link_pair_ok) (simp_all add: new_pair_def)
  then have u: "map (\<lambda>n. (fst n, sp_first (snd n))) (update_pair ?k cur ?t) = map (\<lambda>n. (fst n, sp_first (snd n))) ?t"
    using c by (intro update_pair_key [of _ ?p]) (auto simp: pairs_ok_def new_pair_def)
  have "map_option fst (find (starts c) (substpair (lists s))) = map_option fst (find (starts c) ?t)" if "c \<noteq> deref p" for c
    using that by (subst find_link_pair) (auto simp: starts_def new_pair_def)
  then have other: "map_option fst (find (starts c) ?t) = substindex (lists s) c" if "c \<noteq> deref p" for c
    using that ix by metis
  have ok': "pairs_ok (?k + 1) (update_pair ?k cur ?t)" using ok pairs_ok_keys [OF u] by blast
  have "((substindex (lists s))(deref p := map_option fst (find (starts (deref p)) ?t))) c =
      map_option fst (find (starts c) (update_pair ?k cur ?t))" for c
    unfolding find_starts_keys [OF u] using other by (cases "c = deref p") simp_all
  with ok' show ?thesis unfolding subst_ok_def l' by simp
qed

lemma subst_delete:
  assumes "subst_ok s" "alpha (deref name)" "cstring name" "delete_subst name len s = Inr (r, s')"
  shows "subst_ok s'"
proof -
  let ?l = "substpair (lists s)"
  have len: "0 < len" using assms(4) by (simp add: delete_subst_def index_find_def split: if_splits)
  have f: "index_find name len s = Inr (find (matches name len) ?l)" using index_find_correct assms len by blast
  show ?thesis
  proof (cases "find (matches name len) ?l")
    case None
    then show ?thesis using assms(1,4) f by (simp add: delete_subst_def)
  next
    case (Some n)
    then have n: "n \<in> set ?l" "matches name len n" by (auto simp: find_Some_iff)
    obtain k p where kp: "n = (k, p)" by (cases n)
    have old: "pairs_ok (next_pair (lists s)) ?l"
      and ix: "\<And>c. substindex (lists s) c = map_option fst (find (starts c) ?l)"
      using assms(1) by (auto simp: subst_ok_def)
    have "starts (deref name) n"
      using n old len assms(2) unfolding starts_def by (intro matches_deref) (auto simp: pairs_ok_def)
    then have "find (starts c) (snd (delete_stringpair ?l k)) = find (starts c) ?l" if "c \<noteq> deref name" for c
      using that n old kp by (intro find_delete_pair) (auto simp: pairs_ok_def starts_def dest: eq_key_imp_eq_value)
    moreover have "lists s' = (lists s)\<lparr>substpair := snd (delete_stringpair ?l k),
        substindex := (substindex (lists s))(deref name := map_option fst (find (starts (deref name)) (snd (delete_stringpair ?l k))))\<rparr>"
    proof -
      have "adjustindex (deref name) (put_lists (\<lambda>l. l\<lparr>substpair := snd (delete_stringpair (substpair l) k)\<rparr>) s) = Inr s'"
        using assms(4) f Some kp by (auto simp: delete_subst_def)
      from adjustindex_Inr [OF this] show ?thesis by (simp add: put_lists_def)
    qed
    ultimately show ?thesis using delete_pair_ok [OF old] by (simp add: subst_ok_def ix)
  qed
qed

lemma subst_empty: "subst_ok (delete_substtable s)"
  by (simp add: subst_ok_def delete_substtable_def put_lists_def delete_stringpairtable_def pairs_ok_def)

text \<open>The states that definitions and \<open>#undef\<close>s lead to from an emptied table.\<close>

inductive subst_reach :: "cstate \<Rightarrow> bool" where
  emptied: "subst_reach (delete_substtable s)"
| defined: "\<lbrakk>subst_reach s; cstring pattern; insert_subst pattern substitution prefixlen s = Inr s'\<rbrakk> \<Longrightarrow> subst_reach s'"
| undefined: "\<lbrakk>subst_reach s; cstring name; delete_subst name len s = Inr (r, s')\<rbrakk> \<Longrightarrow> subst_reach s'"

lemma delete_subst_alpha: "delete_subst name len s = Inr r \<Longrightarrow> alpha (deref name)"
  by (cases r) (auto simp: delete_subst_def index_find_def from_index_def split: if_splits)

lemma subst_reach_ok: "subst_reach s \<Longrightarrow> subst_ok s"
  by (induction rule: subst_reach.induct) (blast intro: subst_empty subst_insert subst_delete delete_subst_alpha)+

lemma alpha_cstring: "cstring s \<Longrightarrow> alpha (deref s) \<Longrightarrow> s \<noteq> []"
  by auto

text \<open>C39: After any sequence of definitions and \<open>#undef\<close>s, the lookup of \<open>find_subst\<close> and
  \<open>delete_subst\<close>, which enters the list at the node that the index holds for the first
  character and stops at the first greater one, gives what a search of the whole table gives;
  it never follows a pointer to a node that was freed.\<close>

theorem subst_lookup:
  assumes "subst_reach s" "0 < len" "alpha (deref name)" "cstring name"
  shows "index_find name len s = Inr (find (matches name len) (substpair (lists s)))"
  using subst_reach_ok [OF assms(1)] assms(2-4) by (rule index_find_correct)

lemma subst_lookup_witness:
  "\<exists>s. subst_reach s \<and> fst (hd (substpair (lists s))) = 1 \<and>
     map_sum id (map_option (sp_second \<circ> snd)) (index_find ''MAX)'' 3 s) = Inr (Some ''12'')"
proof -
  define s0 where "s0 = delete_substtable (initial_state ample_heap)"
  define s1 where "s1 = case_sum undefined id (insert_subst ''MAX'' ''12'' 3 s0)"
  define s2 where "s2 = case_sum undefined id (insert_subst ''M'' ''1'' 1 s1)"
  have h: "mem s0 = ample_heap" "pc_deprecate s0 = None" "substpair (lists s0) = []" "next_pair (lists s0) = 0"
    "substindex (lists s0) = (\<lambda>_. None)"
    by (simp_all add: s0_def delete_substtable_def put_lists_def initial_state_def delete_stringpairtable_def)
  have r0: "subst_reach s0" unfolding s0_def by (rule subst_reach.emptied)
  note run = insert_subst_def insert_stringpair_def duplicatestring_def ample_heap_def adjustindex_def put_lists_def
    deprecate_pair_def update_pair_def new_pair_def alpha_def isalpha_def isupper_def islower_def PUBLIC_CHAR_def Let_def
  have 1: "insert_subst ''MAX'' ''12'' 3 s0 = Inr s1" "mem s1 = ample_heap" "pc_deprecate s1 = None"
    "substpair (lists s1) = [(0, \<lparr>sp_first = ''MAX'', sp_second = ''12'', sp_matchlength = 3, sp_flags = 0, sp_documentation = Null\<rparr>)]"
    "next_pair (lists s1) = 1"
    unfolding s1_def by (simp_all add: run h)
  have 2: "insert_subst ''M'' ''1'' 1 s1 = Inr s2" 
    "substpair (lists s2) = [(1, \<lparr>sp_first = ''M'', sp_second = ''1'', sp_matchlength = 1, sp_flags = 0, sp_documentation = Null\<rparr>),
       (0, \<lparr>sp_first = ''MAX'', sp_second = ''12'', sp_matchlength = 3, sp_flags = 0, sp_documentation = Null\<rparr>)]"
    unfolding s2_def by (simp_all add: run 1)
  have r: "subst_reach s2"
    by (intro subst_reach.defined [OF subst_reach.defined [OF r0 _ 1(1)] _ 2(1)]) (simp_all add: cstring_def NUL_def)
  show ?thesis
    using subst_lookup [OF r, of 3 "''MAX)''"] r
    by (intro exI [of _ s2]) (simp add: 2 matches_def cstring_def NUL_def alpha_def isalpha_def isupper_def)
qed

subsection \<open>Aliases\<close>

definition alias_ok :: "cstate \<Rightarrow> bool" where
  "alias_ok s \<longleftrightarrow> pairs_ok (next_pair (lists s)) (alias_tab (lists s)) \<and>
     (\<forall>n \<in> set (alias_tab (lists s)). sp_matchlength (snd n) = length (sp_first (snd n)))"

lemma find_new_pair:
  "\<lbrakk>\<forall>n \<in> set l. sp_matchlength (snd n) = length (sp_first (snd n)); cstring (sp_first p); sp_matchlength p = length (sp_first p)\<rbrakk> \<Longrightarrow>
   find (matches (sp_first p) (length (sp_first p))) (link_pair (k, p) l) = Some (k, p)"
  by (induction l) (auto simp: matches_def)

lemma lookup_alias_find:
  assumes "alias_ok s" "ascii (deref name)" "cstring name"
  shows "find_stringpair (alias_tab (lists s)) name (length name) =
    Inr (find (matches name (length name)) (alias_tab (lists s)))"
proof -
  have len: "0 < length name" using assms(2) by auto
  show ?thesis
    using find_pair_loop [OF _ _ len assms(2,3), of "alias_tab (lists s)" "next_pair (lists s)"] assms(1) len
    by (simp add: find_stringpair_def alias_ok_def pairs_ok_def)
qed

text \<open>C40: Let the names in the alias table, the new one included, start with an ASCII character
  other than NUL, as the names of functions (letters, \<open>_\<close>, \<open>@\<close>) and of operators (digits of a
  tag or the operator) do, and let the table be ordered. The alias that \<open>insert_alias\<close> records for
  a name is then the one that \<open>lookup_alias\<close> finds, also when the name had another; \<open>lookup_alias\<close>
  of any other such name gives what it gave before, and the table stays ordered.\<close>

theorem alias_roundtrip:
  assumes "alias_ok s" "cstring name" "ascii (deref name)" "insert_alias name alias s = Inr s'"
  shows "lookup_alias name s' = Inr (Some alias) \<and> alias_ok s' \<and>
    (\<forall>other. other \<noteq> name \<and> cstring other \<and> ascii (deref other) \<longrightarrow> lookup_alias other s' = lookup_alias other s)"
proof -
  let ?k = "next_pair (lists s)" and ?p = "new_pair (mem s) name alias (length name)"
  have len: "length alias \<le> sNAMEMAX"
    and s': "s' = put_lists (\<lambda>l. l\<lparr>alias_tab := link_pair (?k, ?p) (alias_tab l), next_pair := next_pair l + 1\<rparr>) s"
    using assms(4) insert_stringpair_Inr by (auto simp: insert_alias_def put_lists_def split: if_splits option.splits)
  have tab: "alias_tab (lists s') = link_pair (?k, ?p) (alias_tab (lists s))" "next_pair (lists s') = ?k + 1"
    by (simp_all add: s' put_lists_def)
  have "pairs_ok (?k + 1) (link_pair (?k, ?p) (alias_tab (lists s)))"
    using assms(1-3) by (intro link_pair_ok) (simp_all add: alias_ok_def new_pair_def)
  then have ok: "alias_ok s'" using assms(1) by (auto simp: alias_ok_def tab new_pair_def)
  have "find (matches name (length name)) (link_pair (?k, ?p) (alias_tab (lists s))) = Some (?k, ?p)"
    using find_new_pair [of "alias_tab (lists s)" ?p ?k] assms(1,2) by (simp add: alias_ok_def new_pair_def)
  then have "find_stringpair (alias_tab (lists s')) name (length name) = Inr (Some (?k, ?p))"
    using lookup_alias_find [OF ok assms(3,2)] by (simp only: tab)
  then have new: "lookup_alias name s' = Inr (Some alias)"
    using len by (simp add: lookup_alias_def new_pair_def)
  have "lookup_alias other s' = lookup_alias other s" if "cstring other" "ascii (deref other)" "other \<noteq> name" for other
  proof -
    have "\<not> matches other (length other) (?k, ?p)" using that(3) by (auto simp: matches_def new_pair_def)
    then show ?thesis
      using lookup_alias_find [OF ok that(2,1)] lookup_alias_find [OF assms(1) that(2,1)]
      by (simp only: lookup_alias_def tab find_link_pair not_False_eq_True)
  qed
  with ok new show ?thesis by blast
qed

theorem alias_roundtrip_witness:
  "map_sum id (\<lambda>s. lookup_alias ''40000002*40000002'' s) (insert_alias ''40000002*40000002'' ''floatmul'' (initial_state ample_heap)) = Inr (Inr (Some ''floatmul''))"
proof -
  let ?s = "initial_state ample_heap"
  have "alias_ok ?s" by (simp add: alias_ok_def initial_state_def pairs_ok_def)
  moreover obtain s' where "insert_alias ''40000002*40000002'' ''floatmul'' ?s = Inr s'"
    by (simp add: insert_alias_def insert_stringpair_def duplicatestring_def ample_heap_def initial_state_def sNAMEMAX_def)
  ultimately show ?thesis
    using alias_roundtrip [of ?s "''40000002*40000002''" "''floatmul''" s'] by (simp add: cstring_def NUL_def ascii_def)
qed

end
