(* ===== verification/DebugInfo.thy ===== *)
theory DebugInfo
  imports StringLists Assembler
begin

text \<open>
  Symbolic information: the strings that the compiler collects while it writes code
  (\<open>insert_dbgfile\<close>, \<open>insert_dbgline\<close>, \<open>insert_dbgsymbol\<close> of \<open>sclist.c\<close>) and the tables that
  \<open>append_dbginfo\<close> of \<open>sc6.c\<close> makes of them, in the structures of \<open>amxdbg.h\<close>. A \<open>long\<close> has 32 bits.
\<close>

subsection \<open>Collecting\<close>

text \<open>\<open>%08lx\<close>, \<open>%04x\<close> and \<open>%x\<close> of \<open>sprintf\<close>: hexadecimal digits, filled up with zeros.\<close>

definition hex_text :: "nat \<Rightarrow> cell \<Rightarrow> string" where
  "hex_text n v = replicate (n - length (itoh v)) (CHR ''0'') @ itoh v"

definition MAX_PATH :: nat where "MAX_PATH = 4096"

definition dbg_active :: "cstate \<Rightarrow> bool" where
  "dbg_active s \<longleftrightarrow> sc_status s = statWRITE \<and> sc_debug s AND sSYMBOLIC \<noteq> 0"

definition add_dbgstring :: "string \<Rightarrow> cstate \<Rightarrow> fault + cstate" where
  "add_dbgstring str s = bind_res (insert_string str (mem s) (dbgstrings (lists s))) (\<lambda>x. Inr (put_lists (\<lambda>l. l\<lparr>dbgstrings := x\<rparr>) s))"

definition insert_dbgfile :: "string \<Rightarrow> cstate \<Rightarrow> fault + cstate" where
  "insert_dbgfile filename s =
     (if dbg_active s
      then if length filename + 40 < MAX_PATH + 40
           then add_dbgstring (''F:'' @ hex_text 8 (code_idx s) @ '' '' @ filename) s else Inl AssertFail
      else Inr s)"

definition insert_dbgline :: "int \<Rightarrow> cstate \<Rightarrow> fault + cstate" where
  "insert_dbgline linenr s =
     (if dbg_active s
      then let linenr = (if linenr > 0 then linenr - 1 else linenr)
           in add_dbgstring (''L:'' @ hex_text 8 (code_idx s) @ '' '' @ hex_text 4 (of_int linenr)) s
      else Inr s)"

fun ident_code :: "ident \<Rightarrow> cell" where
  "ident_code iLABEL = 0" | "ident_code iVARIABLE = 1" | "ident_code iREFERENCE = 2" | "ident_code iARRAY = 3"
| "ident_code iREFARRAY = 4" | "ident_code iARRAYCELL = 5" | "ident_code iARRAYCHAR = 6" | "ident_code iEXPRESSION = 7"
| "ident_code iCONSTEXPR = 8" | "ident_code iFUNCTN = 9" | "ident_code iREFFUNC = 10" | "ident_code iVARARGS = 11"

fun vclass_code :: "vclass \<Rightarrow> cell" where
  "vclass_code sGLOBAL = 0" | "vclass_code sLOCAL = 1" | "vclass_code sSTATIC = 2"

text \<open>
  The loop over the dimensions of an array. The assertion compares the level with a count that
  goes down, so the loop ends; \<open>n\<close> is the count plus one.
\<close>

fun dims_text :: "cstate \<Rightarrow> nat \<Rightarrow> nat option \<Rightarrow> fault + string" where
  "dims_text s n None = Inr []"
| "dims_text s 0 (Some sub) = Inl AssertFail"
| "dims_text s (Suc count) (Some sub) =
     bind_res (get_sym s (Some sub)) (\<lambda>sy.
       if sym_level sy \<noteq> count then Inl AssertFail
       else bind_res (finddepend sub s) (\<lambda>next_dim. bind_res (dims_text s count next_dim) (\<lambda>text.
              Inr (hex_text 1 (of_int (sym_idxtag sy)) @ '':'' @ hex_text 1 (sym_length sy) @ '' '' @ text))))"

text \<open>The buffers \<open>symname\<close> and \<open>string\<close> have 142 and 254 bytes.\<close>

definition insert_dbgsymbol :: "nat \<Rightarrow> cstate \<Rightarrow> fault + cstate" where
  "insert_dbgsymbol p s =
     (if dbg_active s
      then bind_res (get_sym s (Some p)) (\<lambda>sy. bind_res (funcdisplayname (sym_name sy) s) (\<lambda>symname.
           let range = (if sym_ident sy = iFUNCTN then (sym_addr sy, sym_codeaddr sy) else (sym_codeaddr sy, code_idx s));
               string = ''S:'' @ hex_text 8 (sym_addr sy) @ '' '' @ hex_text 1 (of_int (sym_tag sy)) @ '':'' @ symname @ '' '' @
                 hex_text 8 (fst range) @ '' '' @ hex_text 8 (snd range) @ '' '' @
                 hex_text 1 (ident_code (sym_ident sy)) @ '' '' @ hex_text 1 (vclass_code (sym_vclass sy))
           in bind_res (if sym_ident sy = iARRAY \<or> sym_ident sy = iREFARRAY
                        then bind_res (dims_text s (Suc (sym_level sy)) (Some p)) (\<lambda>text. Inr ('' [ '' @ text @ '']''))
                        else Inr []) (\<lambda>dims.
              if length symname < 2 * sNAMEMAX + 16 \<and> length (string @ dims) < 2 * sNAMEMAX + 128
              then add_dbgstring (string @ dims) s else Inl OutOfBounds)))
      else Inr s)"

definition get_dbgstring :: "int \<Rightarrow> cstate \<Rightarrow> string option" where
  "get_dbgstring index s = get_string (dbgstrings (lists s)) index"

definition delete_dbgstringtable :: "cstate \<Rightarrow> cstate" where
  "delete_dbgstringtable = put_lists (\<lambda>l. l\<lparr>dbgstrings := delete_stringtable (dbgstrings l)\<rparr>)"

subsection \<open>Reading the strings again\<close>

text \<open>
  Each of the loops \<open>for (index=0; (str=get_dbgstring(index))!=NULL; index++)\<close> goes over the
  list of strings, asserts the form of each and selects those of one kind.
\<close>

definition dbg_kind :: "string \<Rightarrow> fault + char" where
  "dbg_kind str = (if deref str \<noteq> NUL \<and> deref (tl str) = CHR '':'' then Inr (deref str) else Inl AssertFail)"

fun over_kind :: "char \<Rightarrow> (string \<Rightarrow> fault + 'r) \<Rightarrow> string list \<Rightarrow> fault + 'r list" where
  "over_kind c f [] = Inr []"
| "over_kind c f (str # strs) =
     bind_res (dbg_kind str) (\<lambda>k.
       if k = c then bind_res (f str) (\<lambda>r. bind_res (over_kind c f strs) (\<lambda>rs. Inr (r # rs))) else over_kind c f strs)"

text \<open>
  The file table: an entry is written when a file starts at another address, so only the last
  of the files that start at an address gets one. \<open>prevname\<close> is set when \<open>prevstr\<close> is.
\<close>

fun dbg_files :: "string list \<Rightarrow> cell \<Rightarrow> string option \<Rightarrow> fault + (cell \<times> string) list" where
  "dbg_files [] previdx prevname = Inr (case prevname of None \<Rightarrow> [] | Some name \<Rightarrow> [(previdx, name)])"
| "dbg_files (str # strs) previdx prevname =
     bind_res (dbg_kind str) (\<lambda>k.
       if k = CHR ''F''
       then bind_res (hex2long (drop 2 str)) (\<lambda>(codeidx, name).
            bind_res (dbg_files strs codeidx (Some (skipwhitespace name))) (\<lambda>entries.
              Inr ((if codeidx \<noteq> previdx then case prevname of None \<Rightarrow> [] | Some name \<Rightarrow> [(previdx, name)] else []) @ entries)))
       else dbg_files strs previdx prevname)"

definition parse_dbgline :: "string \<Rightarrow> fault + cell \<times> cell" where
  "parse_dbgline str = bind_res (hex2long (drop 2 str)) (\<lambda>(address, str). bind_res (hex2long str) (\<lambda>(line, _). Inr (address, line)))"

text \<open>What the first pass counts for a symbol.\<close>

definition symbol_size :: "string \<Rightarrow> fault + nat" where
  "symbol_size str =
     (let name = dropWhile (\<lambda>c. c \<noteq> CHR '':'') (drop 2 str)
      in if name = [] then Inl AssertFail
         else Inr (19 + length (skipwhitespace (tl name)) +
                6 * length (filter (\<lambda>c. c = CHR '':'') (tl (dropWhile (\<lambda>c. c \<noteq> CHR ''['') name)))))"

record dbg_symbol =
  ds_address :: cell
  ds_tag :: cell
  ds_codestart :: cell
  ds_codeend :: cell
  ds_ident :: cell
  ds_vclass :: cell
  ds_name :: string
  ds_dims :: "(cell \<times> cell) list"

definition sDIMEN_MAX :: nat where "sDIMEN_MAX = 4"

text \<open>\<open>while (*(str=skipwhitespace(str+1))!=']')\<close>; \<open>dim\<close> is the index in \<open>dbgidxtag\<close>.\<close>

function parse_dims :: "nat \<Rightarrow> string \<Rightarrow> fault + (cell \<times> cell) list" where
  "parse_dims dim str =
     (if str = [] then Inl OutOfBounds
      else let str = skipwhitespace (tl str)
           in if deref str = CHR '']'' then Inr []
              else if dim \<ge> sDIMEN_MAX then Inl OutOfBounds
              else bind_res (hex2long str) (\<lambda>(tag, str).
                   let str = skipwhitespace str
                   in if deref str \<noteq> CHR '':'' then Inl AssertFail
                      else bind_res (hex2long (tl str)) (\<lambda>(extent, str).
                           bind_res (parse_dims (dim + 1) str) (\<lambda>dims. Inr ((tag, extent) # dims)))))"
  by pat_completeness auto
termination
  by (relation "measure (\<lambda>(dim, str). sDIMEN_MAX - dim)") auto

declare parse_dims.simps [simp del]

definition parse_dbgsymbol :: "string \<Rightarrow> fault + dbg_symbol" where
  "parse_dbgsymbol str =
     bind_res (hex2long (drop 2 str)) (\<lambda>(address, str).
     bind_res (hex2long str) (\<lambda>(tag, str).
     let str = skipwhitespace str
     in if deref str \<noteq> CHR '':'' then Inl AssertFail
        else let text = skipwhitespace (tl str); name = takeWhile (\<lambda>c. c \<noteq> CHR '' '') text
        in if length name = length text \<or> length name \<ge> 2 * sNAMEMAX + 16 then Inl AssertFail
           else bind_res (hex2long (drop (length name) text)) (\<lambda>(codestart, str).
                bind_res (hex2long str) (\<lambda>(codeend, str).
                bind_res (hex2long str) (\<lambda>(ident, str).
                bind_res (hex2long str) (\<lambda>(vclass, str).
                let str = skipwhitespace str
                in bind_res (if deref str = CHR ''['' then parse_dims 0 str else Inr []) (\<lambda>dims.
                   Inr \<lparr>ds_address = address, ds_tag = tag, ds_codestart = codestart, ds_codeend = codeend,
                        ds_ident = ident, ds_vclass = vclass, ds_name = name, ds_dims = dims\<rparr>)))))))"

subsection \<open>Writing the tables\<close>

definition char_bytes :: "string \<Rightarrow> byte list" where
  "char_bytes str = map of_char str"

text \<open>\<open>writeerror |= !pc_writebin(fout,buffer,size)\<close>\<close>

definition write_dbg :: "byte list \<Rightarrow> asmstate \<Rightarrow> asmstate" where
  "write_dbg buffer a = (let (ok, f) = pc_writebin buffer (fbin a) in a\<lparr>fbin := f, writeerror := writeerror a \<or> \<not> ok\<rparr>)"

text \<open>\<open>AMX_DBG_HDR\<close>; the counts have 16 bits.\<close>

definition dbg_header :: "nat \<Rightarrow> nat list \<Rightarrow> byte list" where
  "dbg_header extent counts = le_bytes 4 (of_nat extent) @ le_bytes 2 0xf1ef @ [8, 8] @ le_bytes 2 0 @ concat (map (\<lambda>n. le_bytes 2 (of_nat n)) counts)"

definition file_chunks :: "cell \<times> string \<Rightarrow> byte list list" where
  "file_chunks = (\<lambda>(address, name). [le_bytes 4 address, char_bytes name @ [0]])"

definition line_chunks :: "cell \<times> cell \<Rightarrow> byte list list" where
  "line_chunks = (\<lambda>(address, line). [le_bytes 4 address @ le_bytes 4 line])"

definition symbol_chunks :: "dbg_symbol \<Rightarrow> byte list list" where
  "symbol_chunks d =
     [le_bytes 4 (ds_address d) @ le_bytes 2 (ds_tag d) @ le_bytes 4 (ds_codestart d) @ le_bytes 4 (ds_codeend d) @
        le_bytes 1 (ds_ident d) @ le_bytes 1 (ds_vclass d) @ le_bytes 2 (of_nat (length (ds_dims d))),
      char_bytes (ds_name d) @ [0]] @ map (\<lambda>(tag, extent). le_bytes 2 tag @ le_bytes 4 extent) (ds_dims d)"

definition tag_chunks :: "constvalue \<Rightarrow> byte list list" where
  "tag_chunks c = [le_bytes 2 (cv_value c AND TAGMASK), char_bytes (cv_name c) @ [0]]"

definition automaton_chunks :: "constvalue \<Rightarrow> byte list list" where
  "automaton_chunks c = [le_bytes 2 (of_int (cv_index c)), le_bytes 4 (cv_value c), char_bytes (cv_name c) @ [0]]"

definition state_chunks :: "constvalue \<Rightarrow> byte list list" where
  "state_chunks c = [le_bytes 2 (cv_value c), le_bytes 2 (of_int (cv_index c)), char_bytes (cv_name c) @ [0]]"

definition names_ok :: "cstate \<Rightarrow> bool" where
  "names_ok s \<longleftrightarrow> list_all (\<lambda>c. cv_name c \<noteq> []) (tagname_tab s) \<and> list_all (\<lambda>c. cv_name c \<noteq> []) (sc_state_tab s) \<and>
     list_all (\<lambda>c. cv_index c = 0 \<and> cv_name c = [] \<or> cv_name c \<noteq> []) (sc_automaton_tab s)"

text \<open>The first pass: the number of entries of the tables, and the size of the whole.\<close>

definition dbg_sizes :: "cstate \<Rightarrow> fault + nat \<times> nat list" where
  "dbg_sizes s =
     (let strs = dbgstrings (lists s)
      in bind_res (dbg_files strs 0 None) (\<lambda>files.
         bind_res (over_kind (CHR ''L'') (\<lambda>_. Inr ()) strs) (\<lambda>ls.
         bind_res (over_kind (CHR ''S'') symbol_size strs) (\<lambda>ss.
           if \<not> names_ok s then Inl AssertFail
           else Inr (22 + sum_list (map (\<lambda>(_, name). 4 + length name + 1) files) + 8 * length ls + sum_list ss +
                     sum_list (map (\<lambda>c. 3 + length (cv_name c)) (tagname_tab s)) +
                     sum_list (map (\<lambda>c. 7 + length (cv_name c)) (sc_automaton_tab s)) +
                     sum_list (map (\<lambda>c. 5 + length (cv_name c)) (sc_state_tab s)),
                  [length files, length ls, length ss, length (tagname_tab s), length (sc_automaton_tab s), length (sc_state_tab s)])))))"

definition append_dbginfo :: "cstate \<Rightarrow> asmstate \<Rightarrow> fault + cstate \<times> asmstate" where
  "append_dbginfo s a =
     (let strs = dbgstrings (lists s)
      in bind_res (dbg_sizes s) (\<lambda>(extent, counts).
         bind_res (dbg_files strs 0 None) (\<lambda>files.
         bind_res (over_kind (CHR ''L'') parse_dbgline strs) (\<lambda>ls.
         bind_res (over_kind (CHR ''S'') parse_dbgsymbol strs) (\<lambda>ss.
           Inr (delete_dbgstringtable s,
                fold write_dbg (dbg_header extent counts # concat (map file_chunks files) @ concat (map line_chunks ls) @
                  concat (map symbol_chunks ss) @ concat (map tag_chunks (tagname_tab s)) @
                  concat (map automaton_chunks (sc_automaton_tab s)) @ concat (map state_chunks (sc_state_tab s))) a))))))"

end
