(* ===== verification/ProgramFile.thy ===== *)
theory ProgramFile
  imports DebugInfo AmxImage
begin

text \<open>
  \<open>assemble\<close> of \<open>sc6.c\<close>: the header of the program file, the tables of public functions, native
  functions, libraries, public variables and tags with the table of their names, the code and data
  of the two passes, and the symbolic information. The structures are those of \<open>amx.h\<close>; an
  entry \<open>AMX_FUNCSTUBNT\<close> is an address and the offset of a name, 8 bytes.
\<close>

subsection \<open>What goes into the tables\<close>

definition uMAINFUNC :: string where "uMAINFUNC = ''main''"

definition native_used :: "symbol \<Rightarrow> bool" where
  "native_used sy \<longleftrightarrow> sym_ident sy = iFUNCTN \<and> has_flag (sym_usage sy) uNATIVE \<and> has_flag (sym_usage sy) uREAD \<and> sint (sym_addr sy) \<ge> 0"

definition public_defined :: "symbol \<Rightarrow> bool" where
  "public_defined sy \<longleftrightarrow> sym_ident sy = iFUNCTN \<and> has_flag (sym_usage sy) uPUBLIC \<and> has_flag (sym_usage sy) uDEFINE"

definition pubvar_used :: "symbol \<Rightarrow> bool" where
  "pubvar_used sy \<longleftrightarrow> sym_ident sy \<in> {iVARIABLE, iARRAY, iREFARRAY} \<and>
     has_flag (sym_usage sy) uPUBLIC \<and> has_flag (sym_usage sy) (uREAD OR uWRITTEN)"

definition library_used :: "constvalue \<Rightarrow> bool" where
  "library_used c \<longleftrightarrow> sint (cv_value c) > 0"

definition tag_public :: "constvalue \<Rightarrow> bool" where
  "tag_public c \<longleftrightarrow> cv_value c AND PUBLICTAG \<noteq> 0"

text \<open>The name in the table: for a native function its alias, when it has one.\<close>

definition plain_name :: "string \<Rightarrow> fault + string" where
  "plain_name name = (if length name \<le> sNAMEMAX then Inr name else Inl AssertFail)"

definition native_name :: "string \<Rightarrow> cstate \<Rightarrow> fault + string" where
  "native_name name s = bind_res (lookup_alias name s) (\<lambda>r. case r of Some alias \<Rightarrow> Inr alias | None \<Rightarrow> plain_name name)"

text \<open>\<open>for (sym=glbtab.next; sym!=NULL; sym=sym->next)\<close>\<close>

fun over_globals :: "(symbol \<Rightarrow> 'a \<Rightarrow> fault + 'a) \<Rightarrow> cstate \<Rightarrow> nat list \<Rightarrow> 'a \<Rightarrow> fault + 'a" where
  "over_globals f s [] x = Inr x"
| "over_globals f s (p # ps) x = bind_res (get_sym s (Some p)) (\<lambda>sy. bind_res (f sy x) (over_globals f s ps))"

subsection \<open>Counting\<close>

record counts =
  nametablesize :: nat
  numpublics :: nat
  numnatives :: nat
  numpubvars :: nat
  mainaddr :: cell

definition count_function :: "symbol \<Rightarrow> counts \<Rightarrow> fault + counts" where
  "count_function sy c =
     (let c = (if native_used sy then c\<lparr>numnatives := numnatives c + 1\<rparr> else c);
          c = (if public_defined sy then c\<lparr>numpublics := numpublics c + 1\<rparr> else c)
      in if sym_name sy = uMAINFUNC
         then if sym_vclass sy = sGLOBAL then Inr (c\<lparr>mainaddr := sym_addr sy\<rparr>) else Inl AssertFail
         else Inr c)"

definition count_symbol :: "cstate \<Rightarrow> symbol \<Rightarrow> counts \<Rightarrow> fault + counts" where
  "count_symbol s sy c =
     bind_res (if sym_ident sy = iFUNCTN then count_function sy c
               else Inr (if pubvar_used sy then c\<lparr>numpubvars := numpubvars c + 1\<rparr> else c)) (\<lambda>c.
       if native_used sy \<or> public_defined sy \<or> pubvar_used sy
       then bind_res (if has_flag (sym_usage sy) uNATIVE then native_name (sym_name sy) s else plain_name (sym_name sy))
              (\<lambda>alias. Inr (c\<lparr>nametablesize := nametablesize c + length alias + 1\<rparr>))
       else Inr c)"

definition count_symbols :: "cstate \<Rightarrow> fault + counts" where
  "count_symbols s =
     bind_res (over_globals (count_symbol s) s (glbtab s)
       \<lparr>nametablesize = 2, numpublics = 0, numnatives = 0, numpubvars = 0, mainaddr = - 1\<rparr>) (\<lambda>c.
       if numnatives c = ntv_funcid s then Inr c else Inl AssertFail)"

text \<open>Libraries and tags: the names of the entries selected, which must not be empty.\<close>

definition count_names :: "(constvalue \<Rightarrow> bool) \<Rightarrow> constvalue list \<Rightarrow> fault + nat \<times> nat" where
  "count_names P tab =
     (let l = filter P tab
      in if list_all (\<lambda>c. cv_name c \<noteq> []) l then Inr (length l, sum_list (map (\<lambda>c. length (cv_name c) + 1) l)) else Inl AssertFail)"

definition libraries :: "cstate \<Rightarrow> constvalue list" where
  "libraries s = (if pc_addlibtable s then libname_tab s else [])"

subsection \<open>The header\<close>

definition AMX_FLAG_NOCHECKS :: cell where "AMX_FLAG_NOCHECKS = 0x10"
definition MIN_AMX_VERSION :: int where "MIN_AMX_VERSION = 8"

definition header_padding :: "cstate \<Rightarrow> nat \<Rightarrow> nat" where
  "header_padding s names = (let r = (56 + names) mod sc_dataalign s in if r = 0 then 0 else sc_dataalign s - r)"

definition program_header :: "cstate \<Rightarrow> counts \<Rightarrow> nat \<Rightarrow> nat \<Rightarrow> nat \<Rightarrow> amx_header" where
  "program_header s c numlibraries numtags names =
     (let publics = 56; natives = publics + numpublics c * 8; libs = natives + numnatives c * 8;
          pubvars = libs + numlibraries * 8; tags = pubvars + numpubvars c * 8; nametable = tags + numtags * 8;
          cod = nametable + names + header_padding s names;
          dat = of_nat cod + code_idx s; hea = dat + glb_declared s * 4; stp = hea + sc_stksize s * 4
      in \<lparr>hdr_size = sint hea, hdr_magic = AMX_MAGIC, file_version = CUR_FILE_VERSION, amx_version = MIN_AMX_VERSION,
          hdr_flags = (sc_debug s AND sSYMBOLIC) OR (if sc_compress s then AMX_FLAG_COMPACT else 0) OR
            (if sc_debug s = 0 then AMX_FLAG_NOCHECKS else 0),
          defsize = 8, hdr_cod = int cod, hdr_dat = sint dat, hdr_hea = sint hea, hdr_stp = sint stp, hdr_cip = sint (mainaddr c),
          hdr_publics = int publics, hdr_natives = int natives, hdr_libraries = int libs, hdr_pubvars = int pubvars,
          hdr_tags = int tags, hdr_nametable = int nametable\<rparr>)"

definition int_bytes :: "nat \<Rightarrow> int \<Rightarrow> byte list" where
  "int_bytes n v = le_bytes n (of_int v)"

definition header_bytes :: "amx_header \<Rightarrow> byte list" where
  "header_bytes h =
     int_bytes 4 (hdr_size h) @ int_bytes 2 (hdr_magic h) @ int_bytes 1 (file_version h) @ int_bytes 1 (amx_version h) @
     le_bytes 2 (hdr_flags h) @ int_bytes 2 (defsize h) @ int_bytes 4 (hdr_cod h) @ int_bytes 4 (hdr_dat h) @
     int_bytes 4 (hdr_hea h) @ int_bytes 4 (hdr_stp h) @ int_bytes 4 (hdr_cip h) @ int_bytes 4 (hdr_publics h) @
     int_bytes 4 (hdr_natives h) @ int_bytes 4 (hdr_libraries h) @ int_bytes 4 (hdr_pubvars h) @ int_bytes 4 (hdr_tags h) @
     int_bytes 4 (hdr_nametable h)"

subsection \<open>Writing the tables\<close>

text \<open>\<open>pc_resetbin\<close>, then \<open>pc_writebin\<close>, whose result is not looked at.\<close>

definition write_at :: "nat \<Rightarrow> byte list \<Rightarrow> binfile \<Rightarrow> binfile" where
  "write_at pos buffer f = snd (pc_writebin buffer (pc_resetbin pos f))"

record table_state =
  ts_file :: binfile
  ts_nameofs :: nat
  ts_count :: nat

text \<open>\<open>count\<close> is an \<open>int16_t\<close>; a table in which it would overflow is a fault here.\<close>

definition write_entry :: "int \<Rightarrow> cell \<Rightarrow> string \<Rightarrow> table_state \<Rightarrow> fault + table_state" where
  "write_entry base address name t =
     (if ts_count t \<ge> 2 ^ 15 then Inl OutOfBounds
      else let f = write_at (nat base + ts_count t * 8) (le_bytes 4 address @ le_bytes 4 (of_nat (ts_nameofs t))) (ts_file t);
               f = write_at (ts_nameofs t) (char_bytes name @ [0]) f
           in Inr (t\<lparr>ts_file := f, ts_nameofs := ts_nameofs t + length name + 1, ts_count := ts_count t + 1\<rparr>))"

definition write_public :: "int \<Rightarrow> symbol \<Rightarrow> table_state \<Rightarrow> fault + table_state" where
  "write_public base sy t =
     (if public_defined sy
      then if sym_vclass sy = sGLOBAL then write_entry base (sym_addr sy) (sym_name sy) t else Inl AssertFail
      else Inr t)"

text \<open>\<open>nativelist\<close>: the native functions in the order of their numbers.\<close>

definition place_native :: "symbol \<Rightarrow> symbol option list \<Rightarrow> fault + symbol option list" where
  "place_native sy l =
     (if native_used sy
      then if sint (sym_addr sy) < int (length l) then Inr (l[unat (sym_addr sy) := Some sy]) else Inl AssertFail
      else Inr l)"

fun write_natives :: "cstate \<Rightarrow> int \<Rightarrow> symbol option list \<Rightarrow> table_state \<Rightarrow> fault + table_state" where
  "write_natives s base [] t = Inr t"
| "write_natives s base (None # l) t = Inl AssertFail"
| "write_natives s base (Some sy # l) t =
     bind_res (native_name (sym_name sy) s) (\<lambda>alias.
       if sym_vclass sy \<noteq> sGLOBAL then Inl AssertFail
       else bind_res (write_entry base 0 alias t) (write_natives s base l))"

definition write_native_table :: "cstate \<Rightarrow> int \<Rightarrow> nat \<Rightarrow> table_state \<Rightarrow> fault + table_state" where
  "write_native_table s base num t =
     (if num > 0
      then if \<not> granted (mem s) (num * 4) then Inl (Fatal 103)
           else bind_res (over_globals place_native s (glbtab s) (replicate num None)) (\<lambda>l. write_natives s base l (t\<lparr>ts_count := 0\<rparr>))
      else Inr t)"

definition write_pubvar :: "int \<Rightarrow> symbol \<Rightarrow> table_state \<Rightarrow> fault + table_state" where
  "write_pubvar base sy t =
     (if pubvar_used sy
      then if has_flag (sym_usage sy) uDEFINE \<and> sym_vclass sy = sGLOBAL then write_entry base (sym_addr sy) (sym_name sy) t
           else Inl AssertFail
      else Inr t)"

text \<open>The libraries and the tags: the entries of a table of values that \<open>P\<close> selects.\<close>

definition write_names :: "(constvalue \<Rightarrow> bool) \<Rightarrow> (constvalue \<Rightarrow> cell) \<Rightarrow> int \<Rightarrow> constvalue list \<Rightarrow> table_state \<Rightarrow> fault + table_state" where
  "write_names P address base tab t =
     seq (map (\<lambda>c t. if cv_name c = [] then Inl AssertFail else write_entry base (address c) (cv_name c) t) (filter P tab)) (t\<lparr>ts_count := 0\<rparr>)"

definition write_tables :: "cstate \<Rightarrow> amx_header \<Rightarrow> counts \<Rightarrow> table_state \<Rightarrow> fault + table_state" where
  "write_tables s hdr c t =
     bind_res (over_globals (write_public (hdr_publics hdr)) s (glbtab s) (t\<lparr>ts_count := 0\<rparr>)) (\<lambda>t.
     bind_res (write_native_table s (hdr_natives hdr) (numnatives c) t) (\<lambda>t.
     bind_res (write_names library_used (\<lambda>_. 0) (hdr_libraries hdr) (libraries s) t) (\<lambda>t.
     bind_res (over_globals (write_pubvar (hdr_pubvars hdr)) s (glbtab s) (t\<lparr>ts_count := 0\<rparr>)) (\<lambda>t.
       write_names tag_public (\<lambda>c. cv_value c AND TAGMASK) (hdr_tags hdr) (tagname_tab s) t))))"

text \<open>The part of \<open>assemble\<close> that comes before the passes: counting, the header and the tables.\<close>

definition write_image_header :: "cstate \<Rightarrow> binfile \<Rightarrow> fault + amx_header \<times> binfile" where
  "write_image_header s f =
     bind_res (count_symbols s) (\<lambda>c.
     bind_res (count_names library_used (libraries s)) (\<lambda>(numlibraries, libnames).
     bind_res (count_names tag_public (tagname_tab s)) (\<lambda>(numtags, tagnames).
       if sc_dataalign s = 0 then Inl AssertFail
       else let names = nametablesize c + libnames + tagnames;
                hdr = program_header s c numlibraries numtags names;
                f = snd (pc_writebin (header_bytes hdr) f);
                f = snd (pc_writebin (replicate (nat (hdr_cod hdr) - 56) 0) f);
                t = \<lparr>ts_file = f, ts_nameofs = nat (hdr_nametable hdr) + 2, ts_count = 0\<rparr>
            in bind_res (write_tables s hdr c t) (\<lambda>t.
               if ts_nameofs t \<noteq> nat (hdr_nametable hdr) + names then Inl AssertFail
               else let f = write_at (nat (hdr_nametable hdr)) (int_bytes 2 (int sNAMEMAX)) (ts_file t)
                    in Inr (hdr, pc_resetbin (nat (hdr_cod hdr)) f)))))"

subsection \<open>\<open>assemble\<close>\<close>

text \<open>
  One run of \<open>assemble\<close> from the point to which \<open>longjmp\<close> returns; \<open>LongJump\<close> is the
  jump that a failing compact encoding makes, with what the file holds then.
\<close>

definition assemble_run :: "cstate \<Rightarrow> memfile \<Rightarrow> binfile \<Rightarrow> fault + int \<times> cstate \<times> memfile \<times> binfile" where
  "assemble_run s fin f =
     bind_res (write_image_header s f) (\<lambda>(hdr, f).
     bind_res (first_pass s fin \<lparr>fbin = f, writeerror = False, bytes_in = 0, bytes_out = 0, codeindex = 0, lbltab = []\<rparr>) (\<lambda>(fin, a).
     bind_res (second_pass s fin a) (\<lambda>(fin, a).
     let hdr = (if sc_compress s then hdr\<lparr>hdr_size := int (pc_lengthbin (fbin a))\<rparr> else hdr)
     in bind_res (if \<not> writeerror a \<and> sc_debug s AND sSYMBOLIC \<noteq> 0 then append_dbginfo s a else Inr (s, a)) (\<lambda>(s, a).
        if writeerror a then Inl (Fatal 101)
        else Inr (hdr_cod hdr, s, fin, snd (pc_writebin (header_bytes hdr) (pc_resetbin 0 (fbin a))))))))"

definition assemble :: "cstate \<Rightarrow> memfile \<Rightarrow> binfile \<Rightarrow> fault + int \<times> cstate \<times> memfile \<times> binfile" where
  "assemble s fin f =
     (let s = s\<lparr>fcurrent := - 1\<rparr>
      in case assemble_run s fin f of
           Inl (LongJump left) \<Rightarrow> assemble_run (report 232 [] (s\<lparr>sc_compress := False\<rparr>)) fin (pc_resetbin 0 (f\<lparr>bin_bytes := left\<rparr>))
         | r \<Rightarrow> r)"

end
