(* ===== verification/ProgramFacts.thy ===== *)
theory ProgramFacts
  imports ProgramFile TableFacts
begin

text \<open>
  The program file against the abstract machine: the tables that \<open>assemble\<close> writes are those
  that the machine's functions read. The image is described by the list of its entries; each
  step of writing adds one to it.
\<close>

subsection \<open>The layout of the tables\<close>

type_synonym entries = "(string \<times> cell) list"

definition names_of :: "entries \<Rightarrow> byte list" where
  "names_of es = concat (map (\<lambda>(name, _). char_bytes name @ [0]) es)"

fun with_offsets :: "nat \<Rightarrow> entries \<Rightarrow> native_entry list" where
  "with_offsets ofs [] = []"
| "with_offsets ofs ((name, addr) # es) = (name, addr, of_nat ofs) # with_offsets (ofs + length name + 1) es"

lemma length_char_bytes [simp]: "length (char_bytes s) = length s"
  by (simp add: char_bytes_def)

lemma names_of_simps [simp]:
  "names_of [] = []" "names_of ((name, addr) # es) = char_bytes name @ 0 # names_of es" "names_of (es @ fs) = names_of es @ names_of fs"
  by (simp_all add: names_of_def)

lemma length_with_offsets [simp]: "length (with_offsets ofs es) = length es"
  by (induction ofs es rule: with_offsets.induct) auto

lemma with_offsets_append: "with_offsets ofs (es @ fs) = with_offsets ofs es @ with_offsets (ofs + length (names_of es)) fs"
  by (induction ofs es rule: with_offsets.induct) (auto simp: algebra_simps)

text \<open>
  The image with room for \<open>n\<close> entries and \<open>r\<close> bytes of names and padding, when the entries
  \<open>es\<close> are written; \<open>h\<close> is the header, \<open>nb\<close> the first two bytes of the name table.
\<close>

definition layout :: "byte list \<Rightarrow> nat \<Rightarrow> nat \<Rightarrow> byte list \<Rightarrow> byte list \<Rightarrow> entries \<Rightarrow> byte list" where
  "layout h n r nb tail es =
     h @ concat (map entry_bytes (with_offsets (length h + 8 * n + 2) es)) @ replicate (8 * (n - length es)) 0 @ nb @
     names_of es @ replicate (r - length (names_of es)) 0 @ tail"

definition laid :: "byte list \<Rightarrow> nat \<Rightarrow> nat \<Rightarrow> byte list \<Rightarrow> entries \<Rightarrow> table_state \<Rightarrow> bool" where
  "laid h n r tail es t \<longleftrightarrow> bin_room (ts_file t) \<and> bin_bytes (ts_file t) = layout h n r [0, 0] tail es \<and>
     ts_nameofs t = length h + 8 * n + 2 + length (names_of es)"

lemma write_at_patch:
  assumes "bin_room f" "bin_bytes f = a @ x @ c" "pos = length a" "length x = length buf"
  shows "write_at pos buf f = f\<lparr>bin_bytes := a @ buf @ c, bin_pos := pos + length buf\<rparr>"
  using assms by (simp add: write_at_def pc_writebin_def pc_resetbin_def)

lemma replicate_split: "n \<le> m \<Longrightarrow> replicate m x = replicate n x @ replicate (m - n) x"
  by (simp add: replicate_add [symmetric])

lemma write_entry_laid:
  assumes t: "laid h n r tail es t" and pos: "nat base + ts_count t * 8 = length h + 8 * length es"
    and n: "length es < n" "length (names_of es) + length name + 1 \<le> r" and w: "write_entry base addr name t = Inr t'"
  shows "laid h n r tail (es @ [(name, addr)]) t'" "ts_count t' = ts_count t + 1"
proof -
  let ?f = "ts_file t" and ?o = "length h + 8 * n + 2"
  let ?e = "concat (map entry_bytes (with_offsets ?o es))" and ?buf = "le_bytes 4 addr @ le_bytes 4 (of_nat (ts_nameofs t))"
  let ?post = "[0, 0] @ names_of es @ replicate (r - length (names_of es)) 0 @ tail"
  have z: "replicate (8 * (n - length es)) (0 :: byte) = replicate 8 0 @ replicate (8 * (n - length (es @ [(name, addr)]))) 0"
    using n(1) replicate_split [of 8 "8 * (n - length es)" "0 :: byte"] by (simp add: right_diff_distrib')
  have room: "bin_room ?f" and b: "bin_bytes ?f = (h @ ?e) @ replicate 8 0 @ (replicate (8 * (n - length (es @ [(name, addr)]))) 0 @ ?post)"
    using t unfolding laid_def layout_def z by simp_all
  define f1 where "f1 = write_at (nat base + ts_count t * 8) ?buf ?f"
  have f1: "bin_room f1" "bin_bytes f1 = (h @ ?e) @ ?buf @ (replicate (8 * (n - length (es @ [(name, addr)]))) 0 @ ?post)"
    unfolding f1_def by (subst write_at_patch [OF room b]; use pos room in simp)+
  let ?e1 = "concat (map entry_bytes (with_offsets ?o (es @ [(name, addr)])))"
  let ?a = "h @ ?e1 @ replicate (8 * (n - length (es @ [(name, addr)]))) 0 @ [0, 0] @ names_of es"
  have e1: "?e1 = ?e @ ?buf" using t by (simp add: with_offsets_append entry_bytes_def laid_def)
  have y: "replicate (r - length (names_of es)) (0 :: byte) = replicate (length name + 1) 0 @ replicate (r - length (names_of (es @ [(name, addr)]))) 0"
    using n(2) replicate_split [of "length name + 1" "r - length (names_of es)" "0 :: byte"] by simp
  have b1: "bin_bytes f1 = ?a @ replicate (length name + 1) 0 @ (replicate (r - length (names_of (es @ [(name, addr)]))) 0 @ tail)"
    unfolding f1(2) e1 y by simp
  have a: "ts_nameofs t = length ?a" using t n(1) e1 by (simp add: laid_def right_diff_distrib')
  define f2 where "f2 = write_at (ts_nameofs t) (char_bytes name @ [0]) f1"
  have f2: "bin_room f2" "bin_bytes f2 = ?a @ (char_bytes name @ [0]) @ (replicate (r - length (names_of (es @ [(name, addr)]))) 0 @ tail)"
    unfolding f2_def by (subst write_at_patch [OF f1(1) b1 a]; simp add: f1(1))+
  have t': "t' = t\<lparr>ts_file := f2, ts_nameofs := ts_nameofs t + length name + 1, ts_count := ts_count t + 1\<rparr>"
    using w by (simp add: write_entry_def f1_def f2_def split: if_splits)
  show "ts_count t' = ts_count t + 1" by (simp add: t')
  have "bin_bytes f2 = layout h n r [0, 0] tail (es @ [(name, addr)])" unfolding f2(2) layout_def by simp
  then show "laid h n r tail (es @ [(name, addr)]) t'" using t f2(1) by (simp add: t' laid_def)
qed

text \<open>Several entries of one table.\<close>

definition write_all :: "int \<Rightarrow> entries \<Rightarrow> table_state \<Rightarrow> fault + table_state" where
  "write_all base es = seq (map (\<lambda>(name, addr). write_entry base addr name) es)"

lemma write_all_nameofs: "write_all base es t = Inr t' \<Longrightarrow> ts_nameofs t' = ts_nameofs t + length (names_of es)"
proof (induction es arbitrary: t)
  case (Cons e es)
  obtain name addr where e: "e = (name, addr)" by force
  obtain t1 where t1: "write_entry base addr name t = Inr t1" "write_all base es t1 = Inr t'"
    using Cons.prems by (auto simp: write_all_def e)
  then show ?case using Cons.IH [OF t1(2)] by (auto simp: e write_entry_def split: if_splits)
qed (simp add: write_all_def)

lemma write_all_laid:
  assumes "write_all base fs t = Inr t'" "laid h n r tail es t" "nat base + ts_count t * 8 = length h + 8 * length es"
    and "length es + length fs \<le> n" "length (names_of es) + length (names_of fs) \<le> r"
  shows "laid h n r tail (es @ fs) t'"
  using assms
proof (induction fs arbitrary: es t)
  case (Cons e fs)
  obtain name addr where e: "e = (name, addr)" by force
  obtain t1 where t1: "write_entry base addr name t = Inr t1" "write_all base fs t1 = Inr t'"
    using Cons.prems(1) by (auto simp: write_all_def e)
  have l: "laid h n r tail (es @ [(name, addr)]) t1" "ts_count t1 = ts_count t + 1"
    using write_entry_laid [OF Cons.prems(2,3) _ _ t1(1)] Cons.prems(4,5) by (simp_all add: e)
  have "laid h n r tail ((es @ [(name, addr)]) @ fs) t'"
    by (rule Cons.IH [OF t1(2) l(1)]) (use Cons.prems(3-5) l(2) in \<open>simp_all add: e\<close>)
  then show ?case by (simp add: e)
qed (simp add: write_all_def)

lemma laid_count [simp]: "laid h n r tail es (t\<lparr>ts_count := k\<rparr>) = laid h n r tail es t"
  by (simp add: laid_def)

subsection \<open>What is written\<close>

definition globals :: "cstate \<Rightarrow> symbol list" where
  "globals s = map (\<lambda>p. the (syms s p)) (glbtab s)"

definition symbol_entries :: "(symbol \<Rightarrow> bool) \<Rightarrow> symbol list \<Rightarrow> entries" where
  "symbol_entries P sys = map (\<lambda>sy. (sym_name sy, sym_addr sy)) (filter P sys)"

definition value_entries :: "(constvalue \<Rightarrow> bool) \<Rightarrow> (constvalue \<Rightarrow> cell) \<Rightarrow> constvalue list \<Rightarrow> entries" where
  "value_entries P address tab = map (\<lambda>c. (cv_name c, address c)) (filter P tab)"

lemma over_globals_seq: "over_globals f s ps x = Inr y \<Longrightarrow> seq (map f (map (\<lambda>p. the (syms s p)) ps)) x = Inr y"
proof (induction ps arbitrary: x)
  case (Cons p ps)
  obtain sy x1 where sy: "get_sym s (Some p) = Inr sy" "f sy x = Inr x1" "over_globals f s ps x1 = Inr y" using Cons.prems by auto
  then have "the (syms s p) = sy" by (simp add: get_sym_def split: option.splits)
  then show ?case using Cons.IH [OF sy(3)] sy(2) by simp
qed simp

lemma write_publics_all:
  "seq (map (write_public base) sys) t = Inr t' \<Longrightarrow> write_all base (symbol_entries public_defined sys) t = Inr t'"
proof (induction sys arbitrary: t)
  case (Cons sy sys)
  then obtain t1 where t1: "write_public base sy t = Inr t1" "seq (map (write_public base) sys) t1 = Inr t'" by auto
  have "(if public_defined sy then write_entry base (sym_addr sy) (sym_name sy) t else Inr t) = Inr t1"
    using t1(1) by (simp add: write_public_def split: if_splits)
  then show ?case using Cons.IH [OF t1(2)] by (auto simp: write_all_def symbol_entries_def split: if_splits)
qed (simp add: write_all_def symbol_entries_def)

lemma write_pubvars_all:
  "seq (map (write_pubvar base) sys) t = Inr t' \<Longrightarrow> write_all base (symbol_entries pubvar_used sys) t = Inr t'"
proof (induction sys arbitrary: t)
  case (Cons sy sys)
  then obtain t1 where t1: "write_pubvar base sy t = Inr t1" "seq (map (write_pubvar base) sys) t1 = Inr t'" by auto
  have "(if pubvar_used sy then write_entry base (sym_addr sy) (sym_name sy) t else Inr t) = Inr t1"
    using t1(1) by (simp add: write_pubvar_def split: if_splits)
  then show ?case using Cons.IH [OF t1(2)] by (auto simp: write_all_def symbol_entries_def split: if_splits)
qed (simp add: write_all_def symbol_entries_def)

lemma write_names_all:
  "write_names P address base tab t = Inr t' \<Longrightarrow> write_all base (value_entries P address tab) (t\<lparr>ts_count := 0\<rparr>) = Inr t'"
proof -
  have "seq (map (\<lambda>c t. if cv_name c = [] then Inl AssertFail else write_entry base (address c) (cv_name c) t) l) t = Inr t' \<Longrightarrow>
      write_all base (map (\<lambda>c. (cv_name c, address c)) l) t = Inr t'" for l t
    by (induction l arbitrary: t) (auto simp: write_all_def split: if_splits)
  then show "write_names P address base tab t = Inr t' \<Longrightarrow> ?thesis" by (simp add: write_names_def value_entries_def)
qed

text \<open>The natives by their numbers: what \<open>nativelist\<close> holds at each number.\<close>

definition native_entry_of :: "cstate \<Rightarrow> symbol option \<Rightarrow> string \<times> cell \<Rightarrow> bool" where
  "native_entry_of s q e \<longleftrightarrow> (\<exists>sy. q = Some sy \<and> native_name (sym_name sy) s = Inr (fst e) \<and> snd e = 0)"

lemma write_natives_all:
  "write_natives s base l t = Inr t' \<Longrightarrow> \<exists>es. list_all2 (native_entry_of s) l es \<and> write_all base es t = Inr t'"
proof (induction s base l t rule: write_natives.induct)
  case (1 s base t)
  then show ?case by (auto simp: write_all_def)
next
  case (3 s base sy l t)
  obtain nm t1 where a: "native_name (sym_name sy) s = Inr nm" "sym_vclass sy = sGLOBAL"
    "write_entry base 0 nm t = Inr t1" "write_natives s base l t1 = Inr t'"
    using 3(2) by (auto split: if_splits)
  then obtain es where "list_all2 (native_entry_of s) l es" "write_all base es t1 = Inr t'" using 3(1) by blast
  then have "list_all2 (native_entry_of s) (Some sy # l) ((nm, 0) # es) \<and> write_all base ((nm, 0) # es) t = Inr t'"
    using a by (simp add: native_entry_of_def write_all_def)
  then show ?case by blast
qed simp

definition placed :: "symbol list \<Rightarrow> nat \<Rightarrow> symbol option \<Rightarrow> bool" where
  "placed sys i q \<longleftrightarrow> (\<forall>sy. q = Some sy \<longrightarrow> sy \<in> set sys \<and> native_used sy \<and> unat (sym_addr sy) = i)"

lemma place_natives:
  "seq (map place_native sys) l = Inr l' \<Longrightarrow> set sys \<subseteq> set all \<Longrightarrow> \<forall>i < length l. placed all i (l ! i) \<Longrightarrow>
   length l' = length l \<and> (\<forall>i < length l'. placed all i (l' ! i))"
proof (induction sys arbitrary: l)
  case (Cons sy sys)
  then obtain l1 where l1: "place_native sy l = Inr l1" "seq (map place_native sys) l1 = Inr l'" by auto
  let ?k = "unat (sym_addr sy)"
  have p: "placed all i (l[?k := Some sy] ! i)" if "i < length l" "native_used sy" for i
    using that Cons.prems(2,3) by (cases "i = ?k") (simp_all add: placed_def)
  have "l1 = (if native_used sy then l[?k := Some sy] else l)" using l1(1) by (auto simp: place_native_def split: if_splits)
  then have "length l1 = length l \<and> (\<forall>i < length l1. placed all i (l1 ! i))" using p Cons.prems(3) by simp
  then show ?case using Cons.IH [OF l1(2)] Cons.prems(2) by simp
qed simp

text \<open>The entries \<open>es\<close> of the table of natives: for each number a native function with that number.\<close>

definition natives_of :: "cstate \<Rightarrow> entries \<Rightarrow> bool" where
  "natives_of s es \<longleftrightarrow> (\<forall>i < length es. \<exists>sy \<in> set (globals s). native_used sy \<and> unat (sym_addr sy) = i \<and>
     native_name (sym_name sy) s = Inr (fst (es ! i)) \<and> snd (es ! i) = 0)"

lemma write_native_table_all:
  assumes "write_native_table s base num t = Inr t'"
  shows "\<exists>es. length es = num \<and> natives_of s es \<and> write_all base es (t\<lparr>ts_count := 0\<rparr>) = Inr (if num = 0 then t'\<lparr>ts_count := 0\<rparr> else t')"
proof (cases "num = 0")
  case True
  then have "t' = t" using assms by (simp add: write_native_table_def)
  then show ?thesis using True by (intro exI [of _ "[]"]) (simp add: natives_of_def write_all_def)
next
  case False
  then obtain l where l: "over_globals place_native s (glbtab s) (replicate num None) = Inr l"
    "write_natives s base l (t\<lparr>ts_count := 0\<rparr>) = Inr t'"
    using assms by (auto simp: write_native_table_def split: if_splits)
  obtain es where es: "list_all2 (native_entry_of s) l es" "write_all base es (t\<lparr>ts_count := 0\<rparr>) = Inr t'"
    using write_natives_all [OF l(2)] by blast
  have "length l = num \<and> (\<forall>i < length l. placed (globals s) i (l ! i))"
    using place_natives [OF over_globals_seq [OF l(1)], of "globals s"] by (simp add: globals_def placed_def)
  then have "length es = num \<and> natives_of s es"
    using es(1) by (force simp: natives_of_def list_all2_conv_all_nth native_entry_of_def placed_def)
  then show ?thesis using es(2) False by auto
qed

subsection \<open>Counting\<close>

lemma count_symbol_step:
  assumes "count_symbol s sy c = Inr c'"
  shows "numpublics c' = numpublics c + (if public_defined sy then 1 else 0)"
    "numnatives c' = numnatives c + (if native_used sy then 1 else 0)"
    "numpubvars c' = numpubvars c + (if pubvar_used sy then 1 else 0)"
  using assms
  by (auto simp: count_symbol_def count_function_def Let_def native_used_def public_defined_def pubvar_used_def split: if_splits)

lemma count_symbols_seq:
  "seq (map (count_symbol s) sys) c = Inr c' \<Longrightarrow> numpublics c' = numpublics c + length (filter public_defined sys) \<and>
    numnatives c' = numnatives c + length (filter native_used sys) \<and> numpubvars c' = numpubvars c + length (filter pubvar_used sys)"
proof (induction sys arbitrary: c)
  case (Cons sy sys)
  then obtain c1 where c1: "count_symbol s sy c = Inr c1" "seq (map (count_symbol s) sys) c1 = Inr c'" by auto
  show ?case using Cons.IH [OF c1(2)] count_symbol_step [OF c1(1)] by simp
qed simp

lemma count_symbols_lengths:
  assumes "count_symbols s = Inr c"
  shows "numpublics c = length (filter public_defined (globals s))" "numnatives c = ntv_funcid s"
    "numpubvars c = length (filter pubvar_used (globals s))"
proof -
  obtain c0 where "over_globals (count_symbol s) s (glbtab s) \<lparr>nametablesize = 2, numpublics = 0, numnatives = 0, numpubvars = 0, mainaddr = - 1\<rparr> = Inr c0"
    and c: "c = c0" "numnatives c0 = ntv_funcid s" using assms by (auto simp: count_symbols_def split: if_splits)
  from count_symbols_seq [OF over_globals_seq [OF this(1)]] c
  show "numpublics c = length (filter public_defined (globals s))" "numnatives c = ntv_funcid s"
    "numpubvars c = length (filter pubvar_used (globals s))" by (simp_all add: globals_def)
qed

lemma count_names_length:
  "count_names P tab = Inr (n, m) \<Longrightarrow> n = length (value_entries P address tab)"
  by (auto simp: count_names_def value_entries_def Let_def split: if_splits)

subsection \<open>The image before the passes\<close>

definition public_entries :: "cstate \<Rightarrow> entries" where
  "public_entries s = symbol_entries public_defined (globals s)"

definition pubvar_entries :: "cstate \<Rightarrow> entries" where
  "pubvar_entries s = symbol_entries pubvar_used (globals s)"

definition library_entries :: "cstate \<Rightarrow> entries" where
  "library_entries s = value_entries library_used (\<lambda>_. 0) (libraries s)"

definition tag_entries :: "cstate \<Rightarrow> entries" where
  "tag_entries s = value_entries tag_public (\<lambda>c. cv_value c AND TAGMASK) (tagname_tab s)"

definition all_entries :: "cstate \<Rightarrow> entries \<Rightarrow> entries" where
  "all_entries s nats = public_entries s @ nats @ library_entries s @ pubvar_entries s @ tag_entries s"

text \<open>The offsets in the header, for the tables in this order.\<close>

definition tables_at :: "cstate \<Rightarrow> entries \<Rightarrow> amx_header \<Rightarrow> bool" where
  "tables_at s nats hdr \<longleftrightarrow> hdr_publics hdr = 56 \<and>
     hdr_natives hdr = 56 + 8 * int (length (public_entries s)) \<and>
     hdr_libraries hdr = hdr_natives hdr + 8 * int (length nats) \<and>
     hdr_pubvars hdr = hdr_libraries hdr + 8 * int (length (library_entries s)) \<and>
     hdr_tags hdr = hdr_pubvars hdr + 8 * int (length (pubvar_entries s)) \<and>
     hdr_nametable hdr = hdr_tags hdr + 8 * int (length (tag_entries s)) \<and>
     hdr_nametable hdr + 2 + int (length (names_of (all_entries s nats))) \<le> hdr_cod hdr"

lemma length_int_bytes [simp]: "length (int_bytes n v) = n"
  by (simp add: int_bytes_def)

lemma length_header_bytes [simp]: "length (header_bytes h) = 56"
  by (simp add: header_bytes_def)

text \<open>The five tables, each a list of entries.\<close>

lemma write_tables_parts:
  assumes "write_tables s hdr c t = Inr t'"
  obtains nats t1 t2 t3 t4 where "length nats = numnatives c" "natives_of s nats"
    "write_all (hdr_publics hdr) (public_entries s) (t\<lparr>ts_count := 0\<rparr>) = Inr t1"
    "write_all (hdr_natives hdr) nats (t1\<lparr>ts_count := 0\<rparr>) = Inr (if numnatives c = 0 then t2\<lparr>ts_count := 0\<rparr> else t2)"
    "write_all (hdr_libraries hdr) (library_entries s) (t2\<lparr>ts_count := 0\<rparr>) = Inr t3"
    "write_all (hdr_pubvars hdr) (pubvar_entries s) (t3\<lparr>ts_count := 0\<rparr>) = Inr t4"
    "write_all (hdr_tags hdr) (tag_entries s) (t4\<lparr>ts_count := 0\<rparr>) = Inr t'"
proof -
  obtain t1 t2 t3 t4 where
    w1: "over_globals (write_public (hdr_publics hdr)) s (glbtab s) (t\<lparr>ts_count := 0\<rparr>) = Inr t1" and
    w2: "write_native_table s (hdr_natives hdr) (numnatives c) t1 = Inr t2" and
    w3: "write_names library_used (\<lambda>_. 0) (hdr_libraries hdr) (libraries s) t2 = Inr t3" and
    w4: "over_globals (write_pubvar (hdr_pubvars hdr)) s (glbtab s) (t3\<lparr>ts_count := 0\<rparr>) = Inr t4" and
    w5: "write_names tag_public (\<lambda>c. cv_value c AND TAGMASK) (hdr_tags hdr) (tagname_tab s) t4 = Inr t'"
    using assms unfolding write_tables_def bind_res_Inr by blast
  have a1: "write_all (hdr_publics hdr) (public_entries s) (t\<lparr>ts_count := 0\<rparr>) = Inr t1"
    unfolding public_entries_def globals_def by (rule write_publics_all [OF over_globals_seq [OF w1]])
  obtain nats where nats: "length nats = numnatives c" "natives_of s nats" and
    a2: "write_all (hdr_natives hdr) nats (t1\<lparr>ts_count := 0\<rparr>) = Inr (if numnatives c = 0 then t2\<lparr>ts_count := 0\<rparr> else t2)"
    using write_native_table_all [OF w2] by blast
  have a3: "write_all (hdr_libraries hdr) (library_entries s) (t2\<lparr>ts_count := 0\<rparr>) = Inr t3"
    unfolding library_entries_def by (rule write_names_all [OF w3])
  have a4: "write_all (hdr_pubvars hdr) (pubvar_entries s) (t3\<lparr>ts_count := 0\<rparr>) = Inr t4"
    unfolding pubvar_entries_def globals_def by (rule write_pubvars_all [OF over_globals_seq [OF w4]])
  have a5: "write_all (hdr_tags hdr) (tag_entries s) (t4\<lparr>ts_count := 0\<rparr>) = Inr t'"
    unfolding tag_entries_def by (rule write_names_all [OF w5])
  show ?thesis by (rule that [OF nats a1 a2 a3 a4 a5])
qed

lemma write_tables_nameofs:
  assumes "write_tables s hdr c t = Inr t'"
  shows "ts_nameofs t \<le> ts_nameofs t'"
proof -
  obtain nats t1 t2 t3 t4 where
    a: "write_all (hdr_publics hdr) (public_entries s) (t\<lparr>ts_count := 0\<rparr>) = Inr t1"
    "write_all (hdr_natives hdr) nats (t1\<lparr>ts_count := 0\<rparr>) = Inr (if numnatives c = 0 then t2\<lparr>ts_count := 0\<rparr> else t2)"
    "write_all (hdr_libraries hdr) (library_entries s) (t2\<lparr>ts_count := 0\<rparr>) = Inr t3"
    "write_all (hdr_pubvars hdr) (pubvar_entries s) (t3\<lparr>ts_count := 0\<rparr>) = Inr t4"
    "write_all (hdr_tags hdr) (tag_entries s) (t4\<lparr>ts_count := 0\<rparr>) = Inr t'"
    by (rule write_tables_parts [OF assms])
  show ?thesis using a [THEN write_all_nameofs] by (simp split: if_splits)
qed

lemma write_tables_laid:
  assumes w: "write_tables s hdr c t = Inr t'" and t: "laid h n r tail [] t" and h: "length h = 56"
    and c: "numnatives c = num" and pos: "hdr_publics hdr = 56" "hdr_natives hdr = 56 + 8 * int (length (public_entries s))"
      "hdr_libraries hdr = hdr_natives hdr + 8 * int num" "hdr_pubvars hdr = hdr_libraries hdr + 8 * int (length (library_entries s))"
      "hdr_tags hdr = hdr_pubvars hdr + 8 * int (length (pubvar_entries s))"
    and n: "n = length (public_entries s) + num + length (library_entries s) + length (pubvar_entries s) + length (tag_entries s)"
    and r: "ts_nameofs t' \<le> ts_nameofs t + r"
  shows "\<exists>nats. length nats = num \<and> natives_of s nats \<and> laid h n r tail (all_entries s nats) t'"
proof -
  obtain nats t1 t2 t3 t4 where nats: "length nats = num" "natives_of s nats" and
    a1: "write_all (hdr_publics hdr) (public_entries s) (t\<lparr>ts_count := 0\<rparr>) = Inr t1" and
    a2: "write_all (hdr_natives hdr) nats (t1\<lparr>ts_count := 0\<rparr>) = Inr (if num = 0 then t2\<lparr>ts_count := 0\<rparr> else t2)" and
    a3: "write_all (hdr_libraries hdr) (library_entries s) (t2\<lparr>ts_count := 0\<rparr>) = Inr t3" and
    a4: "write_all (hdr_pubvars hdr) (pubvar_entries s) (t3\<lparr>ts_count := 0\<rparr>) = Inr t4" and
    a5: "write_all (hdr_tags hdr) (tag_entries s) (t4\<lparr>ts_count := 0\<rparr>) = Inr t'"
    using write_tables_parts [OF w] unfolding c by metis
  have "ts_nameofs t1 = ts_nameofs t + length (names_of (public_entries s))" "ts_nameofs t2 = ts_nameofs t1 + length (names_of nats)"
    "ts_nameofs t3 = ts_nameofs t2 + length (names_of (library_entries s))" "ts_nameofs t4 = ts_nameofs t3 + length (names_of (pubvar_entries s))"
    "ts_nameofs t' = ts_nameofs t4 + length (names_of (tag_entries s))"
    using write_all_nameofs [OF a1] write_all_nameofs [OF a2] write_all_nameofs [OF a3] write_all_nameofs [OF a4] write_all_nameofs [OF a5]
    by (simp_all split: if_splits)
  with r have L: "length (names_of (public_entries s)) + length (names_of nats) + length (names_of (library_entries s)) +
    length (names_of (pubvar_entries s)) + length (names_of (tag_entries s)) \<le> r" by simp
  have "laid h n r tail ([] @ public_entries s) t1"
    by (rule write_all_laid [OF a1]) (use t h pos n L in simp_all)
  then have "laid h n r tail (public_entries s @ nats) (if num = 0 then t2\<lparr>ts_count := 0\<rparr> else t2)"
    by (intro write_all_laid [OF a2]) (use h pos n L nats in simp_all)
  then have "laid h n r tail ((public_entries s @ nats) @ library_entries s) t3"
    by (intro write_all_laid [OF a3]) (use h pos n L nats in \<open>simp_all split: if_splits\<close>)
  then have "laid h n r tail (((public_entries s @ nats) @ library_entries s) @ pubvar_entries s) t4"
    by (intro write_all_laid [OF a4]) (use h pos n L nats in simp_all)
  then have "laid h n r tail ((((public_entries s @ nats) @ library_entries s) @ pubvar_entries s) @ tag_entries s) t'"
    by (intro write_all_laid [OF a5]) (use h pos n L nats in simp_all)
  with nats show ?thesis by (auto simp: all_entries_def)
qed

lemma write_header_bytes:
  fixes k :: nat
  assumes "bin_room f" "bin_pos f = 0" "length b = 56"
  defines "g \<equiv> snd (pc_writebin (replicate k 0) (snd (pc_writebin b f)))"
  shows "bin_room g" "bin_bytes g = b @ replicate k 0 @ drop (56 + k) (bin_bytes f)"
  using assms by (simp_all add: pc_writebin_def add.commute)

lemma program_header_at:
  assumes "hdr = program_header s c nl nt names" "nl = length (library_entries s)" "nt = length (tag_entries s)"
    "numpublics c = length (public_entries s)" "numpubvars c = length (pubvar_entries s)"
  shows "hdr_publics hdr = 56" "hdr_natives hdr = 56 + 8 * int (length (public_entries s))"
    "hdr_libraries hdr = hdr_natives hdr + 8 * int (numnatives c)" "hdr_pubvars hdr = hdr_libraries hdr + 8 * int (length (library_entries s))"
    "hdr_tags hdr = hdr_pubvars hdr + 8 * int (length (pubvar_entries s))"
    "hdr_nametable hdr = hdr_tags hdr + 8 * int (length (tag_entries s))"
    "hdr_cod hdr = hdr_nametable hdr + int names + int (header_padding s names)"
  using assms by (simp_all add: program_header_def Let_def)

text \<open>What the first part of \<open>assemble\<close> leaves: the header and the tables, up to the code.\<close>

lemma tables_written:
  assumes w: "write_image_header s f = Inr (hdr, g)" and f: "bin_room f" "bin_pos f = 0"
  shows "\<exists>nats r. length nats = ntv_funcid s \<and> natives_of s nats \<and> tables_at s nats hdr \<and>
    length (names_of (all_entries s nats)) \<le> r \<and> hdr_cod hdr = 58 + 8 * int (length (all_entries s nats)) + int r \<and>
    (\<exists>c nl nt names. hdr = program_header s c nl nt names) \<and> bin_room g \<and> bin_pos g = nat (hdr_cod hdr) \<and>
    bin_bytes g = layout (header_bytes hdr) (length (all_entries s nats)) r (int_bytes 2 63) (drop (nat (hdr_cod hdr)) (bin_bytes f)) (all_entries s nats)"
proof -
  obtain c nl ln nt tn where c: "count_symbols s = Inr c" and nl: "count_names library_used (libraries s) = Inr (nl, ln)"
    and nt: "count_names tag_public (tagname_tab s) = Inr (nt, tn)"
    using w unfolding write_image_header_def by (auto split: prod.splits)
  define names where "names = nametablesize c + ln + tn"
  define h where "h = program_header s c nl nt names"
  define f2 where "f2 = snd (pc_writebin (replicate (nat (hdr_cod h) - 56) 0) (snd (pc_writebin (header_bytes h) f)))"
  define t where "t = \<lparr>ts_file = f2, ts_nameofs = nat (hdr_nametable h) + 2, ts_count = 0\<rparr>"
  have "(if sc_dataalign s = 0 then Inl AssertFail
      else bind_res (write_tables s h c t) (\<lambda>t. if ts_nameofs t \<noteq> nat (hdr_nametable h) + names then Inl AssertFail
        else Inr (h, pc_resetbin (nat (hdr_cod h)) (write_at (nat (hdr_nametable h)) (int_bytes 2 (int Globals.sNAMEMAX)) (ts_file t))))) = Inr (hdr, g)"
    using w unfolding write_image_header_def c nl nt bind_res.simps prod.case Let_def names_def h_def t_def f2_def .
  then obtain t' where "hdr = h" and t': "write_tables s h c t = Inr t'"
    and end_names: "ts_nameofs t' = nat (hdr_nametable h) + names"
    and g: "g = pc_resetbin (nat (hdr_cod h)) (write_at (nat (hdr_nametable h)) (int_bytes 2 (int Globals.sNAMEMAX)) (ts_file t'))"
    by (auto split: if_splits)
  note t' = t' [folded \<open>hdr = h\<close>] and end_names = end_names [folded \<open>hdr = h\<close>] and g = g [folded \<open>hdr = h\<close>]
    and hdr = h_def [folded \<open>hdr = h\<close>] and f2_def = f2_def [folded \<open>hdr = h\<close>] and t_def = t_def [folded \<open>hdr = h\<close>]
  have len: "nl = length (library_entries s)" "nt = length (tag_entries s)"
    using count_names_length [OF nl] count_names_length [OF nt] unfolding library_entries_def tag_entries_def by blast+
  have cnt: "numpublics c = length (public_entries s)" "numpubvars c = length (pubvar_entries s)" "numnatives c = ntv_funcid s"
    using count_symbols_lengths [OF c] by (simp_all add: public_entries_def pubvar_entries_def symbol_entries_def)
  note at = program_header_at [OF hdr len cnt(1,2)]
  define n where "n = length (public_entries s) + ntv_funcid s + length (library_entries s) + length (pubvar_entries s) + length (tag_entries s)"
  have nt_n: "hdr_nametable hdr = 56 + 8 * int n" using at cnt(3) by (simp add: n_def)
  have "ts_nameofs t \<le> ts_nameofs t'" by (rule write_tables_nameofs [OF t'])
  then have names2: "2 \<le> names" using end_names by (simp add: t_def)
  define r where "r = names - 2 + header_padding s names"
  have cod: "hdr_cod hdr = 58 + 8 * int n + int r" using at(7) nt_n names2 by (simp add: r_def)
  then have cod56: "nat (hdr_cod hdr) - 56 = 8 * n + 2 + r" "nat (hdr_cod hdr) = 56 + (8 * n + 2 + r)" by simp_all
  define tail where "tail = drop (nat (hdr_cod hdr)) (bin_bytes f)"
  have z: "replicate (8 * n + 2 + r) (0 :: byte) = replicate (8 * n) 0 @ [0, 0] @ replicate r 0"
    unfolding replicate_add by (simp add: numeral_2_eq_2)
  have nt_nat: "nat (hdr_nametable hdr) = 56 + 8 * n" unfolding nt_n by linarith
  have "bin_room f2" "bin_bytes f2 = header_bytes hdr @ (replicate (8 * n) 0 @ [0, 0] @ replicate r 0) @ tail"
    unfolding z [symmetric] using write_header_bytes [OF f, of "header_bytes hdr" "8 * n + 2 + r"] by (simp_all add: f2_def tail_def cod56)
  then have t0: "laid (header_bytes hdr) n r tail [] t"
    using nt_nat by (simp add: laid_def layout_def t_def)
  obtain nats where nats: "length nats = ntv_funcid s" "natives_of s nats" and l: "laid (header_bytes hdr) n r tail (all_entries s nats) t'"
  proof -
    have "ts_nameofs t' \<le> ts_nameofs t + r" using end_names names2 by (simp add: t_def r_def)
    moreover have "hdr_libraries hdr = hdr_natives hdr + 8 * int (ntv_funcid s)" using at(3) cnt(3) by simp
    ultimately show ?thesis
      using write_tables_laid [OF t' t0 length_header_bytes cnt(3) at(1,2) _ at(4,5) n_def] that by blast
  qed
  have lenall: "length (all_entries s nats) = n" using nats by (simp add: all_entries_def n_def)
  have L: "length (names_of (all_entries s nats)) \<le> r" 
    using l end_names nt_nat by (auto simp: laid_def r_def)
  have b: "bin_room (ts_file t')" "bin_bytes (ts_file t') = (header_bytes hdr @ concat (map entry_bytes (with_offsets (56 + 8 * n + 2) (all_entries s nats)))) @
      [0, 0] @ (names_of (all_entries s nats) @ replicate (r - length (names_of (all_entries s nats))) 0 @ tail)"
    using l by (simp_all add: laid_def layout_def lenall)
  have "write_at (nat (hdr_nametable hdr)) (int_bytes 2 (int Globals.sNAMEMAX)) (ts_file t') =
    (ts_file t')\<lparr>bin_bytes := layout (header_bytes hdr) n r (int_bytes 2 63) tail (all_entries s nats), bin_pos := nat (hdr_nametable hdr) + 2\<rparr>"
    by (subst write_at_patch [OF b]) (use nt_nat lenall in \<open>simp_all add: layout_def Globals.sNAMEMAX_def\<close>)
  then have "bin_room g \<and> bin_pos g = nat (hdr_cod hdr) \<and>
      bin_bytes g = layout (header_bytes hdr) n r (int_bytes 2 63) tail (all_entries s nats)"
    using b(1) by (simp add: g pc_resetbin_def)
  moreover have "tables_at s nats hdr"
    using at nats cnt(3) cod L nt_n by (simp add: tables_at_def)
  ultimately show ?thesis using nats L cod hdr lenall tail_def by blast
qed

end
