(* ===== verification/ProgramTables.thy ===== *)
theory ProgramTables
  imports ProgramFacts Loader
begin

text \<open>
  The image as the machine reads it: the functions of \<open>amx.cpp\<close> find in the tables the entries
  that \<open>assemble\<close> put there, and the passes that write code and data behind them leave the tables
  alone.
\<close>

subsection \<open>Reading the tables\<close>

lemma byte_char_of_char [simp]: "byte_char (of_char c) = c"
proof -
  have "(of_char c :: byte) = of_nat (of_char c)" by (simp only: of_nat_of_char)
  moreover have "(of_char c :: nat) < 2 ^ LENGTH(8)" by simp
  ultimately have "unat (of_char c :: byte) = of_char c" by (simp only: unat_of_nat mod_less)
  then show ?thesis by (simp add: byte_char_def)
qed

lemma byte_char_zero [simp]: "byte_char 0 = NUL"
  unfolding byte_char_def NUL_def by code_simp

lemma map_byte_char [simp]: "map byte_char (char_bytes s) = s"
  by (simp add: char_bytes_def o_def)

lemma cstr_at_name: "cstring name \<Longrightarrow> cstr_at (map byte_char (p @ char_bytes name @ 0 # q)) (length p) = Inr name"
  using cstr_at_append [of "map byte_char p" "length p"] by (simp add: cstr_at_0)

lemma with_offsets_nth:
  "i < length es \<Longrightarrow> with_offsets ofs es ! i = (fst (es ! i), snd (es ! i), of_nat (ofs + length (names_of (take i es))))"
proof (induction ofs es arbitrary: i rule: with_offsets.induct)
  case (2 ofs name addr es)
  then show ?case by (cases i) (simp_all add: add.assoc)
qed simp

lemma names_nth:
  assumes "i < length es" "cstring (fst (es ! i))"
  shows "cstr_at (map byte_char (p @ names_of es @ q)) (length p + length (names_of (take i es))) = Inr (fst (es ! i))"
proof -
  obtain name addr where e: "es ! i = (name, addr)" by force
  have "names_of es = names_of (take i es) @ char_bytes name @ 0 # names_of (drop (Suc i) es)"
    by (subst id_take_nth_drop [OF assms(1)]) (simp add: e)
  then have "p @ names_of es @ q = (p @ names_of (take i es)) @ char_bytes name @ 0 # (names_of (drop (Suc i) es) @ q)" by simp
  with cstr_at_name [of name "p @ names_of (take i es)" "names_of (drop (Suc i) es) @ q"] assms(2) show ?thesis
    by (simp only: e fst_conv length_append)
qed

lemma entry_read:
  assumes "i < length w" "w ! i = (name, f, ofs)" "off = int (length h) + 8 * int i"
  shows "load_cell (h @ concat (map entry_bytes w) @ post) off = Inr f"
    "load_cell (h @ concat (map entry_bytes w) @ post) (off + 4) = Inr ofs"
proof -
  let ?p = "h @ concat (map entry_bytes (take i w))" and ?q = "concat (map entry_bytes (drop (Suc i) w)) @ post"
  have "concat (map entry_bytes w) = concat (map entry_bytes (take i w)) @ entry_bytes (w ! i) @ concat (map entry_bytes (drop (Suc i) w))"
    by (subst id_take_nth_drop [OF assms(1)]) simp
  then have b: "h @ concat (map entry_bytes w) @ post = ?p @ le_bytes 4 f @ le_bytes 4 ofs @ ?q"
    by (simp add: assms(2) entry_bytes_def)
  have len: "off = int (length ?p)" using assms(1,3) by simp
  show "load_cell (h @ concat (map entry_bytes w) @ post) off = Inr f" unfolding b by (rule load_cell_at [OF len])
  show "load_cell (h @ concat (map entry_bytes w) @ post) (off + 4) = Inr ofs"
    unfolding b using load_cell_at [of "off + 4" "?p @ le_bytes 4 f" ofs ?q] len by simp
qed

text \<open>The machine's view of a complete layout.\<close>

definition image_of :: "amx \<Rightarrow> byte list \<Rightarrow> nat \<Rightarrow> byte list \<Rightarrow> byte list \<Rightarrow> entries \<Rightarrow> bool" where
  "image_of a h r nb tail es \<longleftrightarrow> img a = layout h (length es) r nb tail es \<and> length nb = 2 \<and> length (names_of es) \<le> r \<and>
     length (img a) < 2 ^ 32 \<and> hdr_magic (header a) = AMX_MAGIC \<and> defsize (header a) = 8 \<and> (\<forall>(name, addr) \<in> set es. cstring name)"

lemma image_parts:
  assumes "image_of a h r nb tail es"
  shows "img a = h @ concat (map entry_bytes (with_offsets (length h + 8 * length es + 2) es)) @
      (nb @ names_of es @ replicate (r - length (names_of es)) 0 @ tail)"
    "length h + 8 * length es + 2 + length (names_of es) \<le> length (img a)"
  using assms by (simp_all add: image_of_def layout_def)

lemma image_name:
  assumes a: "image_of a h r nb tail es" and i: "i < length es"
  defines "ofs \<equiv> length h + 8 * length es + 2 + length (names_of (take i es))"
  shows "unat (of_nat ofs :: cell) = ofs" "cstr_at (map byte_char (img a)) ofs = Inr (fst (es ! i))"
proof -
  have "length (names_of es) = length (names_of (take i es)) + length (names_of (drop i es))"
    by (metis append_take_drop_id length_append names_of_simps(3))
  moreover have "length (img a) < 2 ^ LENGTH(32)" using a unfolding image_of_def by auto
  ultimately have "ofs < 2 ^ LENGTH(32)" using image_parts(2) [OF a] by (simp add: ofs_def)
  then show "unat (of_nat ofs :: cell) = ofs" by (simp only: unat_of_nat mod_less)
  have "cstring (fst (es ! i))" using a nth_mem [OF i] by (auto simp: image_of_def)
  moreover define p where "p = h @ concat (map entry_bytes (with_offsets (length h + 8 * length es + 2) es)) @ nb"
  moreover have "img a = p @ names_of es @ replicate (r - length (names_of es)) 0 @ tail"
    unfolding image_parts(1) [OF a] p_def by simp
  moreover have "ofs = length p + length (names_of (take i es))" using a by (simp add: image_of_def ofs_def p_def)
  ultimately show "cstr_at (map byte_char (img a)) ofs = Inr (fst (es ! i))"
    using names_nth [OF i, of p "replicate (r - length (names_of es)) 0 @ tail"] by (simp only:)
qed

lemma image_entry:
  assumes a: "image_of a h r nb tail es" and i: "i < length es" "off = int (length h) + 8 * int i"
  shows "name_and_address a off = Inr (es ! i)"
proof -
  have w: "i < length (with_offsets (length h + 8 * length es + 2) es)" using i by simp
  note rd = entry_read [OF w with_offsets_nth [OF i(1)] i(2)]
  have "defsize (header a) = 8" using a by (simp add: image_of_def)
  then show ?thesis
    using rd image_name [OF a i(1)] unfolding name_and_address_def GETENTRYNAME_def entry_address_def
    by (subst (1 2) image_parts(1) [OF a]) simp
qed

lemma image_table:
  assumes a: "image_of a h r nb tail (xs @ part @ ys)" and f: "base = int (length h) + 8 * int (length xs)"
    and n: "final = base + 8 * int (length part)"
  shows "table_holds a base final part"
proof -
  have "name_and_address a (GETENTRY (header a) base (int i)) = Inr (part ! i)" if "i < length part" for i
    using image_entry [OF a, of "length xs + i"] that a f by (simp add: GETENTRY_def image_of_def nth_append algebra_simps)
  then show ?thesis using a n by (simp add: table_holds_def image_of_def)
qed

lemma image_natives:
  assumes a: "image_of a h r nb tail (xs @ nats @ ys)" and f: "hdr_natives (header a) = int (length h) + 8 * int (length xs)"
    and n: "hdr_libraries (header a) = hdr_natives (header a) + 8 * int (length nats)"
  shows "\<exists>pre es post. natives_in a pre es post \<and> map (\<lambda>(name, f, ofs). (name, f)) es = nats"
proof -
  let ?all = "xs @ nats @ ys" and ?o = "length h + 8 * length (xs @ nats @ ys) + 2"
  let ?pre = "h @ concat (map entry_bytes (with_offsets ?o xs))" and ?es = "with_offsets (?o + length (names_of xs)) nats"
  let ?post = "concat (map entry_bytes (with_offsets (?o + length (names_of xs) + length (names_of nats)) ys)) @
    nb @ names_of ?all @ replicate (r - length (names_of ?all)) 0 @ tail"
  have img: "img a = ?pre @ concat (map entry_bytes ?es) @ ?post"
    unfolding image_parts(1) [OF a] by (simp add: with_offsets_append add.assoc)
  have len: "length (?pre @ concat (map entry_bytes ?es)) = length h + 8 * length xs + 8 * length nats" by simp
  have "name_at ?post (length ?pre + 8 * length ?es) (?es ! i)" if i: "i < length nats" for i
  proof -
    let ?ofs = "?o + length (names_of (take (length xs + i) ?all))"
    have j: "length xs + i < length ?all" using i by simp
    have t: "names_of (take (length xs + i) ?all) = names_of xs @ names_of (take i nats)" using i by simp
    have b: "length (?pre @ concat (map entry_bytes ?es)) \<le> ?ofs" by simp
    have "cstr_at (map byte_char ?post) (?ofs - length (?pre @ concat (map entry_bytes ?es))) = Inr (fst (nats ! i))"
      using image_name(2) [OF a j] cstr_at_append [of "map byte_char (?pre @ concat (map entry_bytes ?es))" ?ofs "map byte_char ?post"] b i
      unfolding img by (simp add: nth_append)
    moreover have "?es ! i = (fst (nats ! i), snd (nats ! i), of_nat ?ofs)"
      using with_offsets_nth [OF i, of "?o + length (names_of xs)"] unfolding t by (simp add: algebra_simps)
    moreover have "unat (of_nat ?ofs :: cell) = ?ofs" using image_name(1) [OF a j] .
    ultimately show ?thesis using b len unfolding name_at_def by simp
  qed
  then have "natives_in a ?pre ?es ?post"
    using img a f n by (simp add: natives_in_def image_of_def list_all_length)
  moreover have "map (\<lambda>(name, f, ofs). (name, f)) ?es = nats"
    by (rule nth_equalityI) (simp_all add: with_offsets_nth)
  ultimately show ?thesis by blast
qed


subsection \<open>The passes write behind the tables\<close>

definition behind :: "byte list \<Rightarrow> binfile \<Rightarrow> bool" where
  "behind p f \<longleftrightarrow> bin_room f \<and> length p \<le> bin_pos f \<and> take (length p) (bin_bytes f) = p"

named_theorems behind_rules \<open>operations that write behind what is there\<close>

lemma behind_writebin [behind_rules]:
  assumes "behind p f"
  shows "behind p (snd (pc_writebin buf f))"
proof -
  have "length (take (length p) (bin_bytes f)) = length p" using assms unfolding behind_def by simp
  then have "length p \<le> length (bin_bytes f)" by simp
  then show ?thesis using assms by (simp add: behind_def pc_writebin_def min_def)
qed

lemma behind_put_byte [behind_rules]: "behind p (fbin a) \<Longrightarrow> behind p (fbin (put_byte b a))"
  using behind_writebin [of p "fbin a" "[b]"] by (simp add: put_byte_def case_prod_beta Let_def)

lemma behind_put_bytes [behind_rules]: "behind p (fbin a) \<Longrightarrow> behind p (fbin (fold put_byte bs a))"
  by (induction bs arbitrary: a) (simp_all add: behind_put_byte)

lemma behind_encoded: "write_encoded c v a = Inr a' \<Longrightarrow> behind p (fbin a) \<Longrightarrow> behind p (fbin a')"
  using behind_put_bytes [of p a "encode_cell v"] behind_writebin [of p "fbin a" "le_bytes 4 v"]
  by (auto simp: write_encoded_def Let_def case_prod_beta split: if_splits)

lemma behind_encoded_all: "seq (map (write_encoded c) cs) a = Inr a' \<Longrightarrow> behind p (fbin a) \<Longrightarrow> behind p (fbin a')"
  by (induction cs arbitrary: a) (auto dest: behind_encoded)

lemma behind_cells: "write_cells s out cs a = Inr a' \<Longrightarrow> behind p (fbin a) \<Longrightarrow> behind p (fbin a')"
  by (auto simp: write_cells_def skip_def dest: behind_encoded_all split: if_splits)

lemma behind_dump: "dump_loop s out params num a = Inr (n, a') \<Longrightarrow> behind p (fbin a) \<Longrightarrow> behind p (fbin a')"
proof (induction s out params num a arbitrary: n a' rule: dump_loop.induct)
  case (1 s out params num a)
  show ?case
  proof (cases "params = []")
    case True
    then show ?thesis using "1.prems" by (simp add: dump_loop.simps [of s out "[]"])
  next
    case False
    then obtain v params' a1 where g: "getparam params = Inr (v, params')" "write_cells s out [v] a = Inr a1"
      "dump_loop s out (dropWhile isspace params') (num + 1) a1 = Inr (n, a')"
      using "1.prems"(1) by (auto simp: dump_loop.simps [of s out params] split: sum.splits)
    show ?thesis by (rule "1.IH" [OF False g(1) refl g(2,3) behind_cells [OF g(2) "1.prems"(2)]])
  qed
qed

lemma behind_proc: "call_proc pr s out params opcode a = Inr (n, a') \<Longrightarrow> behind p (fbin a) \<Longrightarrow> behind p (fbin a')"
  by (cases pr)
    (auto simp: noop_def parm0_def parm1_def do_dump_def do_call_def do_jump_def do_switch_def do_case_def Let_def
      intro: behind_cells behind_dump split: if_splits)

lemma behind_pass1: "pass1_line s line a = Inr a' \<Longrightarrow> behind p (fbin a) \<Longrightarrow> behind p (fbin a')"
  by (auto simp: pass1_line_def Let_def split: if_splits dest: behind_proc)

lemma behind_pass2: "pass2_line s pass line a = Inr a' \<Longrightarrow> behind p (fbin a) \<Longrightarrow> behind p (fbin a')"
  by (auto simp: pass2_line_def Let_def split: if_splits dest: behind_proc)

lemma behind_lines:
  assumes "\<And>line a a'. f line a = Inr a' \<Longrightarrow> behind p (fbin a) \<Longrightarrow> behind p (fbin a')"
  shows "line_loop f fuel fin a = Inr (fin', a') \<Longrightarrow> behind p (fbin a) \<Longrightarrow> behind p (fbin a')"
proof (induction fuel arbitrary: fin a)
  case (Suc fuel)
  then show ?case using assms by (auto split: sum.splits option.splits prod.splits)
qed simp

lemma behind_asm_pass:
  assumes "\<And>line a a'. f line a = Inr a' \<Longrightarrow> behind p (fbin a) \<Longrightarrow> behind p (fbin a')"
    and "asm_pass f fin a = Inr (fin', a')" "behind p (fbin a)"
  shows "behind p (fbin a')"
proof -
  obtain fin1 where "line_loop f (Suc (length (contents fin1))) fin1 a = Inr (fin', a')"
    using assms(2) unfolding asm_pass_def bind_res_Inr by blast
  from behind_lines [of f, OF assms(1) this assms(3)] show ?thesis .
qed

lemma behind_first_pass: "first_pass s fin a = Inr (fin', a') \<Longrightarrow> behind p (fbin a) \<Longrightarrow> behind p (fbin a')"
  by (auto simp: first_pass_def split: if_splits elim!: behind_asm_pass [rotated] intro: behind_pass1)

lemma behind_second_pass: "second_pass s fin a = Inr (fin', a') \<Longrightarrow> behind p (fbin a) \<Longrightarrow> behind p (fbin a')"
proof -
  assume s: "second_pass s fin a = Inr (fin', a')" and b: "behind p (fbin a)"
  then obtain fin1 a1 where p: "asm_pass (pass2_line s sIN_CSEG) fin (a\<lparr>bytes_in := 0, bytes_out := 0\<rparr>) = Inr (fin1, a1)"
    "asm_pass (pass2_line s sIN_DSEG) fin1 a1 = Inr (fin', a')"
    by (auto simp: second_pass_def split: if_splits)
  have "behind p (fbin a1)" by (rule behind_asm_pass [OF behind_pass2 p(1)]) (use b in auto)
  then show ?thesis by (rule behind_asm_pass [OF behind_pass2 p(2), rotated -1]) auto
qed

lemma behind_dbginfo: "append_dbginfo s a = Inr (s', a') \<Longrightarrow> behind p (fbin a) \<Longrightarrow> behind p (fbin a')"
proof -
  have w: "behind p (fbin (write_dbg buf a))" if "behind p (fbin a)" for buf a
    using behind_writebin [OF that, of buf] by (simp add: write_dbg_def case_prod_beta Let_def)
  have f: "behind p (fbin (fold write_dbg chunks a))" if "behind p (fbin a)" for chunks a
    using that by (induction chunks arbitrary: a) (simp_all add: w)
  then show "append_dbginfo s a = Inr (s', a') \<Longrightarrow> behind p (fbin a) \<Longrightarrow> behind p (fbin a')"
    by (auto simp: append_dbginfo_def Let_def f w)
qed


subsection \<open>The header\<close>

lemma of_le_bytes: "n \<le> 4 \<Longrightarrow> of_le (le_bytes n v) = take_bit (8 * n) v"
  by (rule bit_word_eqI) (simp add: bit_of_le bit_simps)

lemma field_at: "length p = off \<Longrightarrow> n \<le> 4 \<Longrightarrow> field (p @ le_bytes n v @ q) off n = take_bit (8 * n) v"
  by (simp add: field_def of_le_bytes)

definition int32 :: "int \<Rightarrow> bool" where
  "int32 v \<longleftrightarrow> - (2 ^ 31) \<le> v \<and> v < 2 ^ 31"

lemma int32_sint [simp]: "int32 (sint (v :: cell))"
  using sint_greater_eq [of v] sint_less [of v] by (simp add: int32_def)

definition header_ok :: "amx_header \<Rightarrow> bool" where
  "header_ok h \<longleftrightarrow> hdr_magic h = AMX_MAGIC \<and> file_version h = 8 \<and> amx_version h = 8 \<and> defsize h = 8 \<and>
     take_bit 16 (hdr_flags h) = hdr_flags h \<and> list_all int32 [hdr_cod h, hdr_dat h, hdr_hea h, hdr_stp h, hdr_cip h,
       hdr_publics h, hdr_natives h, hdr_libraries h, hdr_pubvars h, hdr_tags h, hdr_nametable h]"

lemma int32_bytes: "int32 v \<Longrightarrow> sint (of_le (int_bytes 4 v)) = v"
  by (simp add: int_bytes_def int32_def sint_of_int_cell)

lemma take_chunk: "length x = n \<Longrightarrow> take n (x @ y) = x" and drop_chunk: "length x \<le> k \<Longrightarrow> drop k (x @ y) = drop (k - length x) y"
  by simp_all

lemma read_header_bytes:
  assumes "header_ok h"
  shows "read_header (header_bytes h @ q) = h\<lparr>hdr_size := sint (of_le (int_bytes 4 (hdr_size h)))\<rparr>"
proof -
  have f: "field (header_bytes h @ q) 0 4 = of_le (int_bytes 4 (hdr_size h))"
    "field (header_bytes h @ q) 4 2 = of_le (int_bytes 2 (hdr_magic h))"
    "field (header_bytes h @ q) 8 2 = of_le (le_bytes 2 (hdr_flags h))"
    "field (header_bytes h @ q) 10 2 = of_le (int_bytes 2 (defsize h))"
    "field (header_bytes h @ q) 12 4 = of_le (int_bytes 4 (hdr_cod h))"
    "field (header_bytes h @ q) 16 4 = of_le (int_bytes 4 (hdr_dat h))"
    "field (header_bytes h @ q) 20 4 = of_le (int_bytes 4 (hdr_hea h))"
    "field (header_bytes h @ q) 24 4 = of_le (int_bytes 4 (hdr_stp h))"
    "field (header_bytes h @ q) 28 4 = of_le (int_bytes 4 (hdr_cip h))"
    "field (header_bytes h @ q) 32 4 = of_le (int_bytes 4 (hdr_publics h))"
    "field (header_bytes h @ q) 36 4 = of_le (int_bytes 4 (hdr_natives h))"
    "field (header_bytes h @ q) 40 4 = of_le (int_bytes 4 (hdr_libraries h))"
    "field (header_bytes h @ q) 44 4 = of_le (int_bytes 4 (hdr_pubvars h))"
    "field (header_bytes h @ q) 48 4 = of_le (int_bytes 4 (hdr_tags h))"
    "field (header_bytes h @ q) 52 4 = of_le (int_bytes 4 (hdr_nametable h))"
    unfolding header_bytes_def field_def append_assoc by (simp_all add: take_chunk drop_chunk del: drop_append take_append)
  have v: "(header_bytes h @ q) ! 6 = 8" "(header_bytes h @ q) ! 7 = 8"
    using assms unfolding header_bytes_def append_assoc by (simp_all add: nth_append int_bytes_def header_ok_def)
  have m: "uint (of_le (int_bytes 2 AMX_MAGIC)) = AMX_MAGIC" "sint (ucast (of_le (int_bytes 2 8)) :: 16 word) = 8"
    unfolding AMX_MAGIC_def by code_simp+
  show ?thesis
    using assms unfolding read_header_def f v
    by (simp add: header_ok_def int32_bytes m of_le_bytes)
qed

end
