(* ===== verification/ProgramProps.thy ===== *)
theory ProgramProps
  imports ProgramTables SymbolFacts
begin

text \<open>
  From the compiler's symbol table to the machine: the tables of the program file that
  \<open>assemble\<close> writes, read back by the functions of the abstract machine.
\<close>

subsection \<open>One run of the assembler\<close>

text \<open>The state in which a run starts differs from the compiler's in fields the tables do not depend on.\<close>

definition run_state :: "cstate \<Rightarrow> cstate \<Rightarrow> bool" where
  "run_state s s1 \<longleftrightarrow> (\<exists>fc c r. s1 = s\<lparr>fcurrent := fc, sc_compress := c, reported := r\<rparr>)"

lemma run_state_lookup: "run_state s s1 \<Longrightarrow> lookup_alias name s1 = lookup_alias name s"
  by (auto simp: run_state_def lookup_alias_def)

lemma run_state_same:
  assumes "run_state s s1"
  shows "public_entries s1 = public_entries s" "pubvar_entries s1 = pubvar_entries s" "library_entries s1 = library_entries s"
    "tag_entries s1 = tag_entries s" "natives_of s1 = natives_of s" "ntv_funcid s1 = ntv_funcid s"
proof -
  have g: "globals s1 = globals s" and l: "libraries s1 = libraries s" and t: "tagname_tab s1 = tagname_tab s"
    using assms by (auto simp: run_state_def globals_def libraries_def)
  have n: "native_name name s1 = native_name name s" for name
    by (simp add: native_name_def run_state_lookup [OF assms])
  show "public_entries s1 = public_entries s" "pubvar_entries s1 = pubvar_entries s" "library_entries s1 = library_entries s"
    "tag_entries s1 = tag_entries s" "natives_of s1 = natives_of s"
    unfolding public_entries_def pubvar_entries_def library_entries_def tag_entries_def natives_of_def [abs_def] g l t n by (rule refl)+
  show "ntv_funcid s1 = ntv_funcid s" using assms by (auto simp: run_state_def)
qed

text \<open>The file up to the code: the final header and the five tables.\<close>

definition file_tables :: "cstate \<Rightarrow> int \<Rightarrow> byte list \<Rightarrow> bool" where
  "file_tables s cod g \<longleftrightarrow> (\<exists>nats r hdr size1 s1 c nl nt names. natives_of s nats \<and> tables_at s nats hdr \<and>
     length (names_of (all_entries s nats)) \<le> r \<and> hdr_cod hdr = cod \<and> cod = 58 + 8 * int (length (all_entries s nats)) + int r \<and>
     hdr = program_header s1 c nl nt names \<and>
     take (nat cod) g = layout (header_bytes (hdr\<lparr>hdr_size := size1\<rparr>)) (length (all_entries s nats)) r (int_bytes 2 63) [] (all_entries s nats))"

lemma run_state_tables: "run_state s s1 \<Longrightarrow> file_tables s1 cod g \<Longrightarrow> file_tables s cod g"
  using run_state_same [of s s1] by (simp add: file_tables_def all_entries_def tables_at_def)

lemma layout_front:
  assumes "length (names_of es) \<le> r" "length nb = 2" "length h = 56" "length h' = 56" "n = 58 + 8 * length es + r"
  shows "take n (layout h (length es) r nb tail es) = layout h (length es) r nb [] es"
    and "h' @ drop 56 (layout h (length es) r nb [] es) = layout h' (length es) r nb [] es"
    and "length (layout h (length es) r nb [] es) = n"
  using assms by (simp_all add: layout_def)

lemma assemble_run_tables:
  assumes "assemble_run s fin f = Inr (cod, s', fin', g)" "bin_room f" "bin_pos f = 0"
  shows "file_tables s cod (bin_bytes g)"
proof -
  obtain hdr g1 where w: "write_image_header s f = Inr (hdr, g1)"
    using assms(1) unfolding assemble_run_def by auto
  let ?a0 = "\<lparr>fbin = g1, writeerror = False, bytes_in = 0, bytes_out = 0, codeindex = 0, lbltab = []\<rparr>"
  obtain fin1 a1 fin2 a2 where p1: "first_pass s fin ?a0 = Inr (fin1, a1)" and p2: "second_pass s fin1 a1 = Inr (fin2, a2)"
    using assms(1) w unfolding assemble_run_def by auto
  define size1 where "size1 = (if sc_compress s then int (pc_lengthbin (fbin a2)) else hdr_size hdr)"
  let ?h = "hdr\<lparr>hdr_size := size1\<rparr>"
  have h: "(if sc_compress s then hdr\<lparr>hdr_size := int (pc_lengthbin (fbin a2))\<rparr> else hdr) = ?h" by (simp add: size1_def)
  obtain s3 a3 where dbg: "(if \<not> writeerror a2 \<and> sc_debug s AND sSYMBOLIC \<noteq> 0 then append_dbginfo s a2 else Inr (s, a2)) = Inr (s3, a3)"
    and cod: "cod = hdr_cod hdr" and g: "g = snd (pc_writebin (header_bytes ?h) (pc_resetbin 0 (fbin a3)))"
    using assms(1) w p1 p2 unfolding assemble_run_def h [symmetric] by (auto simp: Let_def split: if_splits)
  obtain nats r d nl nt names where at: "natives_of s nats" "tables_at s nats hdr" "length (names_of (all_entries s nats)) \<le> r"
    and c: "cod = 58 + 8 * int (length (all_entries s nats)) + int r" and hdr: "hdr = program_header s d nl nt names"
    and g1: "bin_room g1" "bin_pos g1 = nat cod" "bin_bytes g1 = layout (header_bytes hdr) (length (all_entries s nats)) r (int_bytes 2 63)
      (drop (nat cod) (bin_bytes f)) (all_entries s nats)"
    using tables_written [OF w assms(2,3)] cod by metis
  let ?p = "layout (header_bytes hdr) (length (all_entries s nats)) r (int_bytes 2 63) [] (all_entries s nats)"
  have n: "nat cod = 58 + 8 * length (all_entries s nats) + r" using c by linarith
  note front = layout_front [OF at(3) _ length_header_bytes length_header_bytes n, of "int_bytes 2 63", simplified length_int_bytes, OF refl]
  have "behind ?p g1" using g1 front(1,3) by (simp add: behind_def)
  then have "behind ?p (fbin a1)" using behind_first_pass [OF p1] by simp
  then have "behind ?p (fbin a2)" by (rule behind_second_pass [OF p2])
  then have b: "behind ?p (fbin a3)" using dbg by (auto split: if_splits dest: behind_dbginfo)
  then have t: "take (nat cod) (bin_bytes (fbin a3)) = ?p" and room: "bin_room (fbin a3)"
    unfolding behind_def front(3) by blast+
  have "take (nat cod) (bin_bytes g) = header_bytes ?h @ drop 56 (take (nat cod) (bin_bytes (fbin a3)))"
    using room n unfolding g by (simp add: pc_writebin_def pc_resetbin_def drop_take)
  then have "take (nat cod) (bin_bytes g) = layout (header_bytes ?h) (length (all_entries s nats)) r (int_bytes 2 63) [] (all_entries s nats)"
    unfolding t front(2) .
  then show ?thesis unfolding file_tables_def
    by (intro exI [of _ nats] exI [of _ r] exI [of _ hdr] exI [of _ size1] exI [of _ s] exI [of _ d] exI [of _ nl] exI [of _ nt] exI [of _ names] conjI at)
      (use c cod hdr in auto)
qed

lemma assemble_tables:
  assumes "assemble s fin f = Inr (cod, s', fin', g)" "bin_room f" "bin_pos f = 0"
  shows "file_tables s cod (bin_bytes g)"
proof -
  let ?s = "s\<lparr>fcurrent := - 1\<rparr>"
  have run: "run_state s ?s" unfolding run_state_def
    by (rule exI [of _ "- 1"], rule exI [of _ "sc_compress s"], rule exI [of _ "reported s"]) simp
  show ?thesis
  proof (cases "assemble_run ?s fin f")
    case (Inr r)
    then have "assemble_run ?s fin f = Inr (cod, s', fin', g)" using assms(1) by (simp add: assemble_def Let_def)
    from run_state_tables [OF run assemble_run_tables [OF this assms(2,3)]] show ?thesis .
  next
    case (Inl e)
    let ?s2 = "report 232 [] (?s\<lparr>sc_compress := False\<rparr>)"
    obtain left where left: "e = LongJump left" using Inl assms(1) by (cases e) (simp_all add: assemble_def Let_def)
    let ?f2 = "pc_resetbin 0 (f\<lparr>bin_bytes := left\<rparr>)"
    have a: "assemble_run ?s2 fin ?f2 = Inr (cod, s', fin', g)" using Inl left assms(1) by (simp add: assemble_def Let_def)
    have f2: "bin_room ?f2" "bin_pos ?f2 = 0" using assms(2) by (simp_all add: pc_resetbin_def)
    have "run_state s ?s2" unfolding run_state_def report_def
      by (rule exI [of _ "- 1"], rule exI [of _ False], rule exI [of _ "reported s @ [(232, [])]"]) simp
    from run_state_tables [OF this assemble_run_tables [OF a f2]] show ?thesis .
  qed
qed

subsection \<open>The tables that the machine reads\<close>

definition names_cstring :: "cstate \<Rightarrow> bool" where
  "names_cstring s \<longleftrightarrow> (\<forall>sy \<in> set (globals s). cstring (sym_name sy)) \<and> (\<forall>n \<in> set (alias_tab (lists s)). cstring (sp_second (snd n))) \<and>
     (\<forall>c \<in> set (libname_tab s) \<union> set (tagname_tab s). cstring (cv_name c))"

lemma find_pair_loop_in: "find_pair_loop l name len = Some n \<Longrightarrow> n \<in> set l"
  by (induction l) (auto simp: Let_def split: if_splits)

lemma alias_cstring:
  assumes "names_cstring s" "native_name name s = Inr nm" "cstring name"
  shows "cstring nm"
proof -
  obtain r where r: "lookup_alias name s = Inr r" "(case r of Some alias \<Rightarrow> Inr alias | None \<Rightarrow> plain_name name) = Inr nm"
    using assms(2) unfolding native_name_def bind_res_Inr by blast
  show ?thesis
  proof (cases r)
    case None
    then show ?thesis using r(2) assms(3) by (simp add: plain_name_def split: if_splits)
  next
    case (Some al)
    then obtain k cur where "find_stringpair (alias_tab (lists s)) name (length name) = Inr (Some (k, cur))" "al = sp_second cur"
      using r(1) unfolding lookup_alias_def by (auto split: option.splits if_splits)
    moreover then have "(k, cur) \<in> set (alias_tab (lists s))"
      by (auto simp: find_stringpair_def split: if_splits dest: find_pair_loop_in)
    ultimately show ?thesis using assms(1) r(2) Some by (auto simp: names_cstring_def)
  qed
qed

lemma all_cstring:
  assumes "names_cstring s" "natives_of s nats" "(name, addr) \<in> set (all_entries s nats)"
  shows "cstring name"
proof -
  have n: "cstring name" if "(name, addr) \<in> set nats"
  proof -
    obtain i where i: "i < length nats" "nats ! i = (name, addr)" using \<open>(name, addr) \<in> set nats\<close> by (auto simp: in_set_conv_nth)
    then obtain sy where "sy \<in> set (globals s)" "native_name (sym_name sy) s = Inr name" using assms(2) by (force simp: natives_of_def)
    then show ?thesis using alias_cstring [OF assms(1)] assms(1) by (auto simp: names_cstring_def)
  qed
  show ?thesis
    using assms(1,3) n by (auto simp: all_entries_def public_entries_def pubvar_entries_def library_entries_def tag_entries_def
        symbol_entries_def value_entries_def libraries_def names_cstring_def split: if_splits)
qed

lemma flags_16:
  "take_bit 16 AMX_FLAG_COMPACT = AMX_FLAG_COMPACT" "take_bit 16 AMX_FLAG_NOCHECKS = AMX_FLAG_NOCHECKS" "take_bit 16 sSYMBOLIC = sSYMBOLIC"
  "take_bit 16 d AND sSYMBOLIC = d AND sSYMBOLIC"
proof -
  show s: "take_bit 16 AMX_FLAG_COMPACT = AMX_FLAG_COMPACT" "take_bit 16 AMX_FLAG_NOCHECKS = AMX_FLAG_NOCHECKS" "take_bit 16 sSYMBOLIC = sSYMBOLIC"
    by (simp_all add: sSYMBOLIC_def AMX_FLAG_COMPACT_def AMX_FLAG_NOCHECKS_def)
  show "take_bit 16 d AND sSYMBOLIC = d AND sSYMBOLIC"
  proof -
    have "d AND take_bit 16 sSYMBOLIC = take_bit 16 d AND sSYMBOLIC" by (rule bit_word_eqI) (auto simp: bit_simps)
    then show ?thesis by (simp add: s(3))
  qed
qed

lemma program_header_ok:
  assumes "hdr = program_header s c nl nt names" "tables_at s' nats hdr" "hdr_cod hdr < 2 ^ 31"
  shows "header_ok (hdr\<lparr>hdr_size := size1\<rparr>)"
proof -
  have p: "int32 (hdr_publics hdr)" "int32 (hdr_natives hdr)" "int32 (hdr_libraries hdr)" "int32 (hdr_pubvars hdr)" "int32 (hdr_tags hdr)"
    "int32 (hdr_nametable hdr)" "int32 (hdr_cod hdr)"
    using assms(2,3) by (simp_all add: tables_at_def int32_def)
  have "int32 (hdr_dat hdr)" "int32 (hdr_hea hdr)" "int32 (hdr_stp hdr)" "int32 (hdr_cip hdr)"
    unfolding assms(1) program_header_def Let_def by simp_all
  moreover have "hdr_magic hdr = AMX_MAGIC" "file_version hdr = 8" "amx_version hdr = 8" "defsize hdr = 8"
    "take_bit 16 (hdr_flags hdr) = hdr_flags hdr"
    unfolding assms(1) program_header_def Let_def by (simp_all add: CUR_FILE_VERSION_def MIN_AMX_VERSION_def flags_16)
  ultimately show ?thesis using p by (simp add: header_ok_def)
qed

text \<open>The file in the memory of the machine; what follows the tables may have been expanded or changed.\<close>

definition program_loaded :: "byte list \<Rightarrow> int \<Rightarrow> amx \<Rightarrow> bool" where
  "program_loaded g cod a \<longleftrightarrow> header a = read_header g \<and> take (nat cod) (img a) = take (nat cod) g \<and> length (img a) < 2 ^ 32"

lemma loaded_image:
  assumes "file_tables s cod g" "program_loaded g cod a" "cod < 2 ^ 31" "names_cstring s"
  shows "\<exists>h r tail nats. natives_of s nats \<and> image_of a h r (int_bytes 2 63) tail (all_entries s nats) \<and> length h = 56 \<and>
    tables_at s nats (header a) \<and> hdr_cod (header a) = cod"
proof -
  obtain nats r hdr size1 s1 c nl nt names where n: "natives_of s nats" "tables_at s nats hdr" "length (names_of (all_entries s nats)) \<le> r"
    and cod: "hdr_cod hdr = cod" and hdr: "hdr = program_header s1 c nl nt names"
    and g: "take (nat cod) g = layout (header_bytes (hdr\<lparr>hdr_size := size1\<rparr>)) (length (all_entries s nats)) r (int_bytes 2 63) [] (all_entries s nats)"
    using assms(1) unfolding file_tables_def by blast
  let ?h = "hdr\<lparr>hdr_size := size1\<rparr>" and ?tail = "drop (nat cod) (img a)"
  have ok: "header_ok ?h" using program_header_ok [OF hdr n(2)] cod assms(3) by simp
  obtain q where "g = header_bytes ?h @ q" using append_take_drop_id [of "nat cod" g] unfolding g layout_def append_assoc by metis
  then have a: "header a = ?h\<lparr>hdr_size := sint (of_le (int_bytes 4 (hdr_size ?h)))\<rparr>"
    using assms(2) read_header_bytes [OF ok] by (simp add: program_loaded_def)
  have "img a = take (nat cod) g @ ?tail" using assms(2) append_take_drop_id [of "nat cod" "img a"] by (simp add: program_loaded_def)
  then have "img a = layout (header_bytes ?h) (length (all_entries s nats)) r (int_bytes 2 63) ?tail (all_entries s nats)"
    unfolding g by (simp add: layout_def)
  moreover have "hdr_magic (header a) = AMX_MAGIC" "defsize (header a) = 8"
    using ok unfolding a header_ok_def by simp_all
  ultimately have "image_of a (header_bytes ?h) r (int_bytes 2 63) ?tail (all_entries s nats)"
    using n(3) all_cstring [OF assms(4) n(1)] assms(2) unfolding image_of_def program_loaded_def by auto
  moreover have "tables_at s nats (header a)" "hdr_cod (header a) = cod"
    using n(2) cod unfolding a tables_at_def by simp_all
  ultimately show ?thesis using n(1) length_header_bytes by blast
qed

lemma loaded_tables:
  assumes i: "image_of a h r nb tail (all_entries s nats)" and h: "length h = 56" and at: "tables_at s nats (header a)"
  defines "hdr \<equiv> header a"
  shows "table_holds a (hdr_publics hdr) (hdr_natives hdr) (public_entries s)"
    "table_holds a (hdr_libraries hdr) (hdr_pubvars hdr) (library_entries s)"
    "table_holds a (hdr_pubvars hdr) (hdr_tags hdr) (pubvar_entries s)"
    "table_holds a (hdr_tags hdr) (hdr_nametable hdr) (tag_entries s)"
    "\<exists>pre es post. natives_in a pre es post \<and> map (\<lambda>(name, f, ofs). (name, f)) es = nats"
proof -
  note at' = at [folded hdr_def, unfolded tables_at_def]
  show "table_holds a (hdr_publics hdr) (hdr_natives hdr) (public_entries s)"
    by (rule image_table [where xs = "[]"]) (use i h at' in \<open>simp_all add: all_entries_def\<close>)
  show "table_holds a (hdr_libraries hdr) (hdr_pubvars hdr) (library_entries s)"
    by (rule image_table [where xs = "public_entries s @ nats"]) (use i h at' in \<open>simp_all add: all_entries_def\<close>)
  show "table_holds a (hdr_pubvars hdr) (hdr_tags hdr) (pubvar_entries s)"
    by (rule image_table [where xs = "public_entries s @ nats @ library_entries s"]) (use i h at' in \<open>simp_all add: all_entries_def\<close>)
  show "table_holds a (hdr_tags hdr) (hdr_nametable hdr) (tag_entries s)"
    by (rule image_table [where xs = "public_entries s @ nats @ library_entries s @ pubvar_entries s" and ys = "[]"])
      (use i h at' in \<open>simp_all add: all_entries_def\<close>)
  show "\<exists>pre es post. natives_in a pre es post \<and> map (\<lambda>(name, f, ofs). (name, f)) es = nats"
    by (rule image_natives [where xs = "public_entries s" and ys = "library_entries s @ pubvar_entries s @ tag_entries s"])
      (use i h at' in \<open>simp_all add: all_entries_def hdr_def\<close>)
qed

text \<open>C4: The program file: after \<open>assemble\<close> the machine that has the file in memory finds
  in each table exactly the entries of the compiler's tables, in their order: public functions,
  libraries, public variables and tags with their values, and a table of natives that has under each
  number a native function that was given this number.
\<close>

theorem program_file_tables:
  assumes "assemble s fin f = Inr (cod, s', fin', g)" "bin_room f" "bin_pos f = 0"
    and "program_loaded (bin_bytes g) cod a" "cod < 2 ^ 31" "names_cstring s"
  defines "hdr \<equiv> header a"
  shows "hdr_cod hdr = cod \<and>
    table_holds a (hdr_publics hdr) (hdr_natives hdr) (public_entries s) \<and>
    table_holds a (hdr_libraries hdr) (hdr_pubvars hdr) (library_entries s) \<and>
    table_holds a (hdr_pubvars hdr) (hdr_tags hdr) (pubvar_entries s) \<and>
    table_holds a (hdr_tags hdr) (hdr_nametable hdr) (tag_entries s) \<and>
    (\<exists>pre es post. natives_in a pre es post \<and> natives_of s (map (\<lambda>(name, f, ofs). (name, f)) es))"
proof -
  obtain h r tail nats where n: "natives_of s nats" and i: "image_of a h r (int_bytes 2 63) tail (all_entries s nats)"
    and h: "length h = 56" and at: "tables_at s nats hdr" and cod: "hdr_cod hdr = cod"
    using loaded_image [OF assemble_tables [OF assms(1-3)] assms(4-6)] unfolding hdr_def by blast
  show ?thesis using loaded_tables [OF i h at [unfolded hdr_def]] n cod unfolding hdr_def by auto
qed

subsection \<open>Looking up a compiled symbol\<close>

text \<open>The symbol table is sorted by name, which \<open>add_symbol\<close> keeps; so are the tables.\<close>

definition names_sorted :: "cstate \<Rightarrow> bool" where
  "names_sorted s \<longleftrightarrow> sorted_wrt (\<lambda>x y. strcmp (sym_name x) (sym_name y) \<le> 0) (globals s)"

lemma globals_wf_sorted:
  assumes "globals_wf s"
  shows "names_sorted s"
proof -
  have n: "name_of s p = sym_name (the (syms s p))" if "p \<in> set (glbtab s)" for p
    using assms that by (force simp: globals_wf_def list_wf_def sym_ok_def name_of_def)
  have "sorted_wrt (name_le s) (glbtab s)" using assms by (simp add: globals_wf_def)
  then have "sorted_wrt (\<lambda>p q. strcmp (sym_name (the (syms s p))) (sym_name (the (syms s q))) \<le> 0) (glbtab s)"
    by (rule sorted_wrt_mono_rel [rotated]) (simp add: name_le_def n)
  then show ?thesis by (simp add: names_sorted_def globals_def sorted_wrt_map)
qed

lemma entries_good:
  assumes "names_sorted s" "names_cstring s" "distinct (map fst (symbol_entries P (globals s)))"
    "\<forall>sy \<in> set (globals s). length (sym_name sy) \<le> AmxTables.sNAMEMAX"
  shows "good_names (map fst (symbol_entries P (globals s)))"
proof -
  let ?l = "filter P (globals s)"
  have m: "map fst (symbol_entries P (globals s)) = map sym_name ?l" by (simp add: symbol_entries_def)
  have c: "cstring (sym_name x)" if "x \<in> set ?l" for x using assms(2) that by (auto simp: names_cstring_def)
  have "sorted_wrt (\<lambda>x y. strcmp (sym_name x) (sym_name y) \<le> 0) ?l"
    using assms(1) sorted_wrt_filter unfolding names_sorted_def by blast
  moreover have "sorted_wrt (\<lambda>x y. sym_name x \<noteq> sym_name y) ?l"
    using assms(3) unfolding m by (auto simp: sorted_wrt_iff_nth_less distinct_conv_nth)
  ultimately have "sorted_wrt (\<lambda>x y. strcmp (sym_name x) (sym_name y) \<le> 0 \<and> sym_name x \<noteq> sym_name y) ?l"
    by (simp add: sorted_wrt_iff_nth_less)
  then have "sorted_wrt (\<lambda>x y. strcmp (sym_name x) (sym_name y) < 0) ?l"
    by (rule sorted_wrt_mono_rel [rotated]) (use c strcmp_eq_0 in force)
  then show ?thesis using assms(4) c unfolding good_names_def m by (auto simp: sorted_wrt_map)
qed

text \<open>C3: From the symbol table to the machine: in the program that \<open>assemble\<close> writes,
  \<open>amx_FindPublic\<close> finds every public function that the compiler has a definition for, and
  \<open>amx_Exec\<close> with the index it gives starts at the address of that function;
  \<open>amx_FindPubVar\<close> finds every public variable in use with its address.
\<close>

theorem compiled_symbols_found:
  assumes "assemble s fin f = Inr (cod, s', fin', g)" "bin_room f" "bin_pos f = 0"
    and "program_loaded (bin_bytes g) cod a" "cod < 2 ^ 31" "names_cstring s" "names_sorted s"
    and "distinct (map fst (public_entries s))" "distinct (map fst (pubvar_entries s))"
    and "\<forall>sy \<in> set (globals s). length (sym_name sy) \<le> AmxTables.sNAMEMAX" "sy \<in> set (globals s)"
  shows "(public_defined sy \<longrightarrow> (\<exists>k. amx_FindPublic a (sym_name sy) = Inr (AMX_ERR_NONE, k) \<and>
      start_address k a = Inr (Inr ((start_regs a)\<lparr>cip := sint (sym_addr sy)\<rparr>)))) \<and>
    (pubvar_used sy \<longrightarrow> amx_FindPubVar a (sym_name sy) = Inr (AMX_ERR_NONE, sym_addr sy))"
proof -
  obtain h r tail nats where n: "natives_of s nats" and i: "image_of a h r (int_bytes 2 63) tail (all_entries s nats)"
    and h: "length h = 56" and at: "tables_at s nats (header a)"
    using loaded_image [OF assemble_tables [OF assms(1-3)] assms(4-6)] by blast
  note holds = loaded_tables [OF i h at]
  have c: "cstring (sym_name sy)" using assms(6,11) by (auto simp: names_cstring_def)
  have pub: "good_names (map fst (public_entries s))"
    unfolding public_entries_def by (rule entries_good [OF assms(7,6) _ assms(10)]) (use assms(8) in \<open>simp add: public_entries_def\<close>)
  have var: "good_names (map fst (pubvar_entries s))"
    unfolding pubvar_entries_def by (rule entries_good [OF assms(7,6) _ assms(10)]) (use assms(9) in \<open>simp add: pubvar_entries_def\<close>)
  have "\<exists>k. amx_FindPublic a (sym_name sy) = Inr (AMX_ERR_NONE, k) \<and>
      start_address k a = Inr (Inr ((start_regs a)\<lparr>cip := sint (sym_addr sy)\<rparr>))" if "public_defined sy"
  proof -
    have e: "(sym_name sy, sym_addr sy) \<in> set (public_entries s)"
      using that assms(11) by (auto simp: public_entries_def symbol_entries_def)
    then obtain k where k: "k < length (public_entries s)" "fst (public_entries s ! k) = sym_name sy"
      "amx_FindPublic a (sym_name sy) = Inr (AMX_ERR_NONE, int k)"
      using find_public_index [OF holds(1) pub c] by force
    moreover have "snd (public_entries s ! k) = sym_addr sy"
      using eq_key_imp_eq_value [OF assms(8) e, of "snd (public_entries s ! k)"] k(1,2) nth_mem by (metis prod.collapse)
    ultimately have "start_address (int k) a = Inr (Inr ((start_regs a)\<lparr>cip := sint (sym_addr sy)\<rparr>))"
      using public_start [OF holds(1) k(1)] by simp
    then show ?thesis using k(3) by blast
  qed
  moreover have "amx_FindPubVar a (sym_name sy) = Inr (AMX_ERR_NONE, sym_addr sy)" if "pubvar_used sy"
  proof -
    have e: "(sym_name sy, sym_addr sy) \<in> set (pubvar_entries s)"
      using that assms(11) by (auto simp: pubvar_entries_def symbol_entries_def)
    then show ?thesis using find_pubvar [OF holds(3) var c] eq_key_imp_eq_value [OF assms(9)] by force
  qed
  ultimately show ?thesis by blast
qed

subsection \<open>A program to try\<close>

text \<open>
  The public variable \<open>counter\<close>, the public function \<open>main\<close> and the native function
  \<open>print\<close>, with an empty assembler file. The hash values are those of \<open>NameHash\<close>.
\<close>

definition program_sym :: "32 word \<Rightarrow> string \<Rightarrow> Globals.ident \<Rightarrow> 16 word \<Rightarrow> cell \<Rightarrow> symbol" where
  "program_sym hash name kind use addr = \<lparr>sym_name = name, sym_hash = hash, sym_addr = addr, sym_codeaddr = 0,
     sym_vclass = sGLOBAL, sym_ident = kind, sym_usage = use, sym_compound = 0, sym_tag = 0,
     sym_parent = None, sym_length = 0, sym_level = 0, sym_idxtag = 0, sym_states = None, sym_fnumber = - 1,
     sym_lnumber = 1, sym_refer = [None]\<rparr>"

definition program_syms :: "nat \<Rightarrow> symbol option" where
  "program_syms p = (if p = 0 then Some (program_sym 1319781383 ''counter'' iVARIABLE (uDEFINE OR uPUBLIC OR uREAD) 4)
     else if p = 1 then Some (program_sym 2641228401 ''main'' iFUNCTN (uDEFINE OR uPUBLIC) 8)
     else if p = 2 then Some (program_sym 4289546158 ''print'' iFUNCTN (uNATIVE OR uREAD) 0) else None)"

definition program_state :: cstate where
  "program_state = loop_state\<lparr>syms := program_syms, next_sym := 3, glbtab := [0, 1, 2], ntv_funcid := 1,
     code_idx := 12, glb_declared := 2, fcurrent := - 1\<rparr>"

definition empty_file :: binfile where
  "empty_file = \<lparr>bin_bytes = [], bin_pos = 0, bin_room = True\<rparr>"

definition no_code :: memfile where
  "no_code = \<lparr>mf_name = ''out'', mf_base = [NUL], mf_offs = 0, mf_usedoffs = 0, mf_size = 1, mf_static = False\<rparr>"

lemma no_code_pass: "asm_pass f no_code a = Inr (no_code, a)"
proof -
  have "pc_resetasm no_code = Inr no_code" "pc_readasm no_code LINE_SIZE = Inr (None, no_code)" by code_simp+
  then show ?thesis by (simp add: asm_pass_def)
qed

lemma program_counts: "count_symbols program_state = Inr \<lparr>nametablesize = 21, numpublics = 1, numnatives = 1, numpubvars = 1, mainaddr = 8\<rparr>"
  by code_simp

lemma program_names: "count_names library_used (libraries program_state) = Inr (0, 0)" "count_names tag_public (tagname_tab program_state) = Inr (0, 0)"
  by code_simp+

lemma program_kinds:
  "native_used (program_sym 4289546158 ''print'' iFUNCTN (uNATIVE OR uREAD) 0)" "\<not> native_used (program_sym 2641228401 ''main'' iFUNCTN (uDEFINE OR uPUBLIC) 8)"
  "\<not> native_used (program_sym 1319781383 ''counter'' iVARIABLE (uDEFINE OR uPUBLIC OR uREAD) 4)"
  "\<not> public_defined (program_sym 4289546158 ''print'' iFUNCTN (uNATIVE OR uREAD) 0)" "public_defined (program_sym 2641228401 ''main'' iFUNCTN (uDEFINE OR uPUBLIC) 8)"
  "\<not> public_defined (program_sym 1319781383 ''counter'' iVARIABLE (uDEFINE OR uPUBLIC OR uREAD) 4)"
  "\<not> pubvar_used (program_sym 4289546158 ''print'' iFUNCTN (uNATIVE OR uREAD) 0)" "\<not> pubvar_used (program_sym 2641228401 ''main'' iFUNCTN (uDEFINE OR uPUBLIC) 8)"
  "pubvar_used (program_sym 1319781383 ''counter'' iVARIABLE (uDEFINE OR uPUBLIC OR uREAD) 4)"
  by code_simp+

lemma program_syms_at:
  "get_sym program_state (Some 0) = Inr (program_sym 1319781383 ''counter'' iVARIABLE (uDEFINE OR uPUBLIC OR uREAD) 4)"
  "get_sym program_state (Some 1) = Inr (program_sym 2641228401 ''main'' iFUNCTN (uDEFINE OR uPUBLIC) 8)"
  "get_sym program_state (Some 2) = Inr (program_sym 4289546158 ''print'' iFUNCTN (uNATIVE OR uREAD) 0)"
  by (simp_all add: get_sym_def program_state_def program_syms_def)

lemma program_natives:
  "over_globals place_native program_state (glbtab program_state) [None] = Inr [Some (program_sym 4289546158 ''print'' iFUNCTN (uNATIVE OR uREAD) 0)]"
  by code_simp

lemma program_native: "native_name ''print'' program_state = Inr ''print''"
  by code_simp

lemma program_tables:
  assumes "hdr_publics hdr = 56" "hdr_natives hdr = 64" "hdr_libraries hdr = 72" "hdr_pubvars hdr = 72" "numnatives c = 1"
  shows "\<exists>t'. write_tables program_state hdr c t = Inr t' \<and> ts_nameofs t' = ts_nameofs t + 19"
proof -
  have e: "libraries program_state = []" "tagname_tab program_state = []" "granted (mem program_state) n" "glbtab program_state = [0, 1, 2]" for n
    by (simp_all add: libraries_def program_state_def loop_state_def initial_state_def ample_heap_def)
  have w: "over_globals (write_public (hdr_publics hdr)) program_state [0, 1, 2] t = write_entry (hdr_publics hdr) 8 ''main'' t" for t
    by (cases "write_entry (hdr_publics hdr) 8 ''main'' t")
      (simp_all del: One_nat_def add: program_syms_at write_public_def program_kinds, simp_all add: program_sym_def program_syms_at [unfolded program_sym_def] write_public_def program_kinds [unfolded program_sym_def])
  have v: "over_globals (write_pubvar (hdr_pubvars hdr)) program_state [0, 1, 2] t = write_entry (hdr_pubvars hdr) 4 ''counter'' t" for t
    by (cases "write_entry (hdr_pubvars hdr) 4 ''counter'' t")
      (simp_all del: One_nat_def add: program_syms_at write_pubvar_def program_kinds, simp_all add: program_sym_def has_flag_def uDEFINE_def uPUBLIC_def uREAD_def)
  have n: "write_native_table program_state (hdr_natives hdr) 1 t = write_entry (hdr_natives hdr) 0 ''print'' (t\<lparr>ts_count := 0\<rparr>)" for t
  proof -
    have r: "replicate 1 None = [None]" by simp
    show ?thesis unfolding write_native_table_def r program_natives [unfolded e(4)] bind_res.simps e(4)
      by (cases "write_entry (hdr_natives hdr) 0 ''print'' (t\<lparr>ts_count := 0\<rparr>)") (simp_all add: program_sym_def program_native e(3))
  qed
  show ?thesis
    unfolding write_tables_def e assms(5) w v n by (simp add: write_entry_def write_names_def Let_def)
qed

lemma program_image: "\<exists>hdr g. write_image_header program_state empty_file = Inr (hdr, g) \<and> hdr_cod hdr = 104 \<and> bin_room g"
proof -
  let ?c = "\<lparr>nametablesize = 21, numpublics = 1, numnatives = 1, numpubvars = 1, mainaddr = 8\<rparr>"
  define hdr where "hdr = program_header program_state ?c 0 0 21"
  have d: "sc_dataalign program_state = 4" by (simp add: program_state_def loop_state_def initial_state_def)
  have h: "hdr_publics hdr = 56" "hdr_natives hdr = 64" "hdr_libraries hdr = 72" "hdr_pubvars hdr = 72" "hdr_nametable hdr = 80" "hdr_cod hdr = 104"
    by (simp_all add: hdr_def program_header_def Let_def header_padding_def d)
  let ?f = "snd (pc_writebin (replicate (nat (hdr_cod hdr) - 56) 0) (snd (pc_writebin (header_bytes hdr) empty_file)))"
  obtain t' where t: "write_tables program_state hdr ?c \<lparr>ts_file = ?f, ts_nameofs = nat (hdr_nametable hdr) + 2, ts_count = 0\<rparr> = Inr t'"
    "ts_nameofs t' = 101"
    using program_tables [OF h(1-4), of ?c "\<lparr>ts_file = ?f, ts_nameofs = nat (hdr_nametable hdr) + 2, ts_count = 0\<rparr>"] h(5) by auto
  then have "write_image_header program_state empty_file =
      Inr (hdr, pc_resetbin (nat (hdr_cod hdr)) (write_at (nat (hdr_nametable hdr)) (int_bytes 2 (int Globals.sNAMEMAX)) (ts_file t')))"
    using program_names program_counts h d by (simp del: One_nat_def add: write_image_header_def Let_def hdr_def [symmetric])
  moreover from tables_written [OF this] have "bin_room (pc_resetbin (nat (hdr_cod hdr)) (write_at (nat (hdr_nametable hdr)) (int_bytes 2 (int Globals.sNAMEMAX)) (ts_file t')))"
    by (auto simp: empty_file_def)
  ultimately show ?thesis using h(6) by blast
qed

lemma program_assembled: "\<exists>g. assemble program_state no_code empty_file = Inr (104, program_state, no_code, g)"
proof -
  obtain hdr g where w: "write_image_header program_state empty_file = Inr (hdr, g)" "hdr_cod hdr = 104" using program_image by blast
  have s: "program_state\<lparr>fcurrent := - 1\<rparr> = program_state" "granted (mem program_state) n" "sc_compress program_state = False"
    "sc_debug program_state AND sSYMBOLIC = 0" for n
    by (simp_all add: program_state_def loop_state_def initial_state_def ample_heap_def sCHKBOUNDS_def sSYMBOLIC_def)
  show ?thesis using w by (simp add: assemble_def assemble_run_def s no_code_pass first_pass_def second_pass_def Let_def)
qed

definition program_amx :: "byte list \<Rightarrow> amx" where
  "program_amx g = sample\<lparr>header := read_header g, img := take 104 g\<rparr>"

lemma program_amx_loaded: "program_loaded g 104 (program_amx g)"
  by (simp add: program_loaded_def program_amx_def)

lemma program_globals: "globals program_state = [program_sym 1319781383 ''counter'' iVARIABLE (uDEFINE OR uPUBLIC OR uREAD) 4,
    program_sym 2641228401 ''main'' iFUNCTN (uDEFINE OR uPUBLIC) 8, program_sym 4289546158 ''print'' iFUNCTN (uNATIVE OR uREAD) 0]"
  by (simp add: globals_def program_state_def program_syms_def)

lemma program_cstrings: "names_cstring program_state"
  unfolding names_cstring_def program_globals
  by (simp add: program_sym_def NUL_def) (simp add: program_state_def loop_state_def initial_state_def)

lemma program_entries: "public_entries program_state = [(''main'', 8)]" "pubvar_entries program_state = [(''counter'', 4)]"
  unfolding public_entries_def pubvar_entries_def program_globals symbol_entries_def
  by (simp_all add: program_kinds) (simp_all add: program_sym_def)

theorem program_file_tables_witness:
  "\<exists>g. (let a = program_amx (bin_bytes g); hdr = header a in
     assemble program_state no_code empty_file = Inr (104, program_state, no_code, g) \<and>
     table_holds a (hdr_publics hdr) (hdr_natives hdr) [(''main'', 8)] \<and> table_holds a (hdr_pubvars hdr) (hdr_tags hdr) [(''counter'', 4)])"
proof -
  obtain g where g: "assemble program_state no_code empty_file = Inr (104, program_state, no_code, g)" using program_assembled by blast
  from program_file_tables [OF this _ _ program_amx_loaded _ program_cstrings] show ?thesis
    using g by (intro exI [of _ g]) (simp add: empty_file_def program_entries Let_def)
qed

theorem compiled_symbols_found_witness:
  "\<exists>g. (let a = program_amx (bin_bytes g) in assemble program_state no_code empty_file = Inr (104, program_state, no_code, g) \<and>
     (\<exists>k. amx_FindPublic a ''main'' = Inr (AMX_ERR_NONE, k) \<and> start_address k a = Inr (Inr ((start_regs a)\<lparr>cip := 8\<rparr>))) \<and>
     amx_FindPubVar a ''counter'' = Inr (AMX_ERR_NONE, 4))"
proof -
  obtain g where g: "assemble program_state no_code empty_file = Inr (104, program_state, no_code, g)" using program_assembled by blast
  have "names_sorted program_state" by (simp add: names_sorted_def program_globals program_sym_def)
  moreover have "\<forall>sy \<in> set (globals program_state). length (sym_name sy) \<le> AmxTables.sNAMEMAX"
    by (simp add: program_globals program_sym_def AmxTables.sNAMEMAX_def)
  ultimately have
    "(public_defined sy \<longrightarrow> (\<exists>k. amx_FindPublic (program_amx (bin_bytes g)) (sym_name sy) = Inr (AMX_ERR_NONE, k) \<and>
      start_address k (program_amx (bin_bytes g)) = Inr (Inr ((start_regs (program_amx (bin_bytes g)))\<lparr>cip := sint (sym_addr sy)\<rparr>)))) \<and>
    (pubvar_used sy \<longrightarrow> amx_FindPubVar (program_amx (bin_bytes g)) (sym_name sy) = Inr (AMX_ERR_NONE, sym_addr sy))"
    if "sy \<in> set (globals program_state)" for sy
    using compiled_symbols_found [OF g _ _ program_amx_loaded _ program_cstrings _ _ _ _ that] by (simp add: empty_file_def program_entries)
  from this [of "program_sym 2641228401 ''main'' iFUNCTN (uDEFINE OR uPUBLIC) 8"]
    this [of "program_sym 1319781383 ''counter'' iVARIABLE (uDEFINE OR uPUBLIC OR uREAD) 4"]
  show ?thesis using g unfolding program_globals
    by (intro exI [of _ g]) (simp add: program_kinds Let_def, simp add: program_sym_def)
qed

end
