(* ===== verification/Spec2Isabelle.thy ===== *)
theory Spec2Isabelle
  imports Reorder States SymbolFacts CodeGenFacts MachineProps Optimizer CoreNatives RuleFacts ProgramProps
begin

text \<open>
  The Pawn compiler of AMX Mod X (\<open>src/compiler/libpc300\<close>), which translates plugins, and
  the abstract machine (\<open>src/amxmodx/amx.cpp\<close>, \<open>amxcore.cpp\<close>), which runs them. Cells have
  32 bits, the order of bytes is little endian and assertions are enabled.

  Every operation that can stop returns a sum: \<open>Inl\<close> a fault (a fatal error, a failed
  assertion, an access out of bounds, or the end of the fuel of a bounded loop), \<open>Inr\<close> the
  result. The error codes of the machine are results. Memory of the compiler is a parameter:
  which allocations succeed and what fresh memory holds. Identifiers of states and automatons are
  unbounded integers, and one flag tells whether the program file can be written.

  The compiler. Its source passes through the symbol tables and the code generator into the
  staging buffer, from there through the optimiser into the assembler text, and through the
  assembler into the program file.

  \<^item> \<open>Prelude\<close> holds characters, C strings, faults and sequencing of state functions.
  \<^item> \<open>Hex\<close>: numbers as the code generator prints them (\<open>itoh\<close>) and as the assembler reads
    them (\<open>hex2long\<close>, \<open>getparam\<close>); each printed operand is read back.
  \<^item> \<open>MemFile\<close>: the files in memory that hold the assembler text (\<open>memfile.c\<close>,
    \<open>scmemfil.c\<close> and the \<open>asm\<close> functions of \<open>libpawnc.c\<close>); lines that were written are
    read back one by one.
  \<^item> \<open>Globals\<close>: the structures of \<open>sc.h\<close> and the global variables of \<open>scvars.c\<close> as one
    record \<open>cstate\<close> that the operations take and return.
  \<^item> \<open>States\<close>: named values (\<open>sc1.c\<close>) and the automatons, states and state lists of
    \<open>scstate.c\<close>, with the invariants of the three tables.
  \<^item> \<open>StringLists\<close>: the tables of strings of \<open>sclist.c\<close>. A search of the substitution table
    through its index of first characters finds what a search of the whole table finds.
  \<^item> \<open>Peephole\<close>, \<open>PeepholeFacts\<close>: the optimiser of \<open>sc7.c\<close> and the table of
    \<open>sc7-in.scp\<close>: every replacement is shorter than what it replaces, so the optimiser ends,
    and what it leaves has no further match. The fuel of a loop is the length of its text.
  \<^item> \<open>Staging\<close>, \<open>StagingFacts\<close>, \<open>Reorder\<close>: the staging buffer of \<open>sc7.c\<close>. The marked
    text in the buffer refines a tree of code and argument groups; sending the buffer writes
    the blocks of that tree, with the arguments from last to first.
  \<^item> \<open>Symbols\<close>, \<open>SymbolFacts\<close>: the symbol tables of \<open>sc2.c\<close> and the hash table of
    \<open>sp_symhash.c\<close>; the locale of an index of symbols is interpreted on both.
  \<^item> \<open>Operators\<close>: the names of user-defined operators and the tag table of \<open>sc1.c\<close>.
  \<^item> \<open>Assembler\<close>, \<open>AssemblerFacts\<close>: the passes of \<open>sc6.c\<close>, with the binary search in
    the list of instructions; the first pass computes the addresses at which the second
    pass writes.
  \<^item> \<open>DebugInfo\<close>: the symbolic information, from the strings collected while code is written
    (\<open>sclist.c\<close>) to the tables at the end of the program file (\<open>append_dbginfo\<close>).
  \<^item> \<open>ProgramFile\<close>, \<open>ProgramFacts\<close>, \<open>ProgramTables\<close>, \<open>ProgramProps\<close>: \<open>assemble\<close> as a
    whole: the header of the program file, its tables, the passes, and the second attempt without
    compact encoding. The tables are described by the list of their entries; the passes write
    behind them, the machine reads the header and the entries back, and it finds the public
    functions and variables of the symbol table under their names and addresses.
  \<^item> \<open>CodeGen\<close>, \<open>CodeGenFacts\<close>: the code generator \<open>sc4.c\<close>. For each of its functions
    the advance of the code index is the size the assembler computes for the text written,
    so the labels of a generated program get the index at which they were posted. Code that
    passes through the staging buffer is optimised first, and its index is provisional.
  \<^item> \<open>Compact\<close>: the compact encoding of cells, and \<open>expand\<close> of the loader, which undoes it
    in place.

  The abstract machine. A program image is separate from code and data: code, data with
  heap and stack, and the header with its tables are blocks of bytes with offsets, so an
  access behind the end of a block is a fault. In C they lie in one block, and an instruction that
  makes no test (\<open>STOR.PRI\<close> with a negative operand, say) can reach the code; such an access
  is a fault here, so no property states that code and header cannot be overwritten. The code
  base is a number that the loader adds to addresses in code.

  \<^item> \<open>AmxMemory\<close>, \<open>AmxImage\<close>: cells and bytes in a block, the header, the machine's
    registers (\<open>AMX\<close>), error codes and instructions of \<open>amx.h\<close>.
  \<^item> \<open>Machine\<close>, \<open>MachineFacts\<close>, \<open>MachineProps\<close>: \<open>amx_Exec\<close> in its ANSI C version, one
    definition for each instruction and the table that selects it. The host (callback, native
    functions, debugger, floating point) is a parameter; the locale \<open>host_contract\<close> states
    that its functions keep the sizes of the blocks. An error restores stack and heap; calls
    return; switches jump as their table says; the instructions that test their address stay inside the data. The fuel of \<open>run\<close>
    is the number of instructions, and for programs that end some fuel gives the result.
  \<^item> \<open>Loader\<close>, \<open>LoaderFacts\<close>, \<open>Optimizer\<close>: \<open>amx_Init\<close>, from the checks of the header to the
    relocation of the code by \<open>amx_BrowseRelocate\<close>; it accepts what the assembler model writes.
    The locale \<open>relocation\<close> states what the walk expects of its browse hook; it is interpreted on the
    loader without a hook and on the hook of \<open>src/amxmodx/optimizer.cpp\<close>, which replaces calls of the
    natives for floating point numbers.
  \<^item> \<open>RuleMeaning\<close>, \<open>RuleFacts\<close>: what the optimiser's rules mean to the machine. The text of a
    rule is parsed into instructions with operands; on any machine state both sides of every
    rule lead to states that agree in all but a register that the following code does not read.
  \<^item> \<open>AmxTables\<close>, \<open>TableFacts\<close>: the tables of public functions, natives, variables, tags and
    libraries, their binary search, and the registration of natives.
  \<^item> \<open>AmxText\<close>, \<open>AmxUtf8\<close>, \<open>TextFacts\<close>: what the host uses to read and write the machine's
    memory: heap and stack, strings, UTF-8.
  \<^item> \<open>CoreNatives\<close>: the native functions of \<open>amxcore.cpp\<close>, as a host that fulfils
    \<open>host_contract\<close>.

  Not modelled: the statement and expression parsers (\<open>sc1.c\<close>, \<open>sc3.c\<close>), which drive the
  parts of the compiler; file and terminal I/O; the assembler and just-in-time versions of
  the interpreter; vendored libraries; and the other C++ parts of AMX Mod X.
\<close>

end
